(* ===== verification/Prelude.thy ===== *)
theory Prelude
  imports Complex_Main "HOL-Library.Word"
begin

text \<open>
  Shared vocabulary of the development: names for the machine integers of the C++ and C code,
  the planar vectors of the robot code, the standard-library functions on numbers that the
  sources call (\<open>hypot\<close>, \<open>fmod\<close>, \<open>min\<close>/\<open>max\<close> come from HOL), and the generic facts about
  lists, words and reals that several components use. Floating-point numbers (\<open>float\<close>,
  \<open>double\<close>) are modelled as real numbers: rounding, infinities and NaN are not modelled.
\<close>

unbundle bit_operations_syntax

type_synonym u8 = "8 word"
type_synonym u16 = "16 word"
type_synonym u32 = "32 word"
type_synonym u64 = "64 word"
type_synonym bytes = "8 word list"

text \<open>
  \<open>geom_simps\<close> collects the equations that evaluate vector expressions by components,
  \<open>cfg_simps\<close> the values of configuration constants.
\<close>

named_theorems geom_simps
named_theorems cfg_simps

section \<open>Standard-library functions on numbers\<close>

text \<open>\<open>std::hypot\<close>.\<close>

definition hypot :: "real \<Rightarrow> real \<Rightarrow> real" where
  "hypot a b = sqrt (a\<^sup>2 + b\<^sup>2)"

text \<open>\<open>std::fmod\<close>: the remainder of the division truncated towards zero.\<close>

definition trunc_real :: "real \<Rightarrow> int" where
  "trunc_real r = (if 0 \<le> r then \<lfloor>r\<rfloor> else \<lceil>r\<rceil>)"

definition fmod :: "real \<Rightarrow> real \<Rightarrow> real" where
  "fmod a b = a - b * of_int (trunc_real (a / b))"

text \<open>\<open>std::atan2\<close>: the angle of the vector \<open>(x, y)\<close>, in \<open>(-pi, pi]\<close>, 0 for the zero vector.\<close>

definition atan2 :: "real \<Rightarrow> real \<Rightarrow> real" where
  "atan2 y x =
     (if 0 < x then arctan (y / x)
      else if x < 0 then (if 0 \<le> y then arctan (y / x) + pi else arctan (y / x) - pi)
      else if 0 < y then pi / 2
      else if y < 0 then - (pi / 2)
      else 0)"

lemma hypot_ge_0 [simp]: "0 \<le> hypot a b"
  by (simp add: hypot_def)

lemma hypot_eq_0_iff [simp]: "hypot a b = 0 \<longleftrightarrow> a = 0 \<and> b = 0"
  by (simp add: hypot_def)

lemma hypot_pos_iff: "0 < hypot a b \<longleftrightarrow> a \<noteq> 0 \<or> b \<noteq> 0"
  using hypot_eq_0_iff [of a b] hypot_ge_0 [of a b] by linarith

lemma hypot_sq [simp]: "(hypot a b)\<^sup>2 = a\<^sup>2 + b\<^sup>2"
  by (simp add: hypot_def)

lemma hypot_minus: "hypot (a - c) (b - d) = hypot (c - a) (d - b)"
  by (simp add: hypot_def power2_commute)

lemma hypot_scale: "hypot (k * a) (k * b) = \<bar>k\<bar> * hypot a b"
  by (simp add: hypot_def power_mult_distrib real_sqrt_mult flip: distrib_left)

lemma abs_le_hypot1: "\<bar>a\<bar> \<le> hypot a b"
  by (simp add: hypot_def real_le_rsqrt)

lemma abs_le_hypot2: "\<bar>b\<bar> \<le> hypot a b"
  by (simp add: hypot_def real_le_rsqrt)

lemma hypot_triangle: "hypot (a + c) (b + d) \<le> hypot a b + hypot c d"
  unfolding hypot_def by (rule real_sqrt_sum_squares_triangle_ineq)

lemma hypot_factor: "x \<noteq> 0 \<Longrightarrow> hypot x y = \<bar>x\<bar> * sqrt (1 + (y / x)\<^sup>2)"
  using hypot_scale [of x 1 "y / x"] by (simp add: hypot_def)

lemma atan2_polar: "hypot x y * cos (atan2 y x) = x" "hypot x y * sin (atan2 y x) = y"
proof -
  have "hypot x y * cos (atan2 y x) = x \<and> hypot x y * sin (atan2 y x) = y"
  proof (cases "x = 0")
    case True
    then show ?thesis by (auto simp: atan2_def hypot_def)
  next
    case False
    have p: "sqrt (1 + (y / x)\<^sup>2) \<noteq> 0" by (simp add: add_nonneg_eq_0_iff)
    show ?thesis
    proof (cases "0 < x")
      case True
      then show ?thesis using p False
        by (simp add: atan2_def hypot_factor [OF False] cos_arctan sin_arctan)
    next
      case neg: False
      then have "atan2 y x = arctan (y / x) + pi \<or> atan2 y x = arctan (y / x) - pi"
        using False by (simp add: atan2_def)
      then have "cos (atan2 y x) = - cos (arctan (y / x))" "sin (atan2 y x) = - sin (arctan (y / x))"
        by (auto simp: cos_diff sin_diff)
      then show ?thesis using p False neg
        by (simp add: hypot_factor [OF False] cos_arctan sin_arctan)
    qed
  qed
  then show "hypot x y * cos (atan2 y x) = x" "hypot x y * sin (atan2 y x) = y" by auto
qed

lemma trunc_real_bounds:
  "0 \<le> r \<Longrightarrow> of_int (trunc_real r) \<le> r \<and> r < of_int (trunc_real r) + 1"
  "r < 0 \<Longrightarrow> of_int (trunc_real r) - 1 < r \<and> r \<le> of_int (trunc_real r)"
  by (auto simp: trunc_real_def) linarith+

text \<open>\<open>fmod\<close> by a positive divisor is smaller than it and keeps the sign of the dividend.\<close>

lemma fmod_bounds:
  assumes "0 < b"
  shows "\<bar>fmod a b\<bar> < b"
    and "0 \<le> a \<Longrightarrow> 0 \<le> fmod a b"
    and "a \<le> 0 \<Longrightarrow> fmod a b \<le> 0"
proof -
  have e: "fmod a b = b * (a / b - of_int (trunc_real (a / b)))"
    using assms by (simp add: fmod_def algebra_simps)
  show "0 \<le> a \<Longrightarrow> 0 \<le> fmod a b"
    unfolding e using assms trunc_real_bounds(1) [of "a / b"] by simp
  show "a \<le> 0 \<Longrightarrow> fmod a b \<le> 0"
  proof (cases "a = 0")
    case True
    then show ?thesis by (simp add: fmod_def trunc_real_def)
  next
    case False
    assume "a \<le> 0"
    with False assms have "a / b < 0" by (simp add: divide_neg_pos)
    then show ?thesis
      unfolding e using assms trunc_real_bounds(2) [of "a / b"] by (simp add: mult_le_0_iff)
  qed
  have "\<bar>a / b - of_int (trunc_real (a / b))\<bar> < 1"
    using trunc_real_bounds [of "a / b"] by (cases "0 \<le> a / b") auto
  then show "\<bar>fmod a b\<bar> < b"
    unfolding e using assms by (simp add: abs_mult)
qed

lemma fmod_small: "0 \<le> a \<Longrightarrow> a < b \<Longrightarrow> fmod a b = a"
  by (simp add: fmod_def trunc_real_def floor_eq_iff)

lemma fmod_mod_eq: "\<exists>k::int. fmod a b = a + of_int k * b"
  unfolding fmod_def by (rule exI [of _ "- trunc_real (a / b)"]) simp

section \<open>Lists\<close>

lemma find_snoc:
  "find P (xs @ [y]) = (case find P xs of None \<Rightarrow> if P y then Some y else None | Some x \<Rightarrow> Some x)"
  by (induction xs) auto

section \<open>Planar vectors\<close>

text \<open>\<open>glm::vec2\<close> and pairs of doubles: a pair of coordinates.\<close>

type_synonym vec2 = "real \<times> real"

definition vadd :: "vec2 \<Rightarrow> vec2 \<Rightarrow> vec2" where
  "vadd u v = (fst u + fst v, snd u + snd v)"

definition vsub :: "vec2 \<Rightarrow> vec2 \<Rightarrow> vec2" where
  "vsub u v = (fst u - fst v, snd u - snd v)"

definition vscale :: "real \<Rightarrow> vec2 \<Rightarrow> vec2" where
  "vscale k v = (k * fst v, k * snd v)"

text \<open>\<open>vec + scalar\<close> of glm adds the scalar to both components.\<close>

definition vshift :: "vec2 \<Rightarrow> real \<Rightarrow> vec2" where
  "vshift v k = (fst v + k, snd v + k)"

definition vdot :: "vec2 \<Rightarrow> vec2 \<Rightarrow> real" where
  "vdot u v = fst u * fst v + snd u * snd v"

definition vlength :: "vec2 \<Rightarrow> real" where
  "vlength v = sqrt (vdot v v)"

text \<open>\<open>glm::normalize\<close>: multiplication by the inverse square root of the squared length.\<close>

definition vnormalize :: "vec2 \<Rightarrow> vec2" where
  "vnormalize v = vscale (1 / vlength v) v"

lemmas vec_defs = vadd_def vsub_def vscale_def vshift_def vdot_def

lemma vlength_hypot: "vlength v = hypot (fst v) (snd v)"
  by (simp add: vlength_def vdot_def hypot_def power2_eq_square)

lemma vlength_ge_0 [simp]: "0 \<le> vlength v"
  by (simp add: vlength_hypot)

lemma vlength_scale: "vlength (vscale k v) = \<bar>k\<bar> * vlength v"
  by (simp add: vlength_hypot vscale_def hypot_scale)

lemma vlength_normalize: "0 < vlength v \<Longrightarrow> vlength (vnormalize v) = 1"
  by (simp add: vnormalize_def vlength_scale)

lemma vscale_normalize: "0 < vlength v \<Longrightarrow> vscale (vlength v) (vnormalize v) = v"
  by (simp add: vnormalize_def vscale_def)

lemma vlength_triangle: "vlength (vadd u v) \<le> vlength u + vlength v"
  by (simp add: vlength_hypot vadd_def hypot_triangle)

end
