(* ===== verification/Trajectory.thy ===== *)
theory Trajectory
  imports Prelude
begin

text \<open>
  Motion profiles of one degree of freedom (\<open>libs/motion/include/trajectory.h\<close>,
  \<open>libs/motion/src/trajectory.cpp\<close>, class \<open>SingleDOF\<close>): constant-acceleration segments that
  bring an axis from a position and velocity to rest at a target, under a speed and an
  acceleration limit.
\<close>

section \<open>Segments\<close>

record Segment =
  accel :: real
  duration :: real
  vel_start :: real
  pos_start :: real

definition dof_sgn :: "real \<Rightarrow> real" where
  "dof_sgn num = (if num < 0 then -1 else 1)"

definition distanceOf :: "Segment \<Rightarrow> real" where
  "distanceOf seg = vel_start seg * duration seg + 0.5 * accel seg * duration seg * duration seg"

definition velocityAtEnd :: "Segment \<Rightarrow> real" where
  "velocityAtEnd seg = vel_start seg + accel seg * duration seg"

section \<open>The solver\<close>

record SingleDOF =
  max_vel :: real
  max_acc :: real
  t_total :: real
  dir_sign :: real
  segments :: "Segment list"

definition eps :: real where "eps = 1 / 1000000000"


definition solveCase1 :: "real \<Rightarrow> real \<Rightarrow> Segment" where
  "solveCase1 ma v = \<lparr>accel = ma, duration = - v / ma, vel_start = v, pos_start = 0\<rparr>"

definition solveCase2_1 :: "real \<Rightarrow> real \<Rightarrow> real \<Rightarrow> real \<Rightarrow> Segment" where
  "solveCase2_1 mv ma total_dist v =
     (let w1 = sqrt (total_dist * ma + (v * v) / 2);
          tI = (mv - v) / ma;
          tII = (w1 - v) / ma
      in \<lparr>accel = ma, duration = (if tI < tII then tI else tII), vel_start = v, pos_start = 0\<rparr>)"

definition solveCase2_2 :: "real \<Rightarrow> real \<Rightarrow> real \<Rightarrow> real \<Rightarrow> Segment" where
  "solveCase2_2 mv ma total_dist v =
     \<lparr>accel = 0, duration = total_dist / mv - mv / (2 * ma), vel_start = v, pos_start = 0\<rparr>"

definition solveCase2_3 :: "real \<Rightarrow> real \<Rightarrow> Segment" where
  "solveCase2_3 ma v = \<lparr>accel = - ma, duration = v / ma, vel_start = v, pos_start = 0\<rparr>"

definition solveCase3 :: "real \<Rightarrow> real \<Rightarrow> real \<Rightarrow> Segment" where
  "solveCase3 mv ma v = \<lparr>accel = - ma, duration = (v - mv) / ma, vel_start = v, pos_start = 0\<rparr>"

text \<open>The chain of conditions in the loop of \<open>solveAll\<close>.\<close>

definition choose_segment :: "real \<Rightarrow> real \<Rightarrow> real \<Rightarrow> real \<Rightarrow> Segment" where
  "choose_segment mv ma total_dist v =
     (let braking_dist = (v * v) / (2 * ma)
      in if v < 0 then solveCase1 ma v
         else if v > mv then solveCase3 mv ma v
         else if \<bar>v - mv\<bar> < eps \<and> total_dist > braking_dist + eps then solveCase2_2 mv ma total_dist v
         else if v < mv \<and> total_dist > braking_dist + eps then solveCase2_1 mv ma total_dist v
         else solveCase2_3 ma v)"

text \<open>The snapping of the velocity at the end of an iteration.\<close>

definition snap_velocity :: "real \<Rightarrow> real \<Rightarrow> real" where
  "snap_velocity mv v =
     (let v = (if \<bar>v - mv\<bar> < eps then mv else v) in if \<bar>v\<bar> < eps then 0 else v)"

datatype motion_error = SolveAllStuck

text \<open>
  The loop of \<open>solveAll\<close>: \<^term>\<open>None\<close> if it does not end, \<^term>\<open>Inl SolveAllStuck\<close> for the
  exception. The counter \<open>iter\<close> is passed on as it is: the code tests it but never increments it.
\<close>

partial_function (option) solve_loop ::
  "real \<Rightarrow> real \<Rightarrow> int \<Rightarrow> real \<Rightarrow> real \<Rightarrow> real \<Rightarrow> real \<Rightarrow> Segment list \<Rightarrow>
   (motion_error + real \<times> Segment list) option"
where
  "solve_loop mv ma iter total_dist v pos_accum t segs =
     (if \<not> (\<bar>total_dist\<bar> > eps \<or> \<bar>v\<bar> > eps) then Some (Inr (t, segs))
      else if iter > 1000 then Some (Inl SolveAllStuck)
      else
        let seg = (choose_segment mv ma total_dist v)\<lparr>pos_start := pos_accum\<rparr>;
            distance_covered = distanceOf seg;
            seg_final_vel = velocityAtEnd seg
        in solve_loop mv ma iter (max (total_dist - distance_covered) 0)
             (snap_velocity mv seg_final_vel) (pos_accum + distance_covered)
             (t + duration seg) (segs @ [seg]))"

definition solveAll :: "real \<Rightarrow> real \<Rightarrow> SingleDOF \<Rightarrow> (motion_error + SingleDOF) option" where
  "solveAll total_dist initial_vel d =
     (case solve_loop (max_vel d) (max_acc d) 0 total_dist initial_vel 0 (t_total d) (segments d) of
        None \<Rightarrow> None
      | Some (Inl e) \<Rightarrow> Some (Inl e)
      | Some (Inr (t, segs)) \<Rightarrow> Some (Inr (d\<lparr>t_total := t, segments := segs\<rparr>)))"

definition SingleDOF_default :: SingleDOF where
  "SingleDOF_default = \<lparr>max_vel = 0, max_acc = 0, t_total = 0, dir_sign = 1, segments = []\<rparr>"

definition SingleDOF_new ::
  "real \<Rightarrow> real \<Rightarrow> real \<Rightarrow> real \<Rightarrow> real \<Rightarrow> (motion_error + SingleDOF) option"
where
  "SingleDOF_new initial_pos final_pos initial_vel mv ma =
     (let total_dist = final_pos - initial_pos;
          s = dof_sgn total_dist
      in solveAll (total_dist * s) (initial_vel * s)
           (SingleDOF_default\<lparr>max_vel := mv, max_acc := ma, dir_sign := s\<rparr>))"

section \<open>Reading a profile\<close>

fun velocity_scan :: "Segment list \<Rightarrow> real \<Rightarrow> real \<Rightarrow> real" where
  "velocity_scan [] t t_elapsed = 0"
| "velocity_scan (seg # rest) t t_elapsed =
     (if t \<le> t_elapsed + duration seg
      then vel_start seg + accel seg * (t - t_elapsed)
      else velocity_scan rest t (t_elapsed + duration seg))"

text \<open>Past the last segment the result is 0 without the sign, which is the same.\<close>

definition velocityAt :: "SingleDOF \<Rightarrow> real \<Rightarrow> real" where
  "velocityAt d t = dir_sign d * velocity_scan (segments d) t 0"

fun position_scan :: "Segment list \<Rightarrow> real \<Rightarrow> real \<Rightarrow> real option" where
  "position_scan [] t t_elapsed = None"
| "position_scan (seg # rest) t t_elapsed =
     (if t \<le> t_elapsed + duration seg
      then Some (let dt = t - t_elapsed
                 in pos_start seg + vel_start seg * dt + 0.5 * accel seg * dt * dt)
      else position_scan rest t (t_elapsed + duration seg))"

definition positionAt :: "SingleDOF \<Rightarrow> real \<Rightarrow> real" where
  "positionAt d t =
     (case position_scan (segments d) t 0 of
        Some p \<Rightarrow> dir_sign d * p
      | None \<Rightarrow>
          if segments d \<noteq> []
          then let l = last (segments d) in dir_sign d * (pos_start l + distanceOf l)
          else 0)"

section \<open>One iteration\<close>

definition next_dist :: "real \<Rightarrow> real \<Rightarrow> real \<Rightarrow> real \<Rightarrow> real" where
  "next_dist mv ma D v = max (D - distanceOf (choose_segment mv ma D v)) 0"

definition next_vel :: "real \<Rightarrow> real \<Rightarrow> real \<Rightarrow> real \<Rightarrow> real" where
  "next_vel mv ma D v = snap_velocity mv (velocityAtEnd (choose_segment mv ma D v))"

lemmas case_defs = solveCase1_def solveCase2_1_def solveCase2_2_def solveCase2_3_def solveCase3_def
lemmas seg_defs = distanceOf_def velocityAtEnd_def

lemma eps_pos [simp]: "0 < eps" and eps_ge_0 [simp]: "0 \<le> eps"
  by (simp_all add: eps_def)

text \<open>An accelerated stretch from \<open>u\<close> to \<open>w\<close>: \<open>2 a s = w\<^sup>2 - u\<^sup>2\<close>.\<close>

lemma ramp_distance:
  fixes a u w :: real
  assumes "a \<noteq> 0"
  shows "u * ((w - u) / a) + 0.5 * a * ((w - u) / a) * ((w - u) / a) = (w\<^sup>2 - u\<^sup>2) / (2 * a)"
  using assms by (simp add: field_simps power2_eq_square)

lemma brake_distance:
  fixes a v :: real
  assumes "a \<noteq> 0"
  shows "v * (v / a) + 0.5 * (- a) * (v / a) * (v / a) = v\<^sup>2 / (2 * a)"
  using assms by (simp add: field_simps power2_eq_square)

lemma snap_zero: "2 * eps \<le> mv \<Longrightarrow> snap_velocity mv 0 = 0"
  by (simp add: snap_velocity_def Let_def eps_def)

lemma snap_max: "2 * eps \<le> mv \<Longrightarrow> \<bar>v - mv\<bar> < eps \<Longrightarrow> snap_velocity mv v = mv"
  by (simp add: snap_velocity_def Let_def eps_def)

lemma snap_other: "\<not> \<bar>v - mv\<bar> < eps \<Longrightarrow> eps \<le> v \<Longrightarrow> snap_velocity mv v = v"
  using eps_pos by (auto simp: snap_velocity_def Let_def)

lemma snap_range:
  "2 * eps \<le> mv \<Longrightarrow> 0 \<le> v \<Longrightarrow> v \<le> mv \<Longrightarrow> 0 \<le> snap_velocity mv v \<and> snap_velocity mv v \<le> mv"
  by (auto simp: snap_velocity_def Let_def eps_def)

text \<open>
  The five kinds of iterations, with what they leave: the remaining distance and velocity.
  \<open>mv\<close> is at least two tolerances, so the two snapping tests exclude each other.
\<close>

lemma step_reverse:
  assumes "2 * eps \<le> mv" "0 < ma" "0 \<le> D" "v < 0"
  shows "next_dist mv ma D v = D + v\<^sup>2 / (2 * ma)" "next_vel mv ma D v = 0"
proof -
  have "distanceOf (choose_segment mv ma D v) = - (v\<^sup>2 / (2 * ma))"
    using assms ramp_distance [of ma v 0]
    by (simp add: choose_segment_def Let_def case_defs seg_defs)
  then show "next_dist mv ma D v = D + v\<^sup>2 / (2 * ma)"
    using assms by (simp add: next_dist_def)
  show "next_vel mv ma D v = 0"
    using assms by (simp add: next_vel_def choose_segment_def Let_def case_defs seg_defs snap_zero)
qed

lemma step_overspeed:
  assumes "2 * eps \<le> mv" "0 < ma" "mv < v"
  shows "0 \<le> next_dist mv ma D v" "next_vel mv ma D v = mv"
proof -
  have "\<not> v < 0" using assms eps_pos by linarith
  then show "next_vel mv ma D v = mv"
    using assms by (simp add: next_vel_def choose_segment_def Let_def case_defs seg_defs snap_max)
  show "0 \<le> next_dist mv ma D v" by (simp add: next_dist_def)
qed

text \<open>Cruising leaves at least the braking distance from full speed, exactly it at full speed.\<close>

lemma step_cruise:
  assumes "2 * eps \<le> mv" "0 < ma" "0 \<le> v" "v \<le> mv" "mv - v < eps" "v\<^sup>2 / (2 * ma) + eps < D"
  shows "next_vel mv ma D v = mv"
    and "next_dist mv ma D v = D - distanceOf (choose_segment mv ma D v)"
    and "v = mv \<Longrightarrow> next_dist mv ma D v = mv\<^sup>2 / (2 * ma)"
    and "v < mv \<Longrightarrow> 0 \<le> D / mv - mv / (2 * ma) \<Longrightarrow> mv\<^sup>2 / (2 * ma) \<le> next_dist mv ma D v"
proof -
  have mv: "0 < mv" using assms(1) eps_pos by linarith
  have c: "choose_segment mv ma D v = solveCase2_2 mv ma D v"
    using assms by (simp add: choose_segment_def Let_def power2_eq_square)
  show "next_vel mv ma D v = mv"
    using assms by (simp add: next_vel_def c case_defs seg_defs snap_max)
  have d: "D - distanceOf (choose_segment mv ma D v)
      = mv\<^sup>2 / (2 * ma) + (mv - v) * (D / mv - mv / (2 * ma))"
    using mv assms(2) by (simp add: c case_defs seg_defs field_simps power2_eq_square)
  show "v = mv \<Longrightarrow> next_dist mv ma D v = mv\<^sup>2 / (2 * ma)"
    using assms(2) d by (auto simp: next_dist_def)
  show "v < mv \<Longrightarrow> 0 \<le> D / mv - mv / (2 * ma) \<Longrightarrow> mv\<^sup>2 / (2 * ma) \<le> next_dist mv ma D v"
    unfolding next_dist_def d by (rule max.coboundedI1) simp
  show "next_dist mv ma D v = D - distanceOf (choose_segment mv ma D v)"
  proof -
    have "v * (D / mv - mv / (2 * ma)) \<le> D"
    proof -
      have "v * (D / mv - mv / (2 * ma)) \<le> v * (D / mv)"
        using assms(2,3) mv by (intro mult_left_mono) auto
      also have "\<dots> = v / mv * D" by simp
      also have "\<dots> \<le> 1 * D"
        using assms mv eps_pos by (intro mult_right_mono) (auto intro: order_trans [of 0 "v\<^sup>2 / (2 * ma) + eps"])
      finally show ?thesis by simp
    qed
    then show ?thesis by (simp add: next_dist_def c case_defs seg_defs)
  qed
qed

text \<open>Accelerating aims at the speed \<open>w1\<close> from which braking uses up the rest.\<close>

definition peak :: "real \<Rightarrow> real \<Rightarrow> real \<Rightarrow> real" where
  "peak ma D v = sqrt (D * ma + (v * v) / 2)"

lemma peak_sq: "0 < ma \<Longrightarrow> 0 \<le> D \<Longrightarrow> (peak ma D v)\<^sup>2 = D * ma + v\<^sup>2 / 2"
  by (simp add: peak_def power2_eq_square)

lemma peak_gt:
  assumes "0 < ma" "v\<^sup>2 / (2 * ma) < D"
  shows "v < peak ma D v"
proof -
  have "v\<^sup>2 < D * ma + v * v / 2" using assms by (simp add: field_simps power2_eq_square)
  then have "sqrt (v\<^sup>2) < peak ma D v" unfolding peak_def by (rule real_sqrt_less_mono)
  then show ?thesis by simp
qed

lemma step_accelerate:
  assumes "2 * eps \<le> mv" "0 < ma" "0 \<le> v" "eps \<le> mv - v" "v\<^sup>2 / (2 * ma) + eps < D"
  defines "w \<equiv> min mv (peak ma D v)"
  shows "distanceOf (choose_segment mv ma D v) = (w\<^sup>2 - v\<^sup>2) / (2 * ma)"
    and "velocityAtEnd (choose_segment mv ma D v) = w"
    and "next_dist mv ma D v = D - (w\<^sup>2 - v\<^sup>2) / (2 * ma)"
    and "w\<^sup>2 / (2 * ma) \<le> next_dist mv ma D v"
    and "peak ma D v \<le> mv \<Longrightarrow> next_dist mv ma D v = w\<^sup>2 / (2 * ma)"
proof -
  have "v < mv" using assms(4) eps_pos by linarith
  then have c: "choose_segment mv ma D v = solveCase2_1 mv ma D v"
    using assms(1-5) by (simp add: choose_segment_def Let_def power2_eq_square)
  have dur: "duration (solveCase2_1 mv ma D v) = (w - v) / ma"
    using assms(2) unfolding w_def
    by (auto simp: case_defs Let_def peak_def min_def divide_less_cancel)
  have sel: "accel (solveCase2_1 mv ma D v) = ma" "vel_start (solveCase2_1 mv ma D v) = v"
    by (simp_all add: case_defs Let_def)
  show dist: "distanceOf (choose_segment mv ma D v) = (w\<^sup>2 - v\<^sup>2) / (2 * ma)"
    unfolding c distanceOf_def dur sel using assms(2) by (intro ramp_distance) simp
  show "velocityAtEnd (choose_segment mv ma D v) = w"
    unfolding c velocityAtEnd_def dur sel using assms(2) by simp
  have D: "0 \<le> D" using assms(2,5) eps_pos by (smt (verit) divide_nonneg_pos zero_le_power2)
  have "0 \<le> mv" using assms(1) eps_pos by linarith
  then have "0 \<le> w" using assms(2) D unfolding w_def peak_def by simp
  then have "w\<^sup>2 \<le> (peak ma D v)\<^sup>2" unfolding w_def by (intro power_mono) auto
  then have w2: "w\<^sup>2 \<le> D * ma + v\<^sup>2 / 2" by (simp add: peak_sq assms(2) D)
  have rest: "w\<^sup>2 / (2 * ma) \<le> D - (w\<^sup>2 - v\<^sup>2) / (2 * ma)"
    using w2 assms(2) by (simp add: field_simps)
  have "0 \<le> w\<^sup>2 / (2 * ma)" using assms(2) by simp
  with rest show nd: "next_dist mv ma D v = D - (w\<^sup>2 - v\<^sup>2) / (2 * ma)"
    by (simp add: next_dist_def dist)
  with rest show "w\<^sup>2 / (2 * ma) \<le> next_dist mv ma D v" by simp
  assume "peak ma D v \<le> mv"
  then have "w\<^sup>2 = D * ma + v\<^sup>2 / 2" by (simp add: w_def peak_sq assms(2) D min_absorb2)
  then show "next_dist mv ma D v = w\<^sup>2 / (2 * ma)"
    unfolding nd using assms(2) by (simp add: field_simps)
qed

text \<open>Braking stops the axis; what is left of the distance is the excess over the braking distance.\<close>

lemma step_brake:
  assumes "2 * eps \<le> mv" "0 < ma" "0 \<le> v" "v \<le> mv" "D \<le> v\<^sup>2 / (2 * ma) + eps"
  shows "distanceOf (choose_segment mv ma D v) = v\<^sup>2 / (2 * ma)"
    and "next_vel mv ma D v = 0" and "0 \<le> next_dist mv ma D v" and "next_dist mv ma D v \<le> eps"
proof -
  have c: "choose_segment mv ma D v = solveCase2_3 ma v"
    using assms by (simp add: choose_segment_def Let_def power2_eq_square)
  show d: "distanceOf (choose_segment mv ma D v) = v\<^sup>2 / (2 * ma)"
    unfolding c using brake_distance [of ma v] assms(2) by (simp add: case_defs seg_defs)
  show "next_vel mv ma D v = 0"
    using assms by (simp add: next_vel_def c case_defs seg_defs snap_zero)
  show "0 \<le> next_dist mv ma D v" by (simp add: next_dist_def)
  show "next_dist mv ma D v \<le> eps" using assms(5) eps_pos by (simp add: next_dist_def d)
qed

section \<open>Profiles\<close>

text \<open>
  The segments the loop appends, as a relation: from remaining distance \<open>D\<close>, velocity \<open>v\<close> and
  accumulated position \<open>pos\<close> the iterations produce exactly the list.
\<close>

definition moving :: "real \<Rightarrow> real \<Rightarrow> bool" where
  "moving D v \<longleftrightarrow> \<bar>D\<bar> > eps \<or> \<bar>v\<bar> > eps"

fun profile_from :: "real \<Rightarrow> real \<Rightarrow> real \<Rightarrow> real \<Rightarrow> real \<Rightarrow> Segment list \<Rightarrow> bool" where
  "profile_from mv ma D v pos [] \<longleftrightarrow> \<not> moving D v"
| "profile_from mv ma D v pos (s # ss) \<longleftrightarrow>
     moving D v \<and> s = (choose_segment mv ma D v)\<lparr>pos_start := pos\<rparr>
     \<and> profile_from mv ma (next_dist mv ma D v) (next_vel mv ma D v) (pos + distanceOf s) ss"

definition total_distance :: "Segment list \<Rightarrow> real" where
  "total_distance ss = sum_list (map distanceOf ss)"

definition total_duration :: "Segment list \<Rightarrow> real" where
  "total_duration ss = sum_list (map duration ss)"

lemma totals_Cons [simp]:
  "total_distance [] = 0" "total_distance (s # ss) = distanceOf s + total_distance ss"
  "total_duration [] = 0" "total_duration (s # ss) = duration s + total_duration ss"
  by (simp_all add: total_distance_def total_duration_def)

lemma seg_pos_irrelevant [simp]:
  "distanceOf (s\<lparr>pos_start := p\<rparr>) = distanceOf s"
  "velocityAtEnd (s\<lparr>pos_start := p\<rparr>) = velocityAtEnd s"
  by (simp_all add: seg_defs)

lemma solve_loop_profile:
  "profile_from mv ma D v pos ss \<Longrightarrow>
   solve_loop mv ma 0 D v pos t segs = Some (Inr (t + total_duration ss, segs @ ss))"
proof (induction ss arbitrary: D v pos t segs)
  case Nil
  then show ?case by (subst solve_loop.simps) (simp add: moving_def)
next
  case (Cons s ss)
  then have "solve_loop mv ma 0 (next_dist mv ma D v) (next_vel mv ma D v) (pos + distanceOf s)
      (t + duration s) (segs @ [s])
    = Some (Inr (t + duration s + total_duration ss, (segs @ [s]) @ ss))"
    using Cons.prems by (intro Cons.IH) simp
  with Cons.prems show ?case
    by (subst solve_loop.simps) (simp add: Let_def moving_def next_dist_def next_vel_def add.assoc)
qed

text \<open>The limits under which the tolerances of the code are small.\<close>

definition limits :: "real \<Rightarrow> real \<Rightarrow> bool" where
  "limits mv ma \<longleftrightarrow> 2 * eps \<le> mv \<and> eps \<le> ma"

lemma limitsD: "limits mv ma \<Longrightarrow> 2 * eps \<le> mv" "limits mv ma \<Longrightarrow> 0 < ma" "limits mv ma \<Longrightarrow> 0 < mv"
  using eps_pos unfolding limits_def by linarith+

definition solvable :: "real \<Rightarrow> real \<Rightarrow> nat \<Rightarrow> real \<Rightarrow> real \<Rightarrow> bool" where
  "solvable mv ma n D v \<longleftrightarrow> (\<forall>pos. \<exists>ss. profile_from mv ma D v pos ss \<and> length ss \<le> n)"

lemma solvable_done: "\<not> moving D v \<Longrightarrow> solvable mv ma n D v"
  unfolding solvable_def by (metis le0 list.size(3) profile_from.simps(1))

lemma solvable_step:
  assumes "solvable mv ma n (next_dist mv ma D v) (next_vel mv ma D v)"
  shows "solvable mv ma (Suc n) D v"
proof (cases "moving D v")
  case False
  then show ?thesis by (rule solvable_done)
next
  case True
  show ?thesis
    unfolding solvable_def
  proof
    fix pos
    let ?s = "(choose_segment mv ma D v)\<lparr>pos_start := pos\<rparr>"
    obtain ss where "profile_from mv ma (next_dist mv ma D v) (next_vel mv ma D v) (pos + distanceOf ?s) ss"
        "length ss \<le> n"
      using assms unfolding solvable_def by blast
    with True show "\<exists>ss. profile_from mv ma D v pos ss \<and> length ss \<le> Suc n"
      by (intro exI [of _ "?s # ss"]) simp
  qed
qed

lemma solvable_mono: "solvable mv ma n D v \<Longrightarrow> n \<le> k \<Longrightarrow> solvable mv ma k D v"
  unfolding solvable_def by (meson le_trans)

lemma solvable_brake:
  assumes "limits mv ma" "0 \<le> v" "v \<le> mv" "D \<le> v\<^sup>2 / (2 * ma) + eps"
  shows "solvable mv ma 1 D v"
proof -
  have "\<not> moving (next_dist mv ma D v) (next_vel mv ma D v)"
    using step_brake [OF limitsD(1,2) [OF assms(1)] assms(2-4)] by (simp add: moving_def)
  then show ?thesis unfolding One_nat_def by (intro solvable_step solvable_done)
qed

lemma solvable_full_speed:
  assumes "limits mv ma"
  shows "solvable mv ma 2 D mv"
proof (cases "mv\<^sup>2 / (2 * ma) + eps < D")
  case False
  then show ?thesis
    using assms limitsD(3) [OF assms] by (intro solvable_mono [OF solvable_brake]) auto
next
  case True
  note c = step_cruise [OF limitsD(1,2) [OF assms], of mv D]
  have "next_dist mv ma D mv = mv\<^sup>2 / (2 * ma)" "next_vel mv ma D mv = mv"
    using c True limitsD(3) [OF assms] by auto
  then have "solvable mv ma 1 (next_dist mv ma D mv) (next_vel mv ma D mv)"
    using limitsD(3) [OF assms] by (intro solvable_brake [OF assms]) auto
  then show ?thesis using solvable_step by (metis Suc_1)
qed

lemma accelerate_next_vel:
  assumes lim: "limits mv ma" and "0 \<le> v" "eps \<le> mv - v" "v\<^sup>2 / (2 * ma) + eps < D"
  defines "w \<equiv> peak ma D v"
  shows "next_vel mv ma D v = (if w \<le> mv - eps then w else mv)" and "eps \<le> w"
proof -
  note acc = step_accelerate [OF limitsD(1,2) [OF lim] assms(2-4)]
  have "0 \<le> v\<^sup>2 / (2 * ma)" using limitsD(2) [OF lim] by simp
  then have "eps \<le> D" "0 \<le> D" using assms(4) eps_pos by linarith+
  then have "eps * eps \<le> D * ma"
    using lim unfolding limits_def by (intro mult_mono) auto
  then have "sqrt (eps * eps) \<le> w"
    unfolding w_def peak_def by (intro real_sqrt_le_mono) (auto intro: add_increasing2)
  then show e: "eps \<le> w" by simp
  have nv: "next_vel mv ma D v = snap_velocity mv (min mv w)"
    using acc(2) by (simp add: next_vel_def w_def)
  show "next_vel mv ma D v = (if w \<le> mv - eps then w else mv)"
  proof (cases "w \<le> mv - eps")
    case True
    then have "\<not> \<bar>w - mv\<bar> < eps" "w \<le> mv" using eps_pos by linarith+
    with True e show ?thesis by (simp add: nv min_absorb2 snap_other)
  next
    case False
    then have "\<bar>min mv w - mv\<bar> < eps" using eps_pos by linarith
    with False show ?thesis using limitsD(1) [OF lim] by (simp add: nv snap_max)
  qed
qed

lemma solvable_forward:
  assumes lim: "limits mv ma" and "0 \<le> v" "v \<le> mv"
  shows "solvable mv ma 3 D v"
proof (cases "v\<^sup>2 / (2 * ma) + eps < D")
  case False
  then show ?thesis using assms by (intro solvable_mono [OF solvable_brake]) auto
next
  case far: True
  have full: "solvable mv ma 3 D v" if "next_vel mv ma D v = mv"
    using solvable_step [of mv ma 2 D v] solvable_full_speed [OF lim] that by (simp add: eval_nat_numeral)
  show ?thesis
  proof (cases "mv - v < eps")
    case True
    then show ?thesis
      using step_cruise(1) [OF limitsD(1,2) [OF lim] assms(2,3) _ far] full by blast
  next
    case False
    then have e: "eps \<le> mv - v" by simp
    note nv = accelerate_next_vel [OF lim assms(2) e far]
    note acc = step_accelerate [OF limitsD(1,2) [OF lim] assms(2) e far]
    show ?thesis
    proof (cases "peak ma D v \<le> mv - eps")
      case False
      then show ?thesis using nv(1) full by simp
    next
      case True
      then have le: "peak ma D v \<le> mv" using eps_pos by linarith
      have "solvable mv ma 1 (next_dist mv ma D v) (next_vel mv ma D v)"
        using True nv acc(5) [OF le] le
        by (intro solvable_brake [OF lim])
          (auto simp: min_absorb2 intro: order_trans [OF eps_ge_0])
      then show ?thesis
        by (rule solvable_mono [OF solvable_step]) simp
    qed
  qed
qed

lemma solvable_any:
  assumes lim: "limits mv ma" and "0 \<le> D"
  shows "solvable mv ma 4 D v"
proof -
  have four: "(4::nat) = Suc 3" by simp
  consider "v < 0" | "0 \<le> v" "v \<le> mv" | "mv < v" by linarith
  then show ?thesis
  proof cases
    case 1
    have "solvable mv ma 3 (next_dist mv ma D v) (next_vel mv ma D v)"
      unfolding step_reverse(2) [OF limitsD(1,2) [OF lim] assms(2) 1]
      using limitsD(3) [OF lim] by (intro solvable_forward [OF lim]) auto
    then show ?thesis unfolding four by (rule solvable_step)
  next
    case 2
    then show ?thesis by (intro solvable_mono [OF solvable_forward [OF lim]]) auto
  next
    case 3
    have "solvable mv ma 3 (next_dist mv ma D v) (next_vel mv ma D v)"
      unfolding step_overspeed(2) [OF limitsD(1,2) [OF lim] 3]
      using limitsD(3) [OF lim] by (intro solvable_forward [OF lim]) auto
    then show ?thesis unfolding four by (rule solvable_step)
  qed
qed

section \<open>What the segments of a profile satisfy\<close>

text \<open>A velocity the snapping can leave behind: full speed, or below it by a tolerance.\<close>

definition regular :: "real \<Rightarrow> real \<Rightarrow> bool" where
  "regular mv v \<longleftrightarrow> 0 \<le> v \<and> (v = mv \<or> v + eps \<le> mv)"

definition seg_ok :: "real \<Rightarrow> real \<Rightarrow> Segment \<Rightarrow> bool" where
  "seg_ok mv ma s \<longleftrightarrow>
     0 \<le> duration s \<and> \<bar>accel s\<bar> \<le> ma
     \<and> 0 \<le> vel_start s \<and> vel_start s \<le> mv \<and> 0 \<le> velocityAtEnd s \<and> velocityAtEnd s \<le> mv"

lemma regularD: "limits mv ma \<Longrightarrow> regular mv v \<Longrightarrow> 0 \<le> v \<and> v \<le> mv"
  unfolding regular_def using eps_pos limitsD(3) [of mv ma] by linarith

text \<open>The case split of one iteration from a regular velocity.\<close>

lemma regular_cases [consumes 2, case_names brake cruise accelerate]:
  assumes lim: "limits mv ma" and reg: "regular mv v"
  obtains (brake) "D \<le> v\<^sup>2 / (2 * ma) + eps" "choose_segment mv ma D v = solveCase2_3 ma v"
    | (cruise) "v\<^sup>2 / (2 * ma) + eps < D" "v = mv" "choose_segment mv ma D v = solveCase2_2 mv ma D v"
    | (accelerate) "v\<^sup>2 / (2 * ma) + eps < D" "v + eps \<le> mv"
        "choose_segment mv ma D v = solveCase2_1 mv ma D v"
proof -
  have r: "0 \<le> v" "v \<le> mv" using regularD [OF lim reg] by auto
  have "choose_segment mv ma D v = solveCase2_3 ma v" if "D \<le> v\<^sup>2 / (2 * ma) + eps"
    using r that by (simp add: choose_segment_def Let_def power2_eq_square)
  moreover have "choose_segment mv ma D v = solveCase2_2 mv ma D v"
    if "v\<^sup>2 / (2 * ma) + eps < D" "v = mv"
    using r that by (simp add: choose_segment_def Let_def power2_eq_square)
  moreover have "choose_segment mv ma D v = solveCase2_1 mv ma D v"
    if "v\<^sup>2 / (2 * ma) + eps < D" "v + eps \<le> mv"
  proof -
    have "v < mv" "\<not> \<bar>v - mv\<bar> < eps" using that(2) eps_pos by linarith+
    with r that(1) show ?thesis by (simp add: choose_segment_def Let_def power2_eq_square)
  qed
  ultimately show ?thesis using that reg unfolding regular_def by (meson not_le)
qed

lemma accelerate_duration:
  "0 < ma \<Longrightarrow> duration (solveCase2_1 mv ma D v) = (min mv (peak ma D v) - v) / ma"
  by (auto simp: case_defs Let_def peak_def min_def divide_less_cancel)

lemma regular_step:
  assumes lim: "limits mv ma" and reg: "regular mv v"
  shows "seg_ok mv ma (choose_segment mv ma D v) \<and> regular mv (next_vel mv ma D v)"
proof -
  have r: "0 \<le> v" "v \<le> mv" using regularD [OF lim reg] by auto
  note l = limitsD [OF lim]
  have z: "regular mv 0" "regular mv mv"
    using l eps_pos unfolding regular_def by linarith+
  from lim reg show ?thesis
  proof (cases rule: regular_cases [where D = D])
    case brake
    then show ?thesis
      using r l z step_brake(2) [OF l(1,2) r brake(1)]
      by (simp add: seg_ok_def case_defs velocityAtEnd_def)
  next
    case cruise
    have "mv / (2 * ma) \<le> D / mv"
    proof -
      have "mv * mv / (2 * ma) \<le> D" using cruise(1,2) eps_pos
        by (metis less_eq_real_def less_add_same_cancel1 order_trans power2_eq_square)
      then show ?thesis using l by (simp add: field_simps)
    qed
    moreover have "next_vel mv ma D v = mv"
      using step_cruise(1) [OF l(1,2) r _ cruise(1)] cruise(2) by simp
    ultimately show ?thesis
      unfolding cruise(3) using r l z cruise(2) by (simp add: seg_ok_def case_defs velocityAtEnd_def)
  next
    case accelerate
    have e: "eps \<le> mv - v" using accelerate(2) by simp
    note acc = step_accelerate [OF l(1,2) r(1) e accelerate(1)]
    note nv = accelerate_next_vel [OF lim r(1) e accelerate(1)]
    have "v\<^sup>2 / (2 * ma) < D" using accelerate(1) eps_pos by linarith
    then have pk: "v < peak ma D v" by (rule peak_gt [OF l(2)])
    have "regular mv (next_vel mv ma D v)"
      using nv z(2) pk r by (auto simp: regular_def)
    moreover have "seg_ok mv ma (choose_segment mv ma D v)"
      using acc(2) r l pk unfolding accelerate(3) seg_ok_def
      by (simp add: accelerate_duration) (simp add: case_defs Let_def)
    ultimately show ?thesis by simp
  qed
qed

lemma profile_segs_ok:
  assumes lim: "limits mv ma"
  shows "profile_from mv ma D v pos ss \<Longrightarrow> regular mv v \<Longrightarrow> s \<in> set ss \<Longrightarrow> seg_ok mv ma s"
proof (induction ss arbitrary: D v pos)
  case Nil
  then show ?case by simp
next
  case (Cons a ss)
  note step = regular_step [OF lim Cons.prems(2), of D]
  from Cons.prems(1) have "seg_ok mv ma a"
    using step by (auto simp: seg_ok_def)
  with Cons step show ?case by auto
qed

text \<open>Never too short: the distance covered falls short of the target by at most the tolerance.\<close>

lemma profile_reaches: "profile_from mv ma D v pos ss \<Longrightarrow> D \<le> total_distance ss + eps"
proof (induction ss arbitrary: D v pos)
  case Nil
  then show ?case by (auto simp: moving_def)
next
  case (Cons s ss)
  then have "next_dist mv ma D v \<le> total_distance ss + eps" by auto
  with Cons.prems show ?case by (auto simp: next_dist_def)
qed

text \<open>
  Nor too long, if the axis can stop within the distance: the only excess is what snapping the
  velocity to full speed adds to the braking distance.
\<close>

definition slack :: "real \<Rightarrow> real \<Rightarrow> real" where
  "slack mv ma = eps * mv / ma"

lemma snap_slack:
  assumes lim: "limits mv ma" and "mv - eps \<le> w" "w \<le> mv"
  shows "mv\<^sup>2 / (2 * ma) \<le> w\<^sup>2 / (2 * ma) + slack mv ma"
proof -
  have w: "0 \<le> w" using lim assms(2) eps_pos unfolding limits_def by linarith
  have "mv\<^sup>2 - w\<^sup>2 = (mv - w) * (mv + w)" by (simp add: power2_eq_square algebra_simps)
  also have "\<dots> \<le> eps * (2 * mv)" using w assms(2,3) by (intro mult_mono) auto
  finally show ?thesis using limitsD(2) [OF lim] by (simp add: slack_def field_simps)
qed

lemma slack_step:
  assumes lim: "limits mv ma" and reg: "regular mv v" and s: "v\<^sup>2 / (2 * ma) \<le> D + slack mv ma"
  shows "(next_vel mv ma D v)\<^sup>2 / (2 * ma) \<le> next_dist mv ma D v + slack mv ma
    \<and> (next_dist mv ma D v = D - distanceOf (choose_segment mv ma D v)
      \<or> \<not> moving (next_dist mv ma D v) (next_vel mv ma D v)
        \<and> distanceOf (choose_segment mv ma D v) \<le> D + slack mv ma)"
proof -
  have r: "0 \<le> v" "v \<le> mv" using regularD [OF lim reg] by auto
  note l = limitsD [OF lim]
  have sl: "0 \<le> slack mv ma" using l by (simp add: slack_def)
  from lim reg show ?thesis
  proof (cases rule: regular_cases [where D = D])
    case brake
    note b = step_brake [OF l(1,2) r brake(1)]
    then show ?thesis using s sl by (simp add: moving_def)
  next
    case cruise
    have "next_vel mv ma D v = mv" "next_dist mv ma D v = mv\<^sup>2 / (2 * ma)"
      "next_dist mv ma D v = D - distanceOf (choose_segment mv ma D v)"
      using step_cruise(1-3) [OF l(1,2) r _ cruise(1)] cruise(2) by auto
    with sl show ?thesis by simp
  next
    case accelerate
    have e: "eps \<le> mv - v" using accelerate(2) by simp
    note acc = step_accelerate [OF l(1,2) r(1) e accelerate(1)]
    note nv = accelerate_next_vel [OF lim r(1) e accelerate(1)]
    have "next_dist mv ma D v = D - distanceOf (choose_segment mv ma D v)"
      using acc(1,3) by simp
    moreover have "(next_vel mv ma D v)\<^sup>2 / (2 * ma) \<le> next_dist mv ma D v + slack mv ma"
    proof (cases "peak ma D v \<le> mv - eps")
      case True
      then have "peak ma D v \<le> mv" using eps_pos by linarith
      with True nv(1) acc(4) sl show ?thesis by (simp add: min_absorb2)
    next
      case False
      have "mv\<^sup>2 / (2 * ma) \<le> (min mv (peak ma D v))\<^sup>2 / (2 * ma) + slack mv ma"
        using False eps_pos by (intro snap_slack [OF lim]) auto
      with False nv(1) acc(4) show ?thesis by simp
    qed
    ultimately show ?thesis by simp
  qed
qed

lemma profile_not_too_far:
  assumes lim: "limits mv ma"
  shows "profile_from mv ma D v pos ss \<Longrightarrow> regular mv v \<Longrightarrow> 0 \<le> D \<Longrightarrow>
    v\<^sup>2 / (2 * ma) \<le> D + slack mv ma \<Longrightarrow> total_distance ss \<le> D + slack mv ma"
proof (induction ss arbitrary: D v pos)
  case Nil
  then show ?case using limitsD [OF lim] by (simp add: slack_def)
next
  case (Cons s ss)
  let ?D = "next_dist mv ma D v" and ?v = "next_vel mv ma D v"
  have p: "profile_from mv ma ?D ?v (pos + distanceOf s) ss" "distanceOf s = distanceOf (choose_segment mv ma D v)"
    using Cons.prems(1) by auto
  note st = slack_step [OF lim Cons.prems(2,4)]
  have "0 \<le> ?D" by (simp add: next_dist_def)
  then have rest: "total_distance ss \<le> ?D + slack mv ma"
    using Cons.IH [OF p(1)] regular_step [OF lim Cons.prems(2), of D] st by blast
  from st show ?case
  proof (elim conjE disjE)
    assume "?D = D - distanceOf (choose_segment mv ma D v)"
    with rest p(2) show ?case by simp
  next
    assume "\<not> moving ?D ?v" and d: "distanceOf (choose_segment mv ma D v) \<le> D + slack mv ma"
    with p(1) have "ss = []" by (cases ss) auto
    with d p(2) show ?case by simp
  qed
qed

section \<open>Reading a profile: velocity and position\<close>

lemma seg_ok_between:
  assumes "seg_ok mv ma s" "0 \<le> dt" "dt \<le> duration s"
  shows "0 \<le> vel_start s + accel s * dt \<and> vel_start s + accel s * dt \<le> mv"
proof (cases "0 \<le> accel s")
  case True
  then have "0 \<le> accel s * dt" "accel s * dt \<le> accel s * duration s"
    using assms(2,3) by (auto intro: mult_left_mono)
  with assms(1) show ?thesis by (auto simp: seg_ok_def velocityAtEnd_def)
next
  case False
  then have "accel s * dt \<le> 0" "accel s * duration s \<le> accel s * dt"
    using assms(2,3) by (auto intro: mult_left_mono_neg mult_nonpos_nonneg)
  with assms(1) show ?thesis by (auto simp: seg_ok_def velocityAtEnd_def)
qed

lemma velocity_scan_range:
  "(\<And>s. s \<in> set ss \<Longrightarrow> seg_ok mv ma s) \<Longrightarrow> e \<le> t \<Longrightarrow> 0 \<le> mv \<Longrightarrow>
   0 \<le> velocity_scan ss t e \<and> velocity_scan ss t e \<le> mv"
proof (induction ss arbitrary: e)
  case Nil
  then show ?case by simp
next
  case (Cons s ss)
  then show ?case using seg_ok_between [of mv ma s "t - e"] by auto
qed

lemma scan_past_end:
  "(\<And>s. s \<in> set ss \<Longrightarrow> 0 \<le> duration s) \<Longrightarrow> e + total_duration ss < t \<Longrightarrow>
   velocity_scan ss t e = 0 \<and> position_scan ss t e = None"
proof (induction ss arbitrary: e)
  case Nil
  then show ?case by simp
next
  case (Cons s ss)
  have "0 \<le> total_duration ss"
    using Cons.prems(1) by (auto simp: total_duration_def intro!: sum_list_nonneg)
  with Cons show ?case by (simp add: add.assoc)
qed

lemma profile_positions:
  "profile_from mv ma D v pos ss \<Longrightarrow> ss \<noteq> [] \<Longrightarrow>
   pos_start (last ss) + distanceOf (last ss) = pos + total_distance ss"
proof (induction ss arbitrary: D v pos)
  case Nil
  then show ?case by simp
next
  case (Cons s ss)
  show ?case
  proof (cases "ss = []")
    case True
    with Cons.prems show ?thesis by auto
  next
    case False
    with Cons have "pos_start (last ss) + distanceOf (last ss) = (pos + distanceOf s) + total_distance ss"
      by auto
    with False show ?thesis by simp
  qed
qed

text \<open>A finished profile: the object the constructor builds and the segments it holds.\<close>

lemma SingleDOF_new_profile:
  assumes "limits mv ma"
  obtains ss where
    "profile_from mv ma \<bar>p1 - p0\<bar> (v0 * dof_sgn (p1 - p0)) 0 ss" "length ss \<le> 4"
    "SingleDOF_new p0 p1 v0 mv ma
       = Some (Inr \<lparr>max_vel = mv, max_acc = ma, t_total = total_duration ss,
                    dir_sign = dof_sgn (p1 - p0), segments = ss\<rparr>)"
proof -
  have abs: "(p1 - p0) * dof_sgn (p1 - p0) = \<bar>p1 - p0\<bar>" by (simp add: dof_sgn_def)
  obtain ss where ss: "profile_from mv ma \<bar>p1 - p0\<bar> (v0 * dof_sgn (p1 - p0)) 0 ss" "length ss \<le> 4"
    using solvable_any [OF assms, of "\<bar>p1 - p0\<bar>" "v0 * dof_sgn (p1 - p0)"]
    unfolding solvable_def by auto
  then show ?thesis
    using that solve_loop_profile [OF ss(1), of 0 "[]"]
    by (simp add: SingleDOF_new_def solveAll_def Let_def abs SingleDOF_default_def)
qed

lemma SingleDOF_new_inv:
  assumes "limits mv ma" "SingleDOF_new p0 p1 v0 mv ma = Some (Inr d)"
  shows "profile_from mv ma \<bar>p1 - p0\<bar> (v0 * dof_sgn (p1 - p0)) 0 (segments d)"
    and "t_total d = total_duration (segments d)" and "dir_sign d = dof_sgn (p1 - p0)"
proof -
  obtain ss where "profile_from mv ma \<bar>p1 - p0\<bar> (v0 * dof_sgn (p1 - p0)) 0 ss"
    and "d = \<lparr>max_vel = mv, max_acc = ma, t_total = total_duration ss,
              dir_sign = dof_sgn (p1 - p0), segments = ss\<rparr>"
    using SingleDOF_new_profile [OF assms(1), of p1 p0 v0] assms(2) by (metis option.inject sum.inject(2))
  then show "profile_from mv ma \<bar>p1 - p0\<bar> (v0 * dof_sgn (p1 - p0)) 0 (segments d)"
    and "t_total d = total_duration (segments d)" and "dir_sign d = dof_sgn (p1 - p0)"
    by simp_all
qed

text \<open>What a profile from a regular velocity satisfies: its range, and where it ends.\<close>

lemma SingleDOF_range:
  assumes lim: "limits mv ma" and reg: "regular mv (v0 * dof_sgn (p1 - p0))"
    and new: "SingleDOF_new p0 p1 v0 mv ma = Some (Inr d)"
  shows "0 \<le> t \<Longrightarrow> 0 \<le> dof_sgn (p1 - p0) * velocityAt d t \<and> \<bar>velocityAt d t\<bar> \<le> mv"
    and "x \<in> set (segments d) \<Longrightarrow> \<bar>accel x\<bar> \<le> ma \<and> 0 \<le> duration x"
proof -
  note d = SingleDOF_new_inv [OF lim new]
  note ok = profile_segs_ok [OF lim d(1) reg]
  have "0 \<le> mv" using limitsD(3) [OF lim] by simp
  then have "0 \<le> t \<Longrightarrow> 0 \<le> velocity_scan (segments d) t 0 \<and> velocity_scan (segments d) t 0 \<le> mv"
    using velocity_scan_range [OF ok] by blast
  then show "0 \<le> t \<Longrightarrow> 0 \<le> dof_sgn (p1 - p0) * velocityAt d t \<and> \<bar>velocityAt d t\<bar> \<le> mv"
    by (auto simp: velocityAt_def d(3) dof_sgn_def)
  show "x \<in> set (segments d) \<Longrightarrow> \<bar>accel x\<bar> \<le> ma \<and> 0 \<le> duration x"
    using ok by (auto simp: seg_ok_def)
qed

lemma SingleDOF_final:
  assumes lim: "limits mv ma" and reg: "regular mv (v0 * dof_sgn (p1 - p0))"
    and new: "SingleDOF_new p0 p1 v0 mv ma = Some (Inr d)"
    and brake: "v0\<^sup>2 / (2 * ma) \<le> \<bar>p1 - p0\<bar>" and t: "t_total d < t"
  shows "velocityAt d t = 0 \<and> \<bar>positionAt d t - (p1 - p0)\<bar> \<le> eps + slack mv ma"
proof -
  let ?s = "dof_sgn (p1 - p0)" and ?ss = "segments d"
  note d = SingleDOF_new_inv [OF lim new]
  have s: "?s * ?s = 1" "?s\<^sup>2 = 1" "\<bar>?s\<bar> = 1" "\<bar>p1 - p0\<bar> * ?s = p1 - p0" by (simp_all add: dof_sgn_def)
  have sl: "0 \<le> slack mv ma" using limitsD [OF lim] by (simp add: slack_def)
  have "0 \<le> duration x" if "x \<in> set ?ss" for x
    using profile_segs_ok [OF lim d(1) reg that] by (simp add: seg_ok_def)
  then have scan: "velocity_scan ?ss t 0 = 0" "position_scan ?ss t 0 = None"
    using scan_past_end [of ?ss 0 t] t d(2) by simp_all
  have pos: "positionAt d t = ?s * total_distance ?ss"
    using profile_positions [OF d(1)] by (auto simp: positionAt_def scan d(3) Let_def)
  have "\<bar>p1 - p0\<bar> \<le> total_distance ?ss + eps" by (rule profile_reaches [OF d(1)])
  moreover have "total_distance ?ss \<le> \<bar>p1 - p0\<bar> + slack mv ma"
    using brake sl by (intro profile_not_too_far [OF lim d(1) reg]) (auto simp: power_mult_distrib s)
  ultimately have "\<bar>total_distance ?ss - \<bar>p1 - p0\<bar>\<bar> \<le> eps + slack mv ma"
    using sl eps_pos by linarith
  moreover have "positionAt d t - (p1 - p0) = ?s * (total_distance ?ss - \<bar>p1 - p0\<bar>)"
    using s(4) by (simp add: pos algebra_simps)
  ultimately have "\<bar>positionAt d t - (p1 - p0)\<bar> \<le> eps + slack mv ma"
    by (simp add: abs_mult s(3))
  then show ?thesis by (simp add: velocityAt_def scan)
qed

section \<open>Properties\<close>

text \<open>
  Building a profile ends for every start, target and initial velocity (forwards,
  backwards or above the limit): at most four segments are generated, no exception is thrown, and
  the total time is the sum of the segment durations. The speed limit has to be at least 2e-9 and
  the acceleration limit at least 1e-9, the tolerance of the code.
\<close>

theorem SingleDOF_new_terminates:
  assumes "2 * eps \<le> mv" and "eps \<le> ma"
  shows "\<exists>d. SingleDOF_new p0 p1 v0 mv ma = Some (Inr d) \<and> length (segments d) \<le> 4
    \<and> t_total d = sum_list (map duration (segments d))"
proof -
  have "limits mv ma" using assms by (simp add: limits_def)
  then obtain ss where "length ss \<le> 4" "SingleDOF_new p0 p1 v0 mv ma
       = Some (Inr \<lparr>max_vel = mv, max_acc = ma, t_total = total_duration ss,
                    dir_sign = dof_sgn (p1 - p0), segments = ss\<rparr>)"
    by (rule SingleDOF_new_profile)
  then show ?thesis by (auto simp: total_duration_def)
qed

theorem SingleDOF_new_terminates_witness:
  "\<exists>d. SingleDOF_new 0 500 (-20) 300 400 = Some (Inr d) \<and> length (segments d) \<le> 4"
proof -
  have "2 * eps \<le> 300" "eps \<le> 400" by (simp_all add: eps_def)
  from SingleDOF_new_terminates [OF this, of 0 500 "-20"] show ?thesis by blast
qed

text \<open>
  Property C17. A profile that can stop in time reaches its target: if the initial velocity points
  to the target, is within the limit (and is not within the tolerance below it), and its braking
  distance does not exceed the distance to go, then from the total time on the velocity is 0 and
  the displacement differs from the requested one by at most 1e-9 times (1 + v_max / a_max).
\<close>

theorem SingleDOF_reaches_target:
  assumes "2 * eps \<le> mv" "eps \<le> ma"
    and "0 \<le> v0 * dof_sgn (p1 - p0)" "v0 * dof_sgn (p1 - p0) = mv \<or> v0 * dof_sgn (p1 - p0) + eps \<le> mv"
    and "v0\<^sup>2 / (2 * ma) \<le> \<bar>p1 - p0\<bar>"
    and "SingleDOF_new p0 p1 v0 mv ma = Some (Inr d)" and "t_total d < t"
  shows "velocityAt d t = 0 \<and> \<bar>positionAt d t - (p1 - p0)\<bar> \<le> eps * (1 + mv / ma)"
proof -
  have "limits mv ma" "regular mv (v0 * dof_sgn (p1 - p0))"
    using assms(1-4) by (simp_all add: limits_def regular_def)
  from SingleDOF_final [OF this assms(6,5,7)] show ?thesis
    by (simp add: slack_def algebra_simps)
qed

theorem SingleDOF_reaches_target_witness:
  "\<exists>d. SingleDOF_new 0 500 0 300 400 = Some (Inr d)
     \<and> velocityAt d (t_total d + 1) = 0 \<and> \<bar>positionAt d (t_total d + 1) - 500\<bar> \<le> eps * (1 + 300 / 400)"
proof -
  have l: "2 * eps \<le> 300" "eps \<le> 400" by (simp_all add: eps_def)
  have "limits 300 400" using l by (simp add: limits_def)
  then obtain d where d: "SingleDOF_new 0 500 0 300 400 = Some (Inr d)"
    using SingleDOF_new_profile by metis
  have "velocityAt d (t_total d + 1) = 0
      \<and> \<bar>positionAt d (t_total d + 1) - (500 - 0)\<bar> \<le> eps * (1 + 300 / 400)"
    using l by (intro SingleDOF_reaches_target [OF _ _ _ _ _ d]) (auto simp: eps_def)
  with d show ?thesis by auto
qed

text \<open>
  Property C36. From a start within the limits the commanded velocity respects them at all times:
  it never points away from the target and its magnitude never exceeds the speed limit, and no
  segment uses more than the acceleration limit.
\<close>

theorem SingleDOF_respects_limits:
  assumes "2 * eps \<le> mv" "eps \<le> ma"
    and "0 \<le> v0 * dof_sgn (p1 - p0)" "v0 * dof_sgn (p1 - p0) = mv \<or> v0 * dof_sgn (p1 - p0) + eps \<le> mv"
    and "SingleDOF_new p0 p1 v0 mv ma = Some (Inr d)" and "0 \<le> t"
  shows "0 \<le> dof_sgn (p1 - p0) * velocityAt d t \<and> \<bar>velocityAt d t\<bar> \<le> mv
    \<and> list_all (\<lambda>s. \<bar>accel s\<bar> \<le> ma \<and> 0 \<le> duration s) (segments d)"
proof -
  have "limits mv ma" "regular mv (v0 * dof_sgn (p1 - p0))"
    using assms(1-4) by (simp_all add: limits_def regular_def)
  from SingleDOF_range [OF this assms(5)] show ?thesis
    using assms(6) by (auto simp: list_all_iff)
qed

theorem SingleDOF_respects_limits_witness:
  "\<exists>d. SingleDOF_new 500 0 0 300 400 = Some (Inr d) \<and> \<bar>velocityAt d 1\<bar> \<le> 300"
proof -
  have l: "2 * eps \<le> 300" "eps \<le> 400" by (simp_all add: eps_def)
  have "limits 300 400" using l by (simp add: limits_def)
  then obtain d where d: "SingleDOF_new 500 0 0 300 400 = Some (Inr d)"
    using SingleDOF_new_profile by metis
  have "0 \<le> dof_sgn (0 - 500) * velocityAt d 1 \<and> \<bar>velocityAt d 1\<bar> \<le> 300
    \<and> list_all (\<lambda>s. \<bar>accel s\<bar> \<le> 400 \<and> 0 \<le> duration s) (segments d)"
    using l by (intro SingleDOF_respects_limits [OF _ _ _ _ d]) (auto simp: eps_def)
  with d show ?thesis by auto
qed

text \<open>The guard against endless iteration is dead: the counter it tests is never incremented.\<close>

lemma solve_loop_no_exception:
  assumes "solve_loop mv ma 0 D v pos t segs = Some r"
  shows "\<exists>x. r = Inr x"
proof -
  have "iter = 0 \<longrightarrow> (\<exists>x. r = Inr x)" if "solve_loop mv ma iter D v pos t segs = Some r" for iter
    using that
    by (rule solve_loop.raw_induct
          [where P = "\<lambda>mv ma iter D v pos t segs r. iter = 0 \<longrightarrow> (\<exists>x. r = Inr x)", rotated])
       (auto simp: Let_def split: if_splits)
  then show ?thesis using assms by blast
qed

lemma solve_loop_spins: "solve_loop (eps / 2) ma 0 1 0 pos t segs = None"
proof -
  define m where "m = eps / 2"
  have pick: "choose_segment m b 1 0 = solveCase2_2 m b 1 0" for b
    by (simp add: m_def choose_segment_def Let_def eps_def)
  have snap: "snap_velocity m 0 = 0"
    by (simp add: m_def snap_velocity_def Let_def eps_def)
  have small: "eps < 1" by (simp add: eps_def)
  have "mv = m \<and> iter = 0 \<and> D = 1 \<and> v = 0 \<longrightarrow> False"
    if "solve_loop mv ma iter D v pos t segs = Some r" for mv iter D v pos t segs r
    using that
    by (rule solve_loop.raw_induct
          [where P = "\<lambda>mv ma iter D v pos t segs r. mv = m \<and> iter = 0 \<and> D = 1 \<and> v = 0 \<longrightarrow> False",
           rotated])
       (auto simp: pick snap small Let_def case_defs(3) seg_defs split: if_splits; blast)
  then have "solve_loop m ma 0 1 0 pos t segs \<noteq> Some r" for r by blast
  then show ?thesis unfolding m_def [symmetric] by (metis option.exhaust)
qed

text \<open>
  The exception that \<open>solveAll\<close> throws after 1000 iterations is unreachable, because
  the iteration counter is never incremented; and the situation it is meant for exists: with a
  speed limit of half the tolerance the loop repeats the same state for ever, so the constructor
  does not return.
\<close>

theorem solveAll_guard_is_dead:
  "solve_loop mv ma 0 D v pos t segs \<noteq> Some (Inl e) \<and> SingleDOF_new 0 1 0 (eps / 2) ma = None"
proof -
  have "solve_loop (eps / 2) ma 0 1 0 0 0 [] = None"
    by (rule solve_loop_spins)
  then show ?thesis
    using solve_loop_no_exception [of mv ma D v pos t segs "Inl e"]
    by (auto simp: SingleDOF_new_def solveAll_def Let_def SingleDOF_default_def dof_sgn_def)
qed

end
