(* ===== verification/SystemConfig.thy ===== *)
theory SystemConfig
  imports Prelude
begin

text \<open>
  The configuration library (\<open>libs/cfg\<close>): system constants, the screen and field coordinate
  maps of \<open>SystemCoordinates.cpp\<close>, the network schedule of \<open>NetworkConfig.h\<close> with its unsigned
  32-bit arithmetic, the commutation tables of \<open>MotorConfig.h\<close>, and the constants of
  \<open>GameConfig.h\<close>.
\<close>

section \<open>System constants\<close>

definition num_robots :: u8 where "num_robots = 6"

definition num_drive_motors :: nat where "num_drive_motors = 4"

definition screen_width :: real where "screen_width = 950"

definition screen_height :: real where "screen_height = 580"

lemmas [cfg_simps] = num_robots_def num_drive_motors_def screen_width_def screen_height_def

section \<open>Screen and field coordinates\<close>

definition screenToRRTX :: "vec2 \<Rightarrow> vec2" where
  "screenToRRTX p =
     (fst p / screen_width * 12 - 6, snd p / screen_height * 9 - 9 / 2)"

definition rrtxToScreen :: "vec2 \<Rightarrow> vec2" where
  "rrtxToScreen p =
     ((fst p + 6) / 12 * screen_width, (snd p + 9 / 2) / 9 * screen_height)"

lemma rrtx_screen_inverse: "rrtxToScreen (screenToRRTX p) = p"
  by (cases p) (simp add: rrtxToScreen_def screenToRRTX_def cfg_simps)

lemma screen_rrtx_inverse: "screenToRRTX (rrtxToScreen p) = p"
  by (cases p) (simp add: rrtxToScreen_def screenToRRTX_def cfg_simps add_divide_distrib)

text \<open>The field rectangle the planner samples from is exactly the image of the screen.\<close>

definition on_screen :: "vec2 \<Rightarrow> bool" where
  "on_screen p \<longleftrightarrow> 0 \<le> fst p \<and> fst p \<le> screen_width \<and> 0 \<le> snd p \<and> snd p \<le> screen_height"

definition on_field :: "vec2 \<Rightarrow> bool" where
  "on_field p \<longleftrightarrow> \<bar>fst p\<bar> \<le> 6 \<and> \<bar>snd p\<bar> \<le> 9 / 2"

text \<open>
  The two coordinate maps are inverse to each other, and the part of the plane
  shown on the 950 x 580 screen corresponds to exactly the 12 x 9 field around the origin.
\<close>

theorem screen_field_bijection:
  "rrtxToScreen (screenToRRTX p) = p \<and> screenToRRTX (rrtxToScreen q) = q
   \<and> (on_field (screenToRRTX p) = on_screen p)"
proof -
  have "on_field (screenToRRTX p) = on_screen p"
    unfolding on_field_def on_screen_def screenToRRTX_def cfg_simps abs_le_iff fst_conv snd_conv
    by linarith
  then show ?thesis by (simp add: rrtx_screen_inverse screen_rrtx_inverse)
qed

section \<open>Network schedule\<close>

text \<open>\<open>struct NetworkConfig\<close>: addresses, ports, buffer and radio message sizes.\<close>

record network_config =
  base_station_ip :: bytes
  host_ip :: bytes
  host_port :: u32
  base_station_port :: u32
  udp_buffer_max_size :: nat
  radio_msg_size :: u8
  radio_msg_header_size :: u8
  radio_msg_crc_size :: u8
  radio_msg_payload_size :: u8

definition NetworkConfig :: network_config where
  "NetworkConfig =
     \<lparr>base_station_ip = [192, 168, 1, 100], host_ip = [192, 168, 1, 101],
      host_port = 8080, base_station_port = 8081, udp_buffer_max_size = 1600,
      radio_msg_size = 60, radio_msg_header_size = 2, radio_msg_crc_size = 2,
      radio_msg_payload_size = 60 - (2 + 2)\<rparr>"

text \<open>\<open>struct NetworkTime\<close>: times in microseconds, as \<open>uint32_t\<close>.\<close>

definition to_us :: u32 where "to_us = 1000"
definition network_cycle_time :: u32 where "network_cycle_time = 40 * to_us"
definition beacon_time :: u32 where "beacon_time = 2 * to_us"
definition udp_time :: u32 where "udp_time = 5 * to_us"
definition robot_command_time :: u32 where "robot_command_time = 2 * to_us"
definition robot_response_time :: u32 where "robot_response_time = 2 * to_us"

lemmas [cfg_simps] = to_us_def network_cycle_time_def beacon_time_def udp_time_def
  robot_command_time_def robot_response_time_def

definition GetBeaconStartTime :: "u32 \<Rightarrow> u32" where
  "GetBeaconStartTime cycle_start_time = cycle_start_time"

definition GetUdpStartTime :: "u32 \<Rightarrow> u32" where
  "GetUdpStartTime cycle_start_time = GetBeaconStartTime cycle_start_time + beacon_time"

text \<open>
  \<open>robot_idx\<close> is a \<open>uint8_t\<close>; it is promoted to \<open>int\<close>, decremented, and converted to
  \<open>uint32_t\<close> by the multiplication.
\<close>

definition GetRobotCommandStartTime :: "u32 \<Rightarrow> u8 \<Rightarrow> u32" where
  "GetRobotCommandStartTime cycle_start_time robot_idx =
     GetUdpStartTime cycle_start_time + udp_time + robot_command_time * (ucast robot_idx - 1)"

definition GetRobotResponseStartTime :: "u32 \<Rightarrow> u8 \<Rightarrow> u32" where
  "GetRobotResponseStartTime cycle_start_time robot_idx =
     GetRobotCommandStartTime cycle_start_time (num_robots + 1)
     + robot_response_time * (ucast robot_idx - 1)"

lemmas schedule_defs = GetBeaconStartTime_def GetUdpStartTime_def
  GetRobotCommandStartTime_def GetRobotResponseStartTime_def

text \<open>
  The slots of one cycle as (start, length) pairs, in the order they occur: beacon, host
  datagram, the six command slots and the six response slots.
\<close>

definition cycle_slots :: "u32 \<Rightarrow> (u32 \<times> u32) list" where
  "cycle_slots c =
     [(GetBeaconStartTime c, beacon_time), (GetUdpStartTime c, udp_time)]
     @ map (\<lambda>i. (GetRobotCommandStartTime c (of_nat i), robot_command_time)) [1..<7]
     @ map (\<lambda>i. (GetRobotResponseStartTime c (of_nat i), robot_response_time)) [1..<7]"

text \<open>Slot starts measured from the start of the cycle, as exact numbers.\<close>

lemma cycle_slots_offsets:
  "map (\<lambda>(s, l). (unat (s - c), unat l)) (cycle_slots c) =
     [(0, 2000), (2000, 5000)]
     @ map (\<lambda>i. (5000 + 2000 * i, 2000)) [1..<7]
     @ map (\<lambda>i. (17000 + 2000 * i, 2000)) [1..<7]"
  by (simp add: cycle_slots_def schedule_defs cfg_simps upt_rec [of _ 7])

fun back_to_back :: "(nat \<times> nat) list \<Rightarrow> bool" where
  "back_to_back ((s, l) # (t, m) # xs) = (s + l = t \<and> back_to_back ((t, m) # xs))"
| "back_to_back _ = True"

text \<open>
  Whatever 32-bit time the cycle starts at (the additions may wrap), the slots that
  the schedule functions assign to the beacon, the host datagram, the commands of robots 1 to 6
  and the responses of robots 1 to 6 follow each other without gap or overlap, the first starts
  with the cycle, and the last ends 31 ms into the 40 ms cycle.
\<close>

theorem schedule_slots_back_to_back:
  "let slots = map (\<lambda>(s, l). (unat (s - c), unat l)) (cycle_slots c) in
     back_to_back slots \<and> fst (hd slots) = 0
     \<and> (case last slots of (s, l) \<Rightarrow> s + l = 31000 \<and> s + l \<le> unat network_cycle_time)"
  unfolding cycle_slots_offsets Let_def
  by (simp add: upt_rec [of _ 7] cfg_simps)

section \<open>Motor constants\<close>

definition m_pi :: real where "m_pi = 3.14159"
definition max_duty :: real where "max_duty = 5"
definition t_duty_ramp_ms :: real where "t_duty_ramp_ms = 2000"
definition wheel_radius_m :: real where "wheel_radius_m = 0.01313"
definition v_limit :: real where "v_limit = 7"
definition a_limit :: real where "a_limit = 4"
definition max_rpm :: real where "max_rpm = max_duty * 50"
definition w_max :: real where "w_max = max_rpm * 2 * m_pi / 60"
definition v_max :: real where "v_max = wheel_radius_m * w_max"
definition duty_per_ms :: real where "duty_per_ms = max_duty / t_duty_ramp_ms"
definition alpha_max :: real where "alpha_max = w_max / t_duty_ramp_ms"
definition a_max :: real where "a_max = wheel_radius_m * alpha_max"

lemmas motor_defs = m_pi_def max_duty_def t_duty_ramp_ms_def wheel_radius_m_def v_limit_def
  a_limit_def max_rpm_def w_max_def v_max_def duty_per_ms_def alpha_max_def a_max_def

text \<open>The \<open>static_assert\<close>s of \<open>struct MotorConstants\<close> hold.\<close>

lemma motor_static_asserts: "v_max \<le> v_limit" "max_duty \<le> 98" "a_max \<le> a_limit"
  by (simp_all add: motor_defs)

text \<open>The hall-state tables: next state when turning forward, and when turning back.\<close>

definition kAdjacent :: "u8 list" where "kAdjacent = [0, 5, 3, 1, 6, 4, 2, 0]"
definition kBack :: "u8 list" where "kBack = [0, 3, 6, 2, 5, 1, 4, 0]"
definition hall_states_per_electrical_revolution :: nat where
  "hall_states_per_electrical_revolution = 6"

definition hall_forward :: "u8 \<Rightarrow> u8" where
  "hall_forward h = kAdjacent ! unat h"

definition hall_back :: "u8 \<Rightarrow> u8" where
  "hall_back h = kBack ! unat h"

text \<open>The six valid readings of three hall sensors: not all low, not all high.\<close>

definition hall_valid :: "u8 \<Rightarrow> bool" where
  "hall_valid h \<longleftrightarrow> h \<in> {1, 2, 3, 4, 5, 6}"

lemma hall_values:
  "hall_forward 0 = 0" "hall_forward 1 = 5" "hall_forward 2 = 3" "hall_forward 3 = 1"
  "hall_forward 4 = 6" "hall_forward 5 = 4" "hall_forward 6 = 2" "hall_forward 7 = 0"
  "hall_back 0 = 0" "hall_back 1 = 3" "hall_back 2 = 6" "hall_back 3 = 2"
  "hall_back 4 = 5" "hall_back 5 = 1" "hall_back 6 = 4" "hall_back 7 = 0"
  by (simp_all add: hall_forward_def hall_back_def kAdjacent_def kBack_def)

text \<open>
  On the six valid hall states the forward and the backward commutation tables are
  inverse to each other and stay inside the valid states; six forward steps (one electrical
  revolution) return to the start and no smaller positive number of steps does; and the two
  invalid readings 0 and 7 are mapped to the invalid state 0 by both tables.
\<close>

theorem hall_tables_single_cycle:
  "(\<forall>h. hall_valid h \<longrightarrow>
      hall_valid (hall_forward h) \<and> hall_valid (hall_back h)
      \<and> hall_back (hall_forward h) = h \<and> hall_forward (hall_back h) = h
      \<and> (hall_forward ^^ hall_states_per_electrical_revolution) h = h
      \<and> (\<forall>k \<in> {1..<hall_states_per_electrical_revolution}. (hall_forward ^^ k) h \<noteq> h))
   \<and> (\<forall>h \<in> {0, 7}. hall_forward h = 0 \<and> hall_back h = 0)"
proof -
  have six: "{1..<6::nat} = {1, 2, 3, 4, 5}" by auto
  have iter: "(hall_forward ^^ 2) h = hall_forward (hall_forward h)"
    "(hall_forward ^^ 3) h = hall_forward (hall_forward (hall_forward h))"
    "(hall_forward ^^ 4) h = hall_forward (hall_forward (hall_forward (hall_forward h)))"
    "(hall_forward ^^ 5) h =
       hall_forward (hall_forward (hall_forward (hall_forward (hall_forward h))))"
    "(hall_forward ^^ 6) h =
       hall_forward (hall_forward (hall_forward (hall_forward (hall_forward (hall_forward h)))))"
    for h by (simp_all add: eval_nat_numeral)
  show ?thesis
    unfolding hall_states_per_electrical_revolution_def six
    by (auto simp: hall_valid_def iter hall_values)
qed

theorem hall_tables_single_cycle_witness:
  "hall_valid 1 \<and> hall_back (hall_forward 1) = 1
   \<and> (hall_forward ^^ hall_states_per_electrical_revolution) 1 = 1"
  using hall_tables_single_cycle by (simp add: hall_valid_def)

section \<open>Game constants\<close>

definition player_radius :: real where "player_radius = 18.5"
definition player_velocity :: real where "player_velocity = 300"
definition player_rotation_velocity :: real where "player_rotation_velocity = 360"
definition ball_radius :: real where "ball_radius = 12.5"
definition stuck_error :: real where "stuck_error = 2"
definition ball_friction :: real where "ball_friction = 150"
definition ball_restitution :: real where "ball_restitution = 0.8"
definition obstacle_tolerance :: real where "obstacle_tolerance = 30"
definition motion_max_speed_x :: real where "motion_max_speed_x = 300"
definition motion_max_accel_x :: real where "motion_max_accel_x = 400"
definition motion_max_speed_theta :: real where "motion_max_speed_theta = 6.28"
definition motion_max_accel_theta :: real where "motion_max_accel_theta = 3.14"

lemmas [cfg_simps] = player_radius_def player_velocity_def player_rotation_velocity_def
  ball_radius_def stuck_error_def ball_friction_def ball_restitution_def obstacle_tolerance_def
  motion_max_speed_x_def motion_max_accel_x_def motion_max_speed_theta_def
  motion_max_accel_theta_def

end
