(* ===== verification/Motion.thy ===== *)
theory Motion
  imports Trajectory SystemConfig
begin

text \<open>
  Motion profiles of the robot (\<open>class Synced2D\<close> in \<open>libs/motion/src/trajectory.cpp\<close>, and
  \<open>libs/motion/include/motion.h\<close>, \<open>libs/motion/src/motion.cpp\<close>): two axes share one speed and
  one acceleration limit, split by an angle that a bisection chooses so that both axes need the
  same time; the heading has a profile of its own.
\<close>

section \<open>Synced2D\<close>

record Synced2D =
  dof_x :: SingleDOF
  dof_y :: SingleDOF
  tf :: real

definition time_tol :: real where "time_tol = 1 / 1000000"

text \<open>
  The 30 iterations of the constructor; \<open>dx\<close> and \<open>dy\<close> are the members \<open>x\<close> and \<open>y\<close>, overwritten
  by every iteration. An exception or an endless loop of \<open>SingleDOF\<close> is passed on.
\<close>

fun synced_loop ::
  "nat \<Rightarrow> vec2 \<Rightarrow> vec2 \<Rightarrow> vec2 \<Rightarrow> real \<Rightarrow> real \<Rightarrow> real \<Rightarrow> real \<Rightarrow> real \<Rightarrow> SingleDOF \<times> SingleDOF
   \<Rightarrow> (motion_error + SingleDOF \<times> SingleDOF) option"
where
  "synced_loop 0 ip fp iv mv ma alpha angle_min angle_max xy = Some (Inr xy)"
| "synced_loop (Suc n) ip fp iv mv ma alpha angle_min angle_max xy =
     (let ax_max = ma * cos alpha;
          ay_max = ma * sin alpha;
          vx_max = mv * cos alpha;
          vy_max = mv * sin alpha
      in case SingleDOF_new (fst ip) (fst fp) (fst iv) vx_max ax_max of
           None \<Rightarrow> None
         | Some (Inl e) \<Rightarrow> Some (Inl e)
         | Some (Inr dx) \<Rightarrow>
             (case SingleDOF_new (snd ip) (snd fp) (snd iv) vy_max ay_max of
                None \<Rightarrow> None
              | Some (Inl e) \<Rightarrow> Some (Inl e)
              | Some (Inr dy) \<Rightarrow>
                  if \<bar>t_total dx - t_total dy\<bar> < time_tol then Some (Inr (dx, dy))
                  else if t_total dx > t_total dy
                  then synced_loop n ip fp iv mv ma ((alpha + angle_min) / 2) angle_min alpha (dx, dy)
                  else synced_loop n ip fp iv mv ma ((alpha + angle_max) / 2) alpha angle_max (dx, dy)))"

definition Synced2D_new ::
  "vec2 \<Rightarrow> vec2 \<Rightarrow> vec2 \<Rightarrow> real \<Rightarrow> real \<Rightarrow> (motion_error + Synced2D) option" where
  "Synced2D_new ip fp iv mv ma =
     (case synced_loop 30 ip fp iv mv ma (pi / 4) 0 (pi / 2) (SingleDOF_default, SingleDOF_default) of
        None \<Rightarrow> None
      | Some (Inl e) \<Rightarrow> Some (Inl e)
      | Some (Inr (dx, dy)) \<Rightarrow>
          Some (Inr \<lparr>dof_x = dx, dof_y = dy, tf = max (t_total dx) (t_total dy)\<rparr>))"

definition velocityAtX :: "Synced2D \<Rightarrow> real \<Rightarrow> real" where
  "velocityAtX s t = velocityAt (dof_x s) t"

definition velocityAtY :: "Synced2D \<Rightarrow> real \<Rightarrow> real" where
  "velocityAtY s t = velocityAt (dof_y s) t"

section \<open>Motion\<close>

record VelocityState =
  vx :: real
  vy :: real
  vtheta :: real

record GeneratedProfile =
  planar :: Synced2D
  theta :: SingleDOF
  valid :: bool
  totalTime :: real

text \<open>The heading every profile turns to, as the code writes it; the other angles are in radians.\<close>

definition targetTheta :: real where "targetTheta = 45"

definition generateProfile ::
  "vec2 \<Rightarrow> vec2 \<Rightarrow> real \<Rightarrow> VelocityState \<Rightarrow> (motion_error + GeneratedProfile) option" where
  "generateProfile start end_pt current_theta v0 =
     (case Synced2D_new start end_pt (vx v0, vy v0) motion_max_speed_x motion_max_accel_x of
        None \<Rightarrow> None
      | Some (Inl e) \<Rightarrow> Some (Inl e)
      | Some (Inr pl) \<Rightarrow>
          (case SingleDOF_new current_theta targetTheta (vtheta v0)
                  motion_max_speed_theta motion_max_accel_theta of
             None \<Rightarrow> None
           | Some (Inl e) \<Rightarrow> Some (Inl e)
           | Some (Inr th) \<Rightarrow>
               Some (Inr \<lparr>planar = pl, theta = th, valid = True, totalTime = tf pl\<rparr>)))"

definition getVelocityState :: "GeneratedProfile \<Rightarrow> real \<Rightarrow> VelocityState" where
  "getVelocityState p t =
     (if \<not> valid p then \<lparr>vx = 0, vy = 0, vtheta = 0\<rparr>
      else \<lparr>vx = velocityAtX (planar p) t, vy = velocityAtY (planar p) t,
            vtheta = velocityAt (theta p) t\<rparr>)"

section \<open>The split of the limits\<close>

text \<open>Halving an angle at most halves its sine.\<close>

lemma sin_half_ge: "0 \<le> a \<Longrightarrow> a \<le> pi \<Longrightarrow> sin a / 2 \<le> sin (a / 2)"
proof -
  assume a: "0 \<le> a" "a \<le> pi"
  have "sin a = 2 * sin (a / 2) * cos (a / 2)" using sin_double [of "a / 2"] by simp
  also have "\<dots> \<le> 2 * sin (a / 2) * 1" using a by (intro mult_left_mono) (auto intro: sin_ge_zero)
  finally show ?thesis by simp
qed

lemma sin_dyadic: "1 / 2 ^ n \<le> sin (pi / 2 / 2 ^ n)"
proof (induction n)
  case (Suc n)
  have "pi / 2 / 2 ^ n \<le> pi / 2 / 1" by (intro divide_left_mono) auto
  then have "sin (pi / 2 / 2 ^ n) / 2 \<le> sin (pi / 2 / 2 ^ n / 2)"
    using pi_gt_zero by (intro sin_half_ge) (simp, linarith)
  moreover have "1 / 2 ^ n / 2 \<le> sin (pi / 2 / 2 ^ n) / 2" using Suc by (rule divide_right_mono) simp
  ultimately have "1 / 2 ^ n / 2 \<le> sin (pi / 2 / 2 ^ n / 2)" by (rule order_trans [rotated])
  then show ?case by simp
qed simp

lemma sin_ge_dyadic: "pi / 2 / 2 ^ n \<le> a \<Longrightarrow> a \<le> pi / 2 \<Longrightarrow> 1 / 2 ^ n \<le> sin a"
  using sin_dyadic [of n] sin_monotone_2pi_le [of "pi / 2 / 2 ^ n" a] pi_gt_zero
  by (smt (verit) divide_nonneg_nonneg zero_le_power)

lemma cos_ge_dyadic: "0 \<le> a \<Longrightarrow> a \<le> pi / 2 - pi / 2 / 2 ^ n \<Longrightarrow> 1 / 2 ^ n \<le> cos a"
  using sin_ge_dyadic [of n "pi / 2 - a"] by (simp add: sin_diff)

text \<open>
  The bisection: after \<open>k\<close> iterations \<open>alpha\<close> is the middle of an interval of width
  \<open>pi / 2 / 2 ^ k\<close> inside the right angle.
\<close>

definition bisect_inv :: "nat \<Rightarrow> real \<Rightarrow> real \<Rightarrow> real \<Rightarrow> bool" where
  "bisect_inv k a lo hi \<longleftrightarrow>
     0 \<le> lo \<and> hi \<le> pi / 2 \<and> hi - lo = pi / 2 / 2 ^ k \<and> a = (lo + hi) / 2"

lemma bisect_init: "bisect_inv 0 (pi / 4) 0 (pi / 2)"
  by (simp add: bisect_inv_def)

lemma bisect_middle:
  assumes "bisect_inv k a lo hi"
  shows "a - lo = pi / 2 / 2 ^ Suc k" "hi - a = pi / 2 / 2 ^ Suc k" "0 \<le> lo" "hi \<le> pi / 2"
proof -
  have w: "pi / 2 / 2 ^ Suc k = (pi / 2 / 2 ^ k) / 2" by simp
  show "a - lo = pi / 2 / 2 ^ Suc k" "hi - a = pi / 2 / 2 ^ Suc k" "0 \<le> lo" "hi \<le> pi / 2"
    unfolding w using assms by (auto simp: bisect_inv_def)
qed

lemma bisect_step:
  assumes "bisect_inv k a lo hi"
  shows "bisect_inv (Suc k) ((a + lo) / 2) lo a" "bisect_inv (Suc k) ((a + hi) / 2) a hi"
proof -
  define w where "w = pi / 2 / 2 ^ Suc k"
  have "0 \<le> w" using pi_gt_zero by (simp add: w_def)
  moreover note bisect_middle [OF assms, folded w_def]
  ultimately show "bisect_inv (Suc k) ((a + lo) / 2) lo a" "bisect_inv (Suc k) ((a + hi) / 2) a hi"
    unfolding bisect_inv_def w_def [symmetric] by simp_all
qed

lemma bisect_angle:
  assumes "bisect_inv k a lo hi" "k < n"
  shows "1 / 2 ^ n \<le> cos a" "1 / 2 ^ n \<le> sin a"
proof -
  have "(2::real) ^ Suc k \<le> 2 ^ n" using assms(2) by (intro power_increasing) auto
  then have w: "pi / 2 / 2 ^ n \<le> pi / 2 / 2 ^ Suc k" by (intro divide_left_mono) auto
  moreover have "0 \<le> pi / 2 / 2 ^ n" using pi_gt_zero by simp
  ultimately show "1 / 2 ^ n \<le> cos a" "1 / 2 ^ n \<le> sin a"
    using bisect_middle [OF assms(1)] by (intro cos_ge_dyadic sin_ge_dyadic; linarith)+
qed

text \<open>So each axis always gets limits above the tolerance of \<^const>\<open>SingleDOF_new\<close>.\<close>

lemma split_limits: "3 \<le> mv \<Longrightarrow> 2 \<le> ma \<Longrightarrow> 1 / 2 ^ 30 \<le> c \<Longrightarrow> limits (mv * c) (ma * c)"
proof -
  assume "3 \<le> mv" "2 \<le> ma" and c: "1 / 2 ^ 30 \<le> c"
  have "0 \<le> c" using c by (rule order_trans [rotated]) simp
  with \<open>3 \<le> mv\<close> \<open>2 \<le> ma\<close> have "3 * c \<le> mv * c" "2 * c \<le> ma * c" by (auto intro: mult_right_mono)
  moreover have "2 * eps \<le> 3 * (1 / 2 ^ 30)" "eps \<le> 2 * (1 / 2 ^ 30)" by (simp_all add: eps_def)
  moreover have "3 * (1 / 2 ^ 30) \<le> 3 * c" "2 * (1 / 2 ^ 30) \<le> 2 * c" using c by simp_all
  ultimately show ?thesis unfolding limits_def by (meson order_trans)
qed

section \<open>The bisection\<close>

text \<open>The two axes come from one angle of the split.\<close>

definition axes_split :: "vec2 \<Rightarrow> vec2 \<Rightarrow> vec2 \<Rightarrow> real \<Rightarrow> real \<Rightarrow> real \<Rightarrow> SingleDOF \<times> SingleDOF \<Rightarrow> bool" where
  "axes_split ip fp iv mv ma a xy \<longleftrightarrow>
     1 / 2 ^ 30 \<le> cos a \<and> 1 / 2 ^ 30 \<le> sin a
     \<and> SingleDOF_new (fst ip) (fst fp) (fst iv) (mv * cos a) (ma * cos a) = Some (Inr (fst xy))
     \<and> SingleDOF_new (snd ip) (snd fp) (snd iv) (mv * sin a) (ma * sin a) = Some (Inr (snd xy))"

lemma axes_split_exists:
  assumes "3 \<le> mv" "2 \<le> ma" "bisect_inv k a lo hi" "k < 30"
  obtains dx dy where "axes_split ip fp iv mv ma a (dx, dy)"
proof -
  note b = bisect_angle [OF assms(3,4)]
  note l = b [THEN split_limits [OF assms(1,2)]]
  from l(1) obtain dx where
    "SingleDOF_new (fst ip) (fst fp) (fst iv) (mv * cos a) (ma * cos a) = Some (Inr dx)"
    by (rule SingleDOF_new_profile) blast
  moreover from l(2) obtain dy where
    "SingleDOF_new (snd ip) (snd fp) (snd iv) (mv * sin a) (ma * sin a) = Some (Inr dy)"
    by (rule SingleDOF_new_profile) blast
  ultimately show ?thesis using b by (intro that) (simp add: axes_split_def)
qed

lemma synced_loop_split:
  assumes "3 \<le> mv" "2 \<le> ma"
  shows "bisect_inv k a lo hi \<Longrightarrow> k + n = 30 \<Longrightarrow> n = 0 \<longrightarrow> (\<exists>b. axes_split ip fp iv mv ma b xy) \<Longrightarrow>
    \<exists>b r. synced_loop n ip fp iv mv ma a lo hi xy = Some (Inr r) \<and> axes_split ip fp iv mv ma b r"
proof (induction n arbitrary: k a lo hi xy)
  case 0
  then show ?case by auto
next
  case (Suc n)
  obtain dx dy where ax: "axes_split ip fp iv mv ma a (dx, dy)"
    using axes_split_exists [OF assms Suc.prems(1), of ip fp iv] Suc.prems(2) by auto
  then have new: "SingleDOF_new (fst ip) (fst fp) (fst iv) (mv * cos a) (ma * cos a) = Some (Inr dx)"
    "SingleDOF_new (snd ip) (snd fp) (snd iv) (mv * sin a) (ma * sin a) = Some (Inr dy)"
    by (simp_all add: axes_split_def)
  note st = bisect_step [OF Suc.prems(1)]
  have k: "Suc k + n = 30" using Suc.prems(2) by simp
  note ih = st [THEN Suc.IH, OF k, of "(dx, dy)"]
  show ?case using ih ax by (auto simp: new)
qed

lemma Synced2D_new_split:
  assumes "3 \<le> mv" "2 \<le> ma"
  obtains a dx dy where "axes_split ip fp iv mv ma a (dx, dy)"
    "Synced2D_new ip fp iv mv ma
       = Some (Inr \<lparr>dof_x = dx, dof_y = dy, tf = max (t_total dx) (t_total dy)\<rparr>)"
proof -
  obtain a r where "synced_loop 30 ip fp iv mv ma (pi / 4) 0 (pi / 2) (SingleDOF_default, SingleDOF_default)
      = Some (Inr r)" "axes_split ip fp iv mv ma a r"
    using synced_loop_split [OF assms bisect_init, of 30 ip fp iv "(SingleDOF_default, SingleDOF_default)"]
    by auto
  then show ?thesis using that by (cases r) (simp add: Synced2D_new_def)
qed

text \<open>An axis that starts at rest.\<close>

lemma axis_at_rest:
  assumes "limits mv ma" "SingleDOF_new p0 p1 0 mv ma = Some (Inr d)"
  shows "0 \<le> t \<Longrightarrow> \<bar>velocityAt d t\<bar> \<le> mv"
    and "t_total d < t \<Longrightarrow> velocityAt d t = 0 \<and> \<bar>positionAt d t - (p1 - p0)\<bar> \<le> eps + slack mv ma"
proof -
  have reg: "regular mv (0 * dof_sgn (p1 - p0))"
    using limitsD(1) [OF assms(1)] eps_pos unfolding regular_def by (intro conjI disjI2; linarith)
  show "0 \<le> t \<Longrightarrow> \<bar>velocityAt d t\<bar> \<le> mv" using SingleDOF_range(1) [OF assms(1) reg assms(2)] by simp
  show "t_total d < t \<Longrightarrow> velocityAt d t = 0 \<and> \<bar>positionAt d t - (p1 - p0)\<bar> \<le> eps + slack mv ma"
    using SingleDOF_final [OF assms(1) reg assms(2)] by simp
qed

lemma generateProfile_total:
  obtains a dx dy th' where "axes_split p0 p1 (vx v0, vy v0) motion_max_speed_x motion_max_accel_x a (dx, dy)"
    "SingleDOF_new th targetTheta (vtheta v0) motion_max_speed_theta motion_max_accel_theta = Some (Inr th')"
    "generateProfile p0 p1 th v0 = Some (Inr
       \<lparr>planar = \<lparr>dof_x = dx, dof_y = dy, tf = max (t_total dx) (t_total dy)\<rparr>,
        theta = th', valid = True, totalTime = max (t_total dx) (t_total dy)\<rparr>)"
proof -
  obtain a dx dy where "axes_split p0 p1 (vx v0, vy v0) motion_max_speed_x motion_max_accel_x a (dx, dy)"
    "Synced2D_new p0 p1 (vx v0, vy v0) motion_max_speed_x motion_max_accel_x
       = Some (Inr \<lparr>dof_x = dx, dof_y = dy, tf = max (t_total dx) (t_total dy)\<rparr>)"
    by (rule Synced2D_new_split [of motion_max_speed_x motion_max_accel_x p0 p1 "(vx v0, vy v0)"])
       (auto simp: motion_max_speed_x_def motion_max_accel_x_def)
  moreover have "limits motion_max_speed_theta motion_max_accel_theta"
    by (simp add: limits_def eps_def motion_max_speed_theta_def motion_max_accel_theta_def)
  then obtain th' where "SingleDOF_new th targetTheta (vtheta v0) motion_max_speed_theta
      motion_max_accel_theta = Some (Inr th')"
    by (rule SingleDOF_new_profile) blast
  ultimately show ?thesis by (intro that) (simp_all add: generateProfile_def)
qed

section \<open>Properties\<close>

text \<open>
  Property C1. \<open>generateProfile\<close> always returns: for every start, end, heading and initial
  velocity the bisection of \<open>Synced2D\<close> never passes an axis a limit below the tolerance of the
  solver, so that neither its loop runs for ever nor an exception escapes; the profile is marked
  valid and its total time is that of its slower axis.
\<close>

theorem generateProfile_returns:
  "\<exists>p. generateProfile p0 p1 th v0 = Some (Inr p) \<and> valid p
     \<and> totalTime p = max (t_total (dof_x (planar p))) (t_total (dof_y (planar p)))"
  by (rule generateProfile_total [of p0 p1 v0 th]) auto

text \<open>
  A move from rest keeps the robot within its planar speed limit at all times,
  whatever split of the limit the bisection found, and its rotation within the angular limit; and
  after the total time the robot stands on the end point, to within 2e-9 screen units on each axis.
\<close>

theorem move_from_rest:
  assumes "generateProfile p0 p1 th \<lparr>vx = 0, vy = 0, vtheta = 0\<rparr> = Some (Inr p)" and "0 \<le> t"
  shows "(vx (getVelocityState p t))\<^sup>2 + (vy (getVelocityState p t))\<^sup>2 \<le> motion_max_speed_x\<^sup>2
    \<and> \<bar>vtheta (getVelocityState p t)\<bar> \<le> motion_max_speed_theta
    \<and> (totalTime p < t \<longrightarrow>
         vx (getVelocityState p t) = 0 \<and> vy (getVelocityState p t) = 0
         \<and> \<bar>fst p0 + positionAt (dof_x (planar p)) t - fst p1\<bar> \<le> 2 * eps
         \<and> \<bar>snd p0 + positionAt (dof_y (planar p)) t - snd p1\<bar> \<le> 2 * eps)"
proof -
  obtain a dx dy th'
    where ax: "axes_split p0 p1 (0, 0) motion_max_speed_x motion_max_accel_x a (dx, dy)"
      and th: "SingleDOF_new th targetTheta 0 motion_max_speed_theta motion_max_accel_theta = Some (Inr th')"
      and p: "p = \<lparr>planar = \<lparr>dof_x = dx, dof_y = dy, tf = max (t_total dx) (t_total dy)\<rparr>,
                   theta = th', valid = True, totalTime = max (t_total dx) (t_total dy)\<rparr>"
    by (rule generateProfile_total [of p0 p1 "\<lparr>vx = 0, vy = 0, vtheta = 0\<rparr>" th]) (use assms(1) in auto)
  have big: "3 \<le> motion_max_speed_x" "2 \<le> motion_max_accel_x"
    by (simp_all add: motion_max_speed_x_def motion_max_accel_x_def)
  let ?lx = "motion_max_speed_x * cos a" and ?ly = "motion_max_speed_x * sin a"
  have lim: "limits ?lx (motion_max_accel_x * cos a)" "limits ?ly (motion_max_accel_x * sin a)"
    "limits motion_max_speed_theta motion_max_accel_theta"
    using ax split_limits [OF big] unfolding axes_split_def
    by (auto simp: limits_def eps_def motion_max_speed_theta_def motion_max_accel_theta_def)
  have new: "SingleDOF_new (fst p0) (fst p1) 0 ?lx (motion_max_accel_x * cos a) = Some (Inr dx)"
    "SingleDOF_new (snd p0) (snd p1) 0 ?ly (motion_max_accel_x * sin a) = Some (Inr dy)"
    using ax by (simp_all add: axes_split_def)
  note x = axis_at_rest [OF lim(1) new(1)]
  note y = axis_at_rest [OF lim(2) new(2)]
  note t = axis_at_rest [OF lim(3) th]
  have sl: "slack ?lx (motion_max_accel_x * cos a) \<le> eps" "slack ?ly (motion_max_accel_x * sin a) \<le> eps"
    using lim eps_pos
    by (auto simp: slack_def limits_def motion_max_speed_x_def motion_max_accel_x_def field_simps)
  have "(velocityAt dx t)\<^sup>2 + (velocityAt dy t)\<^sup>2 \<le> ?lx\<^sup>2 + ?ly\<^sup>2"
    using x(1) y(1) assms(2) by (intro add_mono abs_le_square_iff [THEN iffD1]) force+
  also have "\<dots> = motion_max_speed_x\<^sup>2 * ((cos a)\<^sup>2 + (sin a)\<^sup>2)" by (simp only: power_mult_distrib distrib_left)
  finally have speed: "(velocityAt dx t)\<^sup>2 + (velocityAt dy t)\<^sup>2 \<le> motion_max_speed_x\<^sup>2" by simp
  show ?thesis
    using speed t(1) assms(2) x(2) [of t] y(2) [of t] sl
    by (auto simp: p getVelocityState_def velocityAtX_def velocityAtY_def)
qed

theorem move_from_rest_witness:
  "\<exists>p. generateProfile (100, 100) (400, 300) 0 \<lparr>vx = 0, vy = 0, vtheta = 0\<rparr> = Some (Inr p)
     \<and> vx (getVelocityState p (\<bar>totalTime p\<bar> + 1)) = 0
     \<and> (vx (getVelocityState p 1))\<^sup>2 + (vy (getVelocityState p 1))\<^sup>2 \<le> 90000"
proof -
  obtain p where p: "generateProfile (100, 100) (400, 300) 0 \<lparr>vx = 0, vy = 0, vtheta = 0\<rparr> = Some (Inr p)"
    by (rule generateProfile_total) auto
  with move_from_rest [OF p, of "\<bar>totalTime p\<bar> + 1"] move_from_rest [OF p, of 1] show ?thesis
    by (auto simp: motion_max_speed_x_def)
qed

end
