(* ===== verification/GameObject.thy ===== *)
theory GameObject
  imports Motion
begin

text \<open>
  The objects of the simulator (\<open>libs/game/include/GameObject.h\<close>, \<open>libs/game/src/GameObject.cpp\<close>)
  and the collisions between them (\<open>CheckCollision\<close>, \<open>HandleBallCollision\<close> and
  \<open>HandleBotCollision\<close> in \<open>libs/game/src/Game.cpp\<close>). Positions are the upper left corners of the
  objects on the screen; distances are between their centres.
\<close>

section \<open>Objects\<close>

text \<open>A player, the value of an \<open>owner\<close> pointer: its team and its index in the team.\<close>

datatype player_id = Team1 nat | Team2 nat

record GameObject =
  position :: vec2
  obj_size :: vec2
  velocity :: vec2
  rotation :: real
  angular_velocity :: real
  locked :: bool
  obj_radius :: real
  charge :: real
  kick :: real
  dribbler :: real
  obj_owner :: "player_id option"
  currentProfile :: GeneratedProfile
  current_segment_time :: real
  current_target :: vec2
  current_velocities :: VelocityState

definition no_velocity :: VelocityState where
  "no_velocity = \<lparr>vx = 0, vy = 0, vtheta = 0\<rparr>"

text \<open>
  A default-constructed profile; the total time of its planar part has no initial value in the
  code, and nothing reads it before the profile is replaced.
\<close>

definition GeneratedProfile_default :: GeneratedProfile where
  "GeneratedProfile_default =
     \<lparr>planar = \<lparr>dof_x = SingleDOF_default, dof_y = SingleDOF_default, tf = 0\<rparr>,
      theta = SingleDOF_default, valid = False, totalTime = 0\<rparr>"

text \<open>
  The constructor for round objects, with the constructor it delegates to. Neither initialises
  \<open>kick\<close> and \<open>dribbler\<close>: their first values are what the memory holds, the parameter \<open>mem\<close>.
\<close>

definition GameObject_new :: "real \<times> real \<Rightarrow> vec2 \<Rightarrow> real \<Rightarrow> vec2 \<Rightarrow> bool \<Rightarrow> GameObject" where
  "GameObject_new mem pos r vel is_lock =
     \<lparr>position = pos, obj_size = (r * 2, r * 2), velocity = vel, rotation = 0, angular_velocity = 0,
      locked = is_lock, obj_radius = r, charge = 0, kick = fst mem, dribbler = snd mem,
      obj_owner = None, currentProfile = GeneratedProfile_default, current_segment_time = 0,
      current_target = (0, 0), current_velocities = no_velocity\<rparr>"

text \<open>The constructor without arguments, which no part of the program calls.\<close>

definition GameObject_default :: "real \<times> real \<Rightarrow> GameObject" where
  "GameObject_default mem =
     \<lparr>position = (0, 0), obj_size = (1, 1), velocity = (0, 0), rotation = 0, angular_velocity = 0,
      locked = False, obj_radius = 25 / 2, charge = 0, kick = fst mem, dribbler = snd mem,
      obj_owner = None, currentProfile = GeneratedProfile_default, current_segment_time = 0,
      current_target = (0, 0), current_velocities = no_velocity\<rparr>"

definition Reset :: "vec2 \<Rightarrow> vec2 \<Rightarrow> GameObject \<Rightarrow> GameObject" where
  "Reset pos vel ob = ob\<lparr>position := pos, velocity := vel, obj_owner := None\<rparr>"

definition center :: "GameObject \<Rightarrow> vec2" where
  "center ob = vshift (position ob) (obj_radius ob)"

section \<open>Motion of a free object\<close>

definition apply_friction :: "real \<Rightarrow> vec2 \<Rightarrow> vec2" where
  "apply_friction dt vel =
     (let speed = vlength vel
      in if speed > 0
         then let drop = ball_friction * dt;
                  newSpeed = max (speed - drop) 0
              in vscale (newSpeed / speed) vel
         else vel)"

text \<open>A wall bounce on one axis: position, size, velocity, border and extent of the window.\<close>

definition bounce :: "real \<Rightarrow> real \<Rightarrow> real \<Rightarrow> real \<Rightarrow> real \<Rightarrow> real \<times> real" where
  "bounce p s v border extent =
     (if p \<le> border then (border, - v * ball_restitution)
      else if p + s \<ge> extent - border then (extent - border - s, - v * ball_restitution)
      else (p, v))"

definition Move :: "real \<Rightarrow> real \<Rightarrow> real \<Rightarrow> GameObject \<Rightarrow> GameObject" where
  "Move dt window_width window_length ob =
     (if obj_owner ob = None
      then let vel = apply_friction dt (velocity ob);
               pos = vadd (position ob) (vscale dt vel);
               (px, vx') = bounce (fst pos) (fst (obj_size ob)) (fst vel) 45 window_width;
               (py, vy') = bounce (snd pos) (snd (obj_size ob)) (snd vel) 30 window_length
           in ob\<lparr>position := (px, py), velocity := (vx', vy')\<rparr>
      else ob)"

section \<open>Collisions\<close>

datatype Direction = UP | RIGHT | DOWN | LEFT

definition facing :: "real \<Rightarrow> vec2" where
  "facing rot = (cos (rot * pi / 180), sin (rot * pi / 180))"

text \<open>
  \<open>VectorDirection\<close>: the first compass direction with the greatest positive projection; none for
  the zero vector, whose normalisation is not a number (the code then casts -1 to the enumeration).
\<close>

definition compass :: "(Direction \<times> vec2) list" where
  "compass = [(UP, (0, 1)), (RIGHT, (1, 0)), (DOWN, (0, -1)), (LEFT, (-1, 0))]"

fun best_direction :: "vec2 \<Rightarrow> (Direction \<times> vec2) list \<Rightarrow> real \<times> Direction option \<Rightarrow> Direction option" where
  "best_direction n [] (m, best) = best"
| "best_direction n ((d, c) # ds) (m, best) =
     (let dot_product = vdot n c
      in best_direction n ds (if dot_product > m then (dot_product, Some d) else (m, best)))"

definition VectorDirection :: "vec2 \<Rightarrow> Direction option" where
  "VectorDirection target =
     (if vlength target = 0 then None else best_direction (vnormalize target) compass (0, None))"

text \<open>
  \<open>CheckCollision\<close> of the ball \<open>one\<close> with the player \<open>two\<close>, known as \<open>pid\<close>: the ball, which
  becomes owned when it touches the front of the player, and the collision, if there is one.
\<close>

definition CheckCollision ::
  "GameObject \<Rightarrow> player_id \<Rightarrow> GameObject \<Rightarrow> GameObject \<times> (Direction option \<times> vec2) option" where
  "CheckCollision one pid two =
     (let difference = vsub (center one) (center two);
          distance = vlength difference;
          radiiSum = obj_radius one + obj_radius two
      in if distance \<le> radiiSum
         then let projected_dist = vdot difference (facing (rotation two));
                  one' = (if projected_dist \<ge> radiiSum - stuck_error \<and> obj_owner one = None
                          then one\<lparr>obj_owner := Some pid\<rparr> else one)
              in (one', Some (VectorDirection difference, difference))
         else (one, None))"

definition HandleBallCollision :: "GameObject \<Rightarrow> player_id \<Rightarrow> GameObject \<Rightarrow> GameObject" where
  "HandleBallCollision ball pid player =
     (case CheckCollision ball pid player of
        (ball, None) \<Rightarrow> ball
      | (ball, Some (_, diff)) \<Rightarrow>
          let dist = vlength diff;
              penetration = (obj_radius ball + obj_radius player) - dist;
              ball = (if dist > 0 \<and> penetration > 0
                      then ball\<lparr>position := vadd (position ball) (vscale penetration (vnormalize diff))\<rparr>
                      else ball)
          in if obj_owner ball = None \<and> vlength (velocity ball) > 0 \<and> dist > 0
             then let normal = vnormalize diff;
                      velocityDotNormal = vdot (velocity ball) normal
                  in if velocityDotNormal < 0
                     then ball\<lparr>velocity := vscale ball_restitution
                            (vsub (velocity ball) (vscale (2 * velocityDotNormal) normal))\<rparr>
                     else ball
             else ball)"

text \<open>\<open>HandleBotCollision\<close> of two different players.\<close>

definition HandleBotCollision :: "GameObject \<Rightarrow> GameObject \<Rightarrow> GameObject \<times> GameObject" where
  "HandleBotCollision p1 p2 =
     (let diff = vsub (center p1) (center p2);
          dist = vlength diff;
          radiiSum = obj_radius p1 + obj_radius p2
      in if dist < radiiSum \<and> dist > 0
         then let penetration = radiiSum - dist;
                  normal = vnormalize diff
              in if \<not> locked p1 \<and> locked p2
                 then (p1\<lparr>position := vadd (position p1) (vscale penetration normal)\<rparr>, p2)
                 else if locked p1 \<and> \<not> locked p2
                 then (p1, p2\<lparr>position := vsub (position p2) (vscale penetration normal)\<rparr>)
                 else if \<not> locked p1 \<and> \<not> locked p2
                 then (p1\<lparr>position := vadd (position p1) (vscale (penetration / 2) normal)\<rparr>,
                       p2\<lparr>position := vsub (position p2) (vscale (penetration / 2) normal)\<rparr>)
                 else (p1, p2)
         else (p1, p2))"

section \<open>Vectors along a normal\<close>

lemma center_move [simp]:
  "center (ob\<lparr>position := vadd (position ob) v\<rparr>) = vadd (center ob) v"
  "center (ob\<lparr>position := vsub (position ob) v\<rparr>) = vsub (center ob) v"
  "center (ob\<lparr>velocity := w\<rparr>) = center ob" "center (ob\<lparr>obj_owner := q\<rparr>) = center ob"
  by (simp_all add: center_def vec_defs)

lemma push_along:
  assumes "0 < vlength d" "0 \<le> k"
  shows "vlength (vadd d (vscale k (vnormalize d))) = vlength d + k"
proof -
  have "vadd d (vscale k (vnormalize d)) = vscale (1 + k / vlength d) d"
    by (simp add: vnormalize_def vec_defs algebra_simps)
  then have "vlength (vadd d (vscale k (vnormalize d))) = \<bar>1 + k / vlength d\<bar> * vlength d"
    by (simp only: vlength_scale)
  also have "\<dots> = vlength d + k" using assms by (simp add: field_simps)
  finally show ?thesis .
qed

lemma vlength_sq: "(vlength v)\<^sup>2 = vdot v v"
  by (simp add: vlength_hypot vdot_def power2_eq_square [symmetric])

lemma reflect_props:
  assumes "vlength n = 1"
  shows "vlength (vsub v (vscale (2 * vdot v n) n)) = vlength v"
    and "vdot (vsub v (vscale (2 * vdot v n) n)) n = - vdot v n"
proof -
  have n: "fst n * fst n + snd n * snd n = 1"
    using assms vlength_sq [of n] by (simp add: vdot_def)
  have e: "vdot (vsub v (vscale (2 * k) n)) (vsub v (vscale (2 * k) n))
      = vdot v v - 4 * k * vdot v n + 4 * k * k * (fst n * fst n + snd n * snd n)" for k
    by (simp add: vec_defs algebra_simps)
  show "vlength (vsub v (vscale (2 * vdot v n) n)) = vlength v"
    unfolding vlength_def e n by simp
  have "vdot (vsub v (vscale (2 * k) n)) n = vdot v n - 2 * k * (fst n * fst n + snd n * snd n)" for k
    by (simp add: vec_defs algebra_simps)
  then show "vdot (vsub v (vscale (2 * vdot v n) n)) n = - vdot v n"
    unfolding n by simp
qed

section \<open>A free ball\<close>

lemma apply_friction_length:
  assumes "0 \<le> dt"
  shows "vlength (apply_friction dt v) = max (vlength v - ball_friction * dt) 0"
proof (cases "0 < vlength v")
  case True
  then show ?thesis by (simp add: apply_friction_def Let_def vlength_scale)
next
  case False
  then have "vlength v = 0" using vlength_ge_0 [of v] by linarith
  moreover have "0 \<le> ball_friction * dt" using assms by (simp add: ball_friction_def)
  ultimately show ?thesis by (simp add: apply_friction_def)
qed

lemma bounce_confined:
  assumes "2 * border + s \<le> extent" and "bounce p s v border extent = (p', v')"
  shows "border \<le> p' \<and> p' + s \<le> extent - border" "\<bar>v'\<bar> \<le> \<bar>v\<bar>"
  using assms by (auto simp: bounce_def ball_restitution_def abs_mult split: if_splits)

lemma vlength_mono: "\<bar>fst u\<bar> \<le> \<bar>fst v\<bar> \<Longrightarrow> \<bar>snd u\<bar> \<le> \<bar>snd v\<bar> \<Longrightarrow> vlength u \<le> vlength v"
  by (simp add: vlength_hypot hypot_def add_mono abs_le_square_iff)

section \<open>The ball and a player\<close>

text \<open>The whole handler as one update, for centres that do not coincide.\<close>

lemma HandleBallCollision_eq:
  assumes "0 < vlength d" "d = vsub (center ball) (center player)" "R = obj_radius ball + obj_radius player"
    and "own = (if obj_owner ball = None \<and> R - stuck_error \<le> vdot d (facing (rotation player))
                then Some pid else obj_owner ball)"
  shows "HandleBallCollision ball pid player =
    (if vlength d \<le> R
     then ball\<lparr>position := vadd (position ball) (vscale (R - vlength d) (vnormalize d)),
            velocity := (if own = None \<and> vdot (velocity ball) (vnormalize d) < 0
              then vscale ball_restitution (vsub (velocity ball)
                     (vscale (2 * vdot (velocity ball) (vnormalize d)) (vnormalize d)))
              else velocity ball),
            obj_owner := own\<rparr>
     else ball)"
proof -
  have still: "vlength (velocity ball) \<le> 0 \<Longrightarrow> \<not> vdot (velocity ball) n < 0" for n
  proof -
    assume "vlength (velocity ball) \<le> 0"
    then have "fst (velocity ball) = 0 \<and> snd (velocity ball) = 0"
      using hypot_pos_iff [of "fst (velocity ball)" "snd (velocity ball)"] by (auto simp: vlength_hypot)
    then show "\<not> vdot (velocity ball) n < 0" by (simp add: vdot_def)
  qed
  have zero: "vadd p (vscale 0 n) = p" for p n by (simp add: vec_defs)
  have moving: "vdot (velocity ball) (vnormalize d) < 0 \<Longrightarrow> 0 < vlength (velocity ball)"
    using still [of "vnormalize d"] by linarith
  have keep: "ball\<lparr>obj_owner := obj_owner ball\<rparr> = ball" by simp
  have chk: "CheckCollision ball pid player =
      (if vlength d \<le> R then (ball\<lparr>obj_owner := own\<rparr>, Some (VectorDirection d, d)) else (ball, None))"
    unfolding CheckCollision_def Let_def assms(2) [symmetric] assms(3) [symmetric] assms(4)
    by (simp add: keep)
  show ?thesis
  proof (cases "vlength d \<le> R")
    case False
    then show ?thesis by (simp add: HandleBallCollision_def chk)
  next
    case True
    note simps = HandleBallCollision_def chk Let_def
    show ?thesis
    proof (cases "R - vlength d = 0")
      case touching: True
      then have "R = vlength d" by simp
      then show ?thesis
        unfolding simps using True assms(1) moving
        by (cases own; cases "vdot (velocity ball) (vnormalize d) < 0")
           (simp_all add: zero assms(3) [symmetric])
    next
      case False
      with True have "0 < R - vlength d" by simp
      then show ?thesis
        unfolding simps using True assms(1) moving
        by (cases own; cases "vdot (velocity ball) (vnormalize d) < 0")
           (simp_all add: assms(3) [symmetric])
    qed
  qed
qed

text \<open>What the handlers keep.\<close>

lemma HandleBallCollision_owner:
  "obj_owner (HandleBallCollision ball pid player) = obj_owner ball
   \<or> obj_owner (HandleBallCollision ball pid player) = Some pid"
  by (simp add: HandleBallCollision_def CheckCollision_def Let_def)

lemma HandleBotCollision_locked:
  assumes "HandleBotCollision p1 p2 = (q1, q2)"
  shows "locked q1 = locked p1" "locked q2 = locked p2" "locked p1 \<Longrightarrow> q1 = p1" "locked p2 \<Longrightarrow> q2 = p2"
  using assms by (auto simp: HandleBotCollision_def Let_def split: if_splits)

lemma Move_owner [simp]: "obj_owner (Move dt w h ob) = obj_owner ob"
  by (simp add: Move_def Let_def split: prod.split)

section \<open>Properties\<close>

text \<open>
  Property C38. A free ball stays inside the walls and only loses speed: after \<open>Move\<close> it lies within
  the borders of a window that is large enough for it, its speed is at most what friction leaves
  of it (so a ball slower than the friction of the step stands), and nothing else of it changes;
  a ball that a player holds is not moved.
\<close>

theorem Move_confined_and_slower:
  assumes "0 \<le> dt" "90 + fst (obj_size ob) \<le> w" "60 + snd (obj_size ob) \<le> h"
  shows "if obj_owner ob = None
    then 45 \<le> fst (position (Move dt w h ob))
      \<and> fst (position (Move dt w h ob)) + fst (obj_size ob) \<le> w - 45
      \<and> 30 \<le> snd (position (Move dt w h ob))
      \<and> snd (position (Move dt w h ob)) + snd (obj_size ob) \<le> h - 30
      \<and> vlength (velocity (Move dt w h ob)) \<le> max (vlength (velocity ob) - 150 * dt) 0
      \<and> Move dt w h ob = ob\<lparr>position := position (Move dt w h ob), velocity := velocity (Move dt w h ob)\<rparr>
    else Move dt w h ob = ob"
proof (cases "obj_owner ob = None")
  case True
  define v where "v = apply_friction dt (velocity ob)"
  define p where "p = vadd (position ob) (vscale dt v)"
  obtain px vx' where x: "bounce (fst p) (fst (obj_size ob)) (fst v) 45 w = (px, vx')" by fastforce
  obtain py vy' where y: "bounce (snd p) (snd (obj_size ob)) (snd v) 30 h = (py, vy')" by fastforce
  have mv: "Move dt w h ob = ob\<lparr>position := (px, py), velocity := (vx', vy')\<rparr>"
    using True x y by (simp add: Move_def Let_def p_def v_def)
  have "vlength (vx', vy') \<le> vlength v"
    using bounce_confined(2) [OF _ x] bounce_confined(2) [OF _ y] assms by (intro vlength_mono) auto
  then have "vlength (vx', vy') \<le> max (vlength (velocity ob) - 150 * dt) 0"
    using apply_friction_length [OF assms(1), of "velocity ob"] by (simp add: v_def ball_friction_def)
  then show ?thesis
    using True bounce_confined(1) [OF _ x] bounce_confined(1) [OF _ y] assms by (simp add: mv)
next
  case False
  then show ?thesis by (auto simp: Move_def)
qed

text \<open>
  Property C37. A collision of the ball with a player is resolved: unless their centres coincide,
  the ball ends at the distance it had or at the sum of the radii, whichever is greater; the ball
  is taken exactly by a player whose front it touches while it is free; it never gains speed, and
  a ball that stays free does not move into the player it touched any more.
\<close>

theorem ball_collision_resolved:
  assumes "0 < vlength (vsub (center ball) (center player))"
    and "ball' = HandleBallCollision ball pid player"
    and "d = vsub (center ball) (center player)" and "R = obj_radius ball + obj_radius player"
  shows "vlength (vsub (center ball') (center player)) = max (vlength d) R
    \<and> obj_owner ball' = (if obj_owner ball = None \<and> vlength d \<le> R
                             \<and> R - stuck_error \<le> vdot d (facing (rotation player))
                          then Some pid else obj_owner ball)
    \<and> vlength (velocity ball') \<le> vlength (velocity ball)
    \<and> (vlength d \<le> R \<and> obj_owner ball' = None \<longrightarrow> 0 \<le> vdot (velocity ball') (vnormalize d))
    \<and> ball' = ball\<lparr>position := position ball', velocity := velocity ball', obj_owner := obj_owner ball'\<rparr>"
proof -
  define own where "own = (if obj_owner ball = None \<and> R - stuck_error \<le> vdot d (facing (rotation player))
                then Some pid else obj_owner ball)"
  have d: "0 < vlength d" using assms(1,3) by simp
  note eq = HandleBallCollision_eq [OF d assms(3,4) own_def, folded assms(2)]
  show ?thesis
  proof (cases "vlength d \<le> R")
    case False
    then show ?thesis using eq assms(3) by simp
  next
    case True
    have n: "vlength (vnormalize d) = 1" using d by (rule vlength_normalize)
    have "vsub (vadd (center ball) v) (center player) = vadd d v" for v
      by (simp add: assms(3) vec_defs)
    moreover have "center ball' = vadd (center ball) (vscale (R - vlength d) (vnormalize d))"
      using True by (simp add: eq center_def vec_defs)
    ultimately have "vlength (vsub (center ball') (center player)) = max (vlength d) R"
      using push_along [OF d, of "R - vlength d"] True by simp
    moreover have "vlength (velocity ball') \<le> vlength (velocity ball)"
      using True reflect_props(1) [OF n] by (simp add: eq vlength_scale ball_restitution_def)
    moreover have "obj_owner ball' = None \<longrightarrow> 0 \<le> vdot (velocity ball') (vnormalize d)"
      using True reflect_props(2) [OF n, of "velocity ball"]
      by (auto simp: eq ball_restitution_def vdot_def vscale_def algebra_simps)
    ultimately show ?thesis using True by (auto simp: eq own_def)
  qed
qed

definition demo_player :: GameObject where
  "demo_player = GameObject_new (0, 0) (200, 200) 18 (0, 0) False"

definition demo_ball :: GameObject where
  "demo_ball = GameObject_new (0, 0) (234, 206) 12 (-100, 0) True"

theorem Move_confined_and_slower_witness:
  "45 \<le> fst (position (Move 1 950 580 demo_ball)) \<and> velocity (Move 1 950 580 demo_ball) = (0, 0)"
proof -
  have m: "45 \<le> fst (position (Move 1 950 580 demo_ball))
      \<and> vlength (velocity (Move 1 950 580 demo_ball)) \<le> max (vlength (- 100, 0) - 150) 0"
    using Move_confined_and_slower [of 1 demo_ball 950 580] by (simp add: demo_ball_def GameObject_new_def)
  have "vlength (velocity (Move 1 950 580 demo_ball)) \<le> 0"
    using m by (simp add: vlength_hypot hypot_def)
  then have "fst (velocity (Move 1 950 580 demo_ball)) = 0 \<and> snd (velocity (Move 1 950 580 demo_ball)) = 0"
    using hypot_pos_iff [of "fst (velocity (Move 1 950 580 demo_ball))" "snd (velocity (Move 1 950 580 demo_ball))"]
    by (auto simp: vlength_hypot)
  with m show ?thesis by (simp add: prod_eq_iff)
qed

theorem ball_collision_resolved_witness:
  "obj_owner (HandleBallCollision demo_ball (Team1 0) demo_player) = Some (Team1 0)
   \<and> vlength (vsub (center (HandleBallCollision demo_ball (Team1 0) demo_player)) (center demo_player)) = 30"
proof -
  let ?d = "vsub (center demo_ball) (center demo_player)"
  have d: "?d = (28, 0)" by (simp add: demo_ball_def demo_player_def GameObject_new_def center_def vec_defs)
  have l: "vlength ?d = 28" unfolding d by (simp add: vlength_hypot hypot_def)
  then have "0 < vlength ?d" by simp
  moreover have "obj_radius demo_ball = 12" "obj_radius demo_player = 18" "obj_owner demo_ball = None"
    "rotation demo_player = 0" by (simp_all add: demo_ball_def demo_player_def GameObject_new_def)
  ultimately show ?thesis
    using ball_collision_resolved [of demo_ball demo_player, OF _ refl refl refl, of "Team1 0"]
    unfolding l by (simp add: d facing_def vdot_def stuck_error_def)
qed

text \<open>
  A collision of two players is resolved: unless their centres coincide, they end at
  the distance they had or at the sum of their radii, whichever is greater, if one of them can
  move; a locked player is not moved at all, and two players that can both move give way by the
  same amount, so that the middle between them stays.
\<close>

theorem bot_collision_resolved:
  assumes "HandleBotCollision p1 p2 = (q1, q2)" and "0 < vlength (vsub (center p1) (center p2))"
  shows "vlength (vsub (center q1) (center q2)) =
      (if locked p1 \<and> locked p2 then vlength (vsub (center p1) (center p2))
       else max (vlength (vsub (center p1) (center p2))) (obj_radius p1 + obj_radius p2))
    \<and> (locked p1 \<longrightarrow> q1 = p1) \<and> (locked p2 \<longrightarrow> q2 = p2)
    \<and> (\<not> locked p1 \<and> \<not> locked p2 \<longrightarrow>
         vadd (center q1) (center q2) = vadd (center p1) (center p2))
    \<and> q1 = p1\<lparr>position := position q1\<rparr> \<and> q2 = p2\<lparr>position := position q2\<rparr>"
proof -
  define d where "d = vsub (center p1) (center p2)"
  define R where "R = obj_radius p1 + obj_radius p2"
  define n where "n = vnormalize d"
  have d: "0 < vlength d" using assms(2) by (simp add: d_def)
  have push: "vlength (vadd d (vscale (R - vlength d) n)) = R" if "vlength d < R"
    using push_along [OF d, of "R - vlength d"] that by (simp add: n_def)
  have vec: "vsub (vadd (center p1) v) (center p2) = vadd d v"
    "vsub (center p1) (vsub (center p2) v) = vadd d v"
    "vsub (vadd (center p1) (vscale (k / 2) v)) (vsub (center p2) (vscale (k / 2) v)) = vadd d (vscale k v)"
    "vadd (vadd a v) (vsub b v) = vadd a b" for a b v k
    by (simp_all add: d_def vec_defs algebra_simps)
  have q: "q1 = fst (HandleBotCollision p1 p2)" "q2 = snd (HandleBotCollision p1 p2)"
    using assms(1) by simp_all
  have eq: "HandleBotCollision p1 p2 =
    (if vlength d < R
     then (if locked p1 then p1
           else p1\<lparr>position := vadd (position p1)
             (vscale (if locked p2 then R - vlength d else (R - vlength d) / 2) n)\<rparr>,
           if locked p2 then p2
           else p2\<lparr>position := vsub (position p2)
             (vscale (if locked p1 then R - vlength d else (R - vlength d) / 2) n)\<rparr>)
     else (p1, p2))"
    using d by (simp add: HandleBotCollision_def Let_def d_def [symmetric] R_def [symmetric] n_def [symmetric])
  show ?thesis
    unfolding d_def [symmetric] R_def [symmetric] q
    using push by (cases "vlength d < R"; cases "locked p1"; cases "locked p2")
      (simp_all add: eq vec d_def [symmetric])
qed

theorem bot_collision_resolved_witness:
  "fst (HandleBotCollision (demo_player\<lparr>locked := True\<rparr>) (demo_player\<lparr>position := (220, 200)\<rparr>))
     = demo_player\<lparr>locked := True\<rparr>
   \<and> vlength (vsub (center (demo_player\<lparr>locked := True\<rparr>))
       (center (snd (HandleBotCollision (demo_player\<lparr>locked := True\<rparr>) (demo_player\<lparr>position := (220, 200)\<rparr>))))) = 36"
proof -
  let ?p = "demo_player\<lparr>locked := True\<rparr>" and ?q = "demo_player\<lparr>position := (220, 200)\<rparr>"
  have d: "vlength (vsub (center ?p) (center ?q)) = 20"
    by (simp add: demo_player_def GameObject_new_def center_def vec_defs vlength_hypot hypot_def)
  obtain q1 q2 where h: "HandleBotCollision ?p ?q = (q1, q2)" by fastforce
  have "locked ?p" "\<not> locked ?q" "obj_radius ?p = 18" "obj_radius ?q = 18"
    by (simp_all add: demo_player_def GameObject_new_def)
  note r = bot_collision_resolved [OF h, unfolded d, simplified this, simplified]
  have "q1 = ?p" by (rule r [THEN conjunct2, THEN conjunct1])
  moreover have "vlength (vsub (center q1) (center q2)) = 36" by (rule r [THEN conjunct1])
  ultimately have "q1 = ?p" "vlength (vsub (center ?p) (center q2)) = 36" by (blast, metis)
  then show ?thesis unfolding h by simp
qed

end
