(* ===== verification/RRTX.thy ===== *)
theory RRTX
  imports Prelude
begin

text \<open>
  The path planner of \<open>libs/algo\<close> (\<open>RRTX.h\<close>, \<open>RRTX.cpp\<close>) with the points and obstacles of
  \<open>libs/cfg\<close>. The random numbers and the clock are inputs: one iteration of the planning loop
  reads the elapsed time and draws a sample, so a run is driven by a list of such readings;
  \<^term>\<open>None\<close> means that the loop is still running when the list is used up.
\<close>

section \<open>Data\<close>

text \<open>\<open>struct Point2D\<close>: a pair of coordinates; \<open>operator[]\<close> reads the axis.\<close>

type_synonym Point2D = vec2

definition Point2D_index :: "Point2D \<Rightarrow> nat \<Rightarrow> real" where
  "Point2D_index p idx = (if idx = 0 then fst p else snd p)"

record Obstacle =
  ob_id :: int
  ob_position :: Point2D
  ob_radius :: real

record RRTXNode =
  nd_position :: Point2D
  cost_from_start :: real
  parent_idx :: int

definition RRTXNode_new :: "Point2D \<Rightarrow> RRTXNode" where
  "RRTXNode_new pos = \<lparr>nd_position = pos, cost_from_start = 0, parent_idx = -1\<rparr>"

record RRTXConfig =
  debug_mode :: bool
  recalculation_time_ms :: real
  bias_to_goal :: real
  step_size :: real
  search_radius :: real
  robot_radius :: real
  field_length :: real
  field_width :: real

definition RRTXConfig_default :: RRTXConfig where
  "RRTXConfig_default =
     \<lparr>debug_mode = False, recalculation_time_ms = 10, bias_to_goal = 0.1, step_size = 0.2,
      search_radius = 2, robot_radius = 0.09, field_length = 12, field_width = 9\<rparr>"

record RRTX =
  m_start :: Point2D
  m_goal :: Point2D
  m_obstacles :: "Obstacle list"
  m_config :: RRTXConfig
  m_nodes :: "RRTXNode list"

section \<open>Setters\<close>

definition setDebugMode :: "bool \<Rightarrow> RRTX \<Rightarrow> RRTX" where
  "setDebugMode mode st = st\<lparr>m_config := (m_config st)\<lparr>debug_mode := mode\<rparr>\<rparr>"

definition setGoal :: "Point2D \<Rightarrow> RRTX \<Rightarrow> RRTX" where
  "setGoal goal st = st\<lparr>m_goal := goal\<rparr>"

definition setStart :: "Point2D \<Rightarrow> RRTX \<Rightarrow> RRTX" where
  "setStart start st = st\<lparr>m_start := start\<rparr>"

definition setObstacles :: "Obstacle list \<Rightarrow> RRTX \<Rightarrow> RRTX" where
  "setObstacles obstacles st = st\<lparr>m_obstacles := obstacles\<rparr>"

text \<open>The loop of \<open>updateObstacle\<close> overwrites the first obstacle with the same id.\<close>

fun replace_first :: "Obstacle \<Rightarrow> Obstacle list \<Rightarrow> Obstacle list \<times> bool" where
  "replace_first u [] = ([], False)"
| "replace_first u (obs # rest) =
     (if ob_id obs = ob_id u then (u # rest, True)
      else let (rest', found) = replace_first u rest in (obs # rest', found))"

definition updateObstacle :: "Obstacle \<Rightarrow> RRTX \<Rightarrow> RRTX" where
  "updateObstacle u st =
     (let (obs, found) = replace_first u (m_obstacles st)
      in st\<lparr>m_obstacles := (if found then obs else obs @ [u])\<rparr>)"

definition setRecalculationTime :: "real \<Rightarrow> RRTX \<Rightarrow> RRTX" where
  "setRecalculationTime t st = st\<lparr>m_config := (m_config st)\<lparr>recalculation_time_ms := t\<rparr>\<rparr>"

section \<open>Geometry\<close>

definition distance :: "Point2D \<Rightarrow> Point2D \<Rightarrow> real" where
  "distance p1 p2 = hypot (fst p1 - fst p2) (snd p1 - snd p2)"

definition steer :: "RRTX \<Rightarrow> Point2D \<Rightarrow> Point2D \<Rightarrow> Point2D" where
  "steer st nearest sample =
     (let dist = distance nearest sample;
          step = step_size (m_config st)
      in if dist < step then sample
         else (fst nearest + step * (fst sample - fst nearest) / dist,
               snd nearest + step * (snd sample - snd nearest) / dist))"

text \<open>The body of the loop over the obstacles: \<open>True\<close> when this obstacle is hit.\<close>

definition hits :: "RRTX \<Rightarrow> Point2D \<Rightarrow> real \<Rightarrow> real \<Rightarrow> real \<Rightarrow> Obstacle \<Rightarrow> bool" where
  "hits st p1 dx dy len obs =
     (let t = (fst (ob_position obs) - fst p1) * dx + (snd (ob_position obs) - snd p1) * dy;
          t = max 0 (min len t);
          closest_x = fst p1 + t * dx;
          closest_y = snd p1 + t * dy;
          dist_to_obs = hypot (closest_x - fst (ob_position obs)) (closest_y - snd (ob_position obs))
      in dist_to_obs < ob_radius obs + robot_radius (m_config st))"

definition isCollisionFree :: "RRTX \<Rightarrow> Point2D \<Rightarrow> Point2D \<Rightarrow> bool" where
  "isCollisionFree st p1 p2 =
     (let len = distance p1 p2
      in if len = 0 then True
         else let dx = (fst p2 - fst p1) / len;
                  dy = (snd p2 - snd p1) / len
              in \<not> list_ex (hits st p1 dx dy len) (m_obstacles st))"

section \<open>Planning\<close>

text \<open>The draws of one call: the probability, and the coordinates used if it exceeds the bias.\<close>

type_synonym draw = "real \<times> real \<times> real"

definition sampleFree :: "RRTX \<Rightarrow> draw \<Rightarrow> Point2D" where
  "sampleFree st d =
     (case d of (prob, sx, sy) \<Rightarrow>
        if prob < bias_to_goal (m_config st) then m_goal st else (sx, sy))"

text \<open>The linear search for the nearest node, from a start index and distance.\<close>

fun nearest_from :: "RRTXNode list \<Rightarrow> Point2D \<Rightarrow> nat \<Rightarrow> int \<times> real \<Rightarrow> int \<times> real" where
  "nearest_from [] p i best = best"
| "nearest_from (n # ns) p i best =
     (let d = distance (nd_position n) p
      in nearest_from ns p (Suc i) (if d < snd best then (int i, d) else best))"

text \<open>The planning loop. The result is the node vector and \<open>best_goal_node\<close>.\<close>

fun plan_loop :: "RRTX \<Rightarrow> RRTXNode list \<Rightarrow> (real \<times> draw) list \<Rightarrow> (RRTXNode list \<times> int) option" where
  "plan_loop st nodes [] = None"
| "plan_loop st nodes ((elapsed_ms, d) # readings) =
     (if elapsed_ms \<ge> recalculation_time_ms (m_config st) then Some (nodes, -1)
      else
        let rand_pos = sampleFree st d;
            nearest_idx = fst (nearest_from nodes rand_pos 0 (0, 1000000000));
            nearest = nodes ! nat nearest_idx;
            nearest_pos = nd_position nearest;
            new_pos = steer st nearest_pos rand_pos
        in if \<not> isCollisionFree st nearest_pos new_pos then plan_loop st nodes readings
           else
             let new_node = (RRTXNode_new new_pos)
                   \<lparr>parent_idx := nearest_idx,
                    cost_from_start := cost_from_start nearest + distance nearest_pos new_pos\<rparr>;
                 nodes = nodes @ [new_node]
             in if distance new_pos (m_goal st) < step_size (m_config st)
                   \<and> isCollisionFree st new_pos (m_goal st)
                then Some (nodes, int (length nodes) - 1)
                else plan_loop st nodes readings)"

text \<open>The loop that follows the parent indices; it has no bound of its own.\<close>

partial_function (option) backtrack ::
  "RRTXNode list \<Rightarrow> int \<Rightarrow> Point2D list \<Rightarrow> Point2D list option"
where
  "backtrack nodes cur path =
     (if cur = -1 then Some path
      else backtrack nodes (parent_idx (nodes ! nat cur)) (path @ [nd_position (nodes ! nat cur)]))"

text \<open>
  The path from the backtracked nodes: reversed, and the goal appended after a successful search,
  or when it can be reached from the last node and is more than 0.01 away.
\<close>

definition finish_path :: "RRTX \<Rightarrow> int \<Rightarrow> Point2D list \<Rightarrow> Point2D list" where
  "finish_path st best_goal_node p =
     (let path = rev p
      in if best_goal_node \<noteq> -1 then path @ [m_goal st]
         else if path \<noteq> [] \<and> isCollisionFree st (last path) (m_goal st)
                 \<and> distance (last path) (m_goal st) > 0.01
         then path @ [m_goal st]
         else path)"

definition plan :: "RRTX \<Rightarrow> (real \<times> draw) list \<Rightarrow> (RRTX \<times> Point2D list) option" where
  "plan st readings =
     (if isCollisionFree st (m_start st) (m_goal st) then Some (st, [m_start st, m_goal st])
      else
        (case plan_loop st [RRTXNode_new (m_start st)] readings of
           None \<Rightarrow> None
         | Some (nodes, best_goal_node) \<Rightarrow>
             (let cur = (if best_goal_node = -1
                         then fst (nearest_from nodes (m_goal st) 0 (-1, 1000000000))
                         else best_goal_node)
              in (case backtrack nodes cur [] of
                    None \<Rightarrow> None
                  | Some p \<Rightarrow> Some (st\<lparr>m_nodes := nodes\<rparr>, finish_path st best_goal_node p)))))"

definition PlanningStep ::
  "Point2D \<Rightarrow> Point2D \<Rightarrow> Obstacle list \<Rightarrow> RRTX \<Rightarrow> (real \<times> draw) list \<Rightarrow>
   (RRTX \<times> Point2D list) option"
where
  "PlanningStep start goal obstacles st readings =
     plan (setObstacles obstacles (setGoal goal (setStart start st))) readings"

text \<open>The configuration is never changed by planning.\<close>

lemma plan_config: "plan st readings = Some (st', path) \<Longrightarrow> m_config st' = m_config st"
  by (auto simp: plan_def Let_def split: if_splits option.splits)

lemma PlanningStep_config:
  "PlanningStep start goal obstacles st readings = Some (st', path) \<Longrightarrow> m_config st' = m_config st"
  by (auto simp: PlanningStep_def setObstacles_def setGoal_def setStart_def dest!: plan_config)

section \<open>The collision test\<close>

definition segment_point :: "Point2D \<Rightarrow> Point2D \<Rightarrow> real \<Rightarrow> Point2D" where
  "segment_point p1 p2 s = (fst p1 + s * (fst p2 - fst p1), snd p1 + s * (snd p2 - snd p1))"

lemma distance_ge_0 [simp]: "0 \<le> distance p q"
  by (simp add: distance_def)

lemma distance_self [simp]: "distance p p = 0"
  by (simp add: distance_def)

lemma distance_eq_0: "distance p q = 0 \<longleftrightarrow> p = q"
  by (auto simp: distance_def prod_eq_iff)

lemma distance_commute: "distance p q = distance q p"
  by (simp add: distance_def hypot_minus)

lemma clamp_closest:
  fixes u len :: real
  assumes "0 \<le> t" "t \<le> len"
  shows "(max 0 (min len u) - u)\<^sup>2 \<le> (t - u)\<^sup>2"
  using assms by (intro abs_le_square_iff [THEN iffD1]) (auto simp: max_def min_def)

text \<open>On a line with unit direction, squared distances are a parabola in the parameter.\<close>

lemma line_distance_sq:
  fixes dx dy :: real
  assumes "dx\<^sup>2 + dy\<^sup>2 = 1"
  shows "(a + t * dx)\<^sup>2 + (b + t * dy)\<^sup>2 = (t + (a * dx + b * dy))\<^sup>2 + (a * dy - b * dx)\<^sup>2"
proof -
  have "(t + (a * dx + b * dy))\<^sup>2 + (a * dy - b * dx)\<^sup>2
      = t\<^sup>2 + 2 * t * (a * dx + b * dy) + (a\<^sup>2 + b\<^sup>2) * (dx\<^sup>2 + dy\<^sup>2)"
    by (simp add: power2_eq_square algebra_simps)
  also have "\<dots> = t\<^sup>2 * (dx\<^sup>2 + dy\<^sup>2) + 2 * t * (a * dx + b * dy) + (a\<^sup>2 + b\<^sup>2)"
    by (simp add: assms)
  also have "\<dots> = (a + t * dx)\<^sup>2 + (b + t * dy)\<^sup>2"
    by (simp add: power2_eq_square algebra_simps)
  finally show ?thesis by simp
qed

lemma hits_iff:
  assumes len: "distance p1 p2 = len" "0 < len"
  shows "hits st p1 ((fst p2 - fst p1) / len) ((snd p2 - snd p1) / len) len obs \<longleftrightarrow>
    (\<exists>s. 0 \<le> s \<and> s \<le> 1
       \<and> distance (segment_point p1 p2 s) (ob_position obs) < ob_radius obs + robot_radius (m_config st))"
proof -
  let ?dx = "(fst p2 - fst p1) / len" and ?dy = "(snd p2 - snd p1) / len"
  let ?a = "fst p1 - fst (ob_position obs)" and ?b = "snd p1 - snd (ob_position obs)"
  let ?u = "- (?a * ?dx + ?b * ?dy)" and ?R = "ob_radius obs + robot_radius (m_config st)"
  let ?t = "max 0 (min len ?u)"
  have "len\<^sup>2 = (fst p2 - fst p1)\<^sup>2 + (snd p2 - snd p1)\<^sup>2"
    unfolding len(1) [symmetric] distance_def by (simp add: power2_commute)
  then have "?dx\<^sup>2 + ?dy\<^sup>2 = len\<^sup>2 / len\<^sup>2"
    by (simp only: power_divide add_divide_distrib)
  with len(2) have unit: "?dx\<^sup>2 + ?dy\<^sup>2 = 1" by simp
  have D: "distance (segment_point p1 p2 s) (ob_position obs)
      = sqrt ((s * len - ?u)\<^sup>2 + (?a * ?dy - ?b * ?dx)\<^sup>2)" for s
  proof -
    have "fst (segment_point p1 p2 s) - fst (ob_position obs) = ?a + s * len * ?dx"
      and "snd (segment_point p1 p2 s) - snd (ob_position obs) = ?b + s * len * ?dy"
      using len(2) by (simp_all add: segment_point_def)
    then show ?thesis
      unfolding distance_def hypot_def by (simp only: line_distance_sq [OF unit] diff_minus_eq_add)
  qed
  have H: "hits st p1 ?dx ?dy len obs \<longleftrightarrow> distance (segment_point p1 p2 (?t / len)) (ob_position obs) < ?R"
  proof -
    have neg: "(c - a) * dx + (d - b) * dy = - ((a - c) * dx + (b - d) * dy)"
      for a b c d dx dy :: real by (simp add: algebra_simps)
    have u: "(fst (ob_position obs) - fst p1) * ?dx + (snd (ob_position obs) - snd p1) * ?dy = ?u"
      by (rule neg)
    have "fst (segment_point p1 p2 (t / len)) = fst p1 + t * ?dx"
      and "snd (segment_point p1 p2 (t / len)) = snd p1 + t * ?dy" for t
      by (simp_all add: segment_point_def)
    then show ?thesis
      unfolding hits_def Let_def distance_def u by simp
  qed
  have t01: "0 \<le> ?t / len" "?t / len \<le> 1" using len(2) by simp_all
  show ?thesis
  proof
    assume "hits st p1 ?dx ?dy len obs"
    with H t01 show "\<exists>s. 0 \<le> s \<and> s \<le> 1 \<and> distance (segment_point p1 p2 s) (ob_position obs) < ?R"
      by blast
  next
    assume "\<exists>s. 0 \<le> s \<and> s \<le> 1 \<and> distance (segment_point p1 p2 s) (ob_position obs) < ?R"
    then obtain s where s: "0 \<le> s" "s \<le> 1"
      "distance (segment_point p1 p2 s) (ob_position obs) < ?R" by blast
    have "(?t - ?u)\<^sup>2 \<le> (s * len - ?u)\<^sup>2"
      using s len(2) by (intro clamp_closest) (auto simp: mult_le_cancel_right1)
    then have "distance (segment_point p1 p2 (?t / len)) (ob_position obs)
        \<le> distance (segment_point p1 p2 s) (ob_position obs)"
      using len(2) by (simp add: D)
    with H s(3) show "hits st p1 ?dx ?dy len obs" by simp
  qed
qed

text \<open>Every point of the segment keeps the required clearance from every obstacle centre.\<close>

definition segment_clear :: "RRTX \<Rightarrow> Point2D \<Rightarrow> Point2D \<Rightarrow> bool" where
  "segment_clear st p1 p2 \<longleftrightarrow>
     (\<forall>obs \<in> set (m_obstacles st). \<forall>s. 0 \<le> s \<and> s \<le> 1 \<longrightarrow>
        ob_radius obs + robot_radius (m_config st)
          \<le> distance (segment_point p1 p2 s) (ob_position obs))"

lemma isCollisionFree_segment: "p1 \<noteq> p2 \<Longrightarrow> isCollisionFree st p1 p2 = segment_clear st p1 p2"
proof -
  assume "p1 \<noteq> p2"
  then have l: "0 < distance p1 p2"
    using distance_eq_0 [of p1 p2] distance_ge_0 [of p1 p2] by linarith
  then show ?thesis
    by (auto simp: isCollisionFree_def Let_def list_ex_iff hits_iff [OF refl l] not_less
        segment_clear_def)
qed

lemma isCollisionFree_self: "isCollisionFree st p p"
  by (simp add: isCollisionFree_def)

text \<open>
  For two different points the collision test says exactly whether every point of
  the straight segment between them keeps the obstacle radius plus the robot radius from every
  obstacle centre. For a segment of length zero it always answers "free", also inside an obstacle.
\<close>

theorem isCollisionFree_iff_clearance:
  "(p1 \<noteq> p2 \<longrightarrow> isCollisionFree st p1 p2 = segment_clear st p1 p2) \<and> isCollisionFree st p1 p1"
  by (simp add: isCollisionFree_segment isCollisionFree_self)

definition demo_planner :: RRTX where
  "demo_planner = \<lparr>m_start = (0, 0), m_goal = (4, 0), m_obstacles = [\<lparr>ob_id = 1, ob_position = (2, 0),
      ob_radius = 0.5\<rparr>], m_config = RRTXConfig_default, m_nodes = []\<rparr>"

theorem isCollisionFree_iff_clearance_witness:
  "\<not> isCollisionFree demo_planner (0, 0) (4, 0) \<and> isCollisionFree demo_planner (2, 0) (2, 0)"
proof -
  have "distance (segment_point (0, 0) (4, 0) (1 / 2)) (2, 0) = 0"
    by (simp add: segment_point_def)
  then have "\<not> (\<forall>s. 0 \<le> s \<and> s \<le> 1 \<longrightarrow>
      0.5 + 0.09 \<le> distance (segment_point (0, 0) (4, 0) s) (2, 0))"
    by (intro notI) (drule spec [of _ "1 / 2"], simp)
  then show ?thesis
    using isCollisionFree_iff_clearance [of "(0, 0)" "(4, 0)" demo_planner]
      isCollisionFree_iff_clearance [of "(2, 0)" "(2, 0)" demo_planner]
    by (simp add: segment_clear_def demo_planner_def RRTXConfig_default_def)
qed

section \<open>The tree of nodes\<close>

lemma steer_distance:
  assumes "0 \<le> step_size (m_config st)"
  shows "distance p (steer st p q) \<le> step_size (m_config st)"
proof (cases "distance p q < step_size (m_config st)")
  case True
  then show ?thesis by (simp add: steer_def)
next
  case False
  let ?d = "distance p q" and ?step = "step_size (m_config st)"
  have "distance p (steer st p q) = hypot (?step / ?d * (fst p - fst q)) (?step / ?d * (snd p - snd q))"
    using False by (simp add: steer_def distance_def hypot_def power2_eq_square Let_def
        diff_divide_distrib algebra_simps)
  also have "\<dots> = ?step / ?d * ?d"
    using assms by (simp only: hypot_scale) (simp add: distance_def)
  also have "\<dots> \<le> ?step" using assms by (cases "?d = 0") auto
  finally show ?thesis .
qed

lemma nearest_from_cases:
  "nearest_from ns p i best = best \<or>
   (\<exists>k < length ns. nearest_from ns p i best = (int (i + k), distance (nd_position (ns ! k)) p))"
proof (induction ns arbitrary: i best)
  case Nil
  then show ?case by simp
next
  case (Cons n ns)
  let ?b = "if distance (nd_position n) p < snd best then (int i, distance (nd_position n) p) else best"
  from Cons.IH [of "Suc i" ?b] show ?case
  proof
    assume "nearest_from ns p (Suc i) ?b = ?b"
    then show ?thesis by (cases "?b = best") (auto simp: Let_def intro!: exI [of _ 0] split: if_splits)
  next
    assume "\<exists>k < length ns. nearest_from ns p (Suc i) ?b
        = (int (Suc i + k), distance (nd_position (ns ! k)) p)"
    then obtain k where "k < length ns" "nearest_from ns p (Suc i) ?b
        = (int (Suc i + k), distance (nd_position (ns ! k)) p)" by blast
    then show ?thesis by (intro disjI2 exI [of _ "Suc k"]) (simp add: Let_def)
  qed
qed

lemma nearest_from_min:
  "snd (nearest_from ns p i best) \<le> snd best \<and>
   (\<forall>n \<in> set ns. snd (nearest_from ns p i best) \<le> distance (nd_position n) p)"
proof (induction ns arbitrary: i best)
  case Nil
  then show ?case by simp
next
  case (Cons n ns)
  let ?b = "if distance (nd_position n) p < snd best then (int i, distance (nd_position n) p) else best"
  have "snd ?b \<le> snd best" "snd ?b \<le> distance (nd_position n) p" by auto
  with Cons.IH [of "Suc i" ?b] show ?case by (auto simp: Let_def intro: order_trans)
qed

lemma nearest_from_bound:
  assumes "ns \<noteq> []"
  shows "\<exists>k < length ns. fst (nearest_from ns p 0 (0, d)) = int k"
  using nearest_from_cases [of ns p 0 "(0, d)"] assms by fastforce

text \<open>
  Node 0 is the start; every other node hangs on an earlier one, over a collision-free edge no
  longer than the step, and its cost is the cost of its parent plus the length of the edge.
\<close>

definition tree_edge :: "RRTX \<Rightarrow> RRTXNode list \<Rightarrow> nat \<Rightarrow> nat \<Rightarrow> bool" where
  "tree_edge st nodes j i \<longleftrightarrow>
     parent_idx (nodes ! i) = int j
     \<and> isCollisionFree st (nd_position (nodes ! j)) (nd_position (nodes ! i))
     \<and> distance (nd_position (nodes ! j)) (nd_position (nodes ! i)) \<le> step_size (m_config st)
     \<and> cost_from_start (nodes ! i)
        = cost_from_start (nodes ! j) + distance (nd_position (nodes ! j)) (nd_position (nodes ! i))"

definition tree_inv :: "RRTX \<Rightarrow> RRTXNode list \<Rightarrow> bool" where
  "tree_inv st nodes \<longleftrightarrow>
     nodes \<noteq> [] \<and> nodes ! 0 = RRTXNode_new (m_start st)
     \<and> (\<forall>i < length nodes. 0 < i \<longrightarrow> (\<exists>j < i. tree_edge st nodes j i))"

lemma tree_inv_init: "tree_inv st [RRTXNode_new (m_start st)]"
  by (simp add: tree_inv_def)

lemma tree_edge_append:
  "j < length nodes \<Longrightarrow> i < length nodes \<Longrightarrow> tree_edge st (nodes @ [n]) j i = tree_edge st nodes j i"
  by (simp add: tree_edge_def nth_append)

lemma tree_inv_append:
  assumes "tree_inv st nodes" "j < length nodes" "tree_edge st (nodes @ [n]) j (length nodes)"
  shows "tree_inv st (nodes @ [n])"
  unfolding tree_inv_def
proof (intro conjI allI impI)
  show "(nodes @ [n]) ! 0 = RRTXNode_new (m_start st)"
    using assms(1) by (simp add: tree_inv_def nth_append)
next
  fix i
  assume "i < length (nodes @ [n])" "0 < i"
  then consider "i < length nodes" | "i = length nodes" by force
  then show "\<exists>j < i. tree_edge st (nodes @ [n]) j i"
  proof cases
    case 1
    with assms(1) \<open>0 < i\<close> obtain k where "k < i" "tree_edge st nodes k i"
      by (auto simp: tree_inv_def)
    with 1 show ?thesis using tree_edge_append [of k nodes i st n] by auto
  next
    case 2
    with assms(2,3) show ?thesis by blast
  qed
qed simp

text \<open>What the loop hands over when it stops: a tree, and possibly a node next to the goal.\<close>

definition loop_post :: "RRTX \<Rightarrow> RRTXNode list \<times> int \<Rightarrow> bool" where
  "loop_post st r \<longleftrightarrow>
     tree_inv st (fst r)
     \<and> (snd r = -1 \<or>
        (\<exists>i < length (fst r). snd r = int i
           \<and> isCollisionFree st (nd_position (fst r ! i)) (m_goal st)))"

lemma plan_loop_post:
  assumes "0 \<le> step_size (m_config st)"
  shows "tree_inv st nodes \<Longrightarrow> plan_loop st nodes readings = Some r \<Longrightarrow>
    loop_post st r \<and> length (fst r) \<le> length nodes + length readings"
proof (induction readings arbitrary: nodes)
  case Nil
  then show ?case by simp
next
  case (Cons rd readings)
  obtain el d where rd: "rd = (el, d)" by (cases rd)
  let ?p = "sampleFree st d"
  let ?k = "fst (nearest_from nodes ?p 0 (0, 1000000000))"
  let ?near = "nodes ! nat ?k"
  let ?new = "steer st (nd_position ?near) ?p"
  let ?n = "(RRTXNode_new ?new)\<lparr>parent_idx := ?k,
      cost_from_start := cost_from_start ?near + distance (nd_position ?near) ?new\<rparr>"
  obtain k where k: "k < length nodes" "?k = int k"
    using nearest_from_bound [of nodes ?p "1000000000"] Cons.prems(1) unfolding tree_inv_def by blast
  show ?case
  proof (cases "recalculation_time_ms (m_config st) \<le> el")
    case True
    with Cons.prems rd show ?thesis by (auto simp: loop_post_def)
  next
    case time: False
    show ?thesis
    proof (cases "isCollisionFree st (nd_position ?near) ?new")
      case False
      with time Cons.prems rd have "plan_loop st nodes readings = Some r" by (simp add: Let_def)
      with Cons.IH [OF Cons.prems(1)] show ?thesis by auto
    next
      case free: True
      have "tree_edge st (nodes @ [?n]) k (length nodes)"
        using k free steer_distance [OF assms, of "nd_position ?near" ?p]
        by (simp add: tree_edge_def nth_append RRTXNode_new_def)
      then have inv: "tree_inv st (nodes @ [?n])" by (rule tree_inv_append [OF Cons.prems(1) k(1)])
      show ?thesis
      proof (cases "distance ?new (m_goal st) < step_size (m_config st)
          \<and> isCollisionFree st ?new (m_goal st)")
        case True
        with time free Cons.prems rd have "r = (nodes @ [?n], int (length nodes))"
          by (simp add: Let_def)
        moreover have "nd_position ((nodes @ [?n]) ! length nodes) = ?new"
          by (simp add: RRTXNode_new_def)
        ultimately show ?thesis using inv True by (auto simp: loop_post_def)
      next
        case False
        with time free Cons.prems rd have "plan_loop st (nodes @ [?n]) readings = Some r"
          by (auto simp: Let_def)
        with Cons.IH [OF inv] show ?thesis by auto
      qed
    qed
  qed
qed

section \<open>Following the parents\<close>

fun path_length :: "Point2D list \<Rightarrow> real" where
  "path_length (p # q # ps) = distance p q + path_length (q # ps)"
| "path_length _ = 0"

lemma path_length_append:
  "ps \<noteq> [] \<Longrightarrow> path_length (ps @ [q]) = path_length ps + distance (last ps) q"
  by (induction ps rule: path_length.induct) auto

definition good_edge :: "RRTX \<Rightarrow> Point2D \<Rightarrow> Point2D \<Rightarrow> bool" where
  "good_edge st p q \<longleftrightarrow> isCollisionFree st p q \<and> distance p q \<le> step_size (m_config st)"

text \<open>\<open>tree_path st nodes i ps\<close>: the way from the start to node \<open>i\<close> in the tree.\<close>

definition tree_path :: "RRTX \<Rightarrow> RRTXNode list \<Rightarrow> nat \<Rightarrow> Point2D list \<Rightarrow> bool" where
  "tree_path st nodes i ps \<longleftrightarrow>
     ps \<noteq> [] \<and> hd ps = m_start st \<and> last ps = nd_position (nodes ! i)
     \<and> successively (good_edge st) ps \<and> path_length ps = cost_from_start (nodes ! i)"

lemma successively_snoc:
  "ps \<noteq> [] \<Longrightarrow> successively P (ps @ [q]) \<longleftrightarrow> successively P ps \<and> P (last ps) q"
  by (simp add: successively_append_iff)

lemma backtrack_path:
  assumes inv: "tree_inv st nodes"
  shows "i < length nodes \<Longrightarrow>
    \<exists>ps. backtrack nodes (int i) acc = Some (acc @ rev ps) \<and> tree_path st nodes i ps"
proof (induction i arbitrary: acc rule: less_induct)
  case (less i)
  let ?acc = "acc @ [nd_position (nodes ! i)]"
  have step: "backtrack nodes (int i) acc = backtrack nodes (parent_idx (nodes ! i)) ?acc"
    by (subst backtrack.simps) simp
  show ?case
  proof (cases "i = 0")
    case True
    have root: "nodes ! 0 = RRTXNode_new (m_start st)" using inv by (simp add: tree_inv_def)
    with True step have "backtrack nodes (int i) acc = Some (acc @ rev [m_start st])"
      by (simp add: RRTXNode_new_def backtrack.simps [of nodes "- 1"])
    moreover have "tree_path st nodes i [m_start st]"
      using True root by (simp add: tree_path_def RRTXNode_new_def)
    ultimately show ?thesis by blast
  next
    case False
    with inv less.prems obtain j where j: "j < i" "tree_edge st nodes j i"
      by (auto simp: tree_inv_def)
    then obtain ps where ps: "backtrack nodes (int j) ?acc = Some (?acc @ rev ps)"
        "tree_path st nodes j ps"
      using less.IH [of j ?acc] less.prems by auto
    have "backtrack nodes (int i) acc = Some (acc @ rev (ps @ [nd_position (nodes ! i)]))"
      using step ps(1) j(2) by (simp add: tree_edge_def)
    moreover have "tree_path st nodes i (ps @ [nd_position (nodes ! i)])"
      using ps(2) j(2) by (simp add: tree_path_def tree_edge_def successively_snoc
          path_length_append good_edge_def)
    ultimately show ?thesis by blast
  qed
qed

lemma backtrack_none: "backtrack nodes (-1) acc = Some acc"
  by (subst backtrack.simps) simp

section \<open>The planner's results\<close>

text \<open>
  The shape of a result: the direct path; or a tree path, followed by the goal if that is
  reachable without collision; or nothing, when no node is within a distance of 1e9 of the goal.
\<close>

definition plan_result :: "RRTX \<Rightarrow> RRTX \<Rightarrow> Point2D list \<Rightarrow> bool" where
  "plan_result st st' path \<longleftrightarrow>
     (st' = st \<and> path = [m_start st, m_goal st] \<and> isCollisionFree st (m_start st) (m_goal st))
     \<or> (st' = st\<lparr>m_nodes := m_nodes st'\<rparr> \<and> tree_inv st (m_nodes st')
        \<and> (path = [] \<and> (\<forall>n \<in> set (m_nodes st'). 1000000000 \<le> distance (nd_position n) (m_goal st))
           \<or> (\<exists>i < length (m_nodes st'). \<exists>ps. backtrack (m_nodes st') (int i) [] = Some (rev ps)
                \<and> tree_path st (m_nodes st') i ps
                \<and> (path = ps
                   \<or> path = ps @ [m_goal st] \<and> isCollisionFree st (last ps) (m_goal st)))))"

lemma plan_cases:
  assumes step: "0 \<le> step_size (m_config st)"
    and loop: "plan_loop st [RRTXNode_new (m_start st)] readings = Some (nodes, b)"
    and blocked: "\<not> isCollisionFree st (m_start st) (m_goal st)"
  shows "\<exists>path. plan st readings = Some (st\<lparr>m_nodes := nodes\<rparr>, path)
    \<and> plan_result st (st\<lparr>m_nodes := nodes\<rparr>) path"
proof -
  have post: "loop_post st (nodes, b)"
    using plan_loop_post [OF step tree_inv_init loop] by simp
  then have inv: "tree_inv st nodes" by (simp add: loop_post_def)
  let ?near = "nearest_from nodes (m_goal st) 0 (-1, 1000000000)"
  let ?cur = "if b = -1 then fst ?near else b"
  have eq: "plan st readings = (case backtrack nodes ?cur [] of None \<Rightarrow> None
      | Some p \<Rightarrow> Some (st\<lparr>m_nodes := nodes\<rparr>, finish_path st b p))"
    using loop blocked by (simp add: plan_def)
  show ?thesis
  proof (cases "?cur = -1")
    case True
    have b: "b = -1" "fst ?near = -1"
      using True post by (auto simp: loop_post_def split: if_splits)
    then have "?near = (-1, 1000000000)"
      using nearest_from_cases [of nodes "m_goal st" 0 "(-1, 1000000000)"] by auto
    then have far: "\<forall>n \<in> set nodes. 1000000000 \<le> distance (nd_position n) (m_goal st)"
      using nearest_from_min [of nodes "m_goal st" 0 "(-1, 1000000000)"] by simp
    show ?thesis
      unfolding eq using b far inv
      by (auto simp: backtrack_none finish_path_def plan_result_def)
  next
    case False
    obtain i where i: "i < length nodes" "?cur = int i"
      "b \<noteq> -1 \<Longrightarrow> isCollisionFree st (nd_position (nodes ! i)) (m_goal st)"
      using False post nearest_from_cases [of nodes "m_goal st" 0 "(-1, 1000000000)"]
      by (force simp: loop_post_def split: if_splits)
    obtain ps where ps: "backtrack nodes (int i) [] = Some (rev ps)" "tree_path st nodes i ps"
      using backtrack_path [OF inv i(1), of "[]"] by auto
    then have "plan st readings = Some (st\<lparr>m_nodes := nodes\<rparr>, finish_path st b (rev ps))"
      using i(2) eq by simp
    moreover have "plan_result st (st\<lparr>m_nodes := nodes\<rparr>) (finish_path st b (rev ps))"
    proof -
      have "finish_path st b (rev ps) = ps
          \<or> finish_path st b (rev ps) = ps @ [m_goal st] \<and> isCollisionFree st (last ps) (m_goal st)"
        using i(3) ps(2) by (auto simp: finish_path_def tree_path_def)
      with inv i(1) ps show ?thesis unfolding plan_result_def by auto
    qed
    ultimately show ?thesis by blast
  qed
qed

lemma plan_result_sound:
  assumes "0 \<le> step_size (m_config st)" "plan st readings = Some (st', path)"
  shows "plan_result st st' path"
proof (cases "isCollisionFree st (m_start st) (m_goal st)")
  case True
  with assms(2) show ?thesis by (auto simp: plan_def plan_result_def)
next
  case False
  with assms(2) obtain nodes b where "plan_loop st [RRTXNode_new (m_start st)] readings = Some (nodes, b)"
    by (auto simp: plan_def split: option.splits)
  from plan_cases [OF assms(1) this False] assms(2) show ?thesis by auto
qed

lemma good_edges_free: "successively (good_edge st) ps \<Longrightarrow> successively (isCollisionFree st) ps"
  by (erule successively_mono) (simp add: good_edge_def)

lemma plan_result_free: "plan_result st st' path \<Longrightarrow> successively (isCollisionFree st) path"
  by (auto simp: plan_result_def tree_path_def successively_snoc dest: good_edges_free)

abbreviation planning_state :: "Point2D \<Rightarrow> Point2D \<Rightarrow> Obstacle list \<Rightarrow> RRTX \<Rightarrow> RRTX" where
  "planning_state start goal obstacles st \<equiv> setObstacles obstacles (setGoal goal (setStart start st))"

lemma planning_state_fields [simp]:
  "m_start (planning_state start goal obstacles st) = start"
  "m_goal (planning_state start goal obstacles st) = goal"
  "m_obstacles (planning_state start goal obstacles st) = obstacles"
  "m_config (planning_state start goal obstacles st) = m_config st"
  by (simp_all add: setObstacles_def setGoal_def setStart_def)

lemma plan_result_start: "plan_result st st' path \<Longrightarrow> path \<noteq> [] \<Longrightarrow> hd path = m_start st"
  by (auto simp: plan_result_def tree_path_def)

section \<open>The contract of a planner\<close>

text \<open>
  What the simulator relies on: a path starts where it was asked to start, and between two way
  points it is clear. The planner's state has to be sane, here: the step size not negative.
\<close>

locale path_planner =
  fixes plan_path :: "vec2 \<Rightarrow> vec2 \<Rightarrow> 'o list \<Rightarrow> 's \<Rightarrow> 'r \<Rightarrow> ('s \<times> vec2 list) option"
    and sane :: "'s \<Rightarrow> bool"
    and clear :: "'s \<Rightarrow> 'o list \<Rightarrow> vec2 \<Rightarrow> vec2 \<Rightarrow> bool"
  assumes path_start: "sane s \<Longrightarrow> plan_path start goal obs s r = Some (s', path) \<Longrightarrow> path \<noteq> [] \<Longrightarrow> hd path = start"
    and path_clear: "sane s \<Longrightarrow> plan_path start goal obs s r = Some (s', path) \<Longrightarrow>
           successively (\<lambda>p q. p \<noteq> q \<longrightarrow> clear s obs p q) path"
begin

text \<open>The second way point, which the simulator drives to, is reached by a clear leg.\<close>

lemma first_leg_clear:
  assumes "sane s" "plan_path start goal obs s r = Some (s', path)" "1 < length path" "start \<noteq> path ! 1"
  shows "clear s obs start (path ! 1)"
proof -
  obtain p q rest where path: "path = p # q # rest"
    using assms(3) by (metis One_nat_def length_0_conv length_Suc_conv less_numeral_extra(4) list.exhaust not_less_zero)
  then have "p = start" using path_start [OF assms(1,2)] by simp
  then show ?thesis using path_clear [OF assms(1,2)] assms(4) by (simp add: path)
qed

end

definition leg_clear :: "RRTX \<Rightarrow> Obstacle list \<Rightarrow> Point2D \<Rightarrow> Point2D \<Rightarrow> bool" where
  "leg_clear st obstacles p q \<longleftrightarrow>
     (\<forall>obs \<in> set obstacles. \<forall>s. 0 \<le> s \<and> s \<le> 1 \<longrightarrow>
        ob_radius obs + robot_radius (m_config st) \<le> distance (segment_point p q s) (ob_position obs))"

lemma PlanningStep_result:
  assumes "0 \<le> step_size (m_config st)"
    and "PlanningStep start goal obstacles st readings = Some (st', path)"
  shows "path \<noteq> [] \<Longrightarrow> hd path = start"
    and "successively (\<lambda>p q. p \<noteq> q \<longrightarrow> leg_clear st obstacles p q) path"
proof -
  let ?st = "planning_state start goal obstacles st"
  have r: "plan_result ?st st' path"
    using assms by (intro plan_result_sound) (auto simp: PlanningStep_def)
  show "path \<noteq> [] \<Longrightarrow> hd path = start" using plan_result_start [OF r] by simp
  have "successively (\<lambda>p q. p \<noteq> q \<longrightarrow> segment_clear ?st p q) path"
    using plan_result_free [OF r] by (rule successively_mono) (use isCollisionFree_segment in blast)
  then show "successively (\<lambda>p q. p \<noteq> q \<longrightarrow> leg_clear st obstacles p q) path"
    by (simp add: segment_clear_def leg_clear_def)
qed

interpretation rrtx: path_planner PlanningStep "\<lambda>st. 0 \<le> step_size (m_config st)" leg_clear
  by unfold_locales (rule PlanningStep_result; assumption)+

text \<open>
  Property C6. Every path the planner returns starts at the given start (unless it is empty), and
  the robot's disc does not touch an obstacle anywhere along it: each leg between two different
  way points keeps the full clearance from every obstacle of the call over its whole length.
\<close>

theorem PlanningStep_path_clear:
  assumes "0 \<le> step_size (m_config st)"
    and "PlanningStep start goal obstacles st readings = Some (st', path)"
  shows "(path \<noteq> [] \<longrightarrow> hd path = start)
    \<and> successively (\<lambda>p q. p \<noteq> q \<longrightarrow>
          (\<forall>obs \<in> set obstacles. \<forall>s. 0 \<le> s \<and> s \<le> 1 \<longrightarrow>
             ob_radius obs + robot_radius (m_config st)
               \<le> distance (segment_point p q s) (ob_position obs))) path"
  using rrtx.path_start [OF assms] rrtx.path_clear [OF assms] by (simp add: leg_clear_def)

theorem PlanningStep_path_clear_witness:
  "\<exists>st'. PlanningStep (0, 0) (3, 0) [] demo_planner [] = Some (st', [(0, 0), (3, 0)])
     \<and> successively (\<lambda>p q. True) [(0::real, 0::real), (3, 0)]"
proof -
  have ex: "PlanningStep (0, 0) (3, 0) [] demo_planner []
      = Some (planning_state (0, 0) (3, 0) [] demo_planner, [(0, 0), (3, 0)])"
    by (simp add: PlanningStep_def plan_def isCollisionFree_def)
  have "0 \<le> step_size (m_config demo_planner)"
    by (simp add: demo_planner_def RRTXConfig_default_def)
  from PlanningStep_path_clear [OF this ex] ex show ?thesis by simp
qed

text \<open>
  Property C27. The nodes the planner leaves behind form a tree rooted at the start: following the
  parent indices from any node terminates and gives a way whose legs are at most one step long,
  are collision-free, and add up to exactly the cost stored in the node. The path returned is
  such a way, or one followed by the goal, or the direct leg, or empty if every node is farther
  than 1e9 from the goal.
\<close>

theorem PlanningStep_tree:
  assumes "0 \<le> step_size (m_config st)"
    and "PlanningStep start goal obstacles st readings = Some (st', path)"
    and "\<not> isCollisionFree (planning_state start goal obstacles st) start goal"
  shows "(\<forall>i < length (m_nodes st'). \<exists>ps.
            backtrack (m_nodes st') (int i) [] = Some (rev ps) \<and> hd ps = start
            \<and> last ps = nd_position (m_nodes st' ! i)
            \<and> successively (\<lambda>p q. isCollisionFree (planning_state start goal obstacles st) p q
                 \<and> distance p q \<le> step_size (m_config st)) ps
            \<and> path_length ps = cost_from_start (m_nodes st' ! i))
    \<and> (path = [] \<or> (\<exists>i < length (m_nodes st'). \<exists>ps.
            backtrack (m_nodes st') (int i) [] = Some (rev ps) \<and> (path = ps \<or> path = ps @ [goal])))"
proof -
  let ?st = "planning_state start goal obstacles st"
  have r: "plan_result ?st st' path"
    using assms(1,2) by (intro plan_result_sound) (auto simp: PlanningStep_def)
  with assms(3) have inv: "tree_inv ?st (m_nodes st')" by (auto simp: plan_result_def)
  have "\<exists>ps. backtrack (m_nodes st') (int i) [] = Some (rev ps) \<and> tree_path ?st (m_nodes st') i ps"
    if "i < length (m_nodes st')" for i
    using backtrack_path [OF inv that, of "[]"] by simp
  moreover have "path = [] \<or> (\<exists>i < length (m_nodes st'). \<exists>ps.
      backtrack (m_nodes st') (int i) [] = Some (rev ps) \<and> (path = ps \<or> path = ps @ [goal]))"
    using r assms(3) by (auto simp: plan_result_def)
  ultimately show ?thesis
    unfolding tree_path_def good_edge_def planning_state_fields by blast
qed

text \<open>A run that is stopped by the clock in the second iteration, after a blocked first sample.\<close>

definition demo_readings :: "(real \<times> draw) list" where
  "demo_readings = [(1, 0, 0, 0), (11, 0, 0, 0)]"

lemma demo_blocked: "\<not> isCollisionFree (planning_state (0, 0) (4, 0) (m_obstacles demo_planner) demo_planner) (0, 0) (4, 0)"
  by (simp add: isCollisionFree_def hits_def distance_def hypot_def demo_planner_def
      RRTXConfig_default_def Let_def setObstacles_def setGoal_def setStart_def)

lemma demo_step_size: "0 \<le> step_size (m_config demo_planner)"
  by (simp add: demo_planner_def RRTXConfig_default_def)

lemma plan_loop_returns:
  "\<exists>r \<in> set readings. recalculation_time_ms (m_config st) \<le> fst r \<Longrightarrow>
   \<exists>x. plan_loop st nodes readings = Some x"
proof (induction readings arbitrary: nodes)
  case Nil
  then show ?case by simp
next
  case (Cons rd readings)
  obtain el d where rd: "rd = (el, d)" by (cases rd)
  show ?case
  proof (cases "recalculation_time_ms (m_config st) \<le> el")
    case True
    with rd show ?thesis by simp
  next
    case False
    with rd Cons.prems have "\<exists>x. plan_loop st n readings = Some x" for n
      by (intro Cons.IH) auto
    with rd show ?thesis by (simp add: Let_def)
  qed
qed

lemma PlanningStep_returns:
  assumes step: "0 \<le> step_size (m_config st)"
    and clock: "\<exists>r \<in> set readings. recalculation_time_ms (m_config st) \<le> fst r"
    and blocked: "\<not> isCollisionFree (planning_state start goal obstacles st) start goal"
  shows "\<exists>nodes path. PlanningStep start goal obstacles st readings
      = Some ((planning_state start goal obstacles st)\<lparr>m_nodes := nodes\<rparr>, path)
    \<and> plan_result (planning_state start goal obstacles st)
        ((planning_state start goal obstacles st)\<lparr>m_nodes := nodes\<rparr>) path
    \<and> length nodes \<le> Suc (length readings)"
proof -
  let ?st = "planning_state start goal obstacles st"
  have st: "0 \<le> step_size (m_config ?st)" "\<exists>r \<in> set readings. recalculation_time_ms (m_config ?st) \<le> fst r"
    "\<not> isCollisionFree ?st (m_start ?st) (m_goal ?st)"
    using step clock blocked by simp_all
  obtain nodes b where loop: "plan_loop ?st [RRTXNode_new (m_start ?st)] readings = Some (nodes, b)"
    using plan_loop_returns [OF st(2)] by (metis surj_pair)
  from plan_cases [OF st(1) loop st(3)]
    plan_loop_post [OF st(1) tree_inv_init loop] show ?thesis
    unfolding PlanningStep_def by auto
qed

theorem PlanningStep_tree_witness:
  "\<exists>st' path. PlanningStep (0, 0) (4, 0) (m_obstacles demo_planner) demo_planner demo_readings
       = Some (st', path)
     \<and> (\<exists>ps. backtrack (m_nodes st') 0 [] = Some (rev ps) \<and> hd ps = (0, 0)
            \<and> path_length ps = cost_from_start (m_nodes st' ! 0))"
proof -
  let ?obs = "m_obstacles demo_planner"
  have clock: "\<exists>r \<in> set demo_readings. recalculation_time_ms (m_config demo_planner) \<le> fst r"
    by (simp add: demo_readings_def demo_planner_def RRTXConfig_default_def)
  obtain st' path where r: "PlanningStep (0, 0) (4, 0) ?obs demo_planner demo_readings = Some (st', path)"
      "plan_result (planning_state (0, 0) (4, 0) ?obs demo_planner) st' path"
    using PlanningStep_returns [OF demo_step_size clock demo_blocked] by blast
  have "0 < length (m_nodes st')"
    using r(2) demo_blocked by (auto simp: plan_result_def tree_inv_def)
  then show ?thesis
    using PlanningStep_tree [OF demo_step_size r(1) demo_blocked] r(1) by fastforce
qed

text \<open>
  Planning ends: as soon as one clock reading reaches the time limit the planner
  has returned, having added at most one node per iteration; and if the start is less than 1e9
  from the goal the path it returns is not empty.
\<close>

theorem PlanningStep_terminates:
  assumes "0 \<le> step_size (m_config st)"
    and "\<exists>r \<in> set readings. recalculation_time_ms (m_config st) \<le> fst r"
    and "distance start goal < 1000000000"
  shows "\<exists>st' path. PlanningStep start goal obstacles st readings = Some (st', path) \<and> path \<noteq> []
    \<and> (m_nodes st' = m_nodes st \<or> length (m_nodes st') \<le> Suc (length readings))"
proof (cases "isCollisionFree (planning_state start goal obstacles st) start goal")
  case True
  then show ?thesis
    by (simp add: PlanningStep_def plan_def) (simp add: setObstacles_def setGoal_def setStart_def)
next
  case False
  let ?st = "planning_state start goal obstacles st"
  obtain nodes path where r: "PlanningStep start goal obstacles st readings = Some (?st\<lparr>m_nodes := nodes\<rparr>, path)"
      "plan_result ?st (?st\<lparr>m_nodes := nodes\<rparr>) path" "length nodes \<le> Suc (length readings)"
    using PlanningStep_returns [OF assms(1,2) False] by blast
  have "path \<noteq> []"
  proof
    assume "path = []"
    with r(2) have "tree_inv ?st nodes" "\<forall>n \<in> set nodes. 1000000000 \<le> distance (nd_position n) goal"
      by (auto simp: plan_result_def tree_path_def)
    moreover from this(1) have "nodes ! 0 = RRTXNode_new start" "0 < length nodes"
      by (simp_all add: tree_inv_def)
    ultimately show False using assms(3) nth_mem [of 0 nodes] by (force simp: RRTXNode_new_def)
  qed
  with r show ?thesis by auto
qed

theorem PlanningStep_terminates_witness:
  "\<exists>st' path. PlanningStep (0, 0) (4, 0) (m_obstacles demo_planner) demo_planner demo_readings
     = Some (st', path) \<and> path \<noteq> []"
proof -
  have "\<exists>r \<in> set demo_readings. recalculation_time_ms (m_config demo_planner) \<le> fst r"
    by (simp add: demo_readings_def demo_planner_def RRTXConfig_default_def)
  moreover have "distance (0, 0) (4, 0) < 1000000000"
    by (simp add: distance_def hypot_def)
  ultimately show ?thesis
    using PlanningStep_terminates [OF demo_step_size] by metis
qed

section \<open>Obstacle updates\<close>

lemma replace_first_found: "snd (replace_first u obs) \<longleftrightarrow> ob_id u \<in> ob_id ` set obs"
  by (induction obs) (auto simp: case_prod_beta)

lemma replace_first_ids: "map ob_id (fst (replace_first u obs)) = map ob_id obs"
  by (induction obs) (auto simp: case_prod_beta)

lemma replace_first_find:
  "snd (replace_first u obs) \<Longrightarrow>
   find (\<lambda>b. ob_id b = k) (fst (replace_first u obs))
     = (if k = ob_id u then Some u else find (\<lambda>b. ob_id b = k) obs)"
  by (induction obs) (auto simp: case_prod_beta split: if_splits)

lemma replace_first_not_found: "\<not> snd (replace_first u obs) \<Longrightarrow> fst (replace_first u obs) = obs"
  by (induction obs) (auto simp: case_prod_beta split: if_splits)

text \<open>Looking an obstacle up by its id after an update, and the ids stay different.\<close>

lemma updateObstacle_find:
  "find (\<lambda>b. ob_id b = k) (m_obstacles (updateObstacle u st))
     = (if k = ob_id u then Some u else find (\<lambda>b. ob_id b = k) (m_obstacles st))"
proof (cases "snd (replace_first u (m_obstacles st))")
  case True
  then show ?thesis by (simp add: updateObstacle_def case_prod_beta replace_first_find)
next
  case False
  then have "ob_id u \<notin> ob_id ` set (m_obstacles st)" by (simp add: replace_first_found)
  then have "find (\<lambda>b. ob_id b = ob_id u) (m_obstacles st) = None"
    unfolding find_None_iff by (metis image_eqI)
  with False show ?thesis
    by (auto simp: updateObstacle_def case_prod_beta find_snoc replace_first_not_found
        split: option.splits)
qed

lemma updateObstacle_ids_distinct:
  "distinct (map ob_id (m_obstacles st)) \<Longrightarrow>
   distinct (map ob_id (m_obstacles (updateObstacle u st)))"
  using replace_first_found [of u "m_obstacles st"]
  by (auto simp: updateObstacle_def case_prod_beta replace_first_ids)

end
