(* ===== verification/Strategy.thy ===== *)
theory Strategy
  imports Prelude
begin

text \<open>
  The decision of the autonomous player (\<open>libs/strat/include/Strategy.h\<close>,
  \<open>libs/strat/include/MainStrategy.h\<close>, \<open>libs/strat/src/MainStrategy.cpp\<close>): with the ball, turn to
  the goal and kick; without it, go to a point behind the ball and then for the ball.
\<close>

section \<open>Interface\<close>

record StrategyContext =
  ctx_robot_pos :: vec2
  ctx_robot_rotation :: real
  ctx_ball_pos :: vec2
  ctx_has_ball :: bool
  ctx_goal_pos :: vec2

record StrategyResult =
  target_pos :: vec2
  res_kick :: bool

datatype ActionState = NONE | SEEKING_SETUP | SEEKING_BALL | AIMING_AT_GOAL | KICKING

text \<open>The object: the static debug flag is kept with it.\<close>

record MainStrategy =
  strategy_debug :: bool
  last_state :: ActionState

definition MainStrategy_new :: MainStrategy where
  "MainStrategy_new = \<lparr>strategy_debug = False, last_state = NONE\<rparr>"

definition strategy_setDebugMode :: "bool \<Rightarrow> MainStrategy \<Rightarrow> MainStrategy" where
  "strategy_setDebugMode mode s = s\<lparr>strategy_debug := mode\<rparr>"

section \<open>The decision\<close>

text \<open>The heading error: robot heading minus direction to the goal, brought into half a turn.\<close>

definition heading_error :: "StrategyContext \<Rightarrow> real" where
  "heading_error ctx =
     (let angle_to_goal = atan2 (snd (ctx_goal_pos ctx) - snd (ctx_robot_pos ctx))
                                (fst (ctx_goal_pos ctx) - fst (ctx_robot_pos ctx));
          norm_rot = fmod (ctx_robot_rotation ctx) 360;
          norm_rot = (if norm_rot < 0 then norm_rot + 360 else norm_rot);
          robot_angle_rad = norm_rot * pi / 180;
          angle_diff = fmod (robot_angle_rad - angle_to_goal + pi) (2 * pi);
          angle_diff = (if angle_diff < 0 then angle_diff + 2 * pi else angle_diff)
      in angle_diff - pi)"

definition decide_with_ball :: "StrategyContext \<Rightarrow> StrategyResult \<times> ActionState" where
  "decide_with_ball ctx =
     (let dist_to_goal = hypot (fst (ctx_robot_pos ctx) - fst (ctx_goal_pos ctx))
                               (snd (ctx_robot_pos ctx) - snd (ctx_goal_pos ctx))
      in if dist_to_goal < 800 \<and> \<bar>heading_error ctx\<bar> < 0.2
         then (\<lparr>target_pos = ctx_goal_pos ctx, res_kick = True\<rparr>, KICKING)
         else (\<lparr>target_pos = ctx_goal_pos ctx, res_kick = False\<rparr>, AIMING_AT_GOAL))"

definition decide_without_ball :: "StrategyContext \<Rightarrow> StrategyResult \<times> ActionState" where
  "decide_without_ball ctx =
     (let ball = ctx_ball_pos ctx;
          dx = fst ball - fst (ctx_goal_pos ctx);
          dy = snd ball - snd (ctx_goal_pos ctx);
          dist = hypot dx dy;
          offset = 50
      in if dist > 0.001
         then let back_x = fst ball + (dx / dist) * offset;
                  back_y = snd ball + (dy / dist) * offset;
                  dist_to_back = hypot (fst (ctx_robot_pos ctx) - back_x) (snd (ctx_robot_pos ctx) - back_y)
              in if dist_to_back \<ge> 60
                 then (\<lparr>target_pos = (back_x, back_y), res_kick = False\<rparr>, SEEKING_SETUP)
                 else (\<lparr>target_pos = ball, res_kick = False\<rparr>, SEEKING_BALL)
         else (\<lparr>target_pos = ball, res_kick = False\<rparr>, SEEKING_BALL))"

text \<open>
  \<open>update\<close>: the new object, the result, and the state that is reported on the console, if any:
  only a change of state is reported, and only in debug mode.
\<close>

definition strategy_update ::
  "MainStrategy \<Rightarrow> StrategyContext \<Rightarrow> MainStrategy \<times> StrategyResult \<times> ActionState option" where
  "strategy_update s ctx =
     (let (result, current_state) =
            (if ctx_has_ball ctx then decide_with_ball ctx else decide_without_ball ctx)
      in if current_state \<noteq> last_state s
         then (s\<lparr>last_state := current_state\<rparr>, result,
               if strategy_debug s then Some current_state else None)
         else (s, result, None))"

lemmas strategy_defs = strategy_update_def decide_with_ball_def decide_without_ball_def Let_def

section \<open>The normalisation of angles\<close>

text \<open>A remainder made non-negative lies in the interval, and differs by a multiple.\<close>

lemma positive_remainder:
  assumes "0 < b" and r: "r = (if fmod a b < 0 then fmod a b + b else fmod a b)"
  shows "0 \<le> r" "r < b" "\<exists>k::int. r = a + of_int k * b"
proof -
  show "0 \<le> r" "r < b" using fmod_bounds(1) [OF assms(1), of a] r by (auto simp: abs_less_iff)
  obtain k :: int where "fmod a b = a + of_int k * b" using fmod_mod_eq by blast
  then have "r = a + of_int (if fmod a b < 0 then k + 1 else k) * b" by (simp add: r algebra_simps)
  then show "\<exists>k::int. r = a + of_int k * b" by blast
qed

definition goal_direction :: "StrategyContext \<Rightarrow> real" where
  "goal_direction ctx = atan2 (snd (ctx_goal_pos ctx) - snd (ctx_robot_pos ctx))
                              (fst (ctx_goal_pos ctx) - fst (ctx_robot_pos ctx))"

lemma heading_error_range: "- pi \<le> heading_error ctx \<and> heading_error ctx < pi"
  unfolding heading_error_def Let_def
  using positive_remainder(1,2) [OF _ refl, of "2 * pi"] pi_gt_zero by (smt (verit))

lemma heading_error_turns:
  "\<exists>k::int. heading_error ctx = ctx_robot_rotation ctx * pi / 180 - goal_direction ctx + 2 * pi * of_int k"
proof -
  let ?rot = "ctx_robot_rotation ctx"
  define n where "n = (if fmod ?rot 360 < 0 then fmod ?rot 360 + 360 else fmod ?rot 360)"
  define d where "d = (let a = n * pi / 180 - goal_direction ctx + pi
    in if fmod a (2 * pi) < 0 then fmod a (2 * pi) + 2 * pi else fmod a (2 * pi))"
  obtain j :: int where j: "n = ?rot + of_int j * 360"
    using positive_remainder(3) [OF _ n_def] by auto
  obtain k :: int where k: "d = n * pi / 180 - goal_direction ctx + pi + of_int k * (2 * pi)"
    using positive_remainder(3) [OF _ d_def [unfolded Let_def]] pi_gt_zero by auto
  have "heading_error ctx = d - pi"
    by (simp add: heading_error_def d_def n_def goal_direction_def Let_def)
  also have "\<dots> = ?rot * pi / 180 - goal_direction ctx + 2 * pi * of_int (j + k)"
    by (simp add: k j field_simps)
  finally show ?thesis by blast
qed

text \<open>The error is within a tolerance exactly if some number of turns brings it there.\<close>

lemma heading_error_small_iff:
  assumes "0 < tol" "tol \<le> pi"
  shows "\<bar>heading_error ctx\<bar> < tol \<longleftrightarrow>
    (\<exists>k::int. \<bar>ctx_robot_rotation ctx * pi / 180 - goal_direction ctx + 2 * pi * of_int k\<bar> < tol)"
proof
  show "\<bar>heading_error ctx\<bar> < tol \<Longrightarrow>
    \<exists>k::int. \<bar>ctx_robot_rotation ctx * pi / 180 - goal_direction ctx + 2 * pi * of_int k\<bar> < tol"
    using heading_error_turns [of ctx] by metis
next
  assume "\<exists>k::int. \<bar>ctx_robot_rotation ctx * pi / 180 - goal_direction ctx + 2 * pi * of_int k\<bar> < tol"
  then obtain k :: int
    where k: "\<bar>ctx_robot_rotation ctx * pi / 180 - goal_direction ctx + 2 * pi * of_int k\<bar> < tol" by blast
  obtain j :: int where j: "heading_error ctx
      = ctx_robot_rotation ctx * pi / 180 - goal_direction ctx + 2 * pi * of_int j"
    using heading_error_turns by blast
  define e where "e = ctx_robot_rotation ctx * pi / 180 - goal_direction ctx + 2 * pi * of_int k"
  have he: "heading_error ctx = e + 2 * pi * of_int (j - k)" by (simp add: j e_def algebra_simps)
  define X where "X = 2 * pi * of_int (j - k)"
  have "\<bar>X\<bar> < 2 * pi"
    using heading_error_range [of ctx] k assms(2) unfolding he e_def [symmetric] X_def [symmetric]
    by linarith
  then have "\<bar>j - k\<bar> < 1" using pi_gt_zero by (simp add: X_def abs_mult)
  then show "\<bar>heading_error ctx\<bar> < tol" using k unfolding he e_def by simp
qed

text \<open>The point behind the ball.\<close>

lemma setup_point:
  assumes "p = (fst b + (fst b - fst g) / d * 50, snd b + (snd b - snd g) / d * 50)"
    and "d = hypot (fst b - fst g) (snd b - snd g)" "0 < d"
  shows "vlength (vsub p b) = 50" "vlength (vsub p g) = vlength (vsub b g) + 50"
proof -
  have l: "vlength (vsub b g) = d" by (simp add: vlength_hypot vsub_def assms(2))
  have "vsub p b = vscale (50 / d) (vsub b g)" "vsub p g = vscale (1 + 50 / d) (vsub b g)"
    by (simp_all add: assms(1) vec_defs algebra_simps)
  then show "vlength (vsub p b) = 50" "vlength (vsub p g) = vlength (vsub b g) + 50"
    using assms(3) by (simp_all only: vlength_scale l) (simp_all add: field_simps)
qed

section \<open>Properties\<close>

text \<open>
  Property C40. The player kicks exactly when it has the ball, is nearer than 800 to the goal, and
  its heading (in degrees, any number of turns) points to the goal to within 0.2 radians: the
  normalisation by \<open>fmod\<close> loses no heading and invents none.
\<close>

theorem strategy_kicks_iff:
  "res_kick (fst (snd (strategy_update s ctx))) \<longleftrightarrow>
     ctx_has_ball ctx \<and> vlength (vsub (ctx_robot_pos ctx) (ctx_goal_pos ctx)) < 800
     \<and> (\<exists>k::int. \<bar>ctx_robot_rotation ctx * pi / 180 - goal_direction ctx + 2 * pi * of_int k\<bar> < 1 / 5)"
proof -
  have "1 / 5 \<le> pi" using pi_ge_two by linarith
  then have "\<bar>heading_error ctx\<bar> < 1 / 5 \<longleftrightarrow>
    (\<exists>k::int. \<bar>ctx_robot_rotation ctx * pi / 180 - goal_direction ctx + 2 * pi * of_int k\<bar> < 1 / 5)"
    by (intro heading_error_small_iff) auto
  then show ?thesis by (auto simp: strategy_defs vlength_hypot vsub_def)
qed

text \<open>
  Where the player is sent: with the ball, to the goal; without it, to the ball or to
  the setup point, which lies 50 behind the ball on the line from the goal through it, and only
  while the player is at least 60 away from it. The state is remembered, and a message is printed
  exactly for a change of state in debug mode.
\<close>

theorem strategy_target:
  "strategy_update s ctx = (s', res, msg) \<Longrightarrow>
     (if ctx_has_ball ctx then target_pos res = ctx_goal_pos ctx
        \<and> last_state s' = (if res_kick res then KICKING else AIMING_AT_GOAL)
      else \<not> res_kick res
        \<and> (last_state s' = SEEKING_BALL \<and> target_pos res = ctx_ball_pos ctx
           \<or> last_state s' = SEEKING_SETUP
             \<and> vlength (vsub (target_pos res) (ctx_ball_pos ctx)) = 50
             \<and> vlength (vsub (target_pos res) (ctx_goal_pos ctx))
               = vlength (vsub (ctx_ball_pos ctx) (ctx_goal_pos ctx)) + 50
             \<and> 60 \<le> vlength (vsub (ctx_robot_pos ctx) (target_pos res))))
     \<and> (msg = Some (last_state s') \<longleftrightarrow> strategy_debug s \<and> last_state s' \<noteq> last_state s)
     \<and> strategy_debug s' = strategy_debug s"
proof (cases "ctx_has_ball ctx")
  case True
  moreover assume "strategy_update s ctx = (s', res, msg)"
  ultimately show ?thesis by (auto simp: strategy_defs split: if_splits)
next
  case False
  assume up: "strategy_update s ctx = (s', res, msg)"
  let ?b = "ctx_ball_pos ctx" and ?g = "ctx_goal_pos ctx"
  define d where "d = hypot (fst ?b - fst ?g) (snd ?b - snd ?g)"
  define p where "p = (fst ?b + (fst ?b - fst ?g) / d * 50, snd ?b + (snd ?b - snd ?g) / d * 50)"
  have far: "0.001 < d \<Longrightarrow> vlength (vsub p ?b) = 50 \<and> vlength (vsub p ?g) = vlength (vsub ?b ?g) + 50"
    using setup_point [OF p_def d_def] by simp
  have dec: "decide_without_ball ctx =
      (if 0.001 < d \<and> 60 \<le> vlength (vsub (ctx_robot_pos ctx) p)
       then (\<lparr>target_pos = p, res_kick = False\<rparr>, SEEKING_SETUP)
       else (\<lparr>target_pos = ?b, res_kick = False\<rparr>, SEEKING_BALL))"
    by (simp add: decide_without_ball_def Let_def p_def d_def vlength_hypot vsub_def)
  show ?thesis
    using up far False by (auto simp: strategy_update_def dec split: if_splits)
qed

definition demo_context :: StrategyContext where
  "demo_context = \<lparr>ctx_robot_pos = (100, 100), ctx_robot_rotation = 0, ctx_ball_pos = (500, 300),
     ctx_has_ball = False, ctx_goal_pos = (900, 300)\<rparr>"

theorem strategy_target_witness:
  "last_state (fst (strategy_update MainStrategy_new demo_context)) = SEEKING_SETUP
   \<and> vlength (vsub (target_pos (fst (snd (strategy_update MainStrategy_new demo_context)))) (500, 300)) = 50"
proof -
  obtain s' res msg where up: "strategy_update MainStrategy_new demo_context = (s', res, msg)"
    by (metis prod.exhaust)
  have "60 \<le> hypot (100 - 450) (100 - 300)" using abs_le_hypot1 [of "100 - 450" "100 - 300"] by simp
  moreover have "hypot (- 400) 0 = 400" by (simp add: hypot_def)
  ultimately have "last_state s' = SEEKING_SETUP"
    using up by (auto simp: strategy_defs demo_context_def MainStrategy_new_def split: if_splits)
  with strategy_target [OF up] up show ?thesis by (simp add: demo_context_def)
qed

end
