(* ===== verification/Game.thy ===== *)
theory Game
  imports GameObject RRTX Strategy
begin

text \<open>
  The simulator (\<open>class Game\<close> in \<open>libs/game/include/Game.h\<close>, \<open>libs/game/src/Game.cpp\<close>) and the
  keyboard state it reads (\<open>libs/game/src/Window.cpp\<close>): one step of the simulation, the autonomous
  player, the input handlers and the reset. Drawing is in \<open>Graphics\<close>. The keys and the
  static flags of the handlers are part of the state.
\<close>

section \<open>State\<close>

datatype GameState = GAME_ACTIVE | GAME_MENU | GAME_WIN

datatype AlgoName = ALGO_RRTX | ALGO_DUMMY

record Game =
  ball :: GameObject
  team1_players :: "GameObject list"
  team2_players :: "GameObject list"
  game_state :: GameState
  start_pos_team1 :: "vec2 list"
  start_pos_team2 :: "vec2 list"
  start_pos_ball :: vec2
  reset_timer :: real
  current_algo :: AlgoName
  rrtx_planner :: RRTX
  m_strategy :: MainStrategy
  is_auto_mode :: bool
  passive_mode :: bool
  keys :: "nat \<Rightarrow> bool"
  keys_processed :: "nat \<Rightarrow> bool"
  is_debug_mode :: bool
  is_motion_debug_mode :: bool
  is_strat_debug_mode :: bool
  motion_debug :: bool
  prevLeftClick :: bool
  window_should_close :: bool

text \<open>The key codes of GLFW.\<close>

abbreviation "KEY_A \<equiv> 65 :: nat"
abbreviation "KEY_C \<equiv> 67 :: nat"
abbreviation "KEY_D \<equiv> 68 :: nat"
abbreviation "KEY_E \<equiv> 69 :: nat"
abbreviation "KEY_I \<equiv> 73 :: nat"
abbreviation "KEY_J \<equiv> 74 :: nat"
abbreviation "KEY_K \<equiv> 75 :: nat"
abbreviation "KEY_L \<equiv> 76 :: nat"
abbreviation "KEY_M \<equiv> 77 :: nat"
abbreviation "KEY_N \<equiv> 78 :: nat"
abbreviation "KEY_O \<equiv> 79 :: nat"
abbreviation "KEY_P \<equiv> 80 :: nat"
abbreviation "KEY_Q \<equiv> 81 :: nat"
abbreviation "KEY_R \<equiv> 82 :: nat"
abbreviation "KEY_S \<equiv> 83 :: nat"
abbreviation "KEY_U \<equiv> 85 :: nat"
abbreviation "KEY_V \<equiv> 86 :: nat"
abbreviation "KEY_W \<equiv> 87 :: nat"
abbreviation "KEY_ESCAPE \<equiv> 256 :: nat"
abbreviation "KEY_RIGHT \<equiv> 262 :: nat"
abbreviation "KEY_LEFT \<equiv> 263 :: nat"
abbreviation "KEY_DOWN \<equiv> 264 :: nat"
abbreviation "KEY_UP \<equiv> 265 :: nat"

datatype key_action = PRESS | RELEASE | REPEAT

definition KeyCallback :: "int \<Rightarrow> key_action \<Rightarrow> Game \<Rightarrow> Game" where
  "KeyCallback key action g =
     (let g = (if key = int KEY_ESCAPE \<and> action = PRESS then g\<lparr>window_should_close := True\<rparr> else g)
      in if key \<ge> 0 \<and> key < 1024
         then (case action of
                 PRESS \<Rightarrow> g\<lparr>keys := (keys g)(nat key := True)\<rparr>
               | RELEASE \<Rightarrow> g\<lparr>keys := (keys g)(nat key := False),
                              keys_processed := (keys_processed g)(nat key := False)\<rparr>
               | REPEAT \<Rightarrow> g)
         else g)"

section \<open>Players by their pointer\<close>

fun get_player :: "Game \<Rightarrow> player_id \<Rightarrow> GameObject" where
  "get_player g (Team1 i) = team1_players g ! i"
| "get_player g (Team2 i) = team2_players g ! i"

fun set_player :: "player_id \<Rightarrow> GameObject \<Rightarrow> Game \<Rightarrow> Game" where
  "set_player (Team1 i) p g = g\<lparr>team1_players := (team1_players g)[i := p]\<rparr>"
| "set_player (Team2 i) p g = g\<lparr>team2_players := (team2_players g)[i := p]\<rparr>"

definition team1_ids :: "Game \<Rightarrow> player_id list" where
  "team1_ids g = map Team1 [0..<length (team1_players g)]"

definition team2_ids :: "Game \<Rightarrow> player_id list" where
  "team2_ids g = map Team2 [0..<length (team2_players g)]"

definition all_players :: "Game \<Rightarrow> player_id list" where
  "all_players g = team1_ids g @ team2_ids g"

section \<open>Start and reset\<close>

definition ObjectPosInit :: "(nat \<Rightarrow> real \<times> real) \<Rightarrow> Game \<Rightarrow> Game" where
  "ObjectPosInit mem g =
     (let sp1 = [(200, 290 - player_radius), (150, 150 - player_radius), (150, 430 - player_radius)];
          t1 = map (\<lambda>i. (GameObject_new (mem i) (sp1 ! i) player_radius
                           (player_velocity, player_velocity) False)\<lparr>locked := (i \<noteq> 0)\<rparr>)
                 [0..<length sp1];
          sp2 = [(750, 100 - player_radius), (750, 480 - player_radius), (850, 100 - player_radius)];
          t2 = map (\<lambda>i. (GameObject_new (mem (3 + i)) (sp2 ! i) player_radius
                           (player_velocity, player_velocity) False)\<lparr>locked := True, rotation := 180\<rparr>)
                 [0..<length sp2];
          spb = vadd (sp1 ! 0) (player_radius * 2 + 15, player_radius - ball_radius)
      in g\<lparr>start_pos_team1 := sp1, team1_players := t1, start_pos_team2 := sp2, team2_players := t2,
           start_pos_ball := spb, ball := GameObject_new (mem 6) spb ball_radius (0, 0) True\<rparr>)"

definition reset_player :: "real \<Rightarrow> vec2 \<Rightarrow> GameObject \<Rightarrow> GameObject" where
  "reset_player rot pos p =
     p\<lparr>position := pos, velocity := (0, 0), rotation := rot, current_velocities := no_velocity,
       currentProfile := (currentProfile p)\<lparr>valid := False\<rparr>, obj_owner := None\<rparr>"

text \<open>The loops of \<open>ResetPositions\<close> run while there are a player and a start position.\<close>

fun reset_team :: "real \<Rightarrow> vec2 list \<Rightarrow> GameObject list \<Rightarrow> GameObject list" where
  "reset_team rot (s # ss) (p # ps) = reset_player rot s p # reset_team rot ss ps"
| "reset_team rot [] ps = ps"
| "reset_team rot ss [] = []"

definition ResetPositions :: "Game \<Rightarrow> Game" where
  "ResetPositions g =
     g\<lparr>team1_players := reset_team 0 (start_pos_team1 g) (team1_players g),
       team2_players := reset_team 180 (start_pos_team2 g) (team2_players g),
       ball := (ball g)\<lparr>position := start_pos_ball g, velocity := (0, 0), obj_owner := None\<rparr>,
       reset_timer := -1\<rparr>"

definition SetCurrentAlgo :: "AlgoName \<Rightarrow> Game \<Rightarrow> Game" where
  "SetCurrentAlgo a g = g\<lparr>current_algo := a\<rparr>"

section \<open>Collisions of all objects\<close>

definition collide_bots :: "player_id \<times> player_id \<Rightarrow> Game \<Rightarrow> Game" where
  "collide_bots = (\<lambda>(a, b) g.
     if a = b then g
     else let (p1, p2) = HandleBotCollision (get_player g a) (get_player g b)
          in set_player b p2 (set_player a p1 g))"

definition collide_ball :: "player_id \<Rightarrow> Game \<Rightarrow> Game" where
  "collide_ball a g = g\<lparr>ball := HandleBallCollision (ball g) a (get_player g a)\<rparr>"

fun pairs :: "'a list \<Rightarrow> ('a \<times> 'a) list" where
  "pairs [] = []"
| "pairs (x # xs) = map (Pair x) xs @ pairs xs"

definition DoCollisions :: "Game \<Rightarrow> Game" where
  "DoCollisions g =
     fold collide_ball (all_players g) (fold collide_bots (pairs (all_players g)) g)"

section \<open>Kick\<close>

definition kick_ball :: "real \<Rightarrow> Game \<Rightarrow> Game" where
  "kick_ball rot g =
     g\<lparr>ball := (ball g)\<lparr>velocity := vscale 500 (facing rot), obj_owner := None\<rparr>, reset_timer := 2\<rparr>"

definition HandleManualKick :: "Game \<Rightarrow> Game" where
  "HandleManualKick g =
     (case obj_owner (ball g) of
        None \<Rightarrow> g
      | Some a \<Rightarrow> if keys g KEY_K then kick_ball (rotation (get_player g a)) g else g)"

section \<open>The autonomous player\<close>

definition Plan ::
  "vec2 \<Rightarrow> vec2 \<Rightarrow> Obstacle list \<Rightarrow> (real \<times> draw) list \<Rightarrow> Game \<Rightarrow> (Game \<times> Point2D list) option" where
  "Plan start goal obstacles readings g =
     (case current_algo g of
        ALGO_RRTX \<Rightarrow>
          (case PlanningStep start goal obstacles (rrtx_planner g) readings of
             None \<Rightarrow> None
           | Some (planner, path) \<Rightarrow> Some (g\<lparr>rrtx_planner := planner\<rparr>, path))
      | ALGO_DUMMY \<Rightarrow> Some (g, []))"

text \<open>Every locked player becomes an obstacle, numbered in order.\<close>

fun add_obstacles :: "GameObject list \<Rightarrow> int \<Rightarrow> Obstacle list" where
  "add_obstacles [] n = []"
| "add_obstacles (p # ps) n =
     (if locked p
      then \<lparr>ob_id = n, ob_position = screenToRRTX (position p),
            ob_radius = ((player_radius + obstacle_tolerance) / screen_width) * 12\<rparr>
           # add_obstacles ps (n + 1)
      else add_obstacles ps n)"

definition strategy_context :: "player_id \<Rightarrow> Game \<Rightarrow> StrategyContext" where
  "strategy_context me g =
     \<lparr>ctx_robot_pos = position (get_player g me),
      ctx_robot_rotation = rotation (get_player g me),
      ctx_ball_pos = position (ball g),
      ctx_has_ball = (obj_owner (ball g) = Some me),
      ctx_goal_pos = (screen_width, screen_height / 2)\<rparr>"

text \<open>The turn of a held ball about the centre of its player, by an angle in degrees.\<close>

definition turn_ball :: "GameObject \<Rightarrow> real \<Rightarrow> GameObject \<Rightarrow> GameObject" where
  "turn_ball player degrees b =
     (let diff = vsub (center b) (center player);
          angle = degrees * pi / 180;
          new_diff = (fst diff * cos angle - snd diff * sin angle,
                      fst diff * sin angle + snd diff * cos angle)
      in b\<lparr>position := vshift (vadd (center player) new_diff) (- obj_radius b)\<rparr>)"

definition wrap_degrees :: "real \<Rightarrow> real" where
  "wrap_degrees r = (let r = fmod r 360 in if r < 0 then r + 360 else r)"

text \<open>The clamp at the end of the step, one axis: first the lower, then the upper border.\<close>

definition clamp_axis :: "real \<Rightarrow> real \<Rightarrow> real \<Rightarrow> real" where
  "clamp_axis lo hi p = (let p = (if p < lo then lo else p) in if p > hi then hi else p)"

definition clamp_player :: "GameObject \<Rightarrow> GameObject" where
  "clamp_player p =
     p\<lparr>position := (clamp_axis 50 (screen_width - fst (obj_size p) - 50) (fst (position p)),
                    clamp_axis 30 (screen_height - snd (obj_size p) - 30) (snd (position p)))\<rparr>"

text \<open>
  The retargeting: a profile to a new target, if it is more than 20 away from the current one.
\<close>

definition retarget :: "vec2 \<Rightarrow> GameObject \<Rightarrow> (motion_error + GameObject) option" where
  "retarget target p =
     (if vlength (vsub target (current_target p)) > 20
      then (case generateProfile (position p) target (rotation p * pi / 180) (current_velocities p) of
              None \<Rightarrow> None
            | Some (Inl e) \<Rightarrow> Some (Inl e)
            | Some (Inr profile) \<Rightarrow>
                Some (Inr (p\<lparr>current_target := target, currentProfile := profile,
                             current_segment_time := 0\<rparr>)))
      else Some (Inr p))"

text \<open>One time step along the current profile: the player, its ball if it holds it, the clamp.\<close>

definition follow_profile :: "real \<Rightarrow> bool \<Rightarrow> GameObject \<Rightarrow> GameObject \<Rightarrow> GameObject \<times> GameObject" where
  "follow_profile dt has_ball p b =
     (let t = current_segment_time p + dt;
          v = getVelocityState (currentProfile p) t;
          dx = vx v * dt;
          dy = vy v * dt;
          dtheta = vtheta v * dt * 180 / pi;
          p = p\<lparr>current_segment_time := t, current_velocities := v,
                position := vadd (position p) (dx, dy), rotation := wrap_degrees (rotation p + dtheta)\<rparr>;
          b = (if has_ball
               then let b = b\<lparr>position := vadd (position b) (dx, dy)\<rparr>
                    in if dtheta \<noteq> 0 then turn_ball p dtheta b else b
               else b)
      in (clamp_player p, b))"

text \<open>The drive towards a way point, skipped within a distance of 1.\<close>

definition drive_to :: "real \<Rightarrow> player_id \<Rightarrow> vec2 \<Rightarrow> Game \<Rightarrow> (motion_error + Game) option" where
  "drive_to dt me target g =
     (let p = get_player g me
      in if vlength (vsub target (position p)) > 1
         then (case retarget target p of
                 None \<Rightarrow> None
               | Some (Inl e) \<Rightarrow> Some (Inl e)
               | Some (Inr p) \<Rightarrow>
                   let (p, b) = follow_profile dt (obj_owner (ball g) = Some me) p (ball g)
                   in Some (Inr (set_player me p (g\<lparr>ball := b\<rparr>))))
         else Some (Inr g))"

definition UpdateAutoStrategy ::
  "(real \<times> draw) list \<Rightarrow> player_id \<Rightarrow> real \<Rightarrow> Game \<Rightarrow> (motion_error + Game) option" where
  "UpdateAutoStrategy readings me dt g =
     (let obstacles = add_obstacles (team1_players g @ team2_players g) 0;
          ctx = strategy_context me g
      in if is_auto_mode g
         then let (strat, strat_res, _) = strategy_update (m_strategy g) ctx;
                  g = g\<lparr>m_strategy := strat\<rparr>;
                  g = (if res_kick strat_res \<and> obj_owner (ball g) = Some me
                       then kick_ball (rotation (get_player g me)) g else g);
                  start = screenToRRTX (position (get_player g me));
                  goal = screenToRRTX (target_pos strat_res)
              in (case Plan start goal obstacles readings g of
                    None \<Rightarrow> None
                  | Some (g, path) \<Rightarrow>
                      if length path > 1 then drive_to dt me (rrtxToScreen (path ! 1)) g
                      else Some (Inr g))
         else Some (Inr g))"

section \<open>The manual player\<close>

definition UpdateManualMotion :: "player_id \<Rightarrow> real \<Rightarrow> Game \<Rightarrow> Game" where
  "UpdateManualMotion me dt g =
     (let p = get_player g me
      in if \<not> valid (currentProfile p) then g
         else let t = current_segment_time p + dt;
                  v = getVelocityState (currentProfile p) t;
                  dx = vx v * dt;
                  dy = vy v * dt;
                  dtheta = vtheta v * dt * 180 / pi
              in set_player me
                   (p\<lparr>current_segment_time := t, current_velocities := v,
                      position := vadd (position p) (dx, dy), rotation := rotation p + dtheta\<rparr>) g)"

section \<open>One step of the simulation\<close>

definition tick_reset :: "real \<Rightarrow> Game \<Rightarrow> Game" where
  "tick_reset dt g =
     (if reset_timer g > 0
      then let g = g\<lparr>reset_timer := reset_timer g - dt\<rparr>
           in if reset_timer g \<le> 0 then ResetPositions g else g
      else g)"

text \<open>The two loops keep the last player that is not locked.\<close>

definition movableBot :: "Game \<Rightarrow> player_id option" where
  "movableBot g =
     fold (\<lambda>a m. if \<not> locked (get_player g a) then Some a else m) (all_players g) None"

definition UpdateSimulation ::
  "(real \<times> draw) list \<Rightarrow> real \<Rightarrow> Game \<Rightarrow> (motion_error + Game) option" where
  "UpdateSimulation readings dt g =
     (let g = HandleManualKick (tick_reset dt g);
          g = g\<lparr>ball := Move dt screen_width screen_height (ball g)\<rparr>
      in case (case movableBot g of
                 None \<Rightarrow> Some (Inr g)
               | Some me \<Rightarrow>
                   if game_state g = GAME_ACTIVE
                   then if is_auto_mode g then UpdateAutoStrategy readings me dt g
                        else Some (Inr (UpdateManualMotion me dt g))
                   else Some (Inr g)) of
           None \<Rightarrow> None
         | Some (Inl e) \<Rightarrow> Some (Inl e)
         | Some (Inr g) \<Rightarrow> Some (Inr (DoCollisions g)))"

section \<open>Input\<close>

definition pressed_once :: "nat \<Rightarrow> Game \<Rightarrow> bool" where
  "pressed_once k g \<longleftrightarrow> keys g k \<and> \<not> keys_processed g k"

definition mark_processed :: "nat \<Rightarrow> Game \<Rightarrow> Game" where
  "mark_processed k g = g\<lparr>keys_processed := (keys_processed g)(k := True)\<rparr>"

text \<open>The target no click and no path can be near, set when the autonomous mode starts.\<close>

definition forget_target :: "GameObject \<Rightarrow> GameObject" where
  "forget_target p = p\<lparr>current_target := (-10000, -10000)\<rparr>"

definition ProcessDebugKeys :: "Game \<Rightarrow> Game" where
  "ProcessDebugKeys g =
     (let g = (if pressed_once KEY_J g
               then let d = \<not> is_debug_mode g
                    in (mark_processed KEY_J g)
                         \<lparr>is_debug_mode := d, rrtx_planner := setDebugMode d (rrtx_planner g)\<rparr>
               else g);
          g = (if pressed_once KEY_M g
               then let d = \<not> is_motion_debug_mode g
                    in (mark_processed KEY_M g)\<lparr>is_motion_debug_mode := d, motion_debug := d\<rparr>
               else g);
          g = (if pressed_once KEY_N g
               then let d = \<not> is_strat_debug_mode g
                    in (mark_processed KEY_N g)
                         \<lparr>is_strat_debug_mode := d, m_strategy := strategy_setDebugMode d (m_strategy g)\<rparr>
               else g);
          g = (if pressed_once KEY_R g then ResetPositions (mark_processed KEY_R g) else g)
      in if pressed_once KEY_L g
         then let m = \<not> is_auto_mode g;
                  g = (mark_processed KEY_L g)\<lparr>is_auto_mode := m\<rparr>
              in if m
                 then g\<lparr>team1_players := map forget_target (team1_players g),
                        team2_players := map forget_target (team2_players g)\<rparr>
                 else g
         else g)"

text \<open>
  A step of a player by a key: if the key is held and the player is inside the border, the player
  and the ball stuck to it move together.
\<close>

definition shift_by_key ::
  "bool \<Rightarrow> (vec2 \<Rightarrow> bool) \<Rightarrow> vec2 \<Rightarrow> bool \<Rightarrow> GameObject \<times> GameObject \<Rightarrow> GameObject \<times> GameObject" where
  "shift_by_key held inside d stuck = (\<lambda>(p, b).
     if held \<and> inside (position p)
     then (p\<lparr>position := vadd (position p) d\<rparr>,
           if stuck then b\<lparr>position := vadd (position b) d\<rparr> else b)
     else (p, b))"

text \<open>The four movement keys: left, right, up, down.\<close>

definition move_by_keys ::
  "bool \<Rightarrow> bool \<Rightarrow> bool \<Rightarrow> bool \<Rightarrow> real \<Rightarrow> bool \<Rightarrow> GameObject \<times> GameObject \<Rightarrow> GameObject \<times> GameObject" where
  "move_by_keys left right up down vel stuck pb =
     (let w = screen_width - fst (obj_size (fst pb)) - 50;
          h = screen_height - snd (obj_size (fst pb)) - 30;
          pb = shift_by_key left (\<lambda>q. fst q \<ge> 50) (- vel, 0) stuck pb;
          pb = shift_by_key right (\<lambda>q. fst q \<le> w) (vel, 0) stuck pb;
          pb = shift_by_key up (\<lambda>q. snd q \<ge> 30) (0, - vel) stuck pb
      in shift_by_key down (\<lambda>q. snd q \<le> h) (0, vel) stuck pb)"

text \<open>The actuator keys; \<open>U\<close>, the weak kick, is read in the active branch only.\<close>

definition actuator_keys :: "(nat \<Rightarrow> bool) \<Rightarrow> bool \<Rightarrow> GameObject \<Rightarrow> GameObject" where
  "actuator_keys ks active p =
     (let p = (if ks KEY_C then p\<lparr>charge := 1\<rparr> else p);
          p = (if ks KEY_V then p\<lparr>charge := 0\<rparr> else p);
          p = (if ks KEY_K then p\<lparr>kick := 1\<rparr> else p);
          p = (if ks KEY_I then p\<lparr>kick := 0\<rparr> else p);
          p = (if active \<and> ks KEY_U then p\<lparr>kick := 0.4\<rparr> else p);
          p = (if ks KEY_M then p\<lparr>dribbler := 1\<rparr> else p)
      in if ks KEY_N then p\<lparr>dribbler := 0\<rparr> else p)"

definition turn_by_keys ::
  "(nat \<Rightarrow> bool) \<Rightarrow> real \<Rightarrow> bool \<Rightarrow> GameObject \<times> GameObject \<Rightarrow> GameObject \<times> GameObject" where
  "turn_by_keys ks dt stuck pb =
     (let (p, b) = pb;
          rotation_velocity = player_rotation_velocity * dt;
          rot_change = (if ks KEY_Q then - rotation_velocity else 0);
          rot_change = (if ks KEY_E then rot_change + rotation_velocity else rot_change)
      in if rot_change \<noteq> 0
         then let p = p\<lparr>rotation := wrap_degrees (rotation p + rot_change)\<rparr>
              in (p, if stuck then turn_ball p rot_change b else b)
         else (p, b))"

text \<open>The speed bookkeeping at the end of the handler.\<close>

definition record_velocity :: "real \<Rightarrow> vec2 \<Rightarrow> real \<Rightarrow> GameObject \<Rightarrow> GameObject" where
  "record_velocity dt old_position old_rotation p =
     (if dt > 0.0001
      then let rot_diff = rotation p - old_rotation;
               rot_diff = (if rot_diff > 180 then rot_diff - 360
                           else if rot_diff < -180 then rot_diff + 360 else rot_diff)
           in p\<lparr>velocity := vscale (1 / dt) (vsub (position p) old_position),
                angular_velocity := rot_diff / dt\<rparr>
      else p\<lparr>velocity := (0, 0), angular_velocity := 0\<rparr>)"

text \<open>
  The body of the handler before that: the state (the passive flag may change), the player and the
  ball after the keys of the frame.
\<close>

definition player_keys ::
  "real \<Rightarrow> real \<Rightarrow> real \<Rightarrow> real \<Rightarrow> player_id \<Rightarrow> Game \<Rightarrow> Game \<times> GameObject \<times> GameObject" where
  "player_keys dt posX posY th me g =
     (let p = get_player g me;
          stuck = (obj_owner (ball g) = Some me);
          ks = keys g;
          vel = player_velocity * dt
      in if game_state g \<noteq> GAME_ACTIVE then (g, p, ball g)
         else if \<not> locked p
         then let g = (if ks KEY_P then g\<lparr>passive_mode := True\<rparr>
                       else if ks KEY_O then g\<lparr>passive_mode := False\<rparr> else g)
              in if passive_mode g
                 then (g, actuator_keys ks False
                    (p\<lparr>position := (50 + (posX + 1785) * 850 / 3570, 30 + (1190 - posY) * 520 / 2380),
                       rotation := th * 180 / 3.14\<rparr>), ball g)
                 else let (p, b) = move_by_keys (ks KEY_A) (ks KEY_D) (ks KEY_W) (ks KEY_S) vel stuck
                                     (p, ball g)
                      in (g, turn_by_keys ks dt stuck (actuator_keys ks True p, b))
         else if me = Team2 0
         then (g, move_by_keys (ks KEY_LEFT) (ks KEY_RIGHT) (ks KEY_UP) (ks KEY_DOWN) vel stuck (p, ball g))
         else (g, p, ball g))"

definition ProcessPlayerInput :: "real \<Rightarrow> real \<Rightarrow> real \<Rightarrow> real \<Rightarrow> player_id \<Rightarrow> Game \<Rightarrow> Game" where
  "ProcessPlayerInput dt posX posY th me g =
     (let oldPosition = position (get_player g me);
          oldRotation = rotation (get_player g me);
          (g, p, b) = player_keys dt posX posY th me g
      in set_player me (record_velocity dt oldPosition oldRotation p) (g\<lparr>ball := b\<rparr>))"

text \<open>
  A click of the mouse: whether the button is down, and where the cursor is. In manual mode the
  moment the button goes down sends the first robot of team 1 to the cursor.
\<close>

definition ProcessMouseClickMovement ::
  "bool \<Rightarrow> vec2 \<Rightarrow> Game \<Rightarrow> (motion_error + Game) option" where
  "ProcessMouseClickMovement leftClick cursor g =
     (if \<not> prevLeftClick g \<and> leftClick \<and> \<not> is_auto_mode g
      then let robot = get_player g (Team1 0);
               robot = robot\<lparr>current_target := cursor\<rparr>
           in case generateProfile (position robot) cursor (rotation robot * pi / 180)
                     (current_velocities robot) of
                None \<Rightarrow> None
              | Some (Inl e) \<Rightarrow> Some (Inl e)
              | Some (Inr profile) \<Rightarrow>
                  Some (Inr ((set_player (Team1 0)
                     (robot\<lparr>currentProfile := profile, current_segment_time := 0\<rparr>) g)
                     \<lparr>prevLeftClick := leftClick\<rparr>))
      else Some (Inr (g\<lparr>prevLeftClick := leftClick\<rparr>)))"

definition ProcessInput ::
  "bool \<Rightarrow> vec2 \<Rightarrow> real \<Rightarrow> real \<Rightarrow> real \<Rightarrow> real \<Rightarrow> Game \<Rightarrow> (motion_error + Game) option" where
  "ProcessInput leftClick cursor dt posX posY th g =
     (case ProcessMouseClickMovement leftClick cursor (ProcessDebugKeys g) of
        None \<Rightarrow> None
      | Some (Inl e) \<Rightarrow> Some (Inl e)
      | Some (Inr g) \<Rightarrow> Some (Inr (fold (ProcessPlayerInput dt posX posY th) (all_players g) g)))"

end
