(* ===== verification/GameInvariant.thy ===== *)
theory GameInvariant
  imports Game
begin

text \<open>
  The states the simulator can reach: its steps as a relation, the invariant they keep, and what
  follows for the players, the ball and the autonomous drive.
\<close>

section \<open>What an operation on one player keeps\<close>

text \<open>
  The part of the state that never changes: which players are locked, and where the players stand
  that no handler moves (all but the first of each team).
\<close>

definition fixed_view :: "Game \<Rightarrow> bool list \<times> bool list \<times> vec2 list \<times> vec2 list \<times> vec2 list \<times> vec2 list" where
  "fixed_view g =
     (map locked (team1_players g), map locked (team2_players g),
      map position (tl (team1_players g)), map position (tl (team2_players g)),
      start_pos_team1 g, start_pos_team2 g)"

lemma fixed_view_cong:
  "team1_players g' = team1_players g \<Longrightarrow> team2_players g' = team2_players g \<Longrightarrow>
   start_pos_team1 g' = start_pos_team1 g \<Longrightarrow> start_pos_team2 g' = start_pos_team2 g \<Longrightarrow>
   fixed_view g' = fixed_view g"
  by (simp add: fixed_view_def)

lemma map_list_update_id:
  "f p = f (xs ! i) \<Longrightarrow> map f (xs[i := p]) = map f xs"
  by (metis list_update_id map_update)

lemma tl_list_update: "tl (xs[i := p]) = (case i of 0 \<Rightarrow> tl xs | Suc j \<Rightarrow> (tl xs)[j := p])"
  by (cases xs; cases i) auto

lemma fixed_view_set_player:
  assumes "locked p = locked (get_player g a)"
    and "a = Team1 0 \<or> a = Team2 0 \<or> position p = position (get_player g a)"
  shows "fixed_view (set_player a p g) = fixed_view g"
proof -
  have tl_nth: "j < length (tl xs) \<Longrightarrow> tl xs ! j = xs ! Suc j" for j and xs :: "GameObject list"
    by (rule nth_tl)
  have upd: "map position ((tl xs)[j := p]) = map position (tl xs)"
    if "position p = position (xs ! Suc j)" for j and xs :: "GameObject list"
  proof (cases "j < length (tl xs)")
    case True
    then show ?thesis using that tl_nth [OF True] by (intro map_list_update_id) simp
  next
    case False
    then show ?thesis by (simp add: list_update_beyond)
  qed
  show ?thesis
  proof (cases a)
    case (Team1 i)
    then show ?thesis using assms upd
      by (auto simp: fixed_view_def map_list_update_id tl_list_update split: nat.splits)
  next
    case (Team2 i)
    then show ?thesis using assms upd
      by (auto simp: fixed_view_def map_list_update_id tl_list_update split: nat.splits)
  qed
qed

text \<open>The fields of the state that the operations on players leave alone.\<close>

lemma set_player_fields [simp]:
  "ball (set_player a p g) = ball g" "rrtx_planner (set_player a p g) = rrtx_planner g"
  "length (team1_players (set_player a p g)) = length (team1_players g)"
  "length (team2_players (set_player a p g)) = length (team2_players g)"
  "reset_timer (set_player a p g) = reset_timer g" "game_state (set_player a p g) = game_state g"
  "is_auto_mode (set_player a p g) = is_auto_mode g"
  "current_algo (set_player a p g) = current_algo g"
  "start_pos_ball (set_player a p g) = start_pos_ball g"
  by (cases a; simp)+

lemma all_players_cong:
  "length (team1_players g') = length (team1_players g) \<Longrightarrow>
   length (team2_players g') = length (team2_players g) \<Longrightarrow> all_players g' = all_players g"
  by (simp add: all_players_def team1_ids_def team2_ids_def)

lemma fixed_view_lengths:
  "fixed_view g' = fixed_view g \<Longrightarrow> all_players g' = all_players g"
  unfolding fixed_view_def by (rule all_players_cong) (metis length_map prod.inject)+

section \<open>The invariant\<close>

text \<open>
  A player may change its position if it is the movable robot or the first of team 2, which the
  arrow keys move.
\<close>

definition lock_map :: "bool list \<times> bool list" where
  "lock_map = ([False, True, True], [True, True, True])"

definition start_team1 :: "vec2 list" where
  "start_team1 = [(200, 290 - player_radius), (150, 150 - player_radius), (150, 430 - player_radius)]"

definition start_team2 :: "vec2 list" where
  "start_team2 = [(750, 100 - player_radius), (750, 480 - player_radius), (850, 100 - player_radius)]"

definition game_inv :: "Game \<Rightarrow> bool" where
  "game_inv g \<longleftrightarrow>
     fixed_view g = (fst lock_map, snd lock_map, tl start_team1, tl start_team2, start_team1, start_team2)
     \<and> (\<forall>a. obj_owner (ball g) = Some a \<longrightarrow> a \<in> set (all_players g))
     \<and> (m_config (rrtx_planner g))\<lparr>debug_mode := False\<rparr> = RRTXConfig_default"

lemma game_inv_lock:
  assumes "game_inv g"
  shows "length (team1_players g) = 3" "length (team2_players g) = 3"
    and "a \<in> set (all_players g) \<Longrightarrow> locked (get_player g a) \<longleftrightarrow> a \<noteq> Team1 0"
proof -
  have m: "map locked (team1_players g) = [False, True, True]" "map locked (team2_players g) = [True, True, True]"
    using assms by (auto simp: game_inv_def fixed_view_def lock_map_def)
  then show l: "length (team1_players g) = 3" "length (team2_players g) = 3"
    by (metis length_map length_Cons list.size(3) numeral_3_eq_3)+
  have lt3: "i < 3 \<Longrightarrow> i = 0 \<or> i = 1 \<or> i = 2" for i :: nat by linarith
  have "locked (team1_players g ! i) \<longleftrightarrow> i \<noteq> 0" "locked (team2_players g ! i)" if "i < 3" for i
    using nth_map [of i "team1_players g" locked] nth_map [of i "team2_players g" locked] lt3 [OF that]
    by (auto simp: m l)
  then show "a \<in> set (all_players g) \<Longrightarrow> locked (get_player g a) \<longleftrightarrow> a \<noteq> Team1 0"
    using l by (auto simp: all_players_def team1_ids_def team2_ids_def)
qed

definition six_ids :: "player_id list" where
  "six_ids = [Team1 0, Team1 1, Team1 2, Team2 0, Team2 1, Team2 2]"

lemma game_inv_players: "game_inv g \<Longrightarrow> all_players g = six_ids"
  using game_inv_lock(1,2)
  by (auto simp: six_ids_def all_players_def team1_ids_def team2_ids_def upt_rec numeral_3_eq_3)

lemma game_inv_cong:
  "game_inv g \<Longrightarrow> fixed_view g' = fixed_view g \<Longrightarrow>
   obj_owner (ball g') = obj_owner (ball g) \<or> obj_owner (ball g') = None \<Longrightarrow>
   m_config (rrtx_planner g') = m_config (rrtx_planner g) \<Longrightarrow> game_inv g'"
  using fixed_view_lengths [of g' g] by (auto simp: game_inv_def)

text \<open>The fields it does not read.\<close>

lemma game_inv_neutral [simp]:
  "game_inv (g\<lparr>keys := a\<rparr>) = game_inv g" "game_inv (g\<lparr>keys_processed := a\<rparr>) = game_inv g"
  "game_inv (g\<lparr>is_debug_mode := b\<rparr>) = game_inv g" "game_inv (g\<lparr>is_motion_debug_mode := b\<rparr>) = game_inv g"
  "game_inv (g\<lparr>is_strat_debug_mode := b\<rparr>) = game_inv g" "game_inv (g\<lparr>motion_debug := b\<rparr>) = game_inv g"
  "game_inv (g\<lparr>is_auto_mode := b\<rparr>) = game_inv g" "game_inv (g\<lparr>passive_mode := b\<rparr>) = game_inv g"
  "game_inv (g\<lparr>prevLeftClick := b\<rparr>) = game_inv g" "game_inv (g\<lparr>window_should_close := b\<rparr>) = game_inv g"
  "game_inv (g\<lparr>reset_timer := r\<rparr>) = game_inv g" "game_inv (g\<lparr>current_algo := al\<rparr>) = game_inv g"
  "game_inv (g\<lparr>m_strategy := st\<rparr>) = game_inv g"
  by (simp_all add: game_inv_def fixed_view_def all_players_def team1_ids_def team2_ids_def)

lemma movableBot_inv: "game_inv g \<Longrightarrow> movableBot g = Some (Team1 0)"
proof -
  assume g: "game_inv g"
  have "locked (get_player g a) \<longleftrightarrow> a \<noteq> Team1 0" if "a \<in> set six_ids" for a
    using game_inv_lock(3) [OF g] that by (simp add: game_inv_players [OF g])
  from this [of "Team1 0"] this [of "Team1 1"] this [of "Team1 2"] this [of "Team2 0"]
    this [of "Team2 1"] this [of "Team2 2"]
  show ?thesis unfolding movableBot_def game_inv_players [OF g] by (simp add: six_ids_def)
qed

section \<open>Every operation keeps the invariant\<close>

lemma game_inv_set_player:
  assumes "game_inv g" "locked p = locked (get_player g a)"
    and "a = Team1 0 \<or> a = Team2 0 \<or> position p = position (get_player g a)"
  shows "game_inv (set_player a p g)"
  using assms by (intro game_inv_cong [OF assms(1)] fixed_view_set_player) auto

lemma game_inv_ball:
  "game_inv g \<Longrightarrow> obj_owner b = obj_owner (ball g) \<or> obj_owner b = None \<Longrightarrow> game_inv (g\<lparr>ball := b\<rparr>)"
  by (rule game_inv_cong) (auto intro: fixed_view_cong)

lemma get_set_player: "a \<noteq> b \<Longrightarrow> get_player (set_player a p g) b = get_player g b"
  by (cases a; cases b) auto

lemma collide_bots_inv:
  assumes g: "game_inv g" and ab: "a \<in> set (all_players g)" "b \<in> set (all_players g)"
  shows "game_inv (collide_bots (a, b) g)"
proof (cases "a = b")
  case True
  then show ?thesis using g by (simp add: collide_bots_def)
next
  case False
  obtain q1 q2 where h: "HandleBotCollision (get_player g a) (get_player g b) = (q1, q2)" by fastforce
  note l = HandleBotCollision_locked [OF h]
  have pos: "a = Team1 0 \<or> a = Team2 0 \<or> position q1 = position (get_player g a)"
    "b = Team1 0 \<or> b = Team2 0 \<or> position q2 = position (get_player g b)"
    using l(3,4) game_inv_lock(3) [OF g] ab by auto
  have g1: "game_inv (set_player a q1 g)" by (rule game_inv_set_player [OF g l(1) pos(1)])
  have "game_inv (set_player b q2 (set_player a q1 g))"
    using l(2) pos(2) by (intro game_inv_set_player [OF g1]) (simp_all add: get_set_player [OF False])
  then show ?thesis using False by (simp add: collide_bots_def h)
qed

lemma collide_ball_inv:
  assumes g: "game_inv g" and a: "a \<in> set (all_players g)"
  shows "game_inv (collide_ball a g)"
proof -
  have "fixed_view (collide_ball a g) = fixed_view g" "all_players (collide_ball a g) = all_players g"
    by (auto simp: collide_ball_def intro!: fixed_view_cong all_players_cong)
  then show ?thesis
    using g a HandleBallCollision_owner [of "ball g" a "get_player g a"]
    by (auto simp: game_inv_def collide_ball_def)
qed

lemma fold_inv: "game_inv g \<Longrightarrow> (\<And>x h. x \<in> set xs \<Longrightarrow> game_inv h \<Longrightarrow> game_inv (f x h)) \<Longrightarrow> game_inv (fold f xs g)"
  by (induction xs arbitrary: g) auto

lemma pairs_subset: "(x, y) \<in> set (pairs xs) \<Longrightarrow> x \<in> set xs \<and> y \<in> set xs"
  by (induction xs) auto

lemma DoCollisions_inv: "game_inv g \<Longrightarrow> game_inv (DoCollisions g)"
proof -
  assume g: "game_inv g"
  have bots: "game_inv (collide_bots x h)" if "x \<in> set (pairs six_ids)" "game_inv h" for x h
    using collide_bots_inv [OF that(2)] pairs_subset [of "fst x" "snd x" six_ids] that
    by (cases x) (simp add: game_inv_players [OF that(2)])
  have balls: "game_inv (collide_ball x h)" if "x \<in> set six_ids" "game_inv h" for x h
    using collide_ball_inv [OF that(2)] that by (simp add: game_inv_players [OF that(2)])
  have "game_inv (fold collide_bots (pairs six_ids) g)"
    using g by (rule fold_inv) (rule bots)
  then have "game_inv (fold collide_ball six_ids (fold collide_bots (pairs six_ids) g))"
    by (rule fold_inv) (rule balls)
  then show ?thesis by (simp add: DoCollisions_def game_inv_players [OF g])
qed

lemma reset_team_props:
  "map locked (reset_team r ss ps) = map locked ps"
  "length ss = length ps \<Longrightarrow> map position (reset_team r ss ps) = ss"
  by (induction r ss ps rule: reset_team.induct) (auto simp: reset_player_def)

lemma ResetPositions_inv: "game_inv g \<Longrightarrow> game_inv (ResetPositions g)"
proof -
  assume g: "game_inv g"
  have sp: "start_pos_team1 g = start_team1" "start_pos_team2 g = start_team2"
    "map position (tl (team1_players g)) = tl start_team1" "map position (tl (team2_players g)) = tl start_team2"
    using g by (simp_all add: game_inv_def fixed_view_def)
  have "map position (tl (reset_team r ss ps)) = tl ss" if "length ss = length ps" for r ss ps
    using reset_team_props(2) [OF that, of r] by (simp add: map_tl)
  then have "fixed_view (ResetPositions g) = fixed_view g"
    using game_inv_lock(1,2) [OF g]
    by (simp add: fixed_view_def ResetPositions_def reset_team_props(1) sp start_team1_def start_team2_def)
  then show ?thesis
    using g by (auto simp: game_inv_def ResetPositions_def fixed_view_def)
qed

lemma tick_reset_inv: "game_inv g \<Longrightarrow> game_inv (tick_reset dt g)"
  by (simp add: tick_reset_def Let_def ResetPositions_inv)

lemma kick_ball_inv: "game_inv g \<Longrightarrow> game_inv (kick_ball rot g)"
  by (rule game_inv_cong) (auto simp: kick_ball_def intro: fixed_view_cong)

lemma HandleManualKick_inv: "game_inv g \<Longrightarrow> game_inv (HandleManualKick g)"
  by (auto simp: HandleManualKick_def kick_ball_inv split: option.split)

text \<open>The handlers of one player keep its lock and the owner of the ball.\<close>

lemma follow_profile_keeps:
  "follow_profile dt hb p b = (p', b') \<Longrightarrow> locked p' = locked p \<and> obj_owner b' = obj_owner b"
  by (auto simp: follow_profile_def Let_def clamp_player_def turn_ball_def split: if_splits)

lemma retarget_keeps: "retarget target p = Some (Inr p') \<Longrightarrow> locked p' = locked p"
  by (auto simp: retarget_def split: if_splits option.splits sum.splits)

lemma drive_to_inv:
  assumes g: "game_inv g" and d: "drive_to dt (Team1 0) target g = Some (Inr g')"
  shows "game_inv g'"
proof (cases "vlength (vsub target (position (get_player g (Team1 0)))) > 1")
  case False
  then show ?thesis using assms by (simp add: drive_to_def Let_def)
next
  case True
  then obtain p p' b where p: "retarget target (get_player g (Team1 0)) = Some (Inr p)"
    and f: "follow_profile dt (obj_owner (ball g) = Some (Team1 0)) p (ball g) = (p', b)"
    and g': "g' = set_player (Team1 0) p' (g\<lparr>ball := b\<rparr>)"
    using d by (auto simp: drive_to_def Let_def split: option.splits sum.splits prod.splits)
  note k = retarget_keeps [OF p] follow_profile_keeps [OF f]
  show ?thesis
    unfolding g' using k by (intro game_inv_set_player game_inv_ball [OF g]) auto
qed

lemma Plan_inv:
  assumes "game_inv g" "Plan start goal obs readings g = Some (g', path)"
  shows "game_inv g'"
proof (cases "current_algo g")
  case ALGO_RRTX
  then obtain planner where "PlanningStep start goal obs (rrtx_planner g) readings = Some (planner, path)"
    and g': "g' = g\<lparr>rrtx_planner := planner\<rparr>"
    using assms(2) by (auto simp: Plan_def split: option.splits)
  then have "m_config planner = m_config (rrtx_planner g)" by (simp add: PlanningStep_config)
  then show ?thesis
    unfolding g' by (intro game_inv_cong [OF assms(1)] fixed_view_cong) simp_all
next
  case ALGO_DUMMY
  then show ?thesis using assms by (simp add: Plan_def)
qed

lemma UpdateAutoStrategy_inv:
  assumes g: "game_inv g" and u: "UpdateAutoStrategy readings (Team1 0) dt g = Some (Inr g')"
  shows "game_inv g'"
proof (cases "is_auto_mode g")
  case False
  then show ?thesis using assms by (simp add: UpdateAutoStrategy_def Let_def)
next
  case True
  obtain strat res msg where s: "strategy_update (m_strategy g) (strategy_context (Team1 0) g) = (strat, res, msg)"
    by (metis prod.exhaust)
  define g1 where "g1 = g\<lparr>m_strategy := strat\<rparr>"
  define g2 where "g2 = (if res_kick res \<and> obj_owner (ball g1) = Some (Team1 0)
    then kick_ball (rotation (get_player g1 (Team1 0))) g1 else g1)"
  have "game_inv g1" using g by (simp add: g1_def)
  then have i2: "game_inv g2" by (simp add: g2_def kick_ball_inv)
  let ?s = "screenToRRTX (position (get_player g2 (Team1 0)))" and ?t = "screenToRRTX (target_pos res)"
  let ?obs = "add_obstacles (team1_players g @ team2_players g) 0"
  obtain g3 path where p: "Plan ?s ?t ?obs readings g2 = Some (g3, path)"
    and r: "(if length path > 1 then drive_to dt (Team1 0) (rrtxToScreen (path ! 1)) g3 else Some (Inr g3))
        = Some (Inr g')"
    using u [unfolded UpdateAutoStrategy_def Let_def s prod.case, folded g1_def, folded g2_def] True
    by (auto split: option.splits simp del: get_player.simps)
  have "game_inv g3" by (rule Plan_inv [OF i2 p])
  with r show ?thesis by (auto split: if_splits intro: drive_to_inv)
qed

lemma UpdateManualMotion_inv: "game_inv g \<Longrightarrow> game_inv (UpdateManualMotion (Team1 0) dt g)"
  unfolding UpdateManualMotion_def Let_def
  by (auto intro!: game_inv_set_player simp del: get_player.simps set_player.simps)

lemma UpdateSimulation_inv:
  assumes g: "game_inv g" and u: "UpdateSimulation readings dt g = Some (Inr g')"
  shows "game_inv g'"
proof -
  define g1 where "g1 = HandleManualKick (tick_reset dt g)"
  define g2 where "g2 = g1\<lparr>ball := Move dt screen_width screen_height (ball g1)\<rparr>"
  have "game_inv g1" by (simp add: g1_def HandleManualKick_inv tick_reset_inv g)
  then have g2: "game_inv g2" unfolding g2_def by (rule game_inv_ball) simp
  show ?thesis
    using u unfolding UpdateSimulation_def Let_def g1_def [symmetric] g2_def [symmetric]
    by (auto simp: movableBot_inv [OF g2] split: if_splits option.splits sum.splits
        intro!: DoCollisions_inv UpdateManualMotion_inv [OF g2] dest: UpdateAutoStrategy_inv [OF g2] simp: g2)
qed

text \<open>Input.\<close>

lemma let_inv: "game_inv x \<Longrightarrow> (\<And>y. game_inv y \<Longrightarrow> game_inv (f y)) \<Longrightarrow> game_inv (let y = x in f y)"
  by (simp add: Let_def)

lemma KeyCallback_inv: "game_inv g \<Longrightarrow> game_inv (KeyCallback k act g)"
  unfolding KeyCallback_def by (rule let_inv) (auto split: key_action.split)

lemma SetCurrentAlgo_inv: "game_inv g \<Longrightarrow> game_inv (SetCurrentAlgo a g)"
  by (simp add: SetCurrentAlgo_def)

lemma mark_processed_inv [simp]: "game_inv (mark_processed k g) = game_inv g"
  by (simp add: mark_processed_def)

lemma planner_debug_inv [simp]:
  "rrtx_planner g = pl \<Longrightarrow> game_inv (g\<lparr>rrtx_planner := setDebugMode d pl\<rparr>) = game_inv g"
  by (auto simp: game_inv_def fixed_view_def all_players_def team1_ids_def team2_ids_def setDebugMode_def)

lemma forget_target_inv:
  "game_inv g \<Longrightarrow> team1_players g = t1 \<Longrightarrow> team2_players g = t2 \<Longrightarrow>
   game_inv (g\<lparr>team1_players := map forget_target t1, team2_players := map forget_target t2\<rparr>)"
  by (rule game_inv_cong) (auto simp: fixed_view_def forget_target_def map_tl o_def)

lemma ProcessDebugKeys_inv: "game_inv g \<Longrightarrow> game_inv (ProcessDebugKeys g)"
  unfolding ProcessDebugKeys_def
proof (intro let_inv, goal_cases)
  case (5 y)
  then show ?case by (simp add: Let_def mark_processed_def forget_target_inv)
qed (simp_all add: Let_def mark_processed_def ResetPositions_inv)

lemma shift_by_key_keeps:
  "shift_by_key held inside d stuck (p, b) = (p', b') \<Longrightarrow> locked p' = locked p \<and> obj_owner b' = obj_owner b"
  by (auto simp: shift_by_key_def split: if_splits)

lemma move_by_keys_keeps:
  "move_by_keys l r u d vel stuck (p, b) = (p', b') \<Longrightarrow> locked p' = locked p \<and> obj_owner b' = obj_owner b"
  unfolding move_by_keys_def Let_def by (metis shift_by_key_keeps prod.exhaust)

lemma turn_by_keys_keeps:
  "turn_by_keys ks dt stuck (p, b) = (p', b') \<Longrightarrow> locked p' = locked p \<and> obj_owner b' = obj_owner b"
  by (auto simp: turn_by_keys_def turn_ball_def Let_def split: if_splits)

lemma actuator_keys_keeps [simp]:
  "locked (actuator_keys ks a p) = locked p" "position (actuator_keys ks a p) = position p"
  "obj_radius (actuator_keys ks a p) = obj_radius p"
  by (simp_all add: actuator_keys_def Let_def)

lemma record_velocity_keeps [simp]:
  "locked (record_velocity dt q r p) = locked p" "position (record_velocity dt q r p) = position p"
  "obj_radius (record_velocity dt q r p) = obj_radius p"
  by (simp_all add: record_velocity_def Let_def)

lemma player_keys_keeps:
  assumes "player_keys dt x y th a g = (g', p, b)"
  shows "locked p = locked (get_player g a)" "obj_owner b = obj_owner (ball g)"
    and "a = Team2 0 \<or> (locked p \<longrightarrow> position p = position (get_player g a))"
    and "g' = g \<or> (\<exists>m. g' = g\<lparr>passive_mode := m\<rparr>)"
proof -
  obtain p1 b1 where m1: "move_by_keys (keys g KEY_A) (keys g KEY_D) (keys g KEY_W) (keys g KEY_S)
      (player_velocity * dt) (obj_owner (ball g) = Some a) (get_player g a, ball g) = (p1, b1)" by fastforce
  obtain p2 b2 where m2: "move_by_keys (keys g KEY_LEFT) (keys g KEY_RIGHT) (keys g KEY_UP) (keys g KEY_DOWN)
      (player_velocity * dt) (obj_owner (ball g) = Some a) (get_player g a, ball g) = (p2, b2)" by fastforce
  obtain p3 b3 where t: "turn_by_keys (keys g) dt (obj_owner (ball g) = Some a)
      (actuator_keys (keys g) True p1, b1) = (p3, b3)" by fastforce
  note k = move_by_keys_keeps [OF m1] move_by_keys_keeps [OF m2] turn_by_keys_keeps [OF t]
  have "locked p = locked (get_player g a) \<and> obj_owner b = obj_owner (ball g)
    \<and> (a = Team2 0 \<or> (locked p \<longrightarrow> position p = position (get_player g a)))
    \<and> (g' = g \<or> (\<exists>m. g' = g\<lparr>passive_mode := m\<rparr>))"
    using assms k unfolding player_keys_def Let_def
    by (auto simp: m1 m2 t split: if_splits simp del: get_player.simps dest: move_by_keys_keeps)
  then show "locked p = locked (get_player g a)" "obj_owner b = obj_owner (ball g)"
    "a = Team2 0 \<or> (locked p \<longrightarrow> position p = position (get_player g a))"
    "g' = g \<or> (\<exists>m. g' = g\<lparr>passive_mode := m\<rparr>)" by blast+
qed

lemma get_player_neutral [simp]:
  "get_player (g\<lparr>passive_mode := m\<rparr>) = get_player g" "get_player (g\<lparr>ball := b\<rparr>) = get_player g"
  by (rule ext, case_tac x, simp_all)+

lemma ProcessPlayerInput_inv:
  assumes g: "game_inv g" and a: "a \<in> set (all_players g)"
  shows "game_inv (ProcessPlayerInput dt x y th a g)"
proof -
  obtain g' p b where r: "player_keys dt x y th a g = (g', p, b)" by (metis prod.exhaust)
  note k = player_keys_keeps [OF r]
  have g': "game_inv g'" "ball g' = ball g" "get_player g' = get_player g" using k(4) g by auto
  have "a = Team1 0 \<or> a = Team2 0 \<or> position p = position (get_player g a)"
    using k(1,3) game_inv_lock(3) [OF g a] by auto
  then show ?thesis
    unfolding ProcessPlayerInput_def r Let_def prod.case using k(1,2) g'
    by (intro game_inv_set_player game_inv_ball) auto
qed

lemma ProcessMouseClickMovement_inv:
  assumes "game_inv g" "ProcessMouseClickMovement lc cursor g = Some (Inr g')"
  shows "game_inv g'"
  using assms unfolding ProcessMouseClickMovement_def Let_def
  by (auto split: if_splits option.splits sum.splits simp del: get_player.simps set_player.simps
      intro!: game_inv_set_player)

lemma ProcessInput_inv:
  assumes "game_inv g" "ProcessInput lc cursor dt x y th g = Some (Inr g')"
  shows "game_inv g'"
proof -
  obtain h where "ProcessMouseClickMovement lc cursor (ProcessDebugKeys g) = Some (Inr h)"
    and g': "g' = fold (ProcessPlayerInput dt x y th) (all_players h) h"
    using assms(2) by (auto simp: ProcessInput_def split: option.splits sum.splits)
  then have h: "game_inv h"
    using ProcessMouseClickMovement_inv [OF ProcessDebugKeys_inv [OF assms(1)]] by blast
  have "game_inv (fold (ProcessPlayerInput dt x y th) six_ids h)"
    using h by (rule fold_inv) (simp add: ProcessPlayerInput_inv game_inv_players)
  then show ?thesis by (simp add: g' game_inv_players [OF h])
qed

section \<open>Reachable states\<close>

text \<open>The steps of the program: key events, the choice of the algorithm, input frames, simulation steps,
  the user closing the window.\<close>

inductive game_step :: "Game \<Rightarrow> Game \<Rightarrow> bool" where
  key: "game_step g (KeyCallback k act g)"
| algo: "game_step g (SetCurrentAlgo a g)"
| input: "ProcessInput lc cursor dt x y th g = Some (Inr g') \<Longrightarrow> game_step g g'"
| simulate: "UpdateSimulation readings dt g = Some (Inr g') \<Longrightarrow> game_step g g'"
| close: "game_step g (g\<lparr>window_should_close := True\<rparr>)"

text \<open>
  The start: the constructor places the objects in a game whose planner has its default
  configuration; the memory \<open>mem\<close> gives the members that are not initialised.
\<close>

inductive reachable :: "Game \<Rightarrow> bool" where
  init: "m_config (rrtx_planner g) = RRTXConfig_default \<Longrightarrow> reachable (ObjectPosInit mem g)"
| step: "reachable g \<Longrightarrow> game_step g g' \<Longrightarrow> reachable g'"

lemma ObjectPosInit_inv:
  "m_config (rrtx_planner g) = RRTXConfig_default \<Longrightarrow> game_inv (ObjectPosInit mem g)"
  by (simp add: game_inv_def fixed_view_def ObjectPosInit_def Let_def lock_map_def start_team1_def
      start_team2_def GameObject_new_def RRTXConfig_default_def upt_rec)

lemma game_step_inv: "game_step g g' \<Longrightarrow> game_inv g \<Longrightarrow> game_inv g'"
  by (induction rule: game_step.induct)
     (auto intro: KeyCallback_inv SetCurrentAlgo_inv ProcessInput_inv UpdateSimulation_inv)

lemma reachable_inv: "reachable g \<Longrightarrow> game_inv g"
  by (induction rule: reachable.induct) (auto intro: ObjectPosInit_inv game_step_inv)

section \<open>Planning and driving end\<close>

lemma PlanningStep_total:
  assumes "0 \<le> step_size (m_config st)" "\<exists>r\<in>set readings. recalculation_time_ms (m_config st) \<le> fst r"
  shows "\<exists>st' path. PlanningStep start goal obs st readings = Some (st', path)"
proof (cases "isCollisionFree (planning_state start goal obs st) start goal")
  case True
  then show ?thesis by (simp add: PlanningStep_def plan_def)
next
  case False
  then show ?thesis using PlanningStep_returns [OF assms False] by blast
qed

lemma drive_to_returns: "\<exists>g'. drive_to dt a target g = Some (Inr g')"
proof -
  have "\<exists>p'. retarget target p = Some (Inr p')" for p
  proof -
    obtain prof where "generateProfile (position p) target (rotation p * pi / 180) (current_velocities p) = Some (Inr prof)"
      by (rule generateProfile_total)
    then show ?thesis by (simp add: retarget_def)
  qed
  then obtain p' where "retarget target (get_player g a) = Some (Inr p')" by blast
  then show ?thesis by (simp add: drive_to_def Let_def split: prod.split)
qed

lemma Plan_returns:
  assumes "game_inv g" "\<exists>r\<in>set readings. 10 \<le> fst r"
  shows "\<exists>g' path. Plan start goal obs readings g = Some (g', path)"
proof (cases "current_algo g")
  case ALGO_RRTX
  have c: "(m_config (rrtx_planner g))\<lparr>debug_mode := False\<rparr> = RRTXConfig_default"
    using assms(1) by (simp add: game_inv_def)
  have "step_size (m_config (rrtx_planner g)) = 0.2" "recalculation_time_ms (m_config (rrtx_planner g)) = 10"
    using arg_cong [OF c, of step_size] arg_cong [OF c, of recalculation_time_ms]
    by (simp_all add: RRTXConfig_default_def)
  then have "\<exists>st' path. PlanningStep start goal obs (rrtx_planner g) readings = Some (st', path)"
    using assms(2) by (intro PlanningStep_total) auto
  then show ?thesis using ALGO_RRTX by (auto simp: Plan_def)
next
  case ALGO_DUMMY
  then show ?thesis by (simp add: Plan_def)
qed

lemma UpdateAutoStrategy_returns:
  assumes g: "game_inv g" and clock: "\<exists>r\<in>set readings. 10 \<le> fst r"
  shows "\<exists>g'. UpdateAutoStrategy readings a dt g = Some (Inr g')"
proof (cases "is_auto_mode g")
  case False
  then show ?thesis by (simp add: UpdateAutoStrategy_def Let_def)
next
  case True
  obtain strat res msg where s: "strategy_update (m_strategy g) (strategy_context a g) = (strat, res, msg)"
    by (metis prod.exhaust)
  define g2 where "g2 = (if res_kick res \<and> obj_owner (ball (g\<lparr>m_strategy := strat\<rparr>)) = Some a
    then kick_ball (rotation (get_player (g\<lparr>m_strategy := strat\<rparr>) a)) (g\<lparr>m_strategy := strat\<rparr>)
    else g\<lparr>m_strategy := strat\<rparr>)"
  have "game_inv g2" using g by (simp add: g2_def kick_ball_inv)
  then obtain g3 path where p: "Plan (screenToRRTX (position (get_player g2 a))) (screenToRRTX (target_pos res))
      (add_obstacles (team1_players g @ team2_players g) 0) readings g2 = Some (g3, path)"
    using Plan_returns [OF _ clock] by blast
  show ?thesis
    unfolding UpdateAutoStrategy_def Let_def s prod.case g2_def [symmetric] p
    using True drive_to_returns by simp
qed

lemma ProcessInput_total: "\<exists>g'. ProcessInput lc cursor dt x y th g = Some (Inr g')"
proof -
  have "\<exists>h. ProcessMouseClickMovement lc cursor g = Some (Inr h)" for g
  proof -
    obtain prof where "generateProfile (position (get_player g (Team1 0))) cursor
        (rotation (get_player g (Team1 0)) * pi / 180) (current_velocities (get_player g (Team1 0))) = Some (Inr prof)"
      by (rule generateProfile_total)
    then show ?thesis by (simp add: ProcessMouseClickMovement_def Let_def)
  qed
  then obtain h where "ProcessMouseClickMovement lc cursor (ProcessDebugKeys g) = Some (Inr h)" by blast
  then show ?thesis by (simp add: ProcessInput_def)
qed

lemma UpdateSimulation_total:
  assumes "reachable g" and "\<exists>r\<in>set readings. 10 \<le> fst r"
  shows "\<exists>g'. UpdateSimulation readings dt g = Some (Inr g') \<and> reachable g'"
proof -
  define g1 where "g1 = HandleManualKick (tick_reset dt g)"
  define g2 where "g2 = g1\<lparr>ball := Move dt screen_width screen_height (ball g1)\<rparr>"
  have "game_inv g1" by (simp add: g1_def HandleManualKick_inv tick_reset_inv reachable_inv assms(1))
  then have g2: "game_inv g2" unfolding g2_def by (rule game_inv_ball) simp
  obtain g3 where "UpdateAutoStrategy readings (Team1 0) dt g2 = Some (Inr g3)"
    using UpdateAutoStrategy_returns [OF g2 assms(2)] by blast
  then have "\<exists>g'. UpdateSimulation readings dt g = Some (Inr g')"
    unfolding UpdateSimulation_def Let_def g1_def [symmetric] g2_def [symmetric]
    by (cases "game_state g2 = GAME_ACTIVE"; cases "is_auto_mode g2") (simp_all add: movableBot_inv [OF g2])
  then show ?thesis using assms(1) by (blast intro: reachable.step game_step.simulate)
qed

section \<open>Properties\<close>

text \<open>
  Property C3. In every reachable state the teams have three players each; exactly the first
  player of team 1 can move (it is the robot the simulation drives); the other players of team 1
  and the last two of team 2 stand where they started, whatever was pressed, clicked, kicked or hit;
  and the ball is free or held by an existing player.
\<close>

theorem reachable_players:
  assumes "reachable g"
  shows "length (team1_players g) = 3 \<and> length (team2_players g) = 3 \<and> movableBot g = Some (Team1 0)
    \<and> (\<forall>i<3. (locked (team1_players g ! i) \<longleftrightarrow> i \<noteq> 0) \<and> locked (team2_players g ! i))
    \<and> map position (tl (team1_players g)) = [(150, 131.5), (150, 411.5)]
    \<and> map position (tl (team2_players g)) = [(750, 461.5), (850, 81.5)]
    \<and> (\<forall>a. obj_owner (ball g) = Some a \<longrightarrow> a \<in> set (all_players g))"
proof -
  have g: "game_inv g" by (rule reachable_inv [OF assms])
  note l = game_inv_lock [OF g]
  have "locked (get_player g (Team1 i)) \<longleftrightarrow> i \<noteq> 0" "locked (get_player g (Team2 i))" if "i < 3" for i
    using l(3) [of "Team1 i"] l(3) [of "Team2 i"] l(1,2) that
    by (auto simp: all_players_def team1_ids_def team2_ids_def)
  moreover have "map position (tl (team1_players g)) = tl start_team1"
    "map position (tl (team2_players g)) = tl start_team2"
    "\<forall>a. obj_owner (ball g) = Some a \<longrightarrow> a \<in> set (all_players g)"
    using g by (simp_all add: game_inv_def fixed_view_def)
  ultimately show ?thesis
    using l(1,2) movableBot_inv [OF g] by (simp add: start_team1_def start_team2_def player_radius_def)
qed

definition demo_game :: Game where
  "demo_game = ObjectPosInit (\<lambda>_. (0, 0))
     \<lparr>ball = demo_ball, team1_players = [], team2_players = [], game_state = GAME_ACTIVE,
      start_pos_team1 = [], start_pos_team2 = [], start_pos_ball = (0, 0), reset_timer = -1,
      current_algo = ALGO_DUMMY, rrtx_planner = demo_planner, m_strategy = MainStrategy_new,
      is_auto_mode = True, passive_mode = False, keys = (\<lambda>_. False), keys_processed = (\<lambda>_. False),
      is_debug_mode = False, is_motion_debug_mode = False, is_strat_debug_mode = False,
      motion_debug = False, prevLeftClick = False, window_should_close = False\<rparr>"

lemma demo_reachable: "reachable demo_game"
  unfolding demo_game_def by (rule reachable.init) (simp add: demo_planner_def)

theorem reachable_players_witness:
  "movableBot demo_game = Some (Team1 0) \<and> locked (team2_players demo_game ! 2)"
  using reachable_players [OF demo_reachable] by simp

text \<open>
  Property C2. A step of the simulation always completes: from every reachable state and for every
  time step it returns without an exception, in a reachable state, as soon as one clock reading of
  the planner reaches its time limit of 10 ms.
\<close>

theorem UpdateSimulation_returns:
  assumes "reachable g" and "\<exists>r\<in>set readings. 10 \<le> fst r"
  shows "\<exists>g'. UpdateSimulation readings dt g = Some (Inr g') \<and> reachable g'"
  by (rule UpdateSimulation_total [OF assms])

theorem UpdateSimulation_returns_witness:
  "\<exists>g'. UpdateSimulation [(0, 0, 0, 0), (11, 0, 0, 0)] (1 / 60) demo_game = Some (Inr g') \<and> reachable g'"
  by (rule UpdateSimulation_returns [OF demo_reachable]) simp

end
