(* ===== verification/GameDrive.thy ===== *)
theory GameDrive
  imports GameInvariant
begin

text \<open>
  How the ball is carried by the player that holds it, and where the autonomous player drives.
\<close>

section \<open>Carrying the ball\<close>

text \<open>The vector from the centre of a player to the centre of the ball.\<close>

definition ball_offset :: "GameObject \<Rightarrow> GameObject \<Rightarrow> vec2" where
  "ball_offset p b = vsub (center b) (center p)"

lemma shift_by_key_offset:
  "shift_by_key held inside d True (p, b) = (p', b') \<Longrightarrow> ball_offset p' b' = ball_offset p b"
  by (auto simp: shift_by_key_def ball_offset_def center_def vec_defs split: if_splits)

lemma move_by_keys_offset:
  "move_by_keys l r u d vel True (p, b) = (p', b') \<Longrightarrow> ball_offset p' b' = ball_offset p b"
  unfolding move_by_keys_def Let_def by (metis shift_by_key_offset prod.exhaust)

lemma vlength_rotate:
  "vlength (fst v * cos a - snd v * sin a, fst v * sin a + snd v * cos a) = vlength v"
proof -
  have c: "(cos a)\<^sup>2 = 1 - (sin a)\<^sup>2" by (simp add: cos_squared_eq)
  show ?thesis
    by (simp add: vlength_hypot hypot_def power2_diff power2_sum c algebra_simps)
qed

lemma turn_ball_offset: "vlength (ball_offset p (turn_ball p deg b)) = vlength (ball_offset p b)"
proof -
  have "ball_offset p (turn_ball p deg b) =
      (let d = ball_offset p b; a = deg * pi / 180
       in (fst d * cos a - snd d * sin a, fst d * sin a + snd d * cos a))"
    by (simp add: ball_offset_def turn_ball_def Let_def center_def vec_defs)
  then show ?thesis by (simp add: Let_def vlength_rotate)
qed

lemma center_keeps [simp]:
  "center (actuator_keys ks a p) = center p" "center (record_velocity dt q r p) = center p"
  "center (p\<lparr>rotation := rot\<rparr>) = center p"
  by (simp_all add: center_def)

lemma offset_rotation [simp]: "ball_offset (p\<lparr>rotation := rot\<rparr>) b = ball_offset p b"
  by (simp add: ball_offset_def)

lemma turn_by_keys_offset:
  assumes "turn_by_keys ks dt True (p, b) = (p', b')"
  shows "vlength (ball_offset p' b') = vlength (ball_offset p b)"
proof -
  define c where "c = (if ks KEY_E then (if ks KEY_Q then - (player_rotation_velocity * dt) else 0)
      + player_rotation_velocity * dt else if ks KEY_Q then - (player_rotation_velocity * dt) else 0)"
  define rot where "rot = wrap_degrees (rotation p + c)"
  have "turn_by_keys ks dt True (p, b) =
      (if c \<noteq> 0 then (p\<lparr>rotation := rot\<rparr>, turn_ball (p\<lparr>rotation := rot\<rparr>) c b) else (p, b))"
    unfolding turn_by_keys_def Let_def prod.case c_def rot_def by simp
  then have "p' = p \<and> b' = b \<or> p' = p\<lparr>rotation := rot\<rparr> \<and> b' = turn_ball (p\<lparr>rotation := rot\<rparr>) c b"
    using assms by (simp split: if_splits)
  moreover have "vlength (ball_offset (p\<lparr>rotation := rot\<rparr>) (turn_ball (p\<lparr>rotation := rot\<rparr>) c b))
      = vlength (ball_offset p b)"
    unfolding turn_ball_offset by simp
  ultimately show ?thesis by (elim disjE conjE; simp only:)
qed

lemma player_keys_offset:
  assumes "player_keys dt x y th a g = (g', p, b)" "obj_owner (ball g) = Some a" "\<not> passive_mode g'"
  shows "vlength (ball_offset p b) = vlength (ball_offset (get_player g a) (ball g))"
proof -
  obtain p1 b1 where m1: "move_by_keys (keys g KEY_A) (keys g KEY_D) (keys g KEY_W) (keys g KEY_S)
      (player_velocity * dt) True (get_player g a, ball g) = (p1, b1)" by fastforce
  obtain p3 b3 where t: "turn_by_keys (keys g) dt True (actuator_keys (keys g) True p1, b1) = (p3, b3)"
    by fastforce
  note o = move_by_keys_offset [OF m1] turn_by_keys_offset [OF t]
  then have "vlength (ball_offset p3 b3) = vlength (ball_offset (get_player g a) (ball g))"
    by (simp add: ball_offset_def)
  then show ?thesis
    using assms unfolding player_keys_def Let_def
    by (auto simp: m1 t move_by_keys_offset split: if_splits simp del: get_player.simps
        dest: move_by_keys_offset)
qed

lemma get_set_player_same:
  "a \<in> set (all_players g) \<Longrightarrow> get_player (set_player a p g) a = p"
  by (auto simp: all_players_def team1_ids_def team2_ids_def)

section \<open>Properties\<close>

text \<open>
  A held ball is carried rigidly: an input frame in active control moves and turns the
  ball with the player that holds it, so that the distance of their centres does not change and the
  player keeps the ball; and the velocity the frame records is the one that leads from the old
  position to the new one.
\<close>

theorem carried_ball_rigid:
  assumes "a \<in> set (all_players g)" "obj_owner (ball g) = Some a"
    and "g' = ProcessPlayerInput dt x y th a g" "\<not> passive_mode g'"
  shows "vlength (vsub (center (ball g')) (center (get_player g' a)))
      = vlength (vsub (center (ball g)) (center (get_player g a)))
    \<and> obj_owner (ball g') = Some a
    \<and> (1 / 10000 < dt \<longrightarrow> position (get_player g' a)
         = vadd (position (get_player g a)) (vscale dt (velocity (get_player g' a))))"
proof -
  obtain g1 p b where k: "player_keys dt x y th a g = (g1, p, b)" by (metis prod.exhaust)
  define p' where "p' = record_velocity dt (position (get_player g a)) (rotation (get_player g a)) p"
  have g': "g' = set_player a p' (g1\<lparr>ball := b\<rparr>)"
    by (simp add: assms(3) ProcessPlayerInput_def Let_def k p'_def)
  have g1: "g1 = g \<or> (\<exists>m. g1 = g\<lparr>passive_mode := m\<rparr>)" by (rule player_keys_keeps(4) [OF k])
  then have ids: "a \<in> set (all_players (g1\<lparr>ball := b\<rparr>))"
    using assms(1) by (auto simp: all_players_def team1_ids_def team2_ids_def)
  have fields: "ball g' = b" "get_player g' a = p'" "passive_mode g' = passive_mode g1"
    using get_set_player_same [OF ids, of p'] by (cases a; simp add: g')+
  have "vlength (ball_offset p b) = vlength (ball_offset (get_player g a) (ball g))"
    using player_keys_offset [OF k assms(2)] assms(4) fields(3) by simp
  then have "vlength (vsub (center b) (center p')) = vlength (vsub (center (ball g)) (center (get_player g a)))"
    by (simp add: ball_offset_def p'_def)
  moreover have "obj_owner b = Some a" using player_keys_keeps(2) [OF k] assms(2) by simp
  moreover have "1 / 10000 < dt \<longrightarrow> position p' = vadd (position (get_player g a)) (vscale dt (velocity p'))"
    by (auto simp: p'_def record_velocity_def Let_def vec_defs prod_eq_iff)
  ultimately show ?thesis by (simp add: fields)
qed

theorem carried_ball_rigid_witness:
  "let g = demo_game\<lparr>ball := (ball demo_game)\<lparr>obj_owner := Some (Team1 0)\<rparr>, keys := (\<lambda>k. k = KEY_D \<or> k = KEY_E)\<rparr>;
       g' = ProcessPlayerInput (1 / 60) 0 0 0 (Team1 0) g
   in vlength (vsub (center (ball g')) (center (get_player g' (Team1 0))))
      = vlength (vsub (center (ball g)) (center (get_player g (Team1 0))))"
proof -
  let ?g = "demo_game\<lparr>ball := (ball demo_game)\<lparr>obj_owner := Some (Team1 0)\<rparr>,
                keys := (\<lambda>k. k = KEY_D \<or> k = KEY_E)\<rparr>"
  let ?g' = "ProcessPlayerInput (1 / 60) 0 0 0 (Team1 0) ?g"
  have a: "Team1 0 \<in> set (all_players ?g)"
    by (simp add: demo_game_def ObjectPosInit_def Let_def all_players_def team1_ids_def)
  have p: "\<not> passive_mode ?g'"
    by (simp add: ProcessPlayerInput_def player_keys_def Let_def demo_game_def ObjectPosInit_def
        GameObject_new_def split: prod.split)
  from carried_ball_rigid [OF a _ refl p] show ?thesis by (simp add: Let_def)
qed

section \<open>Driving to the next way point\<close>

text \<open>A change of the target comes from a retargeting to the way point.\<close>

lemma follow_profile_target:
  "follow_profile dt hb p b = (p', b') \<Longrightarrow> current_target p' = current_target p"
  by (auto simp: follow_profile_def Let_def clamp_player_def split: if_splits)

lemma retarget_target:
  "retarget target p = Some (Inr p') \<Longrightarrow> current_target p' = current_target p \<or> current_target p' = target"
  by (auto simp: retarget_def split: if_splits option.splits sum.splits)

lemma drive_to_target:
  assumes "drive_to dt a target g = Some (Inr g')" "a \<in> set (all_players g)"
    and "current_target (get_player g' a) \<noteq> current_target (get_player g a)"
  shows "current_target (get_player g' a) = target" "target \<noteq> position (get_player g a)"
proof -
  have far: "vlength (vsub target (position (get_player g a))) > 1"
    using assms by (auto simp: drive_to_def Let_def split: if_splits)
  then show "target \<noteq> position (get_player g a)"
    by (auto simp: vlength_hypot vsub_def hypot_def)
  obtain p p' b where p: "retarget target (get_player g a) = Some (Inr p)"
    and f: "follow_profile dt (obj_owner (ball g) = Some a) p (ball g) = (p', b)"
    and g': "g' = set_player a p' (g\<lparr>ball := b\<rparr>)"
    using assms(1) far by (auto simp: drive_to_def Let_def split: option.splits sum.splits prod.splits)
  have "a \<in> set (all_players (g\<lparr>ball := b\<rparr>))"
    using assms(2) by (simp add: all_players_def team1_ids_def team2_ids_def)
  then have "get_player g' a = p'" unfolding g' by (rule get_set_player_same)
  then show "current_target (get_player g' a) = target"
    using assms(3) retarget_target [OF p] follow_profile_target [OF f] by auto
qed

lemma drive_to_new_target:
  assumes "drive_to dt a target g = Some (Inr g')" "a \<in> set (all_players g)"
    and "1 < vlength (vsub target (position (get_player g a)))"
    and "20 < vlength (vsub target (current_target (get_player g a)))"
  shows "current_target (get_player g' a) = target"
proof -
  obtain p p' b where p: "retarget target (get_player g a) = Some (Inr p)"
    and f: "follow_profile dt (obj_owner (ball g) = Some a) p (ball g) = (p', b)"
    and g': "g' = set_player a p' (g\<lparr>ball := b\<rparr>)"
    using assms(1,3) by (auto simp: drive_to_def Let_def split: option.splits sum.splits prod.splits)
  have "current_target p = target"
    using p assms(4) by (auto simp: retarget_def split: option.splits sum.splits)
  moreover have "a \<in> set (all_players (g\<lparr>ball := b\<rparr>))"
    using assms(2) by (simp add: all_players_def team1_ids_def team2_ids_def)
  then have "get_player g' a = p'" unfolding g' by (rule get_set_player_same)
  ultimately show ?thesis using follow_profile_target [OF f] by simp
qed

lemma obstacle_of_locked:
  "p \<in> set ps \<Longrightarrow> locked p \<Longrightarrow>
   \<exists>ob\<in>set (add_obstacles ps n). ob_position ob = screenToRRTX (position p)
     \<and> ob_radius ob = (player_radius + obstacle_tolerance) / screen_width * 12"
  by (induction ps n rule: add_obstacles.induct) auto

lemma Plan_cases:
  assumes "Plan start goal obs readings g = Some (g', path)"
  shows "path = [] \<or> (\<exists>st. PlanningStep start goal obs (rrtx_planner g) readings = Some (st, path))"
    and "get_player g' = get_player g" "all_players g' = all_players g"
  using assms
  by (auto simp: Plan_def all_players_def team1_ids_def team2_ids_def fun_eq_iff
      split: AlgoName.splits option.splits) (case_tac x; simp)+

text \<open>
  Property C12. The autonomous player only turns to way points it can reach: whenever a step gives it
  a new target, the straight line from where it stands to that target keeps, in field coordinates,
  the clearance the planner was asked for from every locked player: the robot's radius plus the
  radius of a player with its tolerance.
\<close>

theorem auto_target_reachable:
  assumes "0 \<le> step_size (m_config (rrtx_planner g))" "a \<in> set (all_players g)"
    and "UpdateAutoStrategy readings a dt g = Some (Inr g')"
    and "current_target (get_player g' a) \<noteq> current_target (get_player g a)"
  shows "\<forall>p\<in>set (team1_players g @ team2_players g). locked p \<longrightarrow>
    (\<forall>s. 0 \<le> s \<and> s \<le> 1 \<longrightarrow>
       (player_radius + obstacle_tolerance) / screen_width * 12 + robot_radius (m_config (rrtx_planner g))
         \<le> distance (segment_point (screenToRRTX (position (get_player g a)))
              (screenToRRTX (current_target (get_player g' a))) s) (screenToRRTX (position p)))"
proof -
  obtain strat res msg where s: "strategy_update (m_strategy g) (strategy_context a g) = (strat, res, msg)"
    by (metis prod.exhaust)
  let ?obs = "add_obstacles (team1_players g @ team2_players g) 0"
  define g1 where "g1 = g\<lparr>m_strategy := strat\<rparr>"
  define g2 where "g2 = (if res_kick res \<and> obj_owner (ball g1) = Some a
    then kick_ball (rotation (get_player g1 a)) g1 else g1)"
  have same: "get_player g2 = get_player g" "rrtx_planner g2 = rrtx_planner g" "all_players g2 = all_players g"
    by (auto simp: g2_def g1_def kick_ball_def all_players_def team1_ids_def team2_ids_def fun_eq_iff)
       (case_tac x; simp)+
  define start where "start = screenToRRTX (position (get_player g a))"
  obtain g3 path where p: "Plan start (screenToRRTX (target_pos res)) ?obs readings g2 = Some (g3, path)"
    and r: "(if length path > 1 then drive_to dt a (rrtxToScreen (path ! 1)) g3 else Some (Inr g3))
        = Some (Inr g')"
    using assms(3,4) [unfolded UpdateAutoStrategy_def Let_def s prod.case, folded g1_def, folded g2_def]
    unfolding start_def same [symmetric]
    by (auto split: option.splits if_splits simp: same simp del: get_player.simps)
  note pl = Plan_cases [OF p, unfolded same]
  have long: "1 < length path" using r assms(4) pl(2) by (auto split: if_splits)
  then have d: "drive_to dt a (rrtxToScreen (path ! 1)) g3 = Some (Inr g')" using r by simp
  note t = drive_to_target [OF d, unfolded pl(2,3), OF assms(2,4)]
  have target: "screenToRRTX (current_target (get_player g' a)) = path ! 1"
    by (simp add: t(1) screen_rrtx_inverse)
  have differ: "start \<noteq> path ! 1" using t(2) by (metis start_def rrtx_screen_inverse)
  obtain st where step: "PlanningStep start (screenToRRTX (target_pos res)) ?obs (rrtx_planner g) readings
      = Some (st, path)"
    using pl(1) long by auto
  have clear: "leg_clear (rrtx_planner g) ?obs start (path ! 1)"
    by (rule rrtx.first_leg_clear [OF assms(1) step long differ])
  show ?thesis
  proof (intro ballI impI allI)
    fix p s assume "p \<in> set (team1_players g @ team2_players g)" "locked p" "0 \<le> s \<and> (s::real) \<le> 1"
    then show "(player_radius + obstacle_tolerance) / screen_width * 12 + robot_radius (m_config (rrtx_planner g))
        \<le> distance (segment_point (screenToRRTX (position (get_player g a)))
             (screenToRRTX (current_target (get_player g' a))) s) (screenToRRTX (position p))"
      using clear obstacle_of_locked [of p "team1_players g @ team2_players g" 0]
      unfolding leg_clear_def target start_def by metis
  qed
qed

text \<open>A robot, a ball and the goal in a line, one locked player aside.\<close>

definition demo_field :: Game where
  "demo_field = demo_game
     \<lparr>team1_players := [(GameObject_new (0, 0) (200, 290) 18 (0, 0) False)],
      team2_players := [(GameObject_new (0, 0) (475, 0) 18 (0, 0) True)],
      ball := GameObject_new (0, 0) (500, 290) 12 (0, 0) True,
      current_algo := ALGO_RRTX, m_strategy := MainStrategy_new\<rparr>"

theorem auto_target_reachable_witness:
  "\<exists>g'. UpdateAutoStrategy [] (Team1 0) (1 / 60) demo_field = Some (Inr g')
     \<and> current_target (get_player g' (Team1 0)) = (450, 290)
     \<and> (player_radius + obstacle_tolerance) / screen_width * 12 + 0.09
         \<le> distance (screenToRRTX (450, 290)) (screenToRRTX (475, 0))"
proof -
  let ?a = "Team1 0"
  define obs where "obs = [\<lparr>ob_id = 0, ob_position = screenToRRTX (475, 0),
      ob_radius = (player_radius + obstacle_tolerance) / screen_width * 12\<rparr>]"
  let ?s = "screenToRRTX (200, 290)" and ?t = "screenToRRTX (450, 290)"
  have p0: "get_player demo_field ?a = GameObject_new (0, 0) (200, 290) 18 (0, 0) False"
    and obstacles: "add_obstacles (team1_players demo_field @ team2_players demo_field) 0 = obs"
    by (simp_all add: demo_field_def GameObject_new_def obs_def)
  have ctx: "strategy_context ?a demo_field = \<lparr>ctx_robot_pos = (200, 290), ctx_robot_rotation = 0,
      ctx_ball_pos = (500, 290), ctx_has_ball = False, ctx_goal_pos = (950, 290)\<rparr>"
    by (simp add: strategy_context_def p0) (simp add: demo_field_def GameObject_new_def cfg_simps)
  have fields: "m_strategy demo_field = MainStrategy_new" "rrtx_planner demo_field = demo_planner"
    "current_algo demo_field = ALGO_RRTX" "is_auto_mode demo_field"
    by (simp_all add: demo_field_def demo_game_def ObjectPosInit_def Let_def)
  have s: "strategy_update MainStrategy_new (strategy_context ?a demo_field)
      = (\<lparr>strategy_debug = False, last_state = SEEKING_SETUP\<rparr>, \<lparr>target_pos = (450, 290), res_kick = False\<rparr>, None)"
    by (simp add: ctx strategy_defs hypot_def MainStrategy_new_def)
  define g1 where "g1 = demo_field\<lparr>m_strategy := \<lparr>strategy_debug = False, last_state = SEEKING_SETUP\<rparr>\<rparr>"
  have g1: "get_player g1 ?a = get_player demo_field ?a" "rrtx_planner g1 = demo_planner"
    "current_algo g1 = ALGO_RRTX" "all_players g1 = all_players demo_field"
    by (simp_all add: g1_def fields all_players_def team1_ids_def team2_ids_def)
  have free: "isCollisionFree (planning_state ?s ?t obs demo_planner) ?s ?t"
  proof -
    have bound: "9 / 2 \<le> distance (segment_point ?s ?t r) (screenToRRTX (475, 0))" for r
      using abs_le_hypot2 [of "snd (segment_point ?s ?t r) - snd (screenToRRTX (475, 0))"
          "fst (segment_point ?s ?t r) - fst (screenToRRTX (475, 0))"]
      by (simp add: distance_def segment_point_def screenToRRTX_def screen_height_def)
    have "(player_radius + obstacle_tolerance) / screen_width * 12 + 0.09 \<le> 9 / 2"
      by (simp add: cfg_simps)
    note clear = order_trans [OF this bound]
    have "?s \<noteq> ?t" by (simp add: screenToRRTX_def cfg_simps)
    moreover have rr: "robot_radius (m_config demo_planner) = 9 / 100"
      by (simp add: demo_planner_def RRTXConfig_default_def)
    ultimately show ?thesis
      using clear by (subst isCollisionFree_segment) (simp_all add: segment_clear_def rr obs_def)
  qed
  then have step: "PlanningStep ?s ?t obs demo_planner []
      = Some (planning_state ?s ?t obs demo_planner, [?s, ?t])"
    by (simp add: PlanningStep_def plan_def)
  define g2 where "g2 = g1\<lparr>rrtx_planner := planning_state ?s ?t obs demo_planner\<rparr>"
  have plan: "Plan ?s ?t obs [] g1 = Some (g2, [?s, ?t])"
    by (simp add: Plan_def g1 step g2_def)
  have p2: "get_player g2 ?a = GameObject_new (0, 0) (200, 290) 18 (0, 0) False" using p0 g1(1) by (simp add: g2_def)
  obtain g' where g': "drive_to (1 / 60) ?a (450, 290) g2 = Some (Inr g')"
    using drive_to_returns by blast
  have up: "UpdateAutoStrategy [] ?a (1 / 60) demo_field = Some (Inr g')"
    unfolding UpdateAutoStrategy_def Let_def fields(1) s prod.case g1_def [symmetric] obstacles
    using plan g' fields(4) p0 g1(1)
    by (simp add: rrtx_screen_inverse GameObject_new_def del: get_player.simps)
  have a: "?a \<in> set (all_players demo_field)" by (simp add: demo_field_def all_players_def team1_ids_def)
  then have a2: "?a \<in> set (all_players g2)"
    using g1(4) by (simp add: g2_def all_players_def team1_ids_def team2_ids_def)
  have far: "250 \<le> vlength (vsub (450, 290) (200, 290))" "450 \<le> vlength (vsub (450, 290) (0, 0))"
    using abs_le_hypot1 [of 450 290] by (simp_all add: vlength_hypot vsub_def hypot_def)
  have tgt: "current_target (get_player g' ?a) = (450, 290)"
    using far by (intro drive_to_new_target [OF g' a2]) (simp_all add: p2 GameObject_new_def del: get_player.simps)
  have "0 \<le> step_size (m_config (rrtx_planner demo_field))"
    by (simp add: fields demo_planner_def RRTXConfig_default_def)
  moreover have "current_target (get_player g' ?a) \<noteq> current_target (get_player demo_field ?a)"
    unfolding tgt p0 by (simp add: GameObject_new_def)
  ultimately have clear: "\<forall>p\<in>set (team1_players demo_field @ team2_players demo_field). locked p \<longrightarrow>
    (\<forall>s. 0 \<le> s \<and> s \<le> 1 \<longrightarrow>
       (player_radius + obstacle_tolerance) / screen_width * 12 + robot_radius (m_config (rrtx_planner demo_field))
         \<le> distance (segment_point (screenToRRTX (position (get_player demo_field ?a)))
              (screenToRRTX (current_target (get_player g' ?a))) s) (screenToRRTX (position p)))"
    by (intro auto_target_reachable [OF _ a up])
  let ?p = "GameObject_new (0, 0) (475, 0) 18 (0, 0) True"
  have "?p \<in> set (team1_players demo_field @ team2_players demo_field)" "locked ?p" "position ?p = (475, 0)"
    by (simp_all add: demo_field_def GameObject_new_def)
  with clear have "(player_radius + obstacle_tolerance) / screen_width * 12 + robot_radius (m_config (rrtx_planner demo_field))
         \<le> distance (segment_point (screenToRRTX (position (get_player demo_field ?a)))
              (screenToRRTX (current_target (get_player g' ?a))) 1) (screenToRRTX (475, 0))"
    by (metis order_refl zero_le_one)
  moreover have "segment_point p q 1 = q" for p q by (simp add: segment_point_def prod_eq_iff)
  moreover have "robot_radius (m_config (rrtx_planner demo_field)) = 0.09"
    by (simp add: fields demo_planner_def RRTXConfig_default_def)
  ultimately have "(player_radius + obstacle_tolerance) / screen_width * 12 + 0.09
         \<le> distance ?t (screenToRRTX (475, 0))"
    unfolding tgt by metis
  with up tgt show ?thesis by blast
qed

end
