(* ===== verification/Kinematics.thy ===== *)
theory Kinematics
  imports Prelude SystemConfig
begin

text \<open>
  Kinematics of the robot (\<open>libs/kin\<close>): the rotation between the frame of the field and the frame
  of the robot (\<open>KinematicTransforms\<close>), and the maps between the velocity of the chassis and the
  speeds of the four omnidirectional wheels (\<open>OmniKinematics\<close>), the inverse one by least squares.
\<close>

section \<open>Frames\<close>

record ChassisVelocity =
  cvx :: real
  cvy :: real
  cvtheta :: real

definition WorldToRobot :: "ChassisVelocity \<Rightarrow> real \<Rightarrow> ChassisVelocity" where
  "WorldToRobot world_vel robot_theta =
     \<lparr>cvx = cvx world_vel * cos robot_theta + cvy world_vel * sin robot_theta,
      cvy = - cvx world_vel * sin robot_theta + cvy world_vel * cos robot_theta,
      cvtheta = cvtheta world_vel\<rparr>"

definition RobotToWorld :: "ChassisVelocity \<Rightarrow> real \<Rightarrow> ChassisVelocity" where
  "RobotToWorld robot_vel robot_theta =
     \<lparr>cvx = cvx robot_vel * cos robot_theta - cvy robot_vel * sin robot_theta,
      cvy = cvx robot_vel * sin robot_theta + cvy robot_vel * cos robot_theta,
      cvtheta = cvtheta robot_vel\<rparr>"

section \<open>Wheels\<close>

record WheelConfig =
  wheel_R :: real
  wheel_phi :: real
  wheel_gamma :: real
  wheel_radius :: real

record OmniKinematics =
  wheels :: "WheelConfig list"
  max_wheel_vel :: real

definition OmniKinematics_new :: "WheelConfig list \<Rightarrow> real \<Rightarrow> OmniKinematics" where
  "OmniKinematics_new wheel_configs max_wheelspin =
     \<lparr>wheels = wheel_configs, max_wheel_vel = max_wheelspin\<rparr>"

text \<open>
  One pass of the loop body. The largest speed the loop also records is not used by anything: the
  scaling that would use it is commented out, so the speeds are not limited.
\<close>

definition wheel_speed :: "ChassisVelocity \<Rightarrow> WheelConfig \<Rightarrow> real" where
  "wheel_speed target w =
     (cos (wheel_gamma w) * cvx target + sin (wheel_gamma w) * cvy target
       + wheel_R w * sin (wheel_gamma w - wheel_phi w) * cvtheta target) / wheel_radius w"

definition ChassisToWheels :: "OmniKinematics \<Rightarrow> ChassisVelocity \<Rightarrow> real list" where
  "ChassisToWheels k target = map (wheel_speed target) (wheels k)"

text \<open>The matrices of \<open>WheelsToChassis\<close>, as functions of their indices.\<close>

definition wheel_matrix :: "OmniKinematics \<Rightarrow> nat \<Rightarrow> nat \<Rightarrow> real" where
  "wheel_matrix k i j =
     (let w = wheels k ! i
      in [cos (wheel_gamma w), sin (wheel_gamma w),
          wheel_R w * sin (wheel_gamma w - wheel_phi w)] ! j)"

definition normal_matrix :: "(nat \<Rightarrow> nat \<Rightarrow> real) \<Rightarrow> nat \<Rightarrow> nat \<Rightarrow> real" where
  "normal_matrix M i j = (\<Sum>k<num_drive_motors. M k i * M k j)"

definition det3 :: "(nat \<Rightarrow> nat \<Rightarrow> real) \<Rightarrow> real" where
  "det3 A =
     A 0 0 * (A 1 1 * A 2 2 - A 2 1 * A 1 2)
     - A 0 1 * (A 1 0 * A 2 2 - A 1 2 * A 2 0)
     + A 0 2 * (A 1 0 * A 2 1 - A 1 1 * A 2 0)"

definition inverse3 :: "(nat \<Rightarrow> nat \<Rightarrow> real) \<Rightarrow> nat \<Rightarrow> nat \<Rightarrow> real" where
  "inverse3 A i j =
     (let invDet = 1 / det3 A
      in [[(A 1 1 * A 2 2 - A 2 1 * A 1 2) * invDet,
           (A 0 2 * A 2 1 - A 0 1 * A 2 2) * invDet,
           (A 0 1 * A 1 2 - A 0 2 * A 1 1) * invDet],
          [(A 1 2 * A 2 0 - A 1 0 * A 2 2) * invDet,
           (A 0 0 * A 2 2 - A 0 2 * A 2 0) * invDet,
           (A 1 0 * A 0 2 - A 0 0 * A 1 2) * invDet],
          [(A 1 0 * A 2 1 - A 2 0 * A 1 1) * invDet,
           (A 2 0 * A 0 1 - A 0 0 * A 2 1) * invDet,
           (A 0 0 * A 1 1 - A 1 0 * A 0 1) * invDet]] ! i ! j)"

definition WheelsToChassis :: "OmniKinematics \<Rightarrow> real list \<Rightarrow> ChassisVelocity" where
  "WheelsToChassis k wheel_vels =
     (let M = wheel_matrix k;
          V_w = (\<lambda>i. wheel_vels ! i * wheel_radius (wheels k ! i));
          M_T_M = normal_matrix M
      in if \<bar>det3 M_T_M\<bar> < 1 / 1000000 then \<lparr>cvx = 0, cvy = 0, cvtheta = 0\<rparr>
         else let pseudo_inv = (\<lambda>i j. \<Sum>l<3. inverse3 M_T_M i l * M j l);
                  V_c = (\<lambda>i. \<Sum>j<num_drive_motors. pseudo_inv i j * V_w j)
              in \<lparr>cvx = V_c 0, cvy = V_c 1, cvtheta = V_c 2\<rparr>)"

section \<open>The inverse and the normal equations\<close>

lemma sum3: "(\<Sum>l<3. f l) = f 0 + f 1 + f (2::nat)" for f :: "nat \<Rightarrow> real"
  by (simp add: eval_nat_numeral)

text \<open>The adjugate over the determinant is a left and a right inverse.\<close>

lemma lt3_cases: "i < (3::nat) \<Longrightarrow> (i = 0 \<Longrightarrow> P) \<Longrightarrow> (i = 1 \<Longrightarrow> P) \<Longrightarrow> (i = 2 \<Longrightarrow> P) \<Longrightarrow> P"
  by linarith

lemma inverse3_entries:
  fixes A :: "nat \<Rightarrow> nat \<Rightarrow> real"
  assumes "det3 A \<noteq> 0" "i < 3" "m < 3"
  shows "(\<Sum>l<3. A i l * inverse3 A l m) = of_bool (i = m)"
    and "(\<Sum>l<3. inverse3 A i l * A l m) = of_bool (i = m)"
proof -
  define r where "r = 1 / det3 A"
  have r: "r * det3 A = 1" using assms(1) by (simp add: r_def)
  note inv = inverse3_def [of A, folded r_def, unfolded Let_def]
  show "(\<Sum>l<3. A i l * inverse3 A l m) = of_bool (i = m)"
    using assms(2,3) r unfolding sum3 inv det3_def
    by (elim lt3_cases; simp; (simp only: ring_distribs)?; simp add: algebra_simps)
  show "(\<Sum>l<3. inverse3 A i l * A l m) = of_bool (i = m)"
    using assms(2,3) r unfolding sum3 inv det3_def
    by (elim lt3_cases; simp; (simp only: ring_distribs)?; simp add: algebra_simps)
qed

lemma sum_product_swap:
  "(\<Sum>l<n. f l * (\<Sum>m<k. g l m * b m)) = (\<Sum>m<k. (\<Sum>l<n. f l * g l m) * b m)"
  for f :: "nat \<Rightarrow> real" and g :: "nat \<Rightarrow> nat \<Rightarrow> real"
  by (simp add: sum_distrib_left sum_distrib_right mult.assoc) (rule sum.swap)

lemma inverse3_solves:
  assumes "det3 A \<noteq> 0" "i < 3"
  shows "(\<Sum>l<3. A i l * (\<Sum>m<3. inverse3 A l m * b m)) = b i"
    and "(\<Sum>l<3. inverse3 A i l * (\<Sum>m<3. A l m * b m)) = b i"
  using assms inverse3_entries [OF assms]
  unfolding sum_product_swap by (auto elim!: lt3_cases simp: sum3)

text \<open>
  The wheel speeds a chassis velocity causes and the residual of a set of measured wheel speeds, in
  the vector notation of the code: \<open>M c\<close> and \<open>|M c - V_w|\<^sup>2\<close>.
\<close>

definition velocity_vector :: "ChassisVelocity \<Rightarrow> nat \<Rightarrow> real" where
  "velocity_vector c i = [cvx c, cvy c, cvtheta c] ! i"

definition contact_speed :: "OmniKinematics \<Rightarrow> ChassisVelocity \<Rightarrow> nat \<Rightarrow> real" where
  "contact_speed k c j = (\<Sum>i<3. wheel_matrix k j i * velocity_vector c i)"

definition measured_speed :: "OmniKinematics \<Rightarrow> real list \<Rightarrow> nat \<Rightarrow> real" where
  "measured_speed k ws j = ws ! j * wheel_radius (wheels k ! j)"

definition residual :: "OmniKinematics \<Rightarrow> real list \<Rightarrow> ChassisVelocity \<Rightarrow> real" where
  "residual k ws c = (\<Sum>j<num_drive_motors. (contact_speed k c j - measured_speed k ws j)\<^sup>2)"

definition well_placed :: "OmniKinematics \<Rightarrow> bool" where
  "well_placed k \<longleftrightarrow> 1 / 1000000 \<le> \<bar>det3 (normal_matrix (wheel_matrix k))\<bar>"

lemma well_placed_det: "well_placed k \<Longrightarrow> det3 (normal_matrix (wheel_matrix k)) \<noteq> 0"
  unfolding well_placed_def by auto

text \<open>The components of the result: the inverse of the normal matrix applied to \<open>M\<^sup>T V_w\<close>.\<close>

lemma WheelsToChassis_vector:
  assumes "well_placed k" "i < 3"
  shows "velocity_vector (WheelsToChassis k ws) i =
    (\<Sum>m<3. inverse3 (normal_matrix (wheel_matrix k)) i m
       * (\<Sum>j<num_drive_motors. wheel_matrix k j m * measured_speed k ws j))"
proof -
  have "velocity_vector (WheelsToChassis k ws) i =
    (\<Sum>j<num_drive_motors. (\<Sum>l<3. inverse3 (normal_matrix (wheel_matrix k)) i l * wheel_matrix k j l)
        * measured_speed k ws j)"
    using assms
    by (auto simp: velocity_vector_def WheelsToChassis_def Let_def well_placed_def measured_speed_def
        elim!: lt3_cases)
  then show ?thesis by (simp add: sum_product_swap)
qed

lemma contact_gram:
  "(\<Sum>j<num_drive_motors. wheel_matrix k j i * contact_speed k c j)
     = (\<Sum>l<3. normal_matrix (wheel_matrix k) i l * velocity_vector c l)"
  by (simp add: contact_speed_def sum_product_swap normal_matrix_def)

text \<open>The normal equations: the residual is orthogonal to the columns of the matrix.\<close>

lemma normal_equations:
  assumes "well_placed k" "i < 3"
  shows "(\<Sum>j<num_drive_motors. wheel_matrix k j i * contact_speed k (WheelsToChassis k ws) j)
       = (\<Sum>j<num_drive_motors. wheel_matrix k j i * measured_speed k ws j)"
proof -
  let ?A = "normal_matrix (wheel_matrix k)"
  let ?b = "\<lambda>m. \<Sum>j<num_drive_motors. wheel_matrix k j m * measured_speed k ws j"
  have "(\<Sum>l<3. ?A i l * velocity_vector (WheelsToChassis k ws) l)
      = (\<Sum>l<3. ?A i l * (\<Sum>m<3. inverse3 ?A l m * ?b m))"
    by (intro sum.cong) (simp_all add: WheelsToChassis_vector [OF assms(1)])
  also have "\<dots> = ?b i" by (rule inverse3_solves(1) [OF well_placed_det [OF assms(1)] assms(2)])
  finally show ?thesis unfolding contact_gram .
qed

lemma contact_speed_orthogonal:
  assumes "well_placed k"
  shows "(\<Sum>j<num_drive_motors. contact_speed k e j
      * (contact_speed k (WheelsToChassis k ws) j - measured_speed k ws j)) = 0"
proof -
  let ?r = "\<lambda>j. contact_speed k (WheelsToChassis k ws) j - measured_speed k ws j"
  have "(\<Sum>j<num_drive_motors. contact_speed k e j * ?r j)
      = (\<Sum>j<num_drive_motors. ?r j * (\<Sum>i<3. wheel_matrix k j i * velocity_vector e i))"
    by (simp add: contact_speed_def mult.commute)
  also have "\<dots> = (\<Sum>i<3. (\<Sum>j<num_drive_motors. ?r j * wheel_matrix k j i) * velocity_vector e i)"
    by (rule sum_product_swap)
  also have "\<dots> = 0"
  proof (rule sum.neutral, safe)
    fix i :: nat assume "i < 3"
    from normal_equations [OF assms this, of ws]
    show "(\<Sum>j<num_drive_motors. ?r j * wheel_matrix k j i) * velocity_vector e i = 0"
      by (simp add: algebra_simps sum_subtractf)
  qed
  finally show ?thesis .
qed

lemma contact_speed_diff:
  "contact_speed k c j - contact_speed k c' j
     = contact_speed k \<lparr>cvx = cvx c - cvx c', cvy = cvy c - cvy c', cvtheta = cvtheta c - cvtheta c'\<rparr> j"
  by (simp add: contact_speed_def sum3 velocity_vector_def algebra_simps)

lemma measured_ChassisToWheels:
  assumes "length (wheels k) = num_drive_motors" "\<forall>w\<in>set (wheels k). wheel_radius w \<noteq> 0" "j < num_drive_motors"
  shows "measured_speed k (ChassisToWheels k v) j = contact_speed k v j"
proof -
  have "wheel_radius (wheels k ! j) \<noteq> 0" using assms by simp
  then show ?thesis
    using assms
    by (simp add: measured_speed_def ChassisToWheels_def contact_speed_def wheel_speed_def sum3
        wheel_matrix_def Let_def velocity_vector_def)
qed

text \<open>Four wheels at the corners of a square, driving along its sides.\<close>

definition demo_omni :: OmniKinematics where
  "demo_omni = OmniKinematics_new
     (map (\<lambda>g. \<lparr>wheel_R = 1, wheel_phi = g - pi / 2, wheel_gamma = g, wheel_radius = 1 / 2\<rparr>)
       [0, pi / 2, pi, - (pi / 2)]) 10"

section \<open>Properties\<close>

text \<open>
  The transforms between the frame of the field and the frame of the robot are
  inverse to each other for every heading, and they preserve the speed.
\<close>

theorem frame_transforms_inverse:
  "RobotToWorld (WorldToRobot v th) th = v \<and> WorldToRobot (RobotToWorld v th) th = v
   \<and> hypot (cvx (WorldToRobot v th)) (cvy (WorldToRobot v th)) = hypot (cvx v) (cvy v)"
proof -
  have one: "(cos th)\<^sup>2 = 1 - (sin th)\<^sup>2" by (simp add: cos_squared_eq)
  show ?thesis
    by (simp add: RobotToWorld_def WorldToRobot_def hypot_def power2_eq_square [symmetric] one
        algebra_simps) (simp add: power2_eq_square [symmetric] one algebra_simps power2_sum power2_diff)
qed

text \<open>
  Property C39. \<open>WheelsToChassis\<close> is the least-squares inverse of \<open>ChassisToWheels\<close>. If the wheels are
  well placed (the determinant of the normal matrix is not below the threshold of the code) its
  result explains the measured wheel speeds at least as well as any other velocity of the chassis,
  and wheel speeds that come from a velocity of the chassis give that velocity back; if not, the
  result is zero.
\<close>

theorem WheelsToChassis_least_squares:
  assumes "length (wheels k) = num_drive_motors" and "\<forall>w\<in>set (wheels k). wheel_radius w \<noteq> 0"
  shows "if well_placed k
    then residual k ws (WheelsToChassis k ws) \<le> residual k ws c
      \<and> WheelsToChassis k (ChassisToWheels k v) = v
    else WheelsToChassis k ws = \<lparr>cvx = 0, cvy = 0, cvtheta = 0\<rparr>"
proof (cases "well_placed k")
  case False
  then show ?thesis by (simp add: WheelsToChassis_def well_placed_def Let_def not_le)
next
  case True
  let ?r = "WheelsToChassis k ws"
  define e where "e = \<lparr>cvx = cvx c - cvx ?r, cvy = cvy c - cvy ?r, cvtheta = cvtheta c - cvtheta ?r\<rparr>"
  have split: "(contact_speed k c j - measured_speed k ws j)\<^sup>2
      = (contact_speed k e j)\<^sup>2 + (contact_speed k ?r j - measured_speed k ws j)\<^sup>2
        + 2 * (contact_speed k e j * (contact_speed k ?r j - measured_speed k ws j))" for j
    unfolding e_def contact_speed_diff [symmetric] by (simp add: power2_eq_square algebra_simps)
  have "residual k ws c = (\<Sum>j<num_drive_motors. (contact_speed k e j)\<^sup>2) + residual k ws ?r"
    unfolding residual_def split sum.distrib sum_distrib_left [symmetric]
    using contact_speed_orthogonal [OF True] by simp
  then have "residual k ws ?r \<le> residual k ws c" by (simp add: sum_nonneg)
  moreover have "WheelsToChassis k (ChassisToWheels k v) = v"
  proof -
    have "velocity_vector (WheelsToChassis k (ChassisToWheels k v)) i = velocity_vector v i" if "i < 3" for i
    proof -
      have "(\<Sum>j<num_drive_motors. wheel_matrix k j m * measured_speed k (ChassisToWheels k v) j)
          = (\<Sum>l<3. normal_matrix (wheel_matrix k) m l * velocity_vector v l)" for m
        unfolding contact_gram [symmetric]
        by (intro sum.cong) (simp_all add: measured_ChassisToWheels [OF assms])
      then show ?thesis
        unfolding WheelsToChassis_vector [OF True that]
        using inverse3_solves(2) [OF well_placed_det [OF True] that] by simp
    qed
    from this [of 0] this [of 1] this [of 2] show ?thesis by (simp add: velocity_vector_def)
  qed
  ultimately show ?thesis using True by simp
qed

theorem WheelsToChassis_least_squares_witness:
  "well_placed demo_omni
   \<and> WheelsToChassis demo_omni (ChassisToWheels demo_omni \<lparr>cvx = 3, cvy = -1, cvtheta = 2\<rparr>)
     = \<lparr>cvx = 3, cvy = -1, cvtheta = 2\<rparr>"
proof -
  have d: "length (wheels demo_omni) = num_drive_motors" "\<forall>w\<in>set (wheels demo_omni). wheel_radius w \<noteq> 0"
    by (simp_all add: demo_omni_def OmniKinematics_new_def num_drive_motors_def)
  have "well_placed demo_omni"
    by (simp add: well_placed_def det3_def normal_matrix_def num_drive_motors_def wheel_matrix_def
        demo_omni_def OmniKinematics_new_def Let_def eval_nat_numeral)
  with WheelsToChassis_least_squares [OF d] show ?thesis by auto
qed

end
