(* ===== verification/Timing.thy ===== *)
theory Timing
  imports Prelude
begin

text \<open>
  The clock library (\<open>libs/timing\<close>): a registered tick function, the offset between the local
  clock and the master clock, and the conversions between the two, all in wrapping 32-bit
  arithmetic. An \<open>int32_t\<close> is a 32-bit word read with \<^term>\<open>sint\<close>; mixed sums are converted to
  \<open>uint32_t\<close> by the language, which on words is the identity.
\<close>

section \<open>State and operations\<close>

text \<open>
  The two static variables. The tick function reads the hardware: it is a function of the
  state \<open>'w\<close> of the world at the time of the call; \<^term>\<open>None\<close> is the null pointer.
\<close>

record 'w timing =
  OsTicksFunction :: "('w \<Rightarrow> u32) option"
  time_offset :: u32

definition timing_init :: "'w timing" where
  "timing_init = \<lparr>OsTicksFunction = None, time_offset = 0\<rparr>"

definition RegisterClock :: "('w \<Rightarrow> u32) option \<Rightarrow> 'w timing \<Rightarrow> 'w timing" where
  "RegisterClock f st = st\<lparr>OsTicksFunction := f\<rparr>"

text \<open>Calling the null pointer has no defined result: \<^term>\<open>None\<close>.\<close>

definition GetCurrentTimeUs :: "'w timing \<Rightarrow> 'w \<Rightarrow> u32 option" where
  "GetCurrentTimeUs st w = (case OsTicksFunction st of None \<Rightarrow> None | Some f \<Rightarrow> Some (f w))"

definition GetCurrentTimeMs :: "'w timing \<Rightarrow> 'w \<Rightarrow> u32 option" where
  "GetCurrentTimeMs st w =
     (case GetCurrentTimeUs st w of None \<Rightarrow> None | Some t \<Rightarrow> Some (t div 1000))"

definition GetCurrentCalibratedTimeUs :: "'w timing \<Rightarrow> 'w \<Rightarrow> u32" where
  "GetCurrentCalibratedTimeUs st w =
     (case GetCurrentTimeUs st w of None \<Rightarrow> 0 | Some t \<Rightarrow> t + time_offset st)"

definition SetTimeOffset :: "u32 \<Rightarrow> 'w timing \<Rightarrow> 'w timing" where
  "SetTimeOffset new_offset st = st\<lparr>time_offset := new_offset\<rparr>"

definition UpdateTimeOffset :: "u32 \<Rightarrow> 'w timing \<Rightarrow> 'w timing" where
  "UpdateTimeOffset new_offset st = SetTimeOffset new_offset st"

definition GetTimeOffset :: "'w timing \<Rightarrow> u32" where
  "GetTimeOffset st = time_offset st"

definition TimeDiff :: "u32 \<Rightarrow> u32 \<Rightarrow> u32" where
  "TimeDiff later earlier = later - earlier"

definition ToHostTime :: "u32 \<Rightarrow> u32 \<Rightarrow> u32" where
  "ToHostTime device_time offset = device_time + offset"

definition ToDeviceTime :: "u32 \<Rightarrow> u32 \<Rightarrow> u32" where
  "ToDeviceTime host_time offset = host_time - offset"

lemmas timing_defs = RegisterClock_def GetCurrentTimeUs_def GetCurrentTimeMs_def
  GetCurrentCalibratedTimeUs_def SetTimeOffset_def UpdateTimeOffset_def GetTimeOffset_def
  TimeDiff_def ToHostTime_def ToDeviceTime_def

section \<open>The interface of a synchronised clock\<close>

text \<open>
  What a user of a clock pair needs: conversions in both directions by an offset and a signed
  difference. The laws are those of a torsor of the 32-bit
  words: conversions are inverse to each other and keep differences.
\<close>

locale synchronised_clock =
  fixes to_host to_device :: "u32 \<Rightarrow> u32 \<Rightarrow> u32"
    and diff :: "u32 \<Rightarrow> u32 \<Rightarrow> u32"
  assumes to_device_to_host: "to_device (to_host t d) d = t"
    and to_host_to_device: "to_host (to_device t d) d = t"
    and diff_add: "earlier + diff later earlier = later"
    and to_host_shift: "to_host (t + s) d = to_host t d + s"
begin

lemma diff_add_cancel: "diff (t + s) t = s"
  using diff_add [of t "t + s"] by simp

lemma to_host_inj: "to_host t d = to_host s d \<longleftrightarrow> t = s"
  using to_device_to_host by metis

lemma diff_to_host: "diff (to_host t d) (to_host s d) = diff t s"
proof -
  have "to_host t d = to_host s d + diff t s"
    using to_host_shift [of s "diff t s" d] by (simp add: diff_add)
  then show ?thesis by (simp add: diff_add_cancel)
qed

end

interpretation clk: synchronised_clock ToHostTime ToDeviceTime TimeDiff
  by unfold_locales (simp_all add: timing_defs)

section \<open>Properties\<close>

text \<open>The signed reading of a word that encodes a small integer is that integer.\<close>

lemma sint_of_int_range:
  assumes "- (2 ^ 31) \<le> k" "k < 2 ^ 31"
  shows "sint (of_int k :: u32) = k"
  using assms by (simp add: sint_sbintrunc' signed_take_bit_int_eq_self)

text \<open>
  The difference of two time stamps, read as a signed number, is the true elapsed
  time in either direction whenever the two instants are less than \<open>2 ^ 31\<close> ticks apart, however
  often the 32-bit tick counter has wrapped in between; and the difference is the same measured
  in device time or in host time for any offset.
\<close>

theorem TimeDiff_exact_across_wrap:
  fixes now0 now1 :: int
  assumes "- (2 ^ 31) \<le> now1 - now0" and "now1 - now0 < 2 ^ 31"
  shows "sint (TimeDiff (of_int now1) (of_int now0)) = now1 - now0
         \<and> TimeDiff (ToHostTime (of_int now1) off) (ToHostTime (of_int now0) off)
            = TimeDiff (of_int now1) (of_int now0)"
proof -
  have "TimeDiff (of_int now1) (of_int now0) = of_int (now1 - now0)"
    by (simp add: TimeDiff_def)
  then show ?thesis
    using assms by (simp only: sint_of_int_range clk.diff_to_host)
qed

theorem TimeDiff_exact_across_wrap_witness:
  "sint (TimeDiff (of_int (2 ^ 32 + 5)) (of_int (2 ^ 32 - 10))) = 15
   \<and> TimeDiff (ToHostTime (of_int (2 ^ 32 + 5)) 77) (ToHostTime (of_int (2 ^ 32 - 10)) 77)
      = TimeDiff (of_int (2 ^ 32 + 5)) (of_int (2 ^ 32 - 10))"
  using TimeDiff_exact_across_wrap [of "2 ^ 32 + 5" "2 ^ 32 - 10" 77] by simp

end
