(* ===== verification/KdTree.thy ===== *)
theory KdTree
  imports Prelude "HOL-Library.Multiset"
begin

text \<open>
  The k-d tree template \<open>kdt::KDTree<PointT>\<close> of \<open>libs/algo/include/kdTree.h\<close>: construction by
  median selection, insertion, validation. A point is its \<open>operator[]\<close>, a function from axes to
  coordinates; \<open>DIM\<close> is \<open>PointT::DIM\<close>. A node holds the index of its point in the point vector.
  The search operations are in the theory \<open>KdSearch\<close>.
\<close>

section \<open>Data and operations\<close>

type_synonym kpoint = "nat \<Rightarrow> real"

text \<open>\<open>struct Node\<close>: index, axis and the two child pointers; \<^term>\<open>KNull\<close> is \<open>nullptr\<close>.\<close>

datatype knode = KNull | KNode nat nat knode knode

record kdtree =
  kd_root :: knode
  kd_points :: "kpoint list"

definition kd_empty :: kdtree where
  "kd_empty = \<lparr>kd_root = KNull, kd_points = []\<rparr>"

text \<open>
  \<open>buildRecursive\<close>. The parameter \<open>ne\<close> is \<open>std::nth_element\<close>: comparator, position and array
  segment give the rearranged segment. The two recursive calls work on the disjoint segments
  before and after the median.
\<close>

function buildRecursive ::
  "((nat \<Rightarrow> nat \<Rightarrow> bool) \<Rightarrow> nat \<Rightarrow> nat list \<Rightarrow> nat list) \<Rightarrow> nat \<Rightarrow> kpoint list \<Rightarrow>
   nat list \<Rightarrow> nat \<Rightarrow> nat \<Rightarrow> knode"
where
  "buildRecursive ne DIM pts indices npoints depth =
     (if npoints = 0 then KNull
      else
        let axis = depth mod DIM;
            mid = (npoints - 1) div 2;
            a = ne (\<lambda>lhs rhs. (pts ! lhs) axis < (pts ! rhs) axis) mid indices
        in KNode (a ! mid) axis
             (buildRecursive ne DIM pts (take mid a) mid (depth + 1))
             (buildRecursive ne DIM pts (drop (mid + 1) a) (npoints - mid - 1) (depth + 1)))"
  by pat_completeness auto
termination
  by (relation "measure (\<lambda>(ne, DIM, pts, indices, npoints, depth). npoints)") auto

declare buildRecursive.simps [simp del]

definition kd_clear :: "kdtree \<Rightarrow> kdtree" where
  "kd_clear t = t\<lparr>kd_root := KNull, kd_points := []\<rparr>"

definition kd_build ::
  "((nat \<Rightarrow> nat \<Rightarrow> bool) \<Rightarrow> nat \<Rightarrow> nat list \<Rightarrow> nat list) \<Rightarrow> nat \<Rightarrow> kpoint list \<Rightarrow>
   kdtree \<Rightarrow> kdtree"
where
  "kd_build ne DIM points t =
     (let t = (kd_clear t)\<lparr>kd_points := points\<rparr>;
          indices = [0..<length points]
      in t\<lparr>kd_root := buildRecursive ne DIM (kd_points t) indices (length points) 0\<rparr>)"

fun insertRecursive :: "nat \<Rightarrow> kpoint list \<Rightarrow> knode \<Rightarrow> nat \<Rightarrow> nat \<Rightarrow> knode" where
  "insertRecursive DIM pts KNull idx depth = KNode idx (depth mod DIM) KNull KNull"
| "insertRecursive DIM pts (KNode i axis l r) idx depth =
     (if (pts ! idx) axis < (pts ! i) axis
      then KNode i axis (insertRecursive DIM pts l idx (depth + 1)) r
      else KNode i axis l (insertRecursive DIM pts r idx (depth + 1)))"

definition kd_insert :: "nat \<Rightarrow> kpoint \<Rightarrow> kdtree \<Rightarrow> kdtree" where
  "kd_insert DIM point t =
     (let t = t\<lparr>kd_points := kd_points t @ [point]\<rparr>;
          new_idx = length (kd_points t) - 1
      in t\<lparr>kd_root := insertRecursive DIM (kd_points t) (kd_root t) new_idx 0\<rparr>)"

text \<open>\<open>validateRecursive\<close>: \<^term>\<open>False\<close> stands for the thrown \<open>Exception\<close>.\<close>

fun validateRecursive :: "kpoint list \<Rightarrow> knode \<Rightarrow> nat \<Rightarrow> bool" where
  "validateRecursive pts KNull depth = True"
| "validateRecursive pts (KNode i axis node0 node1) depth =
     ((case (node0, node1) of
         (KNode i0 _ _ _, KNode i1 _ _ _) \<Rightarrow>
           \<not> (pts ! i) axis < (pts ! i0) axis \<and> \<not> (pts ! i) axis > (pts ! i1) axis
       | _ \<Rightarrow> True)
      \<and> validateRecursive pts node0 (depth + 1)
      \<and> validateRecursive pts node1 (depth + 1))"

definition kd_validate :: "kdtree \<Rightarrow> bool" where
  "kd_validate t = validateRecursive (kd_points t) (kd_root t) 0"

section \<open>The invariant\<close>

primrec knode_list :: "knode \<Rightarrow> nat list" where
  "knode_list KNull = []"
| "knode_list (KNode i axis l r) = knode_list l @ i # knode_list r"

primrec kheight :: "knode \<Rightarrow> nat" where
  "kheight KNull = 0"
| "kheight (KNode i axis l r) = Suc (max (kheight l) (kheight r))"

text \<open>
  Every node splits its subtree at its own coordinate: nothing greater on the left, nothing
  smaller on the right. The axis of a node is an axis of the points.
\<close>

primrec kd_ordered :: "nat \<Rightarrow> kpoint list \<Rightarrow> knode \<Rightarrow> bool" where
  "kd_ordered DIM pts KNull = True"
| "kd_ordered DIM pts (KNode i axis l r) =
     (axis < DIM
      \<and> (\<forall>j \<in> set (knode_list l). (pts ! j) axis \<le> (pts ! i) axis)
      \<and> (\<forall>j \<in> set (knode_list r). (pts ! i) axis \<le> (pts ! j) axis)
      \<and> kd_ordered DIM pts l \<and> kd_ordered DIM pts r)"

text \<open>The tree holds every index of the point vector once.\<close>

definition kd_inv :: "nat \<Rightarrow> kdtree \<Rightarrow> bool" where
  "kd_inv DIM t \<longleftrightarrow>
     kd_ordered DIM (kd_points t) (kd_root t)
     \<and> mset (knode_list (kd_root t)) = mset [0..<length (kd_points t)]"

lemma kd_inv_set: "kd_inv DIM t \<Longrightarrow> set (knode_list (kd_root t)) = {0..<length (kd_points t)}"
  unfolding kd_inv_def by (metis set_mset_mset set_upt)

lemma kd_inv_distinct: "kd_inv DIM t \<Longrightarrow> distinct (knode_list (kd_root t))"
  unfolding kd_inv_def by (metis distinct_upt mset_eq_imp_distinct_iff)

lemma kd_ordered_cong:
  "(\<And>j. j \<in> set (knode_list n) \<Longrightarrow> pts ! j = qts ! j) \<Longrightarrow>
   kd_ordered DIM pts n = kd_ordered DIM qts n"
  by (induction n) auto

section \<open>The contract of \<open>std::nth_element\<close>\<close>

text \<open>
  The C++ standard: the segment is permuted, and for a comparator induced by a key no element
  before position \<open>k\<close> has a greater key than the element at \<open>k\<close>, no element after it a smaller.
\<close>

locale nth_element_contract =
  fixes ne :: "(nat \<Rightarrow> nat \<Rightarrow> bool) \<Rightarrow> nat \<Rightarrow> nat list \<Rightarrow> nat list"
  assumes ne_mset: "mset (ne cmp k xs) = mset xs"
    and ne_low: "cmp = (\<lambda>a b. key a < (key b :: real)) \<Longrightarrow> k < length xs \<Longrightarrow> j < k \<Longrightarrow>
      key (ne cmp k xs ! j) \<le> key (ne cmp k xs ! k)"
    and ne_high: "cmp = (\<lambda>a b. key a < (key b :: real)) \<Longrightarrow> k < j \<Longrightarrow> j < length xs \<Longrightarrow>
      key (ne cmp k xs ! k) \<le> key (ne cmp k xs ! j)"
begin

lemma ne_length [simp]: "length (ne cmp k xs) = length xs"
  by (metis ne_mset size_mset)

lemma ne_split:
  assumes "k < length xs"
  shows "ne cmp k xs = take k (ne cmp k xs) @ ne cmp k xs ! k # drop (Suc k) (ne cmp k xs)"
  by (rule id_take_nth_drop) (simp add: assms)

lemma ne_low_set:
  assumes "k < length xs" and "x \<in> set (take k (ne (\<lambda>a b. key a < (key b :: real)) k xs))"
  shows "key x \<le> key (ne (\<lambda>a b. key a < key b) k xs ! k)"
  using assms ne_low [OF refl, of k xs] by (auto simp: in_set_conv_nth)

lemma ne_high_set:
  assumes "k < length xs" and "x \<in> set (drop (Suc k) (ne (\<lambda>a b. key a < (key b :: real)) k xs))"
  shows "key (ne (\<lambda>a b. key a < key b) k xs ! k) \<le> key x"
  using assms ne_high [OF refl, of k] by (auto simp: in_set_conv_nth)

lemma build_mset:
  "length indices = npoints \<Longrightarrow>
   mset (knode_list (buildRecursive ne DIM pts indices npoints depth)) = mset indices"
proof (induction npoints arbitrary: indices depth rule: less_induct)
  case (less n)
  show ?case
  proof (cases "n = 0")
    case True
    with less.prems show ?thesis by (simp add: buildRecursive.simps)
  next
    case False
    let ?m = "(n - 1) div 2" and ?ax = "depth mod DIM"
    let ?a = "ne (\<lambda>lhs rhs. (pts ! lhs) ?ax < (pts ! rhs) ?ax) ?m indices"
    from False less.prems have m: "?m < n" "?m < length indices" by auto
    have "mset (knode_list (buildRecursive ne DIM pts indices n depth))
        = mset (take ?m ?a @ ?a ! ?m # drop (Suc ?m) ?a)"
      using False m less.prems
      by (subst buildRecursive.simps) (simp add: Let_def less.IH)
    also have "\<dots> = mset ?a"
      using ne_split [OF m(2)] by metis
    finally show ?thesis by (simp add: ne_mset)
  qed
qed

lemma build_set:
  "length indices = npoints \<Longrightarrow>
   set (knode_list (buildRecursive ne DIM pts indices npoints depth)) = set indices"
  using build_mset by (metis set_mset_mset)

lemma build_ordered:
  assumes "0 < DIM"
  shows "length indices = npoints \<Longrightarrow>
   kd_ordered DIM pts (buildRecursive ne DIM pts indices npoints depth)"
proof (induction npoints arbitrary: indices depth rule: less_induct)
  case (less n)
  show ?case
  proof (cases "n = 0")
    case True
    then show ?thesis by (simp add: buildRecursive.simps)
  next
    case False
    let ?m = "(n - 1) div 2" and ?ax = "depth mod DIM"
    let ?key = "\<lambda>i. (pts ! i) ?ax"
    let ?a = "ne (\<lambda>lhs rhs. ?key lhs < ?key rhs) ?m indices"
    from False less.prems have m: "?m < n" "?m < length indices" by auto
    have lo: "\<forall>j \<in> set (take ?m ?a). ?key j \<le> ?key (?a ! ?m)"
      using ne_low_set [of ?m indices _ ?key] m(2) by blast
    have hi: "\<forall>j \<in> set (drop (Suc ?m) ?a). ?key (?a ! ?m) \<le> ?key j"
      using ne_high_set [of ?m indices _ ?key] m(2) by blast
    show ?thesis
      using False m less.prems lo hi assms
      by (subst buildRecursive.simps) (simp add: Let_def less.IH build_set)
  qed
qed

lemma build_height:
  "length indices = npoints \<Longrightarrow> 0 < npoints \<Longrightarrow>
   2 ^ (kheight (buildRecursive ne DIM pts indices npoints depth) - 1) \<le> npoints"
proof (induction npoints arbitrary: indices depth rule: less_induct)
  case (less n)
  let ?m = "(n - 1) div 2" and ?ax = "depth mod DIM"
  let ?a = "ne (\<lambda>lhs rhs. (pts ! lhs) ?ax < (pts ! rhs) ?ax) ?m indices"
  let ?l = "buildRecursive ne DIM pts (take ?m ?a) ?m (Suc depth)"
  let ?r = "buildRecursive ne DIM pts (drop (Suc ?m) ?a) (n - ?m - 1) (Suc depth)"
  have sub: "2 ^ kheight (buildRecursive ne DIM pts is k d) \<le> n"
    if "length is = k" "2 * k \<le> n" for "is" k d
  proof (cases "k = 0")
    case True
    with less.prems show ?thesis by (simp add: buildRecursive.simps)
  next
    case False
    let ?h = "kheight (buildRecursive ne DIM pts is k d)"
    from False that have "2 ^ (?h - 1) \<le> k" by (intro less.IH) auto
    moreover have "(2::nat) ^ ?h \<le> 2 * 2 ^ (?h - 1)" by (cases ?h) auto
    ultimately show ?thesis using that(2) by linarith
  qed
  have "kheight (buildRecursive ne DIM pts indices n depth) = Suc (max (kheight ?l) (kheight ?r))"
    using less.prems by (subst buildRecursive.simps) (simp add: Let_def)
  moreover have "2 ^ kheight ?l \<le> n" and "2 ^ kheight ?r \<le> n"
    using less.prems by (intro sub; simp)+
  ultimately show ?case by (simp add: max_def)
qed

lemma kd_build_inv: "0 < DIM \<Longrightarrow> kd_inv DIM (kd_build ne DIM points t)"
  by (simp add: kd_inv_def kd_build_def kd_clear_def Let_def build_ordered build_mset)

end

text \<open>
  An implementation of the contract: sort the segment by the comparator (an insertion sort that
  asks only the comparator) and return all of it.
\<close>

primrec insert_by :: "(nat \<Rightarrow> nat \<Rightarrow> bool) \<Rightarrow> nat \<Rightarrow> nat list \<Rightarrow> nat list" where
  "insert_by cmp x [] = [x]"
| "insert_by cmp x (y # ys) = (if cmp y x then y # insert_by cmp x ys else x # y # ys)"

definition nth_by_sort :: "(nat \<Rightarrow> nat \<Rightarrow> bool) \<Rightarrow> nat \<Rightarrow> nat list \<Rightarrow> nat list" where
  "nth_by_sort cmp k xs = foldr (insert_by cmp) xs []"

lemma mset_insert_by: "mset (insert_by cmp x xs) = add_mset x (mset xs)"
  by (induction xs) auto

lemma set_insert_by: "set (insert_by cmp x xs) = insert x (set xs)"
  by (metis mset_insert_by set_mset_add_mset_insert set_mset_mset)

lemma sorted_insert_by:
  fixes key :: "nat \<Rightarrow> real"
  assumes "sorted_wrt (\<lambda>a b. key a \<le> key b) xs"
  shows "sorted_wrt (\<lambda>a b. key a \<le> key b) (insert_by (\<lambda>a b. key a < key b) x xs)"
  using assms by (induction xs) (auto simp: set_insert_by)

lemma mset_nth_by_sort: "mset (nth_by_sort cmp k xs) = mset xs"
  by (induction xs) (auto simp: nth_by_sort_def mset_insert_by)

lemma sorted_nth_by_sort:
  fixes key :: "nat \<Rightarrow> real"
  shows "sorted_wrt (\<lambda>a b. key a \<le> key b) (nth_by_sort (\<lambda>a b. key a < key b) k xs)"
  by (induction xs) (auto simp: nth_by_sort_def sorted_insert_by)

interpretation by_sort: nth_element_contract nth_by_sort
proof
  fix cmp k and xs :: "nat list"
  show "mset (nth_by_sort cmp k xs) = mset xs" by (rule mset_nth_by_sort)
next
  fix cmp and key :: "nat \<Rightarrow> real" and k j and xs :: "nat list"
  assume c: "cmp = (\<lambda>a b. key a < key b)" and "k < length xs" "j < k"
  moreover have "length (nth_by_sort cmp k xs) = length xs"
    by (metis mset_nth_by_sort size_mset)
  ultimately show "key (nth_by_sort cmp k xs ! j) \<le> key (nth_by_sort cmp k xs ! k)"
    using sorted_wrt_nth_less [OF sorted_nth_by_sort [of key k xs], of j k] by simp
next
  fix cmp and key :: "nat \<Rightarrow> real" and k j and xs :: "nat list"
  assume c: "cmp = (\<lambda>a b. key a < key b)" and "k < j" "j < length xs"
  moreover have "length (nth_by_sort cmp k xs) = length xs"
    by (metis mset_nth_by_sort size_mset)
  ultimately show "key (nth_by_sort cmp k xs ! k) \<le> key (nth_by_sort cmp k xs ! j)"
    using sorted_wrt_nth_less [OF sorted_nth_by_sort [of key k xs], of k j] by simp
qed

section \<open>Construction and insertion\<close>

text \<open>
  Property C24. Building from any point vector, with any \<open>std::nth_element\<close> that keeps its
  contract, gives a tree over exactly these points that holds every index once and splits every
  subtree at its node's coordinate; and the tree is balanced: its height \<open>h\<close> satisfies
  \<open>2 ^ (h - 1) \<le> n\<close>, so every search path has at most \<open>log2 n + 1\<close> nodes.
\<close>

theorem kd_build_correct:
  assumes "nth_element_contract ne" and "0 < DIM"
  shows "kd_inv DIM (kd_build ne DIM points t) \<and> kd_points (kd_build ne DIM points t) = points
         \<and> (points \<noteq> [] \<longrightarrow>
              2 ^ (kheight (kd_root (kd_build ne DIM points t)) - 1) \<le> length points)"
  using nth_element_contract.kd_build_inv [OF assms]
    nth_element_contract.build_height [OF assms(1), of "[0..<length points]" "length points"]
  by (simp add: kd_build_def kd_clear_def Let_def)

theorem kd_build_correct_witness:
  "let pts = [(\<lambda>i. real i), (\<lambda>i. 5 - real i), (\<lambda>i. 3)]
   in kd_inv 2 (kd_build nth_by_sort 2 pts kd_empty)
      \<and> 2 ^ (kheight (kd_root (kd_build nth_by_sort 2 pts kd_empty)) - 1) \<le> length pts"
  using kd_build_correct [OF by_sort.nth_element_contract_axioms, of 2
      "[(\<lambda>i. real i), (\<lambda>i. 5 - real i), (\<lambda>i. 3)]" kd_empty]
  unfolding Let_def by (simp del: One_nat_def)

lemma mset_insertRecursive:
  "mset (knode_list (insertRecursive DIM pts n idx depth)) = add_mset idx (mset (knode_list n))"
  by (induction n arbitrary: depth) auto

lemma set_insertRecursive:
  "set (knode_list (insertRecursive DIM pts n idx depth)) = insert idx (set (knode_list n))"
  by (metis mset_insertRecursive set_mset_add_mset_insert set_mset_mset)

lemma insertRecursive_ordered:
  "0 < DIM \<Longrightarrow> kd_ordered DIM pts n \<Longrightarrow> kd_ordered DIM pts (insertRecursive DIM pts n idx depth)"
  by (induction n arbitrary: depth) (auto simp: set_insertRecursive)

text \<open>
  Inserting a point keeps the tree invariant and adds exactly one index, that of the
  new point at the end of the point vector; the earlier points keep their indices.
\<close>

theorem kd_insert_correct:
  assumes "kd_inv DIM t" and "0 < DIM"
  shows "kd_inv DIM (kd_insert DIM p t)
         \<and> kd_points (kd_insert DIM p t) = kd_points t @ [p]
         \<and> mset (knode_list (kd_root (kd_insert DIM p t)))
            = add_mset (length (kd_points t)) (mset (knode_list (kd_root t)))"
proof -
  let ?pts = "kd_points t @ [p]" and ?n = "length (kd_points t)"
  have "kd_ordered DIM ?pts (kd_root t) = kd_ordered DIM (kd_points t) (kd_root t)"
    using kd_inv_set [OF assms(1)] by (intro kd_ordered_cong) (auto simp: nth_append)
  then have "kd_ordered DIM ?pts (insertRecursive DIM ?pts (kd_root t) ?n 0)"
    using assms by (simp add: kd_inv_def insertRecursive_ordered)
  then show ?thesis
    using assms(1) by (simp add: kd_insert_def Let_def kd_inv_def mset_insertRecursive)
qed

theorem kd_insert_correct_witness:
  "kd_inv 2 (kd_insert 2 (\<lambda>i. 4) kd_empty) \<and> kd_points (kd_insert 2 (\<lambda>i. 4) kd_empty) = [\<lambda>i. 4]"
proof -
  have "kd_inv 2 kd_empty" by (simp add: kd_inv_def kd_empty_def)
  from kd_insert_correct [OF this, of "\<lambda>i. 4"] show ?thesis
    by (simp add: kd_empty_def)
qed

section \<open>Validation\<close>

lemma kd_ordered_validates: "kd_ordered DIM pts n \<Longrightarrow> validateRecursive pts n depth"
  by (induction n arbitrary: depth) (force split: knode.splits)+

text \<open>
  \<open>validate()\<close> never rejects a tree that \<open>build\<close> or \<open>insert\<close> made, but it is not a
  test of the search invariant: it looks only at nodes with two children, and only at the direct
  children, so it accepts the three-node chain below, whose deepest point lies on the wrong side
  of the root.
\<close>

theorem kd_validate_sound_not_complete:
  "(\<forall>DIM t. kd_inv DIM t \<longrightarrow> kd_validate t)
   \<and> (let t = \<lparr>kd_root = KNode 0 0 (KNode 1 1 KNull (KNode 2 0 KNull KNull)) KNull,
               kd_points = [(\<lambda>i. 5), (\<lambda>i. 1), (\<lambda>i. 9)]\<rparr>
      in kd_validate t \<and> \<not> kd_inv 2 t
         \<and> mset (knode_list (kd_root t)) = mset [0..<length (kd_points t)])"
proof -
  have "kd_validate t" if "kd_inv D t" for D t
    using that kd_ordered_validates unfolding kd_inv_def kd_validate_def by blast
  moreover have "mset [1, 2, 0] = mset [0..<3::nat]"
    by (simp add: upt_rec [of _ 3] add_mset_commute del: mset_upt)
  ultimately show ?thesis
    unfolding Let_def by (auto simp: kd_inv_def kd_validate_def numeral_2_eq_2 numeral_3_eq_3
        simp del: mset_upt)
qed

theorem kd_validate_sound_not_complete_witness:
  "kd_validate (kd_insert 2 (\<lambda>i. 4) kd_empty)"
proof -
  have "kd_inv 2 (kd_insert 2 (\<lambda>i. 4) kd_empty)"
    by (simp add: kd_inv_def kd_empty_def kd_insert_def Let_def)
  then show ?thesis using kd_validate_sound_not_complete by blast
qed

end
