(* ===== verification/KdSearch.thy ===== *)
theory KdSearch
  imports KdTree "HOL-Library.Product_Lexorder"
begin

text \<open>
  The three search operations of \<open>kdt::KDTree\<close>: nearest neighbour, k nearest neighbours with
  the bounded priority queue, and radius search. The output references of the C++ code (the
  guess and minimal distance, the queue, the index vector) are threaded through the recursion.
\<close>

section \<open>Distance\<close>

text \<open>The largest finite \<open>double\<close>, the start value of the nearest-neighbour search.\<close>

definition dbl_max :: real where
  "dbl_max = (2 - 1 / 2 ^ 52) * 2 ^ 1023"

definition kd_distance :: "nat \<Rightarrow> kpoint \<Rightarrow> kpoint \<Rightarrow> real" where
  "kd_distance DIM p q =
     sqrt (fold (\<lambda>i dist. dist + (p i - q i) * (p i - q i)) [0..<DIM] 0)"

lemma kd_distance_sum: "kd_distance DIM p q = sqrt (\<Sum>i<DIM. (p i - q i)\<^sup>2)"
proof -
  have "fold (\<lambda>i dist. dist + (p i - q i) * (p i - q i)) [0..<n] 0 = (\<Sum>i<n. (p i - q i)\<^sup>2)" for n
    by (induction n) (auto simp: power2_eq_square)
  then show ?thesis by (simp add: kd_distance_def)
qed

lemma kd_distance_ge_0 [simp]: "0 \<le> kd_distance DIM p q"
  by (simp add: kd_distance_sum sum_nonneg)

text \<open>
  What the pruning of all three searches relies on: no coordinate difference exceeds the
  distance. The cut-off lemmas follow: behind a splitting plane that is at least \<open>r\<close> away
  there is nothing closer than \<open>r\<close>.
\<close>

locale axis_metric =
  fixes DIM :: nat and dst :: "kpoint \<Rightarrow> kpoint \<Rightarrow> real"
  assumes coord_le: "a < DIM \<Longrightarrow> \<bar>p a - q a\<bar> \<le> dst p q"
begin

lemma cut_high:
  assumes "a < DIM" "p a < s" "s \<le> q a" "r \<le> \<bar>p a - s\<bar>"
  shows "r \<le> dst p q"
  using coord_le [OF assms(1), of p q] assms(2-4) by linarith

lemma cut_low:
  assumes "a < DIM" "\<not> p a < s" "q a \<le> s" "r \<le> \<bar>p a - s\<bar>"
  shows "r \<le> dst p q"
  using coord_le [OF assms(1), of p q] assms(2-4) by linarith

end

interpretation euclid: axis_metric DIM "kd_distance DIM" for DIM
proof
  fix a and p q :: kpoint
  assume "a < DIM"
  then have "(p a - q a)\<^sup>2 \<le> (\<Sum>i<DIM. (p i - q i)\<^sup>2)"
    by (intro member_le_sum) auto
  then show "\<bar>p a - q a\<bar> \<le> kd_distance DIM p q"
    by (simp add: kd_distance_sum real_le_rsqrt)
qed

text \<open>Everything in the subtree not searched is at least as far away as the splitting plane.\<close>

lemma far_side:
  assumes "kd_ordered DIM pts (KNode i axis l r)"
    and "j \<in> set (knode_list (if query axis < (pts ! i) axis then r else l))"
    and "d \<le> \<bar>query axis - (pts ! i) axis\<bar>"
  shows "d \<le> kd_distance DIM query (pts ! j)"
  using assms euclid.cut_high [of axis DIM query "(pts ! i) axis" "pts ! j" d]
    euclid.cut_low [of axis DIM query "(pts ! i) axis" "pts ! j" d]
  by (auto split: if_splits)

section \<open>Nearest neighbour\<close>

text \<open>The state is \<open>(guess, minDist)\<close>; \<open>guess\<close> is \<^term>\<open>None\<close> while it is uninitialised.\<close>

fun nnSearchRecursive ::
  "nat \<Rightarrow> kpoint list \<Rightarrow> kpoint \<Rightarrow> knode \<Rightarrow> nat option \<times> real \<Rightarrow> nat option \<times> real"
where
  "nnSearchRecursive DIM pts query KNull st = st"
| "nnSearchRecursive DIM pts query (KNode i axis n0 n1) st =
     (let train = pts ! i;
          dist = kd_distance DIM query train;
          st = (if dist < snd st then (Some i, dist) else st);
          left = (query axis < train axis);
          st = (if left then nnSearchRecursive DIM pts query n0 st
                else nnSearchRecursive DIM pts query n1 st);
          diff = \<bar>query axis - train axis\<bar>
      in if diff < snd st
         then (if left then nnSearchRecursive DIM pts query n1 st
               else nnSearchRecursive DIM pts query n0 st)
         else st)"

definition kd_nnSearch :: "nat \<Rightarrow> kdtree \<Rightarrow> kpoint \<Rightarrow> nat option \<times> real" where
  "kd_nnSearch DIM t query =
     nnSearchRecursive DIM (kd_points t) query (kd_root t) (None, dbl_max)"

text \<open>
  \<open>nn_post ds S st st'\<close>: the state moved from \<open>st\<close> to \<open>st'\<close> by looking at the points \<open>S\<close> whose
  distances are \<open>ds\<close>.
\<close>

definition nn_post ::
  "(nat \<Rightarrow> real) \<Rightarrow> nat set \<Rightarrow> nat option \<times> real \<Rightarrow> nat option \<times> real \<Rightarrow> bool"
where
  "nn_post ds S st st' \<longleftrightarrow>
     snd st' \<le> snd st \<and> (\<forall>j \<in> S. snd st' \<le> ds j)
     \<and> (st' = st \<or> (\<exists>j \<in> S. st' = (Some j, ds j)))"

lemma nn_post_empty [simp]: "nn_post ds {} st st"
  by (simp add: nn_post_def)

lemma nn_post_trans:
  "nn_post ds S st st1 \<Longrightarrow> nn_post ds T st1 st2 \<Longrightarrow> nn_post ds (S \<union> T) st st2"
  unfolding nn_post_def by fastforce

lemma nn_post_visit: "nn_post ds {i} st (if ds i < snd st then (Some i, ds i) else st)"
  by (auto simp: nn_post_def)

lemma nn_post_skip:
  "nn_post ds S st st1 \<Longrightarrow> (\<And>j. j \<in> T \<Longrightarrow> snd st1 \<le> ds j) \<Longrightarrow> nn_post ds (S \<union> T) st st1"
  unfolding nn_post_def by blast

lemma nnSearchRecursive_post:
  "kd_ordered DIM pts n \<Longrightarrow>
   nn_post (\<lambda>j. kd_distance DIM query (pts ! j)) (set (knode_list n)) st
     (nnSearchRecursive DIM pts query n st)"
proof (induction n arbitrary: st)
  case KNull
  then show ?case by simp
next
  case (KNode i axis l r)
  let ?ds = "\<lambda>j. kd_distance DIM query (pts ! j)"
  let ?left = "query axis < (pts ! i) axis"
  let ?near = "if ?left then l else r" and ?far = "if ?left then r else l"
  let ?st1 = "if ?ds i < snd st then (Some i, ?ds i) else st"
  let ?st2 = "nnSearchRecursive DIM pts query ?near ?st1"
  let ?st3 = "nnSearchRecursive DIM pts query ?far ?st2"
  have near: "nn_post ?ds ({i} \<union> set (knode_list ?near)) st ?st2"
    using KNode by (intro nn_post_trans [OF nn_post_visit]) auto
  have far: "nn_post ?ds ({i} \<union> set (knode_list ?near) \<union> set (knode_list ?far)) st
      (if \<bar>query axis - (pts ! i) axis\<bar> < snd ?st2 then ?st3 else ?st2)"
  proof (cases "\<bar>query axis - (pts ! i) axis\<bar> < snd ?st2")
    case True
    have "nn_post ?ds (set (knode_list ?far)) ?st2 ?st3"
      using KNode by auto
    from nn_post_trans [OF near this] True show ?thesis by simp
  next
    case False
    have "snd ?st2 \<le> ?ds j" if "j \<in> set (knode_list ?far)" for j
      using far_side [OF KNode.prems, of j query "snd ?st2"] that False by auto
    with nn_post_skip [OF near, of "set (knode_list ?far)"] False show ?thesis by simp
  qed
  have sets: "{i} \<union> set (knode_list ?near) \<union> set (knode_list ?far)
      = set (knode_list (KNode i axis l r))"
    by auto
  have "nnSearchRecursive DIM pts query (KNode i axis l r) st =
      (if \<bar>query axis - (pts ! i) axis\<bar> < snd ?st2 then ?st3 else ?st2)"
    by (simp add: Let_def)
  then show ?case using far by (simp only: sets)
qed

text \<open>
  Property C19. On a tree with the invariant and at least one point at a representable distance,
  \<open>nnSearch\<close> returns the index of a point nearest to the query among all points, and the reported
  distance is its distance; on an empty tree it never assigns the index it returns.
\<close>

theorem kd_nnSearch_nearest:
  assumes "kd_inv DIM t"
    and "\<exists>p \<in> set (kd_points t). kd_distance DIM query p < dbl_max"
  shows "(\<exists>j < length (kd_points t).
            kd_nnSearch DIM t query = (Some j, kd_distance DIM query (kd_points t ! j))
            \<and> (\<forall>p \<in> set (kd_points t).
                  kd_distance DIM query (kd_points t ! j) \<le> kd_distance DIM query p))
         \<and> fst (kd_nnSearch DIM kd_empty query) = None"
proof -
  let ?ds = "\<lambda>j. kd_distance DIM query (kd_points t ! j)"
  have post: "nn_post ?ds {0..<length (kd_points t)} (None, dbl_max) (kd_nnSearch DIM t query)"
    using nnSearchRecursive_post [of DIM "kd_points t" "kd_root t" query "(None, dbl_max)"] assms(1)
      kd_inv_set [OF assms(1)] by (simp add: kd_nnSearch_def kd_inv_def)
  obtain k where k: "k < length (kd_points t)" "?ds k < dbl_max"
    using assms(2) by (auto simp: in_set_conv_nth)
  have "snd (kd_nnSearch DIM t query) \<le> ?ds k"
    using post k(1) by (simp add: nn_post_def)
  with k(2) have "kd_nnSearch DIM t query \<noteq> (None, dbl_max)" by auto
  then obtain j where "j < length (kd_points t)" "kd_nnSearch DIM t query = (Some j, ?ds j)"
    using post by (auto simp: nn_post_def)
  with post show ?thesis
    by (auto simp: nn_post_def in_set_conv_nth kd_nnSearch_def kd_empty_def)
qed

theorem kd_nnSearch_nearest_witness:
  "let t = kd_insert 2 (\<lambda>i. 4) kd_empty
   in kd_nnSearch 2 t (\<lambda>i. 4) = (Some 0, 0)"
proof -
  let ?t = "kd_insert 2 (\<lambda>i. 4) kd_empty"
  have pts: "kd_points ?t = [\<lambda>i. 4]" by (simp add: kd_insert_def kd_empty_def)
  have inv: "kd_inv 2 ?t" by (simp add: kd_inv_def kd_empty_def kd_insert_def Let_def)
  have "\<exists>p \<in> set (kd_points ?t). kd_distance 2 (\<lambda>i. 4) p < dbl_max"
    by (simp add: pts kd_distance_sum dbl_max_def)
  from kd_nnSearch_nearest [OF inv this] show ?thesis
    by (simp add: pts kd_distance_sum)
qed

section \<open>Radius search\<close>

fun radiusSearchRecursive ::
  "nat \<Rightarrow> kpoint list \<Rightarrow> kpoint \<Rightarrow> knode \<Rightarrow> nat list \<Rightarrow> real \<Rightarrow> nat list"
where
  "radiusSearchRecursive DIM pts query KNull indices radius = indices"
| "radiusSearchRecursive DIM pts query (KNode i axis n0 n1) indices radius =
     (let train = pts ! i;
          dist = kd_distance DIM query train;
          indices = (if dist < radius then indices @ [i] else indices);
          left = (query axis < train axis);
          indices = (if left then radiusSearchRecursive DIM pts query n0 indices radius
                     else radiusSearchRecursive DIM pts query n1 indices radius);
          diff = \<bar>query axis - train axis\<bar>
      in if diff < radius
         then (if left then radiusSearchRecursive DIM pts query n1 indices radius
               else radiusSearchRecursive DIM pts query n0 indices radius)
         else indices)"

definition kd_radiusSearch :: "nat \<Rightarrow> kdtree \<Rightarrow> kpoint \<Rightarrow> real \<Rightarrow> nat list" where
  "kd_radiusSearch DIM t query radius =
     radiusSearchRecursive DIM (kd_points t) query (kd_root t) [] radius"

lemma radiusSearchRecursive_mset:
  "kd_ordered DIM pts n \<Longrightarrow>
   mset (radiusSearchRecursive DIM pts query n indices radius) =
   mset indices + filter_mset (\<lambda>j. kd_distance DIM query (pts ! j) < radius) (mset (knode_list n))"
proof (induction n arbitrary: indices)
  case KNull
  then show ?case by simp
next
  case (KNode i axis l r)
  let ?far = "if query axis < (pts ! i) axis then r else l"
  have "filter_mset (\<lambda>j. kd_distance DIM query (pts ! j) < radius) (mset (knode_list ?far)) = {#}"
    if "\<not> \<bar>query axis - (pts ! i) axis\<bar> < radius"
    using far_side [OF KNode.prems, of _ query radius] that
    by (auto simp: filter_mset_eq_conv not_less)
  with KNode show ?case by (auto simp: Let_def split: if_splits)
qed

text \<open>
  \<open>radiusSearch\<close> returns exactly the indices of the points strictly closer to the
  query than the radius, each of them once.
\<close>

theorem kd_radiusSearch_exact:
  assumes "kd_inv DIM t"
  shows "distinct (kd_radiusSearch DIM t query radius)
         \<and> set (kd_radiusSearch DIM t query radius)
            = {j. j < length (kd_points t) \<and> kd_distance DIM query (kd_points t ! j) < radius}"
proof -
  let ?R = "kd_radiusSearch DIM t query radius"
  let ?near = "\<lambda>j. kd_distance DIM query (kd_points t ! j) < radius"
  have m: "mset ?R = mset (filter ?near (knode_list (kd_root t)))"
    using assms by (simp add: kd_inv_def kd_radiusSearch_def radiusSearchRecursive_mset)
  have "set ?R = set (filter ?near (knode_list (kd_root t)))"
    using m by (rule mset_eq_setD)
  moreover have "distinct ?R"
    using m kd_inv_distinct [OF assms] by (metis distinct_filter mset_eq_imp_distinct_iff)
  ultimately show ?thesis using kd_inv_set [OF assms] by auto
qed

theorem kd_radiusSearch_exact_witness:
  "set (kd_radiusSearch 2 (kd_insert 2 (\<lambda>i. 4) kd_empty) (\<lambda>i. 4) 1) = {0}"
proof -
  let ?t = "kd_insert 2 (\<lambda>i. 4) kd_empty"
  have pts: "kd_points ?t = [\<lambda>i. 4]" by (simp add: kd_insert_def kd_empty_def)
  have inv: "kd_inv 2 ?t" by (simp add: kd_inv_def kd_empty_def kd_insert_def Let_def)
  have "kd_distance 2 (\<lambda>i. 4) (\<lambda>i. 4) = 0" by (simp add: kd_distance_sum)
  then have "{j. j < length (kd_points ?t) \<and> kd_distance 2 (\<lambda>i. 4) (kd_points ?t ! j) < 1} = {0}"
    by (auto simp: pts)
  then show ?thesis using kd_radiusSearch_exact [OF inv, of "\<lambda>i. 4" 1] by metis
qed

section \<open>The bounded priority queue\<close>

text \<open>
  \<open>BoundedPriorityQueue\<close> of (distance, index) pairs under \<open>std::less\<close>, which compares pairs
  lexicographically: the vector of elements; the bound is a parameter. \<open>back()\<close> of an empty
  vector is undefined: \<^term>\<open>None\<close>.
\<close>

definition bpq_push :: "nat \<Rightarrow> real \<times> nat \<Rightarrow> (real \<times> nat) list \<Rightarrow> (real \<times> nat) list" where
  "bpq_push bound val elements =
     (let before = takeWhile (\<lambda>element. \<not> val < element) elements;
          after = dropWhile (\<lambda>element. \<not> val < element) elements;
          elements = before @ val # after
      in if length elements > bound then take bound elements else elements)"

definition bpq_back :: "(real \<times> nat) list \<Rightarrow> (real \<times> nat) option" where
  "bpq_back elements = (if elements = [] then None else Some (last elements))"

text \<open>
  What the k-nearest search needs of its queue: pushing into a sorted queue within the bound
  keeps the \<open>bound\<close> least of the old elements and the new one, in order.
\<close>

locale bounded_min_queue =
  fixes push :: "nat \<Rightarrow> real \<times> nat \<Rightarrow> (real \<times> nat) list \<Rightarrow> (real \<times> nat) list"
  assumes push_take: "sorted q \<Longrightarrow> length q \<le> bound \<Longrightarrow> push bound v q = take bound (insort v q)"
begin

lemma push_sorted: "sorted q \<Longrightarrow> length q \<le> b \<Longrightarrow> sorted (push b v q)"
  by (simp add: push_take sorted_insort)

lemma push_length: "sorted q \<Longrightarrow> length q \<le> b \<Longrightarrow> length (push b v q) = min b (Suc (length q))"
  by (simp add: push_take min.commute)

lemma push_subset: "sorted q \<Longrightarrow> length q \<le> b \<Longrightarrow> set (push b v q) \<subseteq> insert v (set q)"
  using set_take_subset by (force simp: push_take set_insort_key)

lemma push_distinct:
  "sorted q \<Longrightarrow> length q \<le> b \<Longrightarrow> distinct (map snd (v # q)) \<Longrightarrow> distinct (map snd (push b v q))"
proof -
  assume a: "sorted q" "length q \<le> b" "distinct (map snd (v # q))"
  have "mset (map snd (insort v q)) = mset (map snd (v # q))" by simp
  with a(3) have "distinct (map snd (insort v q))" by (metis mset_eq_imp_distinct_iff)
  with a(1,2) show ?thesis by (simp add: push_take take_map [symmetric])
qed

lemma push_dropped:
  assumes "sorted q" "length q \<le> b" "x \<in> insert v (set q)" "x \<notin> set (push b v q)"
    and "y \<in> set (push b v q)"
  shows "y \<le> x" and "length (push b v q) = b"
proof -
  let ?s = "insort v q"
  have "x \<in> set (take b ?s) \<union> set (drop b ?s)"
    using assms(3) by (metis append_take_drop_id set_append set_insort_key)
  then have x: "x \<in> set (drop b ?s)" using assms by (simp add: push_take)
  have "sorted (take b ?s @ drop b ?s)" using assms(1) by (simp add: sorted_insort)
  then have "\<forall>u \<in> set (take b ?s). \<forall>w \<in> set (drop b ?s). u \<le> w"
    unfolding sorted_append by blast
  then show "y \<le> x"
    using x assms(5) push_take [OF assms(1,2)] by metis
  from x have "b < length ?s" by (metis drop_all empty_iff empty_set not_less)
  then show "length (push b v q) = b" using assms by (simp add: push_take)
qed

end

lemma insort_split:
  "sorted q \<Longrightarrow> takeWhile (\<lambda>e. \<not> v < e) q @ v # dropWhile (\<lambda>e. \<not> v < e) q = insort v q"
proof (induction q)
  case Nil
  then show ?case by simp
next
  case (Cons a q)
  show ?case
  proof (cases "v \<le> a")
    case True
    show ?thesis
    proof (cases "v = a")
      case False
      with True show ?thesis by auto
    next
      case eq: True
      have "takeWhile (\<lambda>e. \<not> v < e) q @ v # dropWhile (\<lambda>e. \<not> v < e) q = v # q"
        using Cons eq by (cases q) auto
      with eq show ?thesis by simp
    qed
  next
    case False
    with Cons show ?thesis by auto
  qed
qed

interpretation bpq: bounded_min_queue bpq_push
  by unfold_locales (simp only: bpq_push_def Let_def insort_split, simp)

section \<open>k nearest neighbours\<close>

text \<open>\<^term>\<open>None\<close> is the undefined read of \<open>back()\<close> from an empty queue; \<open>k\<close> is not negative.\<close>

fun knnSearchRecursive ::
  "nat \<Rightarrow> kpoint list \<Rightarrow> kpoint \<Rightarrow> knode \<Rightarrow> (real \<times> nat) list \<Rightarrow> nat \<Rightarrow> (real \<times> nat) list option"
where
  "knnSearchRecursive DIM pts query KNull queue k = Some queue"
| "knnSearchRecursive DIM pts query (KNode i axis n0 n1) queue k =
     (let train = pts ! i;
          dist = kd_distance DIM query train;
          queue = bpq_push k (dist, i) queue;
          left = (query axis < train axis);
          diff = \<bar>query axis - train axis\<bar>
      in case (if left then knnSearchRecursive DIM pts query n0 queue k
               else knnSearchRecursive DIM pts query n1 queue k) of
           None \<Rightarrow> None
         | Some queue \<Rightarrow>
             (if length queue < k
              then (if left then knnSearchRecursive DIM pts query n1 queue k
                    else knnSearchRecursive DIM pts query n0 queue k)
              else case bpq_back queue of
                     None \<Rightarrow> None
                   | Some b \<Rightarrow>
                       if diff < fst b
                       then (if left then knnSearchRecursive DIM pts query n1 queue k
                             else knnSearchRecursive DIM pts query n0 queue k)
                       else Some queue))"

definition kd_knnSearch :: "nat \<Rightarrow> kdtree \<Rightarrow> kpoint \<Rightarrow> nat \<Rightarrow> nat list option" where
  "kd_knnSearch DIM t query k =
     (case knnSearchRecursive DIM (kd_points t) query (kd_root t) [] k of
        None \<Rightarrow> None
      | Some queue \<Rightarrow> Some (map snd queue))"

text \<open>
  \<open>knn_ok ds k S q\<close>: the queue holds \<open>min k |S|\<close> different members of \<open>S\<close> with their distances, in
  order, and no member of \<open>S\<close> left out is closer than one in the queue.
\<close>

definition knn_ok :: "(nat \<Rightarrow> real) \<Rightarrow> nat \<Rightarrow> nat set \<Rightarrow> (real \<times> nat) list \<Rightarrow> bool" where
  "knn_ok ds k S q \<longleftrightarrow>
     finite S \<and> sorted q \<and> distinct (map snd q) \<and> length q = min k (card S)
     \<and> (\<forall>x \<in> set q. snd x \<in> S \<and> fst x = ds (snd x))
     \<and> (\<forall>j \<in> S - snd ` set q. \<forall>x \<in> set q. fst x \<le> ds j)"

lemma knn_ok_empty: "knn_ok ds k {} []"
  by (simp add: knn_ok_def)

lemma knn_ok_push:
  assumes ok: "knn_ok ds k S q" and "i \<notin> S"
  shows "knn_ok ds k (insert i S) (bpq_push k (ds i, i) q)"
proof -
  let ?q = "bpq_push k (ds i, i) q"
  have q: "sorted q" "length q \<le> k" "finite S" using ok by (auto simp: knn_ok_def)
  have sub: "set ?q \<subseteq> insert (ds i, i) (set q)" by (rule bpq.push_subset [OF q(1,2)])
  have "distinct (map snd ((ds i, i) # q))" using ok assms(2) by (auto simp: knn_ok_def)
  then have d: "distinct (map snd ?q)" by (rule bpq.push_distinct [OF q(1,2)])
  have left: "fst x \<le> ds j" if j: "j \<in> insert i S - snd ` set ?q" and x: "x \<in> set ?q" for j x
  proof (cases "(ds j, j) \<in> insert (ds i, i) (set q)")
    case True
    moreover from j have "(ds j, j) \<notin> set ?q" by force
    ultimately have "x \<le> (ds j, j)" using bpq.push_dropped(1) [OF q(1,2) _ _ x] by blast
    then show ?thesis by (auto simp: less_eq_prod_def)
  next
    case False
    with j ok have jS: "j \<in> S - snd ` set q" by (fastforce simp: knn_ok_def)
    show ?thesis
    proof (cases "x \<in> set q")
      case True
      with jS ok show ?thesis by (auto simp: knn_ok_def)
    next
      case new: False
      with x sub have xi: "x = (ds i, i)" by auto
      have "length q = k"
      proof (rule ccontr)
        assume "length q \<noteq> k"
        with ok have "length q = card S" by (auto simp: knn_ok_def)
        moreover have "card (snd ` set q) = length q"
          using ok by (metis distinct_card knn_ok_def length_map set_map)
        moreover have "snd ` set q \<subseteq> S" using ok by (auto simp: knn_ok_def)
        ultimately have "snd ` set q = S" using q(3) card_subset_eq by metis
        with jS show False by simp
      qed
      moreover have "length ?q = k"
        using bpq.push_length [OF q(1,2)] \<open>length q = k\<close> by simp
      moreover have "set ?q \<noteq> insert (ds i, i) (set q)"
      proof
        assume eq: "set ?q = insert (ds i, i) (set q)"
        have "card (set ?q) \<le> k" using \<open>length ?q = k\<close> card_length by metis
        moreover have "card (set q) = k"
          using ok \<open>length q = k\<close> by (metis distinct_card distinct_map knn_ok_def)
        moreover have "(ds i, i) \<notin> set q" using ok assms(2) by (auto simp: knn_ok_def)
        ultimately show False using eq by simp
      qed
      ultimately obtain y where y: "y \<in> set q" "y \<notin> set ?q" using sub x xi by blast
      then have "x \<le> y" using bpq.push_dropped(1) [OF q(1,2) _ y(2) x] by blast
      moreover have "fst y \<le> ds j" using y(1) jS ok by (auto simp: knn_ok_def)
      ultimately show ?thesis by (auto simp: less_eq_prod_def)
    qed
  qed
  have "length ?q = min k (card (insert i S))"
    using bpq.push_length [OF q(1,2), of "(ds i, i)"] ok assms(2) by (auto simp: knn_ok_def)
  moreover have "sorted ?q" by (rule bpq.push_sorted [OF q(1,2)])
  moreover have "\<forall>x \<in> set ?q. snd x \<in> insert i S \<and> fst x = ds (snd x)"
    using sub ok by (fastforce simp: knn_ok_def)
  ultimately show ?thesis using d left q(3) by (simp add: knn_ok_def)
qed

lemma knn_ok_skip:
  assumes ok: "knn_ok ds k S q" and "length q = k" "finite T"
    and far: "\<And>j x. j \<in> T \<Longrightarrow> x \<in> set q \<Longrightarrow> fst x \<le> ds j"
  shows "knn_ok ds k (S \<union> T) q"
proof -
  have "k \<le> card S" using ok assms(2) by (auto simp: knn_ok_def)
  also have "card S \<le> card (S \<union> T)" using ok assms(3) by (auto simp: knn_ok_def intro: card_mono)
  finally have "length q = min k (card (S \<union> T))" using assms(2) by simp
  moreover have "fst x \<le> ds j" if "j \<in> S \<union> T - snd ` set q" "x \<in> set q" for j x
    using ok far that unfolding knn_ok_def by blast
  ultimately show ?thesis using ok assms(3) by (simp add: knn_ok_def)
qed

lemma sorted_fst_last: "sorted (q :: (real \<times> nat) list) \<Longrightarrow> x \<in> set q \<Longrightarrow> fst x \<le> fst (last q)"
  by (induction q) (force simp: less_eq_prod_def dest: last_in_set split: if_splits)+

lemma knnSearchRecursive_ok:
  assumes "0 < k"
  shows "kd_ordered DIM pts n \<Longrightarrow> distinct (knode_list n) \<Longrightarrow> set (knode_list n) \<inter> S = {} \<Longrightarrow>
    knn_ok (\<lambda>j. kd_distance DIM query (pts ! j)) k S q \<Longrightarrow>
    \<exists>q'. knnSearchRecursive DIM pts query n q k = Some q'
         \<and> knn_ok (\<lambda>j. kd_distance DIM query (pts ! j)) k (S \<union> set (knode_list n)) q'"
proof (induction n arbitrary: S q)
  case KNull
  then show ?case by simp
next
  case (KNode i axis l r)
  let ?ds = "\<lambda>j. kd_distance DIM query (pts ! j)"
  let ?left = "query axis < (pts ! i) axis"
  let ?near = "if ?left then l else r" and ?far = "if ?left then r else l"
  let ?q1 = "bpq_push k (?ds i, i) q"
  have q1: "knn_ok ?ds k (insert i S) ?q1"
    using KNode.prems by (intro knn_ok_push) auto
  have IH: "\<exists>q'. knnSearchRecursive DIM pts query m Q k = Some q'
      \<and> knn_ok ?ds k (T \<union> set (knode_list m)) q'"
    if "m = l \<or> m = r" "set (knode_list m) \<inter> T = {}" "knn_ok ?ds k T Q" for m T Q
    using that KNode.IH(1) [of T Q] KNode.IH(2) [of T Q] KNode.prems(1,2) by auto
  have near: "?near = l \<or> ?near = r" "set (knode_list ?near) \<inter> insert i S = {}"
    using KNode.prems(2,3) by auto
  have far: "?far = l \<or> ?far = r"
      "set (knode_list ?far) \<inter> (insert i S \<union> set (knode_list ?near)) = {}"
    using KNode.prems(2,3) by auto
  obtain q2 where q2: "knnSearchRecursive DIM pts query ?near ?q1 k = Some q2"
      "knn_ok ?ds k (insert i S \<union> set (knode_list ?near)) q2"
    using IH [OF near q1] by blast
  obtain q3 where q3: "knnSearchRecursive DIM pts query ?far q2 k = Some q3"
      "knn_ok ?ds k (insert i S \<union> set (knode_list ?near) \<union> set (knode_list ?far)) q3"
    using IH [OF far q2(2)] by blast
  have sets: "insert i S \<union> set (knode_list ?near) \<union> set (knode_list ?far)
      = S \<union> set (knode_list (KNode i axis l r))"
    by auto
  have rec: "knnSearchRecursive DIM pts query (KNode i axis l r) q k =
      (if length q2 < k then Some q3
       else if q2 = [] then None
       else if \<bar>query axis - (pts ! i) axis\<bar> < fst (last q2) then Some q3 else Some q2)"
    using q2(1) q3(1) by (cases ?left; cases "q2 = []") (simp_all add: Let_def bpq_back_def)
  show ?case
  proof (cases "length q2 < k \<or> \<bar>query axis - (pts ! i) axis\<bar> < fst (last q2)")
    case True
    with rec q3(2) assms show ?thesis unfolding sets by (cases "q2 = []") auto
  next
    case False
    have len: "length q2 = k" using False q2(2) by (auto simp: knn_ok_def)
    have "knn_ok ?ds k (insert i S \<union> set (knode_list ?near) \<union> set (knode_list ?far)) q2"
    proof (rule knn_ok_skip [OF q2(2) len])
      fix j x
      assume j: "j \<in> set (knode_list ?far)" and "x \<in> set q2"
      then have "fst x \<le> fst (last q2)"
        using q2(2) sorted_fst_last [of q2 x] by (simp only: knn_ok_def)
      also have "\<dots> \<le> ?ds j"
        using far_side [of DIM pts i axis l r j query "fst (last q2)"] KNode.prems(1) j False by simp
      finally show "fst x \<le> ?ds j" .
    qed simp
    with rec False len assms show ?thesis unfolding sets by auto
  qed
qed

lemma knn_zero:
  "n \<noteq> KNull \<Longrightarrow> knnSearchRecursive DIM pts query n [] 0 = None"
proof (induction n)
  case KNull
  then show ?case by simp
next
  case (KNode i axis l r)
  have p: "bpq_push 0 v [] = []" for v by (simp add: bpq_push_def)
  show ?case
  proof (cases "(if query axis < (pts ! i) axis then l else r) = KNull")
    case True
    then show ?thesis by (auto simp: p Let_def bpq_back_def split: if_splits)
  next
    case False
    then show ?thesis using KNode.IH by (auto simp: p Let_def split: if_splits)
  qed
qed

text \<open>
  Property C18. For a positive \<open>k\<close>, \<open>knnSearch\<close> returns \<open>min k n\<close> different indices ordered by
  their distance to the query, and no point whose index is left out is closer than one returned;
  the bounded queue is never read while empty. For \<open>k = 0\<close> a non-empty tree makes it read the
  back of an empty queue.
\<close>

theorem kd_knnSearch_correct:
  fixes query :: kpoint
  assumes inv: "kd_inv DIM t" and k: "0 < k"
  defines "ds \<equiv> \<lambda>j. kd_distance DIM query (kd_points t ! j)"
  shows "(\<exists>js. kd_knnSearch DIM t query k = Some js
           \<and> length js = min k (length (kd_points t)) \<and> distinct js
           \<and> set js \<subseteq> {0..<length (kd_points t)} \<and> sorted (map ds js)
           \<and> (\<forall>j < length (kd_points t). j \<notin> set js \<longrightarrow> (\<forall>i \<in> set js. ds i \<le> ds j)))
         \<and> (kd_root t \<noteq> KNull \<longrightarrow> kd_knnSearch DIM t query 0 = None)"
proof -
  let ?n = "length (kd_points t)"
  have ord: "kd_ordered DIM (kd_points t) (kd_root t)" using inv by (simp add: kd_inv_def)
  obtain q where q: "knnSearchRecursive DIM (kd_points t) query (kd_root t) [] k = Some q"
      "knn_ok ds k {0..<?n} q"
    using knnSearchRecursive_ok [OF k ord kd_inv_distinct [OF inv], of "{}" query "[]"]
      kd_inv_set [OF inv] knn_ok_empty unfolding ds_def by auto
  have eq: "map ds (map snd q) = map fst q" using q(2) by (auto simp: knn_ok_def)
  have srt: "sorted (map fst q)"
    using q(2) unfolding knn_ok_def sorted_map
    by (auto elim!: sorted_wrt_mono_rel [rotated] simp: less_eq_prod_def)
  have sub: "set (map snd q) \<subseteq> {0..<?n}" using q(2) by (auto simp: knn_ok_def)
  have best: "ds i \<le> ds j" if ij: "j < ?n" "j \<notin> set (map snd q)" "i \<in> set (map snd q)" for i j
  proof -
    obtain x where "x \<in> set q" "snd x = i" using ij(3) by auto
    moreover from this have "fst x = ds i" using q(2) by (auto simp: knn_ok_def)
    moreover have "j \<in> {0..<?n} - snd ` set q" using ij by auto
    ultimately show ?thesis using q(2) unfolding knn_ok_def by metis
  qed
  have "\<exists>js. kd_knnSearch DIM t query k = Some js
           \<and> length js = min k ?n \<and> distinct js
           \<and> set js \<subseteq> {0..<?n} \<and> sorted (map ds js)
           \<and> (\<forall>j < ?n. j \<notin> set js \<longrightarrow> (\<forall>i \<in> set js. ds i \<le> ds j))"
  proof (intro exI conjI)
    show "kd_knnSearch DIM t query k = Some (map snd q)" using q(1) by (simp add: kd_knnSearch_def)
    show "length (map snd q) = min k ?n" using q(2) by (simp add: knn_ok_def)
    show "distinct (map snd q)" using q(2) by (simp add: knn_ok_def)
    show "set (map snd q) \<subseteq> {0..<?n}" by (rule sub)
    show "sorted (map ds (map snd q))" unfolding eq by (rule srt)
    show "\<forall>j < ?n. j \<notin> set (map snd q) \<longrightarrow> (\<forall>i \<in> set (map snd q). ds i \<le> ds j)"
      using best by blast
  qed
  moreover have "kd_knnSearch DIM t query 0 = None" if "kd_root t \<noteq> KNull"
    using that knn_zero by (simp add: kd_knnSearch_def)
  ultimately show ?thesis by blast
qed

theorem kd_knnSearch_correct_witness:
  "\<exists>js. kd_knnSearch 2 (kd_insert 2 (\<lambda>i. 4) kd_empty) (\<lambda>i. 1) 3 = Some js \<and> length js = 1"
proof -
  let ?t = "kd_insert 2 (\<lambda>i. 4) kd_empty"
  have pts: "length (kd_points ?t) = 1" by (simp add: kd_insert_def kd_empty_def)
  have inv: "kd_inv 2 ?t" by (simp add: kd_inv_def kd_empty_def kd_insert_def Let_def)
  show ?thesis using kd_knnSearch_correct [OF inv, of 3 "\<lambda>i. 1"] unfolding pts by auto
qed

end
