(* ===== verification/WindowEvents.thy ===== *)
theory WindowEvents
  imports GameInvariant
begin

text \<open>
  The events of the window, which \<open>glfwPollEvents\<close>, the first call of \<open>Game::ProcessInput\<close>, delivers:
  keys for \<open>Window::KeyCallback\<close>, and the user closing the window.
\<close>

datatype window_event =
    Key int key_action
  | Close

fun deliver :: "window_event \<Rightarrow> Game \<Rightarrow> Game" where
  "deliver (Key k act) g = KeyCallback k act g"
| "deliver Close g = g\<lparr>window_should_close := True\<rparr>"

definition poll_events :: "window_event list \<Rightarrow> Game \<Rightarrow> Game" where
  "poll_events es g = fold deliver es g"

lemma poll_none [simp]: "poll_events [] g = g"
  by (simp add: poll_events_def)

lemma deliver_reachable: "reachable g \<Longrightarrow> reachable (deliver e g)"
  by (cases e) (auto intro: reachable.step game_step.key game_step.close)

lemma poll_reachable: "reachable g \<Longrightarrow> reachable (poll_events es g)"
  by (induction es arbitrary: g) (auto simp: poll_events_def deliver_reachable)

lemma poll_inv: "game_inv g \<Longrightarrow> game_inv (poll_events es g)"
proof (induction es arbitrary: g)
  case (Cons e es)
  then have "game_inv (deliver e g)" by (cases e) (simp_all add: KeyCallback_inv)
  from Cons.IH [OF this] show ?case by (simp add: poll_events_def)
qed simp

text \<open>What closes the window.\<close>

fun closing :: "window_event \<Rightarrow> bool" where
  "closing (Key k act) \<longleftrightarrow> k = int KEY_ESCAPE \<and> act = PRESS"
| "closing Close \<longleftrightarrow> True"

lemma deliver_close: "window_should_close (deliver e g) \<longleftrightarrow> window_should_close g \<or> closing e"
  by (cases e) (auto simp: KeyCallback_def Let_def split: key_action.split)

lemma poll_close: "window_should_close (poll_events es g) \<longleftrightarrow> window_should_close g \<or> (\<exists>e\<in>set es. closing e)"
  by (induction es arbitrary: g) (auto simp: poll_events_def deliver_close)

end
