(* ===== verification/PbTypes.thy ===== *)
theory PbTypes
  imports Prelude "HOL-Library.Word"
begin

text \<open>
  The data of nanopb (\<open>libs/msg/nanopb/pb.h\<close>, the stream structures of \<open>pb_encode.h\<close> and
  \<open>pb_decode.h\<close>): field types, message descriptors, the field iterator, the two streams, and
  the memory the structures live in.

  Memory is a map from addresses to bytes; the host and the robots are little endian. A pointer
  is an address, \<open>NULL\<close> is 0. A pointer to a message descriptor is looked up in the environment
  \<open>pb_env\<close>, which also holds the functions user code may register (stream callbacks, field
  callbacks, extension handlers). The configuration is the one of \<open>libs/msg/CMakeLists.txt\<close>: no
  \<open>PB_ENABLE_MALLOC\<close>, \<open>PB_BUFFER_ONLY\<close>, \<open>PB_FIELD_32BIT\<close>, \<open>PB_WITHOUT_64BIT\<close>, \<open>PB_NO_ERRMSG\<close>,
  \<open>PB_VALIDATE_UTF8\<close> or \<open>PB_CONVERT_DOUBLE_FLOAT\<close>; \<open>size_t\<close> has 64 bits.
\<close>

unbundle bit_operations_syntax

section \<open>Memory\<close>

type_synonym pb_byte = "8 word"
type_synonym addr = nat
type_synonym mem = "nat \<Rightarrow> 8 word"
type_synonym size_t = "64 word"
type_synonym pb_size = "16 word"
type_synonym pb_type = "8 word"

definition load_bytes :: "mem \<Rightarrow> addr \<Rightarrow> nat \<Rightarrow> pb_byte list" where
  "load_bytes m a n = map m [a..<a + n]"

fun store_bytes :: "mem \<Rightarrow> addr \<Rightarrow> pb_byte list \<Rightarrow> mem" where
  "store_bytes m a [] = m"
| "store_bytes m a (b # bs) = store_bytes (m(a := b)) (Suc a) bs"

fun le_word :: "pb_byte list \<Rightarrow> 'a::len word" where
  "le_word [] = 0"
| "le_word (b # bs) = ucast b OR push_bit 8 (le_word bs)"

fun le_bytes :: "nat \<Rightarrow> 'a::len word \<Rightarrow> pb_byte list" where
  "le_bytes 0 w = []"
| "le_bytes (Suc n) w = ucast w # le_bytes n (drop_bit 8 w)"

definition load_u16 :: "mem \<Rightarrow> addr \<Rightarrow> 16 word" where "load_u16 m a = le_word (load_bytes m a 2)"
definition load_u32 :: "mem \<Rightarrow> addr \<Rightarrow> 32 word" where "load_u32 m a = le_word (load_bytes m a 4)"
definition load_u64 :: "mem \<Rightarrow> addr \<Rightarrow> 64 word" where "load_u64 m a = le_word (load_bytes m a 8)"
definition load_ptr :: "mem \<Rightarrow> addr \<Rightarrow> addr" where "load_ptr m a = unat (load_u64 m a)"

definition store_word :: "nat \<Rightarrow> mem \<Rightarrow> addr \<Rightarrow> 'a::len word \<Rightarrow> mem" where
  "store_word n m a w = store_bytes m a (le_bytes n w)"

definition memset0 :: "mem \<Rightarrow> addr \<Rightarrow> nat \<Rightarrow> mem" where
  "memset0 m a n = store_bytes m a (replicate n 0)"

definition zero_at :: "mem \<Rightarrow> addr \<Rightarrow> nat \<Rightarrow> bool" where
  "zero_at m a n \<longleftrightarrow> list_all (\<lambda>b. b = 0) (load_bytes m a n)"

lemma load_bytes_length [simp]: "length (load_bytes m a n) = n"
  by (simp add: load_bytes_def)

lemma load_bytes_0 [simp]: "load_bytes m a 0 = []"
  by (simp add: load_bytes_def)

lemma load_bytes_Suc: "load_bytes m a (Suc n) = m a # load_bytes m (Suc a) n"
  by (simp add: load_bytes_def upt_conv_Cons del: upt_Suc)

lemma load_bytes_add: "load_bytes m a (n + k) = load_bytes m a n @ load_bytes m (a + n) k"
  by (induction n arbitrary: a) (auto simp: load_bytes_Suc)

lemma load_bytes_nth [simp]: "i < n \<Longrightarrow> load_bytes m a n ! i = m (a + i)"
  by (simp add: load_bytes_def)

lemma load_bytes_cong: "(\<And>x. a \<le> x \<Longrightarrow> x < a + n \<Longrightarrow> m x = m' x) \<Longrightarrow> load_bytes m a n = load_bytes m' a n"
  by (auto simp: load_bytes_def)

lemma store_bytes_apply:
  "store_bytes m a bs x = (if a \<le> x \<and> x < a + length bs then bs ! (x - a) else m x)"
proof (induction bs arbitrary: m a x)
  case (Cons b bs)
  show ?case
    by (cases "x = a") (auto simp: Cons.IH nth_Cons' not_less_eq_eq dest: le_antisym)
qed auto

lemma store_bytes_outside [simp]: "x < a \<or> a + length bs \<le> x \<Longrightarrow> store_bytes m a bs x = m x"
  by (auto simp: store_bytes_apply)

lemma load_store_bytes [simp]: "n = length bs \<Longrightarrow> load_bytes (store_bytes m a bs) a n = bs"
  by (auto simp: list_eq_iff_nth_eq store_bytes_apply)

lemma load_store_bytes_disjoint:
  "b + n \<le> a \<or> a + length bs \<le> b \<Longrightarrow> load_bytes (store_bytes m a bs) b n = load_bytes m b n"
  by (rule load_bytes_cong) auto

lemma store_bytes_append:
  "store_bytes m a (xs @ ys) = store_bytes (store_bytes m a xs) (a + length xs) ys"
  by (induction xs arbitrary: m a) auto

lemma store_load_bytes [simp]: "store_bytes m a (load_bytes m a n) = m"
  by (rule ext) (auto simp: store_bytes_apply)

lemma le_bytes_length [simp]: "length (le_bytes n w) = n"
  by (induction n arbitrary: w) auto

lemma le_word_le_bytes:
  "le_word (le_bytes n w) = (take_bit (8 * n) w :: 'a::len word)"
proof (induction n arbitrary: w)
  case (Suc n)
  show ?case
    by (rule bit_word_eqI)
      (auto simp: Suc.IH bit_or_iff bit_push_bit_iff bit_take_bit_iff bit_drop_bit_eq bit_ucast_iff
        bit_imp_le_length)
qed simp

lemma le_bytes_le_word:
  fixes bs :: "pb_byte list"
  assumes "8 * length bs \<le> LENGTH('a::len)"
  shows "le_bytes (length bs) (le_word bs :: 'a word) = bs"
  using assms
proof (induction bs)
  case (Cons b bs)
  have "ucast (ucast b OR push_bit 8 (le_word bs :: 'a word)) = b"
    using Cons.prems
    by (intro bit_word_eqI) (auto simp: bit_or_iff bit_push_bit_iff bit_ucast_iff)
  moreover have "drop_bit 8 (ucast b OR push_bit 8 (le_word bs :: 'a word)) = take_bit (LENGTH('a) - 8) (le_word bs)"
    using Cons.prems bit_imp_le_length[of b]
    by (intro bit_word_eqI) (auto simp: bit_or_iff bit_push_bit_iff bit_drop_bit_eq bit_ucast_iff bit_take_bit_iff)
  moreover have "take_bit (LENGTH('a) - 8) (le_word bs) = (le_word bs :: 'a word)"
  proof -
    have "take_bit (8 * length bs) (le_word bs :: 'a word) = le_word bs"
      using le_word_le_bytes[of "length bs" "le_word bs :: 'a word"] Cons by simp
    with Cons.prems show ?thesis
      by (metis (no_types, lifting) add_le_imp_le_diff length_Cons min.absorb2 min.commute mult_Suc_right add.commute take_bit_take_bit)
  qed
  ultimately show ?case using Cons by simp
qed simp

text \<open>The bits of a number below \<open>2 ^ k\<close>.\<close>

lemma bit_below:
  fixes v :: "'a::len word"
  assumes "unat v < 2 ^ k" and "bit v n"
  shows "n < k"
proof (rule ccontr)
  assume "\<not> n < k"
  then have "(2::nat) ^ k \<le> 2 ^ n" by simp
  moreover have "2 ^ n \<le> unat v"
  proof -
    have "bit (unat v) n" using assms(2) by (simp add: bit_unsigned_iff)
    then show ?thesis by (metis bit_iff_odd div_less dvd_0_right not_le)
  qed
  ultimately show False using assms(1) by linarith
qed

section \<open>Field types\<close>

definition PB_LTYPE_BOOL :: pb_type where "PB_LTYPE_BOOL = 0x00"
definition PB_LTYPE_VARINT :: pb_type where "PB_LTYPE_VARINT = 0x01"
definition PB_LTYPE_UVARINT :: pb_type where "PB_LTYPE_UVARINT = 0x02"
definition PB_LTYPE_SVARINT :: pb_type where "PB_LTYPE_SVARINT = 0x03"
definition PB_LTYPE_FIXED32 :: pb_type where "PB_LTYPE_FIXED32 = 0x04"
definition PB_LTYPE_FIXED64 :: pb_type where "PB_LTYPE_FIXED64 = 0x05"
definition PB_LTYPE_LAST_PACKABLE :: pb_type where "PB_LTYPE_LAST_PACKABLE = 0x05"
definition PB_LTYPE_BYTES :: pb_type where "PB_LTYPE_BYTES = 0x06"
definition PB_LTYPE_STRING :: pb_type where "PB_LTYPE_STRING = 0x07"
definition PB_LTYPE_SUBMESSAGE :: pb_type where "PB_LTYPE_SUBMESSAGE = 0x08"
definition PB_LTYPE_SUBMSG_W_CB :: pb_type where "PB_LTYPE_SUBMSG_W_CB = 0x09"
definition PB_LTYPE_EXTENSION :: pb_type where "PB_LTYPE_EXTENSION = 0x0A"
definition PB_LTYPE_FIXED_LENGTH_BYTES :: pb_type where "PB_LTYPE_FIXED_LENGTH_BYTES = 0x0B"

definition PB_HTYPE_REQUIRED :: pb_type where "PB_HTYPE_REQUIRED = 0x00"
definition PB_HTYPE_OPTIONAL :: pb_type where "PB_HTYPE_OPTIONAL = 0x10"
definition PB_HTYPE_REPEATED :: pb_type where "PB_HTYPE_REPEATED = 0x20"
definition PB_HTYPE_ONEOF :: pb_type where "PB_HTYPE_ONEOF = 0x30"

definition PB_ATYPE_STATIC :: pb_type where "PB_ATYPE_STATIC = 0x00"
definition PB_ATYPE_POINTER :: pb_type where "PB_ATYPE_POINTER = 0x80"
definition PB_ATYPE_CALLBACK :: pb_type where "PB_ATYPE_CALLBACK = 0x40"

lemmas pb_type_values =
  PB_LTYPE_BOOL_def PB_LTYPE_VARINT_def PB_LTYPE_UVARINT_def PB_LTYPE_SVARINT_def
  PB_LTYPE_FIXED32_def PB_LTYPE_FIXED64_def PB_LTYPE_LAST_PACKABLE_def PB_LTYPE_BYTES_def
  PB_LTYPE_STRING_def PB_LTYPE_SUBMESSAGE_def PB_LTYPE_SUBMSG_W_CB_def PB_LTYPE_EXTENSION_def
  PB_LTYPE_FIXED_LENGTH_BYTES_def PB_HTYPE_REQUIRED_def PB_HTYPE_OPTIONAL_def
  PB_HTYPE_REPEATED_def PB_HTYPE_ONEOF_def PB_ATYPE_STATIC_def PB_ATYPE_POINTER_def
  PB_ATYPE_CALLBACK_def

definition PB_LTYPE :: "pb_type \<Rightarrow> pb_type" where "PB_LTYPE x = x AND 0x0F"
definition PB_HTYPE :: "pb_type \<Rightarrow> pb_type" where "PB_HTYPE x = x AND 0x30"
definition PB_ATYPE :: "pb_type \<Rightarrow> pb_type" where "PB_ATYPE x = x AND 0xC0"

definition PB_LTYPE_IS_SUBMSG :: "pb_type \<Rightarrow> bool" where
  "PB_LTYPE_IS_SUBMSG x \<longleftrightarrow> PB_LTYPE x = PB_LTYPE_SUBMESSAGE \<or> PB_LTYPE x = PB_LTYPE_SUBMSG_W_CB"

definition PB_SIZE_MAX :: pb_size where "PB_SIZE_MAX = - 1"

text \<open>
  Wire types, as the numbers \<open>pb_wire_type_t\<close> gives them: the decoder casts the low three bits of
  a tag to this type, so 3, 4, 6 and 7 occur as well.
\<close>

type_synonym wire_type = "32 word"

definition PB_WT_VARINT :: wire_type where "PB_WT_VARINT = 0"
definition PB_WT_64BIT :: wire_type where "PB_WT_64BIT = 1"
definition PB_WT_STRING :: wire_type where "PB_WT_STRING = 2"
definition PB_WT_32BIT :: wire_type where "PB_WT_32BIT = 5"
definition PB_WT_PACKED :: wire_type where "PB_WT_PACKED = 255"

lemmas pb_wire_values =
  PB_WT_VARINT_def PB_WT_64BIT_def PB_WT_STRING_def PB_WT_32BIT_def PB_WT_PACKED_def

section \<open>Message descriptors\<close>

text \<open>
  \<open>field_callback\<close> is \<^term>\<open>None\<close> for \<open>NULL\<close>; \<open>default_value\<close> is a pointer; \<open>submsg_info\<close> is the
  array of pointers to descriptors with the \<open>NULL\<close> that \<open>PB_BIND\<close> puts at its end.
\<close>

datatype field_callback = Default_field_callback | User_field_callback nat

record pb_msgdesc =
  field_info :: "32 word list"
  submsg_info :: "addr list"
  default_value :: addr
  field_callback :: "field_callback option"
  field_count :: pb_size
  required_field_count :: pb_size
  largest_tag :: pb_size

text \<open>The macros that write the words of \<open>field_info\<close>.\<close>

definition PB_FIELDINFO_1 ::
  "32 word \<Rightarrow> 32 word \<Rightarrow> 32 word \<Rightarrow> 32 word \<Rightarrow> 32 word \<Rightarrow> 32 word \<Rightarrow> 32 word list" where
  "PB_FIELDINFO_1 tag ty data_offset data_size size_offset array_size =
     [0 OR (push_bit 2 tag AND 0xFF) OR push_bit 8 ty OR push_bit 16 (data_offset AND 0xFF)
        OR push_bit 24 (size_offset AND 0x0F) OR push_bit 28 (data_size AND 0x0F)]"

definition PB_FIELDINFO_2 ::
  "32 word \<Rightarrow> 32 word \<Rightarrow> 32 word \<Rightarrow> 32 word \<Rightarrow> 32 word \<Rightarrow> 32 word \<Rightarrow> 32 word list" where
  "PB_FIELDINFO_2 tag ty data_offset data_size size_offset array_size =
     [1 OR (push_bit 2 tag AND 0xFF) OR push_bit 8 ty OR push_bit 16 (array_size AND 0xFFF)
        OR push_bit 28 (size_offset AND 0x0F),
      (data_offset AND 0xFFFF) OR push_bit 16 (data_size AND 0xFFF) OR push_bit 22 (tag AND 0x3c0)]"

definition PB_FIELDINFO_4 ::
  "32 word \<Rightarrow> 32 word \<Rightarrow> 32 word \<Rightarrow> 32 word \<Rightarrow> 32 word \<Rightarrow> 32 word \<Rightarrow> 32 word list" where
  "PB_FIELDINFO_4 tag ty data_offset data_size size_offset array_size =
     [2 OR (push_bit 2 tag AND 0xFF) OR push_bit 8 ty OR push_bit 16 (array_size AND 0xFFFF),
      scast (ucast size_offset :: 8 word) OR (push_bit 2 tag AND 0xFFFFFF00),
      data_offset, data_size]"

definition PB_FIELDINFO_8 ::
  "32 word \<Rightarrow> 32 word \<Rightarrow> 32 word \<Rightarrow> 32 word \<Rightarrow> 32 word \<Rightarrow> 32 word \<Rightarrow> 32 word list" where
  "PB_FIELDINFO_8 tag ty data_offset data_size size_offset array_size =
     [3 OR (push_bit 2 tag AND 0xFF) OR push_bit 8 ty,
      scast (ucast size_offset :: 8 word) OR (push_bit 2 tag AND 0xFFFFFF00),
      data_offset, data_size, array_size, 0, 0, 0]"

section \<open>The field iterator\<close>

text \<open>
  \<open>pSize\<close> points to a count or a presence flag in the structure, to the iterator's own member
  \<open>array_size\<close> (arrays of fixed length), or to the decoder's local variable \<open>fixed_count_size\<close>,
  whose value the constructor carries.
\<close>

datatype size_ptr = Size_null | Size_at addr | Size_array | Size_fixed_count pb_size

record pb_field_iter =
  descriptor :: addr
  message :: addr
  it_index :: pb_size
  field_info_index :: pb_size
  required_field_index :: pb_size
  submessage_index :: pb_size
  tag :: pb_size
  data_size :: pb_size
  array_size :: pb_size
  ftype :: pb_type
  pField :: addr
  pData :: addr
  pSize :: size_ptr
  submsg_desc :: addr

text \<open>\<open>*(pb_size_t*)field->pSize\<close> and the assignment to it; a \<open>NULL\<close> pointer is address 0.\<close>

definition read_psize :: "mem \<Rightarrow> pb_field_iter \<Rightarrow> pb_size" where
  "read_psize m it =
     (case pSize it of
        Size_null \<Rightarrow> load_u16 m 0
      | Size_at a \<Rightarrow> load_u16 m a
      | Size_array \<Rightarrow> array_size it
      | Size_fixed_count n \<Rightarrow> n)"

definition write_psize :: "pb_size \<Rightarrow> mem \<Rightarrow> pb_field_iter \<Rightarrow> mem \<times> pb_field_iter" where
  "write_psize n m it =
     (case pSize it of
        Size_null \<Rightarrow> (store_word 2 m 0 n, it)
      | Size_at a \<Rightarrow> (store_word 2 m a n, it)
      | Size_array \<Rightarrow> (m, it\<lparr>array_size := n\<rparr>)
      | Size_fixed_count k \<Rightarrow> (m, it\<lparr>pSize := Size_fixed_count n\<rparr>))"

text \<open>\<open>safe_read_bool\<close> on \<open>pSize\<close> and \<open>*(bool*)field->pSize = b\<close>: the first byte.\<close>

definition read_pbool :: "mem \<Rightarrow> pb_field_iter \<Rightarrow> bool" where
  "read_pbool m it =
     (case pSize it of
        Size_null \<Rightarrow> m 0 \<noteq> 0
      | Size_at a \<Rightarrow> m a \<noteq> 0
      | Size_array \<Rightarrow> array_size it AND 0xFF \<noteq> 0
      | Size_fixed_count n \<Rightarrow> n AND 0xFF \<noteq> 0)"

definition write_pbool :: "bool \<Rightarrow> mem \<Rightarrow> pb_field_iter \<Rightarrow> mem \<times> pb_field_iter" where
  "write_pbool b m it =
     (let v = (if b then 1 else 0)
      in case pSize it of
           Size_null \<Rightarrow> (m(0 := v), it)
         | Size_at a \<Rightarrow> (m(a := v), it)
         | Size_array \<Rightarrow> (m, it\<lparr>array_size := array_size it AND 0xFF00 OR ucast v\<rparr>)
         | Size_fixed_count n \<Rightarrow> (m, it\<lparr>pSize := Size_fixed_count (n AND 0xFF00 OR ucast v)\<rparr>))"

section \<open>Streams\<close>

text \<open>
  The callback of a stream: \<open>NULL\<close>, the buffer function of the library, or a function of the
  user that the environment holds.
\<close>

datatype stream_callback = No_callback | Buffer_callback | User_callback nat

record pb_ostream =
  os_callback :: stream_callback
  os_state :: addr
  max_size :: size_t
  bytes_written :: size_t
  os_errmsg :: "string option"

record pb_istream =
  is_callback :: stream_callback
  is_state :: addr
  bytes_left :: size_t
  is_errmsg :: "string option"

definition PB_OSTREAM_SIZING :: pb_ostream where
  "PB_OSTREAM_SIZING =
     \<lparr>os_callback = No_callback, os_state = 0, max_size = 0, bytes_written = 0, os_errmsg = None\<rparr>"

definition PB_ISTREAM_EMPTY :: pb_istream where
  "PB_ISTREAM_EMPTY = \<lparr>is_callback = No_callback, is_state = 0, bytes_left = 0, is_errmsg = None\<rparr>"

text \<open>\<open>PB_SET_ERROR\<close>: the first message stays.\<close>

definition os_error :: "string \<Rightarrow> pb_ostream \<Rightarrow> pb_ostream" where
  "os_error msg s = s\<lparr>os_errmsg := (case os_errmsg s of None \<Rightarrow> Some msg | Some e \<Rightarrow> Some e)\<rparr>"

definition is_error :: "string \<Rightarrow> pb_istream \<Rightarrow> pb_istream" where
  "is_error msg s = s\<lparr>is_errmsg := (case is_errmsg s of None \<Rightarrow> Some msg | Some e \<Rightarrow> Some e)\<rparr>"

section \<open>The environment\<close>

text \<open>
  What the library calls or reads through pointers that are not data: descriptors by address, and
  the functions of user code. A stream callback gets the bytes to write, or the number of bytes
  to read and returns them; a field callback gets the stream and the field, a callback stored in
  a message (\<open>pb_callback_t\<close>) also the address of its argument. \<open>local_buffer\<close> is where the stack
  has the ten bytes that \<open>decode_callback_field\<close> hands to a callback as a stream.
\<close>

record pb_env =
  desc_at :: "addr \<Rightarrow> pb_msgdesc"
  local_buffer :: addr
  user_write :: "nat \<Rightarrow> pb_ostream \<Rightarrow> pb_byte list \<Rightarrow> mem \<Rightarrow> bool \<times> pb_ostream \<times> mem"
  user_read :: "nat \<Rightarrow> pb_istream \<Rightarrow> size_t \<Rightarrow> mem \<Rightarrow> bool \<times> pb_istream \<times> pb_byte list"
  user_field_encode :: "nat \<Rightarrow> pb_ostream \<Rightarrow> pb_field_iter \<Rightarrow> mem \<Rightarrow> bool \<times> pb_ostream \<times> mem"
  user_field_decode :: "nat \<Rightarrow> pb_istream \<Rightarrow> pb_field_iter \<Rightarrow> mem \<Rightarrow> bool \<times> pb_istream \<times> mem"
  callback_encode :: "addr \<Rightarrow> pb_ostream \<Rightarrow> pb_field_iter \<Rightarrow> addr \<Rightarrow> mem \<Rightarrow> bool \<times> pb_ostream \<times> mem"
  callback_decode :: "addr \<Rightarrow> pb_istream \<Rightarrow> pb_field_iter \<Rightarrow> addr \<Rightarrow> mem \<Rightarrow> bool \<times> pb_istream \<times> mem"
  extension_encode :: "addr \<Rightarrow> pb_ostream \<Rightarrow> addr \<Rightarrow> mem \<Rightarrow> bool \<times> pb_ostream \<times> mem"
  extension_decode ::
    "addr \<Rightarrow> pb_istream \<Rightarrow> addr \<Rightarrow> 32 word \<Rightarrow> wire_type \<Rightarrow> mem \<Rightarrow> bool \<times> pb_istream \<times> mem"

text \<open>The environment of a program that registers no user functions; it has descriptors \<open>D\<close>.\<close>

definition no_user_code :: "(addr \<Rightarrow> pb_msgdesc) \<Rightarrow> pb_env" where
  "no_user_code D =
     \<lparr>desc_at = D, local_buffer = 0,
      user_write = (\<lambda>k s buf m. (True, s, m)), user_read = (\<lambda>k s n m. (False, s, [])),
      user_field_encode = (\<lambda>k s field m. (True, s, m)), user_field_decode = (\<lambda>k s field m. (True, s, m)),
      callback_encode = (\<lambda>f s field arg m. (True, s, m)), callback_decode = (\<lambda>f s field arg m. (True, s, m)),
      extension_encode = (\<lambda>f s ext m. (True, s, m)),
      extension_decode = (\<lambda>f s ext tg wt m. (True, s, m))\<rparr>"

lemma no_user_code_desc [simp]: "desc_at (no_user_code D) = D"
  by (simp add: no_user_code_def)

text \<open>The members of \<open>pb_callback_t\<close>, \<open>pb_extension_t\<close> and \<open>pb_extension_type_t\<close> in memory.\<close>

definition cb_func :: "mem \<Rightarrow> addr \<Rightarrow> addr" where "cb_func m p = load_ptr m p"
definition cb_arg :: "addr \<Rightarrow> addr" where "cb_arg p = p + 8"
definition sizeof_pb_callback :: nat where "sizeof_pb_callback = 16"

definition ext_type :: "mem \<Rightarrow> addr \<Rightarrow> addr" where "ext_type m e = load_ptr m e"
definition ext_dest :: "addr \<Rightarrow> addr" where "ext_dest e = e + 8"
definition ext_next :: "mem \<Rightarrow> addr \<Rightarrow> addr" where "ext_next m e = load_ptr m (e + 16)"
definition ext_found :: "addr \<Rightarrow> addr" where "ext_found e = e + 24"
definition ext_type_decode :: "mem \<Rightarrow> addr \<Rightarrow> addr" where "ext_type_decode m t = load_ptr m t"
definition ext_type_encode :: "mem \<Rightarrow> addr \<Rightarrow> addr" where "ext_type_encode m t = load_ptr m (t + 8)"
definition ext_type_arg :: "mem \<Rightarrow> addr \<Rightarrow> addr" where "ext_type_arg m t = load_ptr m (t + 16)"

end
