(* ===== verification/PbCommon.thy ===== *)
theory PbCommon
  imports PbTypes
begin

text \<open>
  The field iterator of nanopb (\<open>libs/msg/nanopb/pb_common.c\<close>): it unpacks the words of a message
  descriptor one field at a time. The two search loops are partial functions: \<^term>\<open>None\<close> if the
  loop does not end.
\<close>

section \<open>Unpacking a field\<close>

text \<open>
  The four formats: array size, tag, size offset (signed), data offset and data size. \<open>w i\<close> is
  the word \<open>field_info[field_info_index + i]\<close>.
\<close>

definition unpack_field_info :: "(nat \<Rightarrow> 32 word) \<Rightarrow> pb_size \<times> pb_size \<times> 8 word \<times> 32 word \<times> pb_size" where
  "unpack_field_info w =
     (let word0 = w 0;
          fmt = word0 AND 3
      in if fmt = 0
         then (1, ucast (drop_bit 2 word0 AND 0x3F), ucast (drop_bit 24 word0 AND 0x0F),
               drop_bit 16 word0 AND 0xFF, ucast (drop_bit 28 word0 AND 0x0F))
         else if fmt = 1
         then (let word1 = w 1
               in (ucast (drop_bit 16 word0 AND 0x0FFF),
                   ucast ((drop_bit 2 word0 AND 0x3F) OR push_bit 6 (drop_bit 28 word1)),
                   ucast (drop_bit 28 word0 AND 0x0F),
                   word1 AND 0xFFFF, ucast (drop_bit 16 word1 AND 0x0FFF)))
         else if fmt = 2
         then (let word1 = w 1; word2 = w 2; word3 = w 3
               in (ucast (drop_bit 16 word0),
                   ucast ((drop_bit 2 word0 AND 0x3F) OR push_bit 6 (drop_bit 8 word1)),
                   ucast (word1 AND 0xFF), word2, ucast word3))
         else (let word1 = w 1; word2 = w 2; word3 = w 3; word4 = w 4
               in (ucast word4,
                   ucast ((drop_bit 2 word0 AND 0x3F) OR push_bit 6 (drop_bit 8 word1)),
                   ucast (word1 AND 0xFF), word2, ucast word3)))"

text \<open>The pointers of the iterator, once the members that come from the descriptor are set.\<close>

definition set_pointers :: "mem \<Rightarrow> 8 word \<Rightarrow> 32 word \<Rightarrow> pb_field_iter \<Rightarrow> pb_field_iter" where
  "set_pointers m size_offset data_offset it =
     (if message it = 0 then it\<lparr>pField := 0, pSize := Size_null\<rparr>
      else
        let pf = message it + unat data_offset;
            ps = (if size_offset \<noteq> 0 then Size_at (nat (int pf - sint size_offset))
                  else if PB_HTYPE (ftype it) = PB_HTYPE_REPEATED
                          \<and> (PB_ATYPE (ftype it) = PB_ATYPE_STATIC \<or> PB_ATYPE (ftype it) = PB_ATYPE_POINTER)
                  then Size_array
                  else Size_null);
            pd = (if PB_ATYPE (ftype it) = PB_ATYPE_POINTER \<and> pf \<noteq> 0 then load_ptr m pf else pf)
        in it\<lparr>pField := pf, pSize := ps, pData := pd\<rparr>)"

definition load_descriptor_values :: "pb_env \<Rightarrow> mem \<Rightarrow> pb_field_iter \<Rightarrow> bool \<times> pb_field_iter" where
  "load_descriptor_values E m it =
     (let d = desc_at E (descriptor it)
      in if it_index it \<ge> field_count d then (False, it)
         else
           let w = (\<lambda>i. field_info d ! (unat (field_info_index it) + i));
               (asz, tg, size_offset, data_offset, dsz) = unpack_field_info w;
               it = it\<lparr>ftype := ucast (drop_bit 8 (w 0) AND 0xFF), array_size := asz, tag := tg, data_size := dsz\<rparr>;
               it = set_pointers m size_offset data_offset it;
               sub = (if PB_LTYPE_IS_SUBMSG (ftype it) then submsg_info d ! unat (submessage_index it) else 0)
           in (True, it\<lparr>submsg_desc := sub\<rparr>))"

section \<open>Stepping through the fields\<close>

definition advance_iterator :: "pb_env \<Rightarrow> pb_field_iter \<Rightarrow> pb_field_iter" where
  "advance_iterator E it =
     (let d = desc_at E (descriptor it);
          it = it\<lparr>it_index := it_index it + 1\<rparr>
      in if it_index it \<ge> field_count d
         then it\<lparr>it_index := 0, field_info_index := 0, submessage_index := 0, required_field_index := 0\<rparr>
         else
           let prev_descriptor = field_info d ! unat (field_info_index it);
               prev_type = ucast (drop_bit 8 prev_descriptor AND 0xFF);
               descriptor_len = push_bit (unat (prev_descriptor AND 3)) 1
           in it\<lparr>field_info_index := field_info_index it + descriptor_len,
                 required_field_index := required_field_index it
                   + (if PB_HTYPE prev_type = PB_HTYPE_REQUIRED then 1 else 0),
                 submessage_index := submessage_index it + (if PB_LTYPE_IS_SUBMSG prev_type then 1 else 0)\<rparr>)"

definition zero_iter :: pb_field_iter where
  "zero_iter =
     \<lparr>descriptor = 0, message = 0, it_index = 0, field_info_index = 0, required_field_index = 0,
      submessage_index = 0, tag = 0, data_size = 0, array_size = 0, ftype = 0, pField = 0, pData = 0,
      pSize = Size_null, submsg_desc = 0\<rparr>"

definition pb_field_iter_begin :: "pb_env \<Rightarrow> addr \<Rightarrow> addr \<Rightarrow> mem \<Rightarrow> bool \<times> pb_field_iter" where
  "pb_field_iter_begin E desc msg m =
     load_descriptor_values E m (zero_iter\<lparr>descriptor := desc, message := msg\<rparr>)"

definition pb_field_iter_begin_extension :: "pb_env \<Rightarrow> addr \<Rightarrow> mem \<Rightarrow> bool \<times> pb_field_iter" where
  "pb_field_iter_begin_extension E extension m =
     (let msg = ext_type_arg m (ext_type m extension);
          word0 = field_info (desc_at E msg) ! 0;
          (status, it) =
            (if PB_ATYPE (ucast (drop_bit 8 word0)) = PB_ATYPE_POINTER
             then pb_field_iter_begin E msg (ext_dest extension) m
             else pb_field_iter_begin E msg (load_ptr m (ext_dest extension)) m)
      in (status, it\<lparr>pSize := Size_at (ext_found extension)\<rparr>))"

definition pb_field_iter_next :: "pb_env \<Rightarrow> mem \<Rightarrow> pb_field_iter \<Rightarrow> bool \<times> pb_field_iter" where
  "pb_field_iter_next E m it =
     (let it = snd (load_descriptor_values E m (advance_iterator E it)) in (it_index it \<noteq> 0, it))"

section \<open>Searching\<close>

partial_function (option) find_loop ::
  "pb_env \<Rightarrow> mem \<Rightarrow> 32 word \<Rightarrow> pb_size \<Rightarrow> pb_field_iter \<Rightarrow> (bool \<times> pb_field_iter) option"
where
  "find_loop E m tg start it =
     (let it = advance_iterator E it;
          fieldinfo = field_info (desc_at E (descriptor it)) ! unat (field_info_index it);
          candidate = (drop_bit 2 fieldinfo AND 0x3F = tg AND 0x3F);
          it = (if candidate then snd (load_descriptor_values E m it) else it)
      in if candidate \<and> ucast (tag it) = tg \<and> PB_LTYPE (ftype it) \<noteq> PB_LTYPE_EXTENSION
         then Some (True, it)
         else if it_index it \<noteq> start then find_loop E m tg start it
         else Some (False, snd (load_descriptor_values E m it)))"

definition pb_field_iter_find ::
  "pb_env \<Rightarrow> mem \<Rightarrow> 32 word \<Rightarrow> pb_field_iter \<Rightarrow> (bool \<times> pb_field_iter) option" where
  "pb_field_iter_find E m tg it =
     (let d = desc_at E (descriptor it)
      in if ucast (tag it) = tg then Some (True, it)
         else if tg > ucast (largest_tag d) then Some (False, it)
         else
           let start = it_index it;
               it = (if tg < ucast (tag it) then it\<lparr>it_index := field_count d\<rparr> else it)
           in find_loop E m tg start it)"

partial_function (option) find_extension_loop ::
  "pb_env \<Rightarrow> mem \<Rightarrow> pb_size \<Rightarrow> pb_field_iter \<Rightarrow> (bool \<times> pb_field_iter) option"
where
  "find_extension_loop E m start it =
     (let it = advance_iterator E it;
          fieldinfo = field_info (desc_at E (descriptor it)) ! unat (field_info_index it)
      in if PB_LTYPE (ucast (drop_bit 8 fieldinfo AND 0xFF)) = PB_LTYPE_EXTENSION
         then Some (load_descriptor_values E m it)
         else if it_index it \<noteq> start then find_extension_loop E m start it
         else Some (False, snd (load_descriptor_values E m it)))"

definition pb_field_iter_find_extension ::
  "pb_env \<Rightarrow> mem \<Rightarrow> pb_field_iter \<Rightarrow> (bool \<times> pb_field_iter) option" where
  "pb_field_iter_find_extension E m it =
     (if PB_LTYPE (ftype it) = PB_LTYPE_EXTENSION then Some (True, it)
      else find_extension_loop E m (it_index it) it)"

section \<open>The default field callback\<close>

definition default_field_encode ::
  "pb_env \<Rightarrow> pb_ostream \<Rightarrow> pb_field_iter \<Rightarrow> mem \<Rightarrow> bool \<times> pb_ostream \<times> mem" where
  "default_field_encode E s field m =
     (if unat (data_size field) = sizeof_pb_callback \<and> pData field \<noteq> 0 \<and> cb_func m (pData field) \<noteq> 0
      then callback_encode E (cb_func m (pData field)) s field (cb_arg (pData field)) m
      else (True, s, m))"

definition default_field_decode ::
  "pb_env \<Rightarrow> pb_istream \<Rightarrow> pb_field_iter \<Rightarrow> mem \<Rightarrow> bool \<times> pb_istream \<times> mem" where
  "default_field_decode E s field m =
     (if unat (data_size field) = sizeof_pb_callback \<and> pData field \<noteq> 0 \<and> cb_func m (pData field) \<noteq> 0
      then callback_decode E (cb_func m (pData field)) s field (cb_arg (pData field)) m
      else (True, s, m))"

text \<open>\<open>descriptor->field_callback\<close>, called with an output or with an input stream.\<close>

definition call_field_encode ::
  "pb_env \<Rightarrow> field_callback \<Rightarrow> pb_ostream \<Rightarrow> pb_field_iter \<Rightarrow> mem \<Rightarrow> bool \<times> pb_ostream \<times> mem" where
  "call_field_encode E f s field m =
     (case f of
        Default_field_callback \<Rightarrow> default_field_encode E s field m
      | User_field_callback k \<Rightarrow> user_field_encode E k s field m)"

definition call_field_decode ::
  "pb_env \<Rightarrow> field_callback \<Rightarrow> pb_istream \<Rightarrow> pb_field_iter \<Rightarrow> mem \<Rightarrow> bool \<times> pb_istream \<times> mem" where
  "call_field_decode E f s field m =
     (case f of
        Default_field_callback \<Rightarrow> default_field_decode E s field m
      | User_field_callback k \<Rightarrow> user_field_decode E k s field m)"

end
