(* ===== verification/PbEncode.thy ===== *)
theory PbEncode
  imports PbCommon
begin

text \<open>
  The encoder of nanopb (\<open>libs/msg/nanopb/pb_encode.c\<close>). Every function returns its status, the
  stream and the memory. The functions that can reach a submessage, whose encoder calls
  \<open>pb_encode\<close> again, take that encoder as an argument (\<open>sub\<close>); \<open>pb_encode\<close> ties the knot with a
  bound on the depth of nesting. \<^term>\<open>None\<close> stands for a nesting beyond the bound, or a list of
  extensions that does not end.
\<close>

type_synonym enc_result = "bool \<times> pb_ostream \<times> mem"
type_synonym msg_encoder = "pb_ostream \<Rightarrow> addr \<Rightarrow> addr \<Rightarrow> mem \<Rightarrow> enc_result option"

text \<open>\<open>if (!f(stream)) return false;\<close> followed by the rest of the function.\<close>

definition enc_then :: "enc_result \<Rightarrow> (pb_ostream \<Rightarrow> mem \<Rightarrow> enc_result) \<Rightarrow> enc_result" where
  "enc_then r k = (case r of (ok, s, m) \<Rightarrow> if ok then k s m else (False, s, m))"

definition enc_bind ::
  "enc_result option \<Rightarrow> (pb_ostream \<Rightarrow> mem \<Rightarrow> enc_result option) \<Rightarrow> enc_result option" where
  "enc_bind r k = (case r of None \<Rightarrow> None | Some (ok, s, m) \<Rightarrow> if ok then k s m else Some (False, s, m))"

section \<open>Output streams\<close>

definition buf_write :: "pb_ostream \<Rightarrow> pb_byte list \<Rightarrow> size_t \<Rightarrow> mem \<Rightarrow> enc_result" where
  "buf_write s buf count m =
     (let dest = os_state s
      in (True, s\<lparr>os_state := dest + unat count\<rparr>, store_bytes m dest (take (unat count) buf)))"

definition pb_ostream_from_buffer :: "addr \<Rightarrow> size_t \<Rightarrow> pb_ostream" where
  "pb_ostream_from_buffer buf bufsize =
     \<lparr>os_callback = Buffer_callback, os_state = buf, max_size = bufsize, bytes_written = 0,
      os_errmsg = None\<rparr>"

definition call_write :: "pb_env \<Rightarrow> pb_ostream \<Rightarrow> pb_byte list \<Rightarrow> size_t \<Rightarrow> mem \<Rightarrow> enc_result" where
  "call_write E s buf count m =
     (case os_callback s of
        No_callback \<Rightarrow> (True, s, m)
      | Buffer_callback \<Rightarrow> buf_write s buf count m
      | User_callback k \<Rightarrow> user_write E k s (take (unat count) buf) m)"

definition pb_write :: "pb_env \<Rightarrow> pb_ostream \<Rightarrow> pb_byte list \<Rightarrow> size_t \<Rightarrow> mem \<Rightarrow> enc_result" where
  "pb_write E s buf count m =
     (if count > 0 \<and> os_callback s \<noteq> No_callback
      then
        if bytes_written s + count < bytes_written s \<or> bytes_written s + count > max_size s
        then (False, os_error ''stream full'' s, m)
        else
          case call_write E s buf count m of (ok, s, m) \<Rightarrow>
            if ok then (True, s\<lparr>bytes_written := bytes_written s + count\<rparr>, m)
            else (False, os_error ''io error'' s, m)
      else (True, s\<lparr>bytes_written := bytes_written s + count\<rparr>, m))"

section \<open>Primitive encoders\<close>

text \<open>The two loops of \<open>pb_encode_varint_32\<close>: the buffer so far, the pending byte, what is left.\<close>

function varint_low ::
  "pb_byte list \<Rightarrow> pb_byte \<Rightarrow> 32 word \<Rightarrow> 32 word \<Rightarrow> pb_byte list \<times> pb_byte"
where
  "varint_low buffer byte low high =
     (if length buffer < 4 \<and> (low \<noteq> 0 \<or> high \<noteq> 0)
      then varint_low (buffer @ [byte OR 0x80]) (ucast (low AND 0x7F)) (drop_bit 7 low) high
      else (buffer, byte))"
  by pat_completeness auto
termination
  by (relation "measure (\<lambda>(buffer, byte, low, high). 4 - length buffer)") auto

lemma drop_7_less: "(w :: 'a::len word) \<noteq> 0 \<Longrightarrow> unat (drop_bit 7 w) < unat w"
proof -
  assume "w \<noteq> 0"
  then have "0 < unat w" by (simp add: unat_gt_0)
  moreover have "unat (drop_bit 7 w) = drop_bit 7 (unat w)" by (rule unat_drop_bit_eq)
  ultimately show ?thesis by (simp only: drop_bit_eq_div) simp
qed

function varint_high :: "pb_byte list \<Rightarrow> pb_byte \<Rightarrow> 32 word \<Rightarrow> pb_byte list \<times> pb_byte"
where
  "varint_high buffer byte high =
     (if high \<noteq> 0
      then varint_high (buffer @ [byte OR 0x80]) (ucast (high AND 0x7F)) (drop_bit 7 high)
      else (buffer, byte))"
  by pat_completeness auto
termination
  by (relation "measure (\<lambda>(buffer, byte, high). unat high)") (auto simp: drop_7_less)

declare varint_low.simps [simp del] varint_high.simps [simp del]

definition varint_32_bytes :: "32 word \<Rightarrow> 32 word \<Rightarrow> pb_byte list" where
  "varint_32_bytes low high =
     (let (buffer, byte) = varint_low [] (ucast (low AND 0x7F)) (drop_bit 7 low) high;
          (buffer, byte) =
            (if high \<noteq> 0
             then varint_high buffer (byte OR ucast (push_bit 4 (high AND 0x07))) (drop_bit 3 high)
             else (buffer, byte))
      in buffer @ [byte])"

definition pb_encode_varint_32 :: "pb_env \<Rightarrow> pb_ostream \<Rightarrow> 32 word \<Rightarrow> 32 word \<Rightarrow> mem \<Rightarrow> enc_result" where
  "pb_encode_varint_32 E s low high m =
     (let buffer = varint_32_bytes low high in pb_write E s buffer (of_nat (length buffer)) m)"

definition pb_encode_varint :: "pb_env \<Rightarrow> pb_ostream \<Rightarrow> 64 word \<Rightarrow> mem \<Rightarrow> enc_result" where
  "pb_encode_varint E s value m =
     (if value \<le> 0x7F then pb_write E s [ucast value] 1 m
      else pb_encode_varint_32 E s (ucast value) (ucast (drop_bit 32 value)) m)"

definition zigzag :: "64 word \<Rightarrow> 64 word" where
  "zigzag value =
     (if value <s 0 then NOT (push_bit 1 (value AND drop_bit 1 (- 1))) else push_bit 1 value)"

definition pb_encode_svarint :: "pb_env \<Rightarrow> pb_ostream \<Rightarrow> 64 word \<Rightarrow> mem \<Rightarrow> enc_result" where
  "pb_encode_svarint E s value m = pb_encode_varint E s (zigzag value) m"

definition pb_encode_fixed32 :: "pb_env \<Rightarrow> pb_ostream \<Rightarrow> addr \<Rightarrow> mem \<Rightarrow> enc_result" where
  "pb_encode_fixed32 E s value m = pb_write E s (load_bytes m value 4) 4 m"

definition pb_encode_fixed64 :: "pb_env \<Rightarrow> pb_ostream \<Rightarrow> addr \<Rightarrow> mem \<Rightarrow> enc_result" where
  "pb_encode_fixed64 E s value m = pb_write E s (load_bytes m value 8) 8 m"

definition pb_encode_tag :: "pb_env \<Rightarrow> pb_ostream \<Rightarrow> wire_type \<Rightarrow> 32 word \<Rightarrow> mem \<Rightarrow> enc_result" where
  "pb_encode_tag E s wiretype field_number m =
     pb_encode_varint E s (push_bit 3 (ucast field_number) OR ucast wiretype) m"

definition wire_type_of :: "pb_type \<Rightarrow> wire_type option" where
  "wire_type_of ty =
     (let lt = PB_LTYPE ty
      in if lt = PB_LTYPE_BOOL \<or> lt = PB_LTYPE_VARINT \<or> lt = PB_LTYPE_UVARINT \<or> lt = PB_LTYPE_SVARINT
         then Some PB_WT_VARINT
         else if lt = PB_LTYPE_FIXED32 then Some PB_WT_32BIT
         else if lt = PB_LTYPE_FIXED64 then Some PB_WT_64BIT
         else if lt = PB_LTYPE_BYTES \<or> lt = PB_LTYPE_STRING \<or> lt = PB_LTYPE_SUBMESSAGE
                 \<or> lt = PB_LTYPE_SUBMSG_W_CB \<or> lt = PB_LTYPE_FIXED_LENGTH_BYTES
         then Some PB_WT_STRING
         else None)"

definition pb_encode_tag_for_field :: "pb_env \<Rightarrow> pb_ostream \<Rightarrow> pb_field_iter \<Rightarrow> mem \<Rightarrow> enc_result" where
  "pb_encode_tag_for_field E s field m =
     (case wire_type_of (ftype field) of
        None \<Rightarrow> (False, os_error ''invalid field type'' s, m)
      | Some wiretype \<Rightarrow> pb_encode_tag E s wiretype (ucast (tag field)) m)"

definition pb_encode_string :: "pb_env \<Rightarrow> pb_ostream \<Rightarrow> addr \<Rightarrow> size_t \<Rightarrow> mem \<Rightarrow> enc_result" where
  "pb_encode_string E s buffer sz m =
     enc_then (pb_encode_varint E s sz m)
       (\<lambda>s m. pb_write E s (load_bytes m buffer (unat sz)) sz m)"

section \<open>Scalar fields\<close>

definition pb_enc_bool :: "pb_env \<Rightarrow> pb_ostream \<Rightarrow> pb_field_iter \<Rightarrow> mem \<Rightarrow> enc_result" where
  "pb_enc_bool E s field m = pb_encode_varint E s (if m (pData field) \<noteq> 0 then 1 else 0) m"

text \<open>Reading an integer of 1, 2, 4 or 8 bytes and extending it to 64 bits.\<close>

definition load_uint :: "mem \<Rightarrow> addr \<Rightarrow> pb_size \<Rightarrow> 64 word option" where
  "load_uint m p sz =
     (if sz = 1 then Some (ucast (m p))
      else if sz = 2 then Some (ucast (load_u16 m p))
      else if sz = 4 then Some (ucast (load_u32 m p))
      else if sz = 8 then Some (load_u64 m p)
      else None)"

definition load_sint :: "mem \<Rightarrow> addr \<Rightarrow> pb_size \<Rightarrow> 64 word option" where
  "load_sint m p sz =
     (if sz = 1 then Some (scast (m p))
      else if sz = 2 then Some (scast (load_u16 m p))
      else if sz = 4 then Some (scast (load_u32 m p))
      else if sz = 8 then Some (load_u64 m p)
      else None)"

definition pb_enc_varint :: "pb_env \<Rightarrow> pb_ostream \<Rightarrow> pb_field_iter \<Rightarrow> mem \<Rightarrow> enc_result" where
  "pb_enc_varint E s field m =
     (if PB_LTYPE (ftype field) = PB_LTYPE_UVARINT
      then (case load_uint m (pData field) (data_size field) of
              None \<Rightarrow> (False, os_error ''invalid data_size'' s, m)
            | Some value \<Rightarrow> pb_encode_varint E s value m)
      else (case load_sint m (pData field) (data_size field) of
              None \<Rightarrow> (False, os_error ''invalid data_size'' s, m)
            | Some value \<Rightarrow>
                if PB_LTYPE (ftype field) = PB_LTYPE_SVARINT then pb_encode_svarint E s value m
                else pb_encode_varint E s value m))"

definition pb_enc_fixed :: "pb_env \<Rightarrow> pb_ostream \<Rightarrow> pb_field_iter \<Rightarrow> mem \<Rightarrow> enc_result" where
  "pb_enc_fixed E s field m =
     (if data_size field = 4 then pb_encode_fixed32 E s (pData field) m
      else if data_size field = 8 then pb_encode_fixed64 E s (pData field) m
      else (False, os_error ''invalid data_size'' s, m))"

text \<open>\<open>pb_bytes_array_t\<close>: a 16-bit size, then the bytes.\<close>

definition pb_enc_bytes :: "pb_env \<Rightarrow> pb_ostream \<Rightarrow> pb_field_iter \<Rightarrow> mem \<Rightarrow> enc_result" where
  "pb_enc_bytes E s field m =
     (let bytes = pData field
      in if bytes = 0 then pb_encode_string E s 0 0 m
         else if PB_ATYPE (ftype field) = PB_ATYPE_STATIC
                 \<and> (ucast (load_u16 m bytes) :: size_t) > ucast (data_size field) - 2
         then (False, os_error ''bytes size exceeded'' s, m)
         else pb_encode_string E s (bytes + 2) (ucast (load_u16 m bytes)) m)"

fun string_length :: "mem \<Rightarrow> addr \<Rightarrow> nat \<Rightarrow> nat" where
  "string_length m p 0 = 0"
| "string_length m p (Suc n) = (if m p \<noteq> 0 then Suc (string_length m (p + 1) n) else 0)"

definition pb_enc_string :: "pb_env \<Rightarrow> pb_ostream \<Rightarrow> pb_field_iter \<Rightarrow> mem \<Rightarrow> enc_result" where
  "pb_enc_string E s field m =
     (let pointer = (PB_ATYPE (ftype field) = PB_ATYPE_POINTER);
          max_sz = (if pointer then - 1 else ucast (data_size field) :: size_t);
          str = pData field
      in if \<not> pointer \<and> max_sz = 0 then (False, os_error ''zero-length string'' s, m)
         else
           let max_sz = (if pointer then max_sz else max_sz - 1)
           in if str = 0 then pb_encode_string E s str 0 m
              else
                let sz = string_length m str (unat max_sz)
                in if m (str + sz) \<noteq> 0 then (False, os_error ''unterminated string'' s, m)
                   else pb_encode_string E s str (of_nat sz) m)"

definition pb_enc_fixed_length_bytes :: "pb_env \<Rightarrow> pb_ostream \<Rightarrow> pb_field_iter \<Rightarrow> mem \<Rightarrow> enc_result" where
  "pb_enc_fixed_length_bytes E s field m = pb_encode_string E s (pData field) (ucast (data_size field)) m"

section \<open>Submessages\<close>

definition pb_encode_submessage ::
  "msg_encoder \<Rightarrow> pb_env \<Rightarrow> pb_ostream \<Rightarrow> addr \<Rightarrow> addr \<Rightarrow> mem \<Rightarrow> enc_result option" where
  "pb_encode_submessage sub E s desc src m =
     (case sub PB_OSTREAM_SIZING desc src m of
        None \<Rightarrow> None
      | Some (ok, ss, m) \<Rightarrow>
          if \<not> ok then Some (False, s\<lparr>os_errmsg := os_errmsg ss\<rparr>, m)
          else
            let sz = bytes_written ss
            in enc_bind (Some (pb_encode_varint E s sz m)) (\<lambda>s m.
                 if os_callback s = No_callback then Some (pb_write E s [] sz m)
                 else if bytes_written s + sz > max_size s
                 then Some (False, os_error ''stream full'' s, m)
                 else
                   (case sub (s\<lparr>max_size := sz, bytes_written := 0, os_errmsg := None\<rparr>) desc src m of
                      None \<Rightarrow> None
                    | Some (status, ss, m) \<Rightarrow>
                        let s = s\<lparr>bytes_written := bytes_written s + bytes_written ss,
                                  os_state := os_state ss, os_errmsg := os_errmsg ss\<rparr>
                        in if bytes_written ss \<noteq> sz
                           then Some (False, os_error ''submsg size changed'' s, m)
                           else Some (status, s, m))))"

text \<open>The callback of a message is stored right before the presence flag.\<close>

definition msg_callback :: "pb_field_iter \<Rightarrow> addr option" where
  "msg_callback field =
     (if PB_LTYPE (ftype field) = PB_LTYPE_SUBMSG_W_CB
      then (case pSize field of Size_at a \<Rightarrow> Some (a - sizeof_pb_callback) | _ \<Rightarrow> None)
      else None)"

definition pb_enc_submessage ::
  "msg_encoder \<Rightarrow> pb_env \<Rightarrow> pb_ostream \<Rightarrow> pb_field_iter \<Rightarrow> mem \<Rightarrow> enc_result option" where
  "pb_enc_submessage sub E s field m =
     (if submsg_desc field = 0 then Some (False, os_error ''invalid field descriptor'' s, m)
      else
        enc_bind
          (case msg_callback field of
             Some cb \<Rightarrow>
               if cb_func m cb \<noteq> 0 then Some (callback_encode E (cb_func m cb) s field (cb_arg cb) m)
               else Some (True, s, m)
           | None \<Rightarrow> Some (True, s, m))
          (\<lambda>s m. pb_encode_submessage sub E s (submsg_desc field) (pData field) m))"

section \<open>Fields\<close>

definition encode_basic_field ::
  "msg_encoder \<Rightarrow> pb_env \<Rightarrow> pb_ostream \<Rightarrow> pb_field_iter \<Rightarrow> mem \<Rightarrow> enc_result option" where
  "encode_basic_field sub E s field m =
     (if pData field = 0 then Some (True, s, m)
      else enc_bind (Some (pb_encode_tag_for_field E s field m)) (\<lambda>s m.
        let lt = PB_LTYPE (ftype field)
        in if lt = PB_LTYPE_BOOL then Some (pb_enc_bool E s field m)
           else if lt = PB_LTYPE_VARINT \<or> lt = PB_LTYPE_UVARINT \<or> lt = PB_LTYPE_SVARINT
           then Some (pb_enc_varint E s field m)
           else if lt = PB_LTYPE_FIXED32 \<or> lt = PB_LTYPE_FIXED64 then Some (pb_enc_fixed E s field m)
           else if lt = PB_LTYPE_BYTES then Some (pb_enc_bytes E s field m)
           else if lt = PB_LTYPE_STRING then Some (pb_enc_string E s field m)
           else if lt = PB_LTYPE_SUBMESSAGE \<or> lt = PB_LTYPE_SUBMSG_W_CB
           then pb_enc_submessage sub E s field m
           else if lt = PB_LTYPE_FIXED_LENGTH_BYTES then Some (pb_enc_fixed_length_bytes E s field m)
           else Some (False, os_error ''invalid field type'' s, m)))"

definition next_item :: "pb_field_iter \<Rightarrow> pb_field_iter" where
  "next_item field = field\<lparr>pData := pData field + unat (data_size field)\<rparr>"

fun size_items :: "nat \<Rightarrow> pb_env \<Rightarrow> pb_ostream \<Rightarrow> pb_field_iter \<Rightarrow> mem \<Rightarrow> enc_result" where
  "size_items 0 E s field m = (True, s, m)"
| "size_items (Suc n) E s field m =
     enc_then (pb_enc_varint E s field m) (\<lambda>s m. size_items n E s (next_item field) m)"

fun packed_items :: "nat \<Rightarrow> pb_env \<Rightarrow> pb_ostream \<Rightarrow> pb_field_iter \<Rightarrow> mem \<Rightarrow> enc_result" where
  "packed_items 0 E s field m = (True, s, m)"
| "packed_items (Suc n) E s field m =
     enc_then
       (if PB_LTYPE (ftype field) = PB_LTYPE_FIXED32 \<or> PB_LTYPE (ftype field) = PB_LTYPE_FIXED64
        then pb_enc_fixed E s field m else pb_enc_varint E s field m)
       (\<lambda>s m. packed_items n E s (next_item field) m)"

fun unpacked_items ::
  "nat \<Rightarrow> msg_encoder \<Rightarrow> pb_env \<Rightarrow> pb_ostream \<Rightarrow> pb_field_iter \<Rightarrow> mem \<Rightarrow> enc_result option" where
  "unpacked_items 0 sub E s field m = Some (True, s, m)"
| "unpacked_items (Suc n) sub E s field m =
     enc_bind
       (if PB_ATYPE (ftype field) = PB_ATYPE_POINTER
           \<and> (PB_LTYPE (ftype field) = PB_LTYPE_STRING \<or> PB_LTYPE (ftype field) = PB_LTYPE_BYTES)
        then
          let item = field\<lparr>pData := load_ptr m (pData field)\<rparr>
          in if pData item = 0
             then Some (enc_then (pb_encode_tag_for_field E s item m) (\<lambda>s m. pb_encode_varint E s 0 m))
             else encode_basic_field sub E s item m
        else encode_basic_field sub E s field m)
       (\<lambda>s m. unpacked_items n sub E s (next_item field) m)"

text \<open>The size of a packed array; the sizing stream leaves the memory alone.\<close>

definition packed_size :: "pb_env \<Rightarrow> pb_size \<Rightarrow> pb_field_iter \<Rightarrow> mem \<Rightarrow> bool \<times> size_t \<times> string option" where
  "packed_size E count field m =
     (if PB_LTYPE (ftype field) = PB_LTYPE_FIXED32 then (True, 4 * ucast count, None)
      else if PB_LTYPE (ftype field) = PB_LTYPE_FIXED64 then (True, 8 * ucast count, None)
      else case size_items (unat count) E PB_OSTREAM_SIZING field m of
             (ok, s, _) \<Rightarrow> (ok, bytes_written s, os_errmsg s))"

definition encode_array ::
  "msg_encoder \<Rightarrow> pb_env \<Rightarrow> pb_ostream \<Rightarrow> pb_field_iter \<Rightarrow> mem \<Rightarrow> enc_result option" where
  "encode_array sub E s field m =
     (let count = read_psize m field
      in if count = 0 then Some (True, s, m)
         else if PB_ATYPE (ftype field) \<noteq> PB_ATYPE_POINTER \<and> count > array_size field
         then Some (False, os_error ''array max size exceeded'' s, m)
         else if PB_LTYPE (ftype field) \<le> PB_LTYPE_LAST_PACKABLE
         then Some (enc_then (pb_encode_tag E s PB_WT_STRING (ucast (tag field)) m) (\<lambda>s m.
                case packed_size E count field m of (ok, sz, err) \<Rightarrow>
                  if \<not> ok
                  then (False, os_error (case err of None \<Rightarrow> ''(none)'' | Some e \<Rightarrow> e) s, m)
                  else
                    enc_then (pb_encode_varint E s sz m) (\<lambda>s m.
                      if os_callback s = No_callback then pb_write E s [] sz m
                      else packed_items (unat count) E s field m)))
         else unpacked_items (unat count) sub E s field m)"

section \<open>Default values of proto3\<close>

type_synonym default_check = "pb_field_iter \<Rightarrow> mem \<Rightarrow> bool option"

partial_function (option) all_fields_default ::
  "default_check \<Rightarrow> pb_env \<Rightarrow> pb_field_iter \<Rightarrow> mem \<Rightarrow> bool option"
where
  "all_fields_default chk E it m =
     (case chk it m of
        None \<Rightarrow> None
      | Some is_default \<Rightarrow>
          if is_default
          then (case pb_field_iter_next E m it of
                  (again, it) \<Rightarrow> if again then all_fields_default chk E it m else Some True)
          else Some False)"

definition check_static_default :: "default_check \<Rightarrow> pb_env \<Rightarrow> pb_field_iter \<Rightarrow> mem \<Rightarrow> bool option" where
  "check_static_default chk E field m =
     (let ty = ftype field
      in if PB_LTYPE ty \<le> PB_LTYPE_LAST_PACKABLE
         then Some (zero_at m (pData field) (unat (data_size field)))
         else if PB_LTYPE ty = PB_LTYPE_BYTES then Some (load_u16 m (pData field) = 0)
         else if PB_LTYPE ty = PB_LTYPE_STRING then Some (m (pData field) = 0)
         else if PB_LTYPE ty = PB_LTYPE_FIXED_LENGTH_BYTES then Some (data_size field = 0)
         else if PB_LTYPE_IS_SUBMSG ty
         then (case pb_field_iter_begin E (submsg_desc field) (pData field) m of
                 (ok, it) \<Rightarrow> if ok then all_fields_default chk E it m else Some True)
         else Some False)"

definition check_default :: "default_check \<Rightarrow> pb_env \<Rightarrow> default_check" where
  "check_default chk E field m =
     (let ty = ftype field; d = desc_at E (descriptor field)
      in if PB_ATYPE ty = PB_ATYPE_STATIC
         then
           if PB_HTYPE ty = PB_HTYPE_REQUIRED then Some False
           else if PB_HTYPE ty = PB_HTYPE_REPEATED then Some (read_psize m field = 0)
           else if PB_HTYPE ty = PB_HTYPE_ONEOF then Some (read_psize m field = 0)
           else if PB_HTYPE ty = PB_HTYPE_OPTIONAL \<and> pSize field \<noteq> Size_null
           then Some (\<not> read_pbool m field)
           else if default_value d \<noteq> 0 then Some False
           else check_static_default chk E field m
         else if PB_ATYPE ty = PB_ATYPE_POINTER then Some (pData field = 0)
         else if PB_ATYPE ty = PB_ATYPE_CALLBACK
         then
           if PB_LTYPE ty = PB_LTYPE_EXTENSION then Some (load_ptr m (pData field) = 0)
           else if field_callback d = Some Default_field_callback then Some (cb_func m (pData field) = 0)
           else Some (field_callback d = None)
         else Some False)"

primrec pb_check_proto3_default_value :: "nat \<Rightarrow> pb_env \<Rightarrow> default_check" where
  "pb_check_proto3_default_value 0 E = (\<lambda>field m. None)"
| "pb_check_proto3_default_value (Suc n) E = check_default (pb_check_proto3_default_value n E) E"

section \<open>Messages\<close>

definition encode_callback_field :: "pb_env \<Rightarrow> pb_ostream \<Rightarrow> pb_field_iter \<Rightarrow> mem \<Rightarrow> enc_result" where
  "encode_callback_field E s field m =
     (case field_callback (desc_at E (descriptor field)) of
        None \<Rightarrow> (True, s, m)
      | Some f \<Rightarrow>
          (case call_field_encode E f s field m of
             (ok, s, m) \<Rightarrow> if ok then (True, s, m) else (False, os_error ''callback error'' s, m)))"

text \<open>The fields that \<open>encode_field\<close> leaves out: other members of a oneof, absent optional fields.\<close>

definition field_absent :: "default_check \<Rightarrow> pb_env \<Rightarrow> pb_field_iter \<Rightarrow> mem \<Rightarrow> bool option" where
  "field_absent chk E field m =
     (if PB_HTYPE (ftype field) = PB_HTYPE_ONEOF then Some (read_psize m field \<noteq> tag field)
      else if PB_HTYPE (ftype field) = PB_HTYPE_OPTIONAL
      then
        if pSize field \<noteq> Size_null then Some (\<not> read_pbool m field)
        else if PB_ATYPE (ftype field) = PB_ATYPE_STATIC then chk field m
        else Some False
      else Some False)"

definition encode_field ::
  "default_check \<Rightarrow> msg_encoder \<Rightarrow> pb_env \<Rightarrow> pb_ostream \<Rightarrow> pb_field_iter \<Rightarrow> mem \<Rightarrow> enc_result option" where
  "encode_field chk sub E s field m =
     (case field_absent chk E field m of
        None \<Rightarrow> None
      | Some True \<Rightarrow> Some (True, s, m)
      | Some False \<Rightarrow>
          if pData field = 0
          then
            if PB_HTYPE (ftype field) = PB_HTYPE_REQUIRED
            then Some (False, os_error ''missing required field'' s, m)
            else Some (True, s, m)
          else if PB_ATYPE (ftype field) = PB_ATYPE_CALLBACK then Some (encode_callback_field E s field m)
          else if PB_HTYPE (ftype field) = PB_HTYPE_REPEATED then encode_array sub E s field m
          else encode_basic_field sub E s field m)"

definition default_extension_encoder ::
  "default_check \<Rightarrow> msg_encoder \<Rightarrow> pb_env \<Rightarrow> pb_ostream \<Rightarrow> addr \<Rightarrow> mem \<Rightarrow> enc_result option" where
  "default_extension_encoder chk sub E s extension m =
     (case pb_field_iter_begin_extension E extension m of
        (ok, it) \<Rightarrow>
          if ok then encode_field chk sub E s it m
          else Some (False, os_error ''invalid extension'' s, m))"

partial_function (option) extension_loop ::
  "default_check \<Rightarrow> msg_encoder \<Rightarrow> pb_env \<Rightarrow> pb_ostream \<Rightarrow> addr \<Rightarrow> mem \<Rightarrow> enc_result option"
where
  "extension_loop chk sub E s extension m =
     (if extension = 0 then Some (True, s, m)
      else
        let enc = ext_type_encode m (ext_type m extension)
        in case (if enc \<noteq> 0 then Some (extension_encode E enc s extension m)
                 else default_extension_encoder chk sub E s extension m) of
             None \<Rightarrow> None
           | Some (ok, s, m) \<Rightarrow>
               if ok then extension_loop chk sub E s (ext_next m extension) m else Some (False, s, m))"

definition encode_extension_field ::
  "default_check \<Rightarrow> msg_encoder \<Rightarrow> pb_env \<Rightarrow> pb_ostream \<Rightarrow> pb_field_iter \<Rightarrow> mem \<Rightarrow> enc_result option" where
  "encode_extension_field chk sub E s field m = extension_loop chk sub E s (load_ptr m (pData field)) m"

partial_function (option) encode_fields ::
  "default_check \<Rightarrow> msg_encoder \<Rightarrow> pb_env \<Rightarrow> pb_ostream \<Rightarrow> pb_field_iter \<Rightarrow> mem \<Rightarrow> enc_result option"
where
  "encode_fields chk sub E s it m =
     (case (if PB_LTYPE (ftype it) = PB_LTYPE_EXTENSION then encode_extension_field chk sub E s it m
            else encode_field chk sub E s it m) of
        None \<Rightarrow> None
      | Some (ok, s, m) \<Rightarrow>
          if ok
          then (case pb_field_iter_next E m it of
                  (again, it) \<Rightarrow> if again then encode_fields chk sub E s it m else Some (True, s, m))
          else Some (False, s, m))"

definition encode_message :: "default_check \<Rightarrow> msg_encoder \<Rightarrow> pb_env \<Rightarrow> msg_encoder" where
  "encode_message chk sub E s desc src m =
     (case pb_field_iter_begin E desc src m of
        (ok, it) \<Rightarrow> if ok then encode_fields chk sub E s it m else Some (True, s, m))"

primrec pb_encode :: "nat \<Rightarrow> pb_env \<Rightarrow> msg_encoder" where
  "pb_encode 0 E = (\<lambda>s desc src m. None)"
| "pb_encode (Suc n) E = encode_message (pb_check_proto3_default_value (Suc n) E) (pb_encode n E) E"

definition pb_encode_ex ::
  "nat \<Rightarrow> pb_env \<Rightarrow> pb_ostream \<Rightarrow> addr \<Rightarrow> addr \<Rightarrow> 32 word \<Rightarrow> mem \<Rightarrow> enc_result option" where
  "pb_encode_ex n E s desc src flags m =
     (if flags AND 0x02 \<noteq> 0 then pb_encode_submessage (pb_encode n E) E s desc src m
      else if flags AND 0x04 \<noteq> 0
      then enc_bind (pb_encode n E s desc src m) (\<lambda>s m. Some (pb_write E s [0] 1 m))
      else pb_encode n E s desc src m)"

definition pb_get_encoded_size :: "nat \<Rightarrow> pb_env \<Rightarrow> addr \<Rightarrow> addr \<Rightarrow> mem \<Rightarrow> size_t option option" where
  "pb_get_encoded_size n E desc src m =
     (case pb_encode n E PB_OSTREAM_SIZING desc src m of
        None \<Rightarrow> None
      | Some (ok, s, _) \<Rightarrow> if ok then Some (Some (bytes_written s)) else Some None)"

end
