(* ===== verification/PbDecode.thy ===== *)
theory PbDecode
  imports PbCommon
begin

text \<open>
  The decoder of nanopb (\<open>libs/msg/nanopb/pb_decode.c\<close>). As in the encoder, the functions that can
  reach a submessage take the decoder and the initialiser of messages as arguments (\<open>sub\<close> and
  \<open>defs\<close>), and a bound on the depth of nesting ties the knot. \<^term>\<open>None\<close> stands for a nesting
  beyond the bound or a loop that does not end (a user stream that never runs dry, a cyclic list
  of extensions). What a function reads from a stream into a local variable is part of its result.
\<close>

section \<open>Input streams\<close>

type_synonym dec_result = "bool \<times> pb_istream \<times> mem"

definition buf_read :: "pb_istream \<Rightarrow> size_t \<Rightarrow> mem \<Rightarrow> bool \<times> pb_istream \<times> pb_byte list" where
  "buf_read s count m =
     (let source = is_state s
      in (True, s\<lparr>is_state := source + unat count\<rparr>, load_bytes m source (unat count)))"

text \<open>A stream without callback is only \<open>PB_ISTREAM_EMPTY\<close>, which has no bytes left to read.\<close>

definition call_read :: "pb_env \<Rightarrow> pb_istream \<Rightarrow> size_t \<Rightarrow> mem \<Rightarrow> bool \<times> pb_istream \<times> pb_byte list" where
  "call_read E s count m =
     (case is_callback s of
        No_callback \<Rightarrow> (False, s, [])
      | Buffer_callback \<Rightarrow> buf_read s count m
      | User_callback k \<Rightarrow> user_read E k s count m)"

definition read_some :: "pb_env \<Rightarrow> pb_istream \<Rightarrow> size_t \<Rightarrow> mem \<Rightarrow> bool \<times> pb_istream \<times> pb_byte list" where
  "read_some E s count m =
     (if bytes_left s < count then (False, is_error ''end-of-stream'' s, [])
      else
        case call_read E s count m of (ok, s, bs) \<Rightarrow>
          if \<not> ok then (False, is_error ''io error'' s, bs)
          else (True, s\<lparr>bytes_left := (if bytes_left s < count then 0 else bytes_left s - count)\<rparr>, bs))"

definition pb_read_bytes :: "pb_env \<Rightarrow> pb_istream \<Rightarrow> size_t \<Rightarrow> mem \<Rightarrow> bool \<times> pb_istream \<times> pb_byte list" where
  "pb_read_bytes E s count m = (if count = 0 then (True, s, []) else read_some E s count m)"

text \<open>\<open>pb_read\<close> into memory, and with a \<open>NULL\<close> buffer.\<close>

definition pb_read :: "pb_env \<Rightarrow> pb_istream \<Rightarrow> addr \<Rightarrow> size_t \<Rightarrow> mem \<Rightarrow> dec_result" where
  "pb_read E s buf count m =
     (case pb_read_bytes E s count m of (ok, s, bs) \<Rightarrow> (ok, s, store_bytes m buf bs))"

function skip_blocks :: "pb_env \<Rightarrow> pb_istream \<Rightarrow> size_t \<Rightarrow> mem \<Rightarrow> bool \<times> pb_istream"
where
  "skip_blocks E s count m =
     (if count > 16
      then (case pb_read_bytes E s 16 m of
              (ok, s, _) \<Rightarrow> if ok then skip_blocks E s (count - 16) m else (False, s))
      else (case pb_read_bytes E s count m of (ok, s, _) \<Rightarrow> (ok, s)))"
  by pat_completeness auto
termination
proof (relation "measure (\<lambda>(E, s, count, m). unat count)")
  fix count :: size_t
  assume "16 < count"
  then have "unat (count - 16) = unat count - unat (16 :: size_t)" by (intro unat_sub) simp
  moreover have "0 < unat count" using \<open>16 < count\<close> by (simp add: unat_gt_0) auto
  ultimately show "((E, x, count - 16, m), (E, s, count, m)) \<in> measure (\<lambda>(E, s, count, m). unat count)"
    for E s x m by simp
qed simp

declare skip_blocks.simps [simp del]

definition pb_skip :: "pb_env \<Rightarrow> pb_istream \<Rightarrow> size_t \<Rightarrow> mem \<Rightarrow> bool \<times> pb_istream" where
  "pb_skip E s count m =
     (if count = 0 then (True, s)
      else if is_callback s \<noteq> Buffer_callback then skip_blocks E s count m
      else (case read_some E s count m of (ok, s, _) \<Rightarrow> (ok, s)))"

definition first_byte :: "pb_byte list \<Rightarrow> pb_byte" where
  "first_byte bs = (case bs of [] \<Rightarrow> 0 | b # _ \<Rightarrow> b)"

definition pb_readbyte :: "pb_env \<Rightarrow> pb_istream \<Rightarrow> mem \<Rightarrow> bool \<times> pb_istream \<times> pb_byte" where
  "pb_readbyte E s m =
     (if bytes_left s = 0 then (False, is_error ''end-of-stream'' s, 0)
      else
        case call_read E s 1 m of (ok, s, bs) \<Rightarrow>
          if \<not> ok then (False, is_error ''io error'' s, first_byte bs)
          else (True, s\<lparr>bytes_left := bytes_left s - 1\<rparr>, first_byte bs))"

definition pb_istream_from_buffer :: "addr \<Rightarrow> size_t \<Rightarrow> pb_istream" where
  "pb_istream_from_buffer buf msglen =
     \<lparr>is_callback = Buffer_callback, is_state = buf, bytes_left = msglen, is_errmsg = None\<rparr>"

section \<open>Varints\<close>

text \<open>
  The loops of the two varint decoders. \<open>bitpos\<close> is a \<open>uint_fast8_t\<close>: it never exceeds 70, so it
  does not wrap.
\<close>

function varint32_loop :: "pb_env \<Rightarrow> pb_istream \<Rightarrow> 32 word \<Rightarrow> nat \<Rightarrow> mem \<Rightarrow> bool \<times> pb_istream \<times> 32 word"
where
  "varint32_loop E s result bitpos m =
     (case pb_readbyte E s m of (ok, s, byte) \<Rightarrow>
        if \<not> ok then (False, s, result)
        else
          let sign_extension = (if bitpos < 63 then 0xFF else 0x01);
              valid_extension =
                (byte AND 0x7F = 0 \<or> drop_bit 31 result \<noteq> 0 \<and> byte = sign_extension)
          in if bitpos \<ge> 32 \<and> (bitpos \<ge> 64 \<or> \<not> valid_extension)
             then (False, is_error ''varint overflow'' s, result)
             else if bitpos = 28 \<and> byte AND 0x70 \<noteq> 0 \<and> byte AND 0x78 \<noteq> 0x78
             then (False, is_error ''varint overflow'' s, result)
             else
               let result =
                     (if bitpos \<ge> 32 then result
                      else if bitpos = 28 then result OR push_bit bitpos (ucast (byte AND 0x0F))
                      else result OR push_bit bitpos (ucast (byte AND 0x7F)))
               in if byte AND 0x80 \<noteq> 0 then varint32_loop E s result (bitpos + 7) m
                  else (True, s, result))"
  by pat_completeness auto
termination
  by (relation "measure (\<lambda>(E, s, result, bitpos, m). 64 - bitpos)") (auto split: if_splits)

declare varint32_loop.simps [simp del]

definition pb_decode_varint32 :: "pb_env \<Rightarrow> pb_istream \<Rightarrow> mem \<Rightarrow> bool \<times> pb_istream \<times> 32 word" where
  "pb_decode_varint32 E s m =
     (case pb_readbyte E s m of (ok, s, byte) \<Rightarrow>
        if \<not> ok then (False, s, 0)
        else if byte AND 0x80 = 0 then (True, s, ucast byte)
        else varint32_loop E s (ucast (byte AND 0x7F)) 7 m)"

lemma continuation_bit: "(b :: 8 word) AND 0xFE = 0 \<Longrightarrow> b AND 0x80 = 0"
proof -
  assume "b AND 0xFE = 0"
  have "b AND 0x80 = (b AND 0xFE) AND 0x80" by (simp add: and.assoc)
  also have "\<dots> = 0" using \<open>b AND 0xFE = 0\<close> by simp
  finally show ?thesis .
qed

function varint_loop :: "pb_env \<Rightarrow> pb_istream \<Rightarrow> 64 word \<Rightarrow> nat \<Rightarrow> mem \<Rightarrow> bool \<times> pb_istream \<times> 64 word"
where
  "varint_loop E s result bitpos m =
     (case pb_readbyte E s m of (ok, s, byte) \<Rightarrow>
        if \<not> ok then (False, s, result)
        else if bitpos \<ge> 63 \<and> byte AND 0xFE \<noteq> 0
        then (False, is_error ''varint overflow'' s, result)
        else
          let result = result OR push_bit bitpos (ucast (byte AND 0x7F))
          in if byte AND 0x80 \<noteq> 0 then varint_loop E s result (bitpos + 7) m else (True, s, result))"
  by pat_completeness auto
termination
  by (relation "measure (\<lambda>(E, s, result, bitpos, m). 63 - bitpos)")
    (auto dest: continuation_bit)

declare varint_loop.simps [simp del]

definition pb_decode_varint :: "pb_env \<Rightarrow> pb_istream \<Rightarrow> mem \<Rightarrow> bool \<times> pb_istream \<times> 64 word" where
  "pb_decode_varint E s m = varint_loop E s 0 0 m"

partial_function (option) pb_skip_varint :: "pb_env \<Rightarrow> pb_istream \<Rightarrow> mem \<Rightarrow> (bool \<times> pb_istream) option"
where
  "pb_skip_varint E s m =
     (case pb_read_bytes E s 1 m of (ok, s, bs) \<Rightarrow>
        if \<not> ok then Some (False, s)
        else if first_byte bs AND 0x80 \<noteq> 0 then pb_skip_varint E s m
        else Some (True, s))"

definition pb_skip_string :: "pb_env \<Rightarrow> pb_istream \<Rightarrow> mem \<Rightarrow> bool \<times> pb_istream" where
  "pb_skip_string E s m =
     (case pb_decode_varint32 E s m of (ok, s, len) \<Rightarrow>
        if \<not> ok then (False, s) else pb_skip E s (ucast len) m)"

text \<open>Status, stream, wire type, tag and the flag for the end of the stream.\<close>

definition pb_decode_tag ::
  "pb_env \<Rightarrow> pb_istream \<Rightarrow> mem \<Rightarrow> bool \<times> pb_istream \<times> wire_type \<times> 32 word \<times> bool" where
  "pb_decode_tag E s m =
     (if bytes_left s = 0 then (False, s, 0, 0, True)
      else
        case pb_decode_varint32 E s m of (ok, s, temp) \<Rightarrow>
          if \<not> ok
          then
            if is_callback s \<noteq> Buffer_callback \<and> bytes_left s = 0
            then (False, (if is_errmsg s = Some ''io error'' then s\<lparr>is_errmsg := None\<rparr> else s), 0, 0, True)
            else (False, s, 0, 0, False)
          else (True, s, temp AND 7, drop_bit 3 temp, False))"

definition pb_skip_field :: "pb_env \<Rightarrow> pb_istream \<Rightarrow> wire_type \<Rightarrow> mem \<Rightarrow> (bool \<times> pb_istream) option" where
  "pb_skip_field E s wt m =
     (if wt = PB_WT_VARINT then pb_skip_varint E s m
      else if wt = PB_WT_64BIT then Some (pb_skip E s 8 m)
      else if wt = PB_WT_STRING then Some (pb_skip_string E s m)
      else if wt = PB_WT_32BIT then Some (pb_skip E s 4 m)
      else Some (False, is_error ''invalid wire_type'' s))"

text \<open>\<open>read_raw_value\<close> with the buffer of ten bytes its caller has; \<open>bs\<close> is what was read so far.\<close>

function raw_varint :: "pb_env \<Rightarrow> pb_istream \<Rightarrow> pb_byte list \<Rightarrow> mem \<Rightarrow> bool \<times> pb_istream \<times> pb_byte list"
where
  "raw_varint E s bs m =
     (if length bs + 1 > 10 then (False, is_error ''varint overflow'' s, bs)
      else
        case pb_read_bytes E s 1 m of (ok, s, b) \<Rightarrow>
          if \<not> ok then (False, s, bs)
          else if first_byte b AND 0x80 \<noteq> 0 then raw_varint E s (bs @ [first_byte b]) m
          else (True, s, bs @ [first_byte b]))"
  by pat_completeness auto
termination
  by (relation "measure (\<lambda>(E, s, bs, m). 10 - length bs)") auto

declare raw_varint.simps [simp del]

definition read_raw_value ::
  "pb_env \<Rightarrow> pb_istream \<Rightarrow> wire_type \<Rightarrow> mem \<Rightarrow> bool \<times> pb_istream \<times> pb_byte list" where
  "read_raw_value E s wt m =
     (if wt = PB_WT_VARINT then raw_varint E s [] m
      else if wt = PB_WT_64BIT then pb_read_bytes E s 8 m
      else if wt = PB_WT_32BIT then pb_read_bytes E s 4 m
      else (False, is_error ''invalid wire_type'' s, []))"

section \<open>Substreams\<close>

definition pb_make_string_substream ::
  "pb_env \<Rightarrow> pb_istream \<Rightarrow> mem \<Rightarrow> bool \<times> pb_istream \<times> pb_istream" where
  "pb_make_string_substream E s m =
     (case pb_decode_varint32 E s m of (ok, s, sz) \<Rightarrow>
        if \<not> ok then (False, s, s)
        else if bytes_left s < ucast sz then (False, is_error ''parent stream too short'' s, s)
        else (True, s\<lparr>bytes_left := bytes_left s - ucast sz\<rparr>, s\<lparr>bytes_left := ucast sz\<rparr>))"

definition pb_close_string_substream ::
  "pb_env \<Rightarrow> pb_istream \<Rightarrow> pb_istream \<Rightarrow> mem \<Rightarrow> bool \<times> pb_istream" where
  "pb_close_string_substream E s substream m =
     (case (if bytes_left substream \<noteq> 0 then pb_skip E substream (bytes_left substream) m
            else (True, substream)) of
        (ok, substream) \<Rightarrow>
          if ok then (True, s\<lparr>is_state := is_state substream, is_errmsg := is_errmsg substream\<rparr>)
          else (False, s))"

end
