(* ===== verification/PbDecodeMessage.thy ===== *)
theory PbDecodeMessage
  imports PbDecode
begin

text \<open>
  The second half of \<open>libs/msg/nanopb/pb_decode.c\<close>: field decoders, default values and messages.
  The functions that change the iterator return it.
\<close>

type_synonym field_result = "bool \<times> pb_istream \<times> pb_field_iter \<times> mem"
type_synonym msg_decoder = "pb_istream \<Rightarrow> addr \<Rightarrow> addr \<Rightarrow> 32 word \<Rightarrow> mem \<Rightarrow> dec_result option"
type_synonym msg_defaults = "pb_field_iter \<Rightarrow> mem \<Rightarrow> (bool \<times> pb_field_iter \<times> mem) option"

definition PB_DECODE_NOINIT :: "32 word" where "PB_DECODE_NOINIT = 0x01"
definition PB_DECODE_DELIMITED :: "32 word" where "PB_DECODE_DELIMITED = 0x02"
definition PB_DECODE_NULLTERMINATED :: "32 word" where "PB_DECODE_NULLTERMINATED = 0x04"

section \<open>Scalar fields\<close>

definition pb_decode_bool :: "pb_env \<Rightarrow> pb_istream \<Rightarrow> addr \<Rightarrow> mem \<Rightarrow> dec_result" where
  "pb_decode_bool E s dest m =
     (case pb_decode_varint32 E s m of (ok, s, value) \<Rightarrow>
        if ok then (True, s, m(dest := (if value \<noteq> 0 then 1 else 0))) else (False, s, m))"

definition unzigzag :: "64 word \<Rightarrow> 64 word" where
  "unzigzag value = (if value AND 1 \<noteq> 0 then NOT (drop_bit 1 value) else drop_bit 1 value)"

definition pb_decode_svarint :: "pb_env \<Rightarrow> pb_istream \<Rightarrow> mem \<Rightarrow> bool \<times> pb_istream \<times> 64 word" where
  "pb_decode_svarint E s m =
     (case pb_decode_varint E s m of (ok, s, value) \<Rightarrow> (ok, s, if ok then unzigzag value else value))"

definition pb_decode_fixed32 :: "pb_env \<Rightarrow> pb_istream \<Rightarrow> addr \<Rightarrow> mem \<Rightarrow> dec_result" where
  "pb_decode_fixed32 E s dest m =
     (case pb_read_bytes E s 4 m of (ok, s, bs) \<Rightarrow>
        if ok then (True, s, store_bytes m dest bs) else (False, s, m))"

definition pb_decode_fixed64 :: "pb_env \<Rightarrow> pb_istream \<Rightarrow> addr \<Rightarrow> mem \<Rightarrow> dec_result" where
  "pb_decode_fixed64 E s dest m =
     (case pb_read_bytes E s 8 m of (ok, s, bs) \<Rightarrow>
        if ok then (True, s, store_bytes m dest bs) else (False, s, m))"

definition pb_dec_bool :: "pb_env \<Rightarrow> pb_istream \<Rightarrow> pb_field_iter \<Rightarrow> mem \<Rightarrow> dec_result" where
  "pb_dec_bool E s field m = pb_decode_bool E s (pData field) m"

text \<open>
  Storing an integer of 1, 2, 4 or 8 bytes: the memory, and the value read back as an unsigned or
  as a signed number.
\<close>

definition clamp_uint :: "mem \<Rightarrow> addr \<Rightarrow> pb_size \<Rightarrow> 64 word \<Rightarrow> (mem \<times> 64 word) option" where
  "clamp_uint m p sz value =
     (if sz = 8 then Some (store_word 8 m p value, value)
      else if sz = 4 then Some (store_word 4 m p (ucast value :: 32 word), ucast (ucast value :: 32 word))
      else if sz = 2 then Some (store_word 2 m p (ucast value :: 16 word), ucast (ucast value :: 16 word))
      else if sz = 1 then Some (store_word 1 m p (ucast value :: 8 word), ucast (ucast value :: 8 word))
      else None)"

definition clamp_sint :: "mem \<Rightarrow> addr \<Rightarrow> pb_size \<Rightarrow> 64 word \<Rightarrow> (mem \<times> 64 word) option" where
  "clamp_sint m p sz svalue =
     (if sz = 8 then Some (store_word 8 m p svalue, svalue)
      else if sz = 4 then Some (store_word 4 m p (ucast svalue :: 32 word), scast (ucast svalue :: 32 word))
      else if sz = 2 then Some (store_word 2 m p (ucast svalue :: 16 word), scast (ucast svalue :: 16 word))
      else if sz = 1 then Some (store_word 1 m p (ucast svalue :: 8 word), scast (ucast svalue :: 8 word))
      else None)"

definition clamp_result :: "pb_istream \<Rightarrow> mem \<Rightarrow> 64 word \<Rightarrow> (mem \<times> 64 word) option \<Rightarrow> dec_result" where
  "clamp_result s m value r =
     (case r of
        None \<Rightarrow> (False, is_error ''invalid data_size'' s, m)
      | Some (m, clamped) \<Rightarrow>
          if clamped \<noteq> value then (False, is_error ''integer too large'' s, m) else (True, s, m))"

definition pb_dec_varint :: "pb_env \<Rightarrow> pb_istream \<Rightarrow> pb_field_iter \<Rightarrow> mem \<Rightarrow> dec_result" where
  "pb_dec_varint E s field m =
     (if PB_LTYPE (ftype field) = PB_LTYPE_UVARINT
      then (case pb_decode_varint E s m of (ok, s, value) \<Rightarrow>
              if \<not> ok then (False, s, m)
              else clamp_result s m value (clamp_uint m (pData field) (data_size field) value))
      else
        case (if PB_LTYPE (ftype field) = PB_LTYPE_SVARINT then pb_decode_svarint E s m
              else case pb_decode_varint E s m of (ok, s, value) \<Rightarrow>
                     (ok, s, if data_size field = 8 then value else scast (ucast value :: 32 word))) of
          (ok, s, svalue) \<Rightarrow>
            if \<not> ok then (False, s, m)
            else clamp_result s m svalue (clamp_sint m (pData field) (data_size field) svalue))"

definition pb_dec_bytes :: "pb_env \<Rightarrow> pb_istream \<Rightarrow> pb_field_iter \<Rightarrow> mem \<Rightarrow> dec_result" where
  "pb_dec_bytes E s field m =
     (case pb_decode_varint32 E s m of (ok, s, sz) \<Rightarrow>
        if \<not> ok then (False, s, m)
        else if sz > ucast PB_SIZE_MAX then (False, is_error ''bytes overflow'' s, m)
        else
          let alloc_size = ucast sz + 2 :: size_t
          in if ucast sz > alloc_size then (False, is_error ''size too large'' s, m)
             else if PB_ATYPE (ftype field) = PB_ATYPE_POINTER
             then (False, is_error ''no malloc support'' s, m)
             else if alloc_size > ucast (data_size field) then (False, is_error ''bytes overflow'' s, m)
             else pb_read E s (pData field + 2) (ucast sz) (store_word 2 m (pData field) (ucast sz :: pb_size)))"

definition pb_dec_string :: "pb_env \<Rightarrow> pb_istream \<Rightarrow> pb_field_iter \<Rightarrow> mem \<Rightarrow> dec_result" where
  "pb_dec_string E s field m =
     (case pb_decode_varint32 E s m of (ok, s, sz) \<Rightarrow>
        if \<not> ok then (False, s, m)
        else if sz = - 1 then (False, is_error ''size too large'' s, m)
        else
          let alloc_size = ucast (sz + 1) :: size_t
          in if alloc_size < ucast sz then (False, is_error ''size too large'' s, m)
             else if PB_ATYPE (ftype field) = PB_ATYPE_POINTER
             then (False, is_error ''no malloc support'' s, m)
             else if alloc_size > ucast (data_size field) then (False, is_error ''string overflow'' s, m)
             else pb_read E s (pData field) (ucast sz) (m(pData field + unat sz := 0)))"

definition pb_dec_fixed_length_bytes :: "pb_env \<Rightarrow> pb_istream \<Rightarrow> pb_field_iter \<Rightarrow> mem \<Rightarrow> dec_result" where
  "pb_dec_fixed_length_bytes E s field m =
     (case pb_decode_varint32 E s m of (ok, s, sz) \<Rightarrow>
        if \<not> ok then (False, s, m)
        else if sz > ucast PB_SIZE_MAX then (False, is_error ''bytes overflow'' s, m)
        else if sz = 0 then (True, s, memset0 m (pData field) (unat (data_size field)))
        else if sz \<noteq> ucast (data_size field)
        then (False, is_error ''incorrect fixed length bytes size'' s, m)
        else pb_read E s (pData field) (ucast (data_size field)) m)"

section \<open>Submessages\<close>

definition pb_dec_submessage ::
  "msg_decoder \<Rightarrow> pb_env \<Rightarrow> pb_istream \<Rightarrow> pb_field_iter \<Rightarrow> mem \<Rightarrow> dec_result option" where
  "pb_dec_submessage sub E s field m =
     (case pb_make_string_substream E s m of (ok, s, substream) \<Rightarrow>
        if \<not> ok then Some (False, s, m)
        else if submsg_desc field = 0 then Some (False, is_error ''invalid field descriptor'' s, m)
        else
          let cb = (if PB_LTYPE (ftype field) = PB_LTYPE_SUBMSG_W_CB
                    then (case pSize field of Size_at a \<Rightarrow> Some (a - sizeof_pb_callback) | _ \<Rightarrow> None)
                    else None);
              (called, status, substream, m) =
                (case cb of
                   Some p \<Rightarrow>
                     if cb_func m p \<noteq> 0
                     then (True, callback_decode E (cb_func m p) substream field (cb_arg p) m)
                     else (False, True, substream, m)
                 | None \<Rightarrow> (False, True, substream, m));
              submsg_consumed = (called \<and> bytes_left substream = 0);
              flags = (if PB_ATYPE (ftype field) = PB_ATYPE_STATIC
                          \<and> PB_HTYPE (ftype field) \<noteq> PB_HTYPE_REPEATED
                       then PB_DECODE_NOINIT else 0)
          in case (if status \<and> \<not> submsg_consumed
                   then sub substream (submsg_desc field) (pData field) flags m
                   else Some (status, substream, m)) of
               None \<Rightarrow> None
             | Some (status, substream, m) \<Rightarrow>
                 (case pb_close_string_substream E s substream m of
                    (ok, s) \<Rightarrow> if \<not> ok then Some (False, s, m) else Some (status, s, m)))"

section \<open>Fields\<close>

definition decode_basic_field ::
  "msg_decoder \<Rightarrow> pb_env \<Rightarrow> pb_istream \<Rightarrow> wire_type \<Rightarrow> pb_field_iter \<Rightarrow> mem \<Rightarrow> dec_result option" where
  "decode_basic_field sub E s wt field m =
     (let lt = PB_LTYPE (ftype field);
          wrong = Some (False, is_error ''wrong wire type'' s, m)
      in if lt = PB_LTYPE_BOOL
         then (if wt \<noteq> PB_WT_VARINT \<and> wt \<noteq> PB_WT_PACKED then wrong else Some (pb_dec_bool E s field m))
         else if lt = PB_LTYPE_VARINT \<or> lt = PB_LTYPE_UVARINT \<or> lt = PB_LTYPE_SVARINT
         then (if wt \<noteq> PB_WT_VARINT \<and> wt \<noteq> PB_WT_PACKED then wrong else Some (pb_dec_varint E s field m))
         else if lt = PB_LTYPE_FIXED32
         then (if wt \<noteq> PB_WT_32BIT \<and> wt \<noteq> PB_WT_PACKED then wrong
               else Some (pb_decode_fixed32 E s (pData field) m))
         else if lt = PB_LTYPE_FIXED64
         then (if wt \<noteq> PB_WT_64BIT \<and> wt \<noteq> PB_WT_PACKED then wrong
               else Some (pb_decode_fixed64 E s (pData field) m))
         else if lt = PB_LTYPE_BYTES
         then (if wt \<noteq> PB_WT_STRING then wrong else Some (pb_dec_bytes E s field m))
         else if lt = PB_LTYPE_STRING
         then (if wt \<noteq> PB_WT_STRING then wrong else Some (pb_dec_string E s field m))
         else if lt = PB_LTYPE_SUBMESSAGE \<or> lt = PB_LTYPE_SUBMSG_W_CB
         then (if wt \<noteq> PB_WT_STRING then wrong else pb_dec_submessage sub E s field m)
         else if lt = PB_LTYPE_FIXED_LENGTH_BYTES
         then (if wt \<noteq> PB_WT_STRING then wrong else Some (pb_dec_fixed_length_bytes E s field m))
         else Some (False, is_error ''invalid field type'' s, m))"

definition with_field :: "pb_field_iter \<Rightarrow> dec_result option \<Rightarrow> field_result option" where
  "with_field field r = (case r of None \<Rightarrow> None | Some (ok, s, m) \<Rightarrow> Some (ok, s, field, m))"

text \<open>The loop over a packed array; the status and the substream.\<close>

partial_function (option) packed_loop ::
  "msg_decoder \<Rightarrow> pb_env \<Rightarrow> pb_istream \<Rightarrow> pb_field_iter \<Rightarrow> mem \<Rightarrow> field_result option"
where
  "packed_loop sub E s field m =
     (if bytes_left s > 0 \<and> read_psize m field < array_size field
      then (case decode_basic_field sub E s PB_WT_PACKED field m of
              None \<Rightarrow> None
            | Some (ok, s, m) \<Rightarrow>
                if \<not> ok then Some (False, s, field, m)
                else
                  (case write_psize (read_psize m field + 1) m field of
                     (m, field) \<Rightarrow>
                       packed_loop sub E s (field\<lparr>pData := pData field + unat (data_size field)\<rparr>) m))
      else Some (True, s, field, m))"

text \<open>The address of the next entry of an array.\<close>

definition seek_item :: "mem \<Rightarrow> pb_field_iter \<Rightarrow> pb_field_iter" where
  "seek_item m field =
     field\<lparr>pData := pField field + unat (data_size field) * unat (read_psize m field)\<rparr>"

definition decode_repeated_field ::
  "msg_decoder \<Rightarrow> pb_env \<Rightarrow> pb_istream \<Rightarrow> wire_type \<Rightarrow> pb_field_iter \<Rightarrow> mem \<Rightarrow> field_result option" where
  "decode_repeated_field sub E s wt field m =
     (let field = seek_item m field
      in if wt = PB_WT_STRING \<and> PB_LTYPE (ftype field) \<le> PB_LTYPE_LAST_PACKABLE
         then
           (case pb_make_string_substream E s m of (ok, s, substream) \<Rightarrow>
              if \<not> ok then Some (False, s, field, m)
              else
                (case packed_loop sub E substream field m of
                   None \<Rightarrow> None
                 | Some (status, substream, field, m) \<Rightarrow>
                     if bytes_left substream \<noteq> 0
                     then Some (False, is_error ''array overflow'' s, field, m)
                     else
                       (case pb_close_string_substream E s substream m of (ok, s) \<Rightarrow>
                          if \<not> ok then Some (False, s, field, m) else Some (status, s, field, m))))
         else
           let n = read_psize m field;
               (m, field) = write_psize (n + 1) m field
           in if n \<ge> array_size field then Some (False, is_error ''array overflow'' s, field, m)
              else with_field field (decode_basic_field sub E s wt field m))"

text \<open>A message with default values, callbacks or submessages has to be initialised.\<close>

definition needs_defaults :: "pb_env \<Rightarrow> pb_field_iter \<Rightarrow> bool" where
  "needs_defaults E field =
     (let d = desc_at E (submsg_desc field)
      in default_value d \<noteq> 0 \<or> field_callback d \<noteq> None \<or> submsg_info d ! 0 \<noteq> 0)"

definition submsg_defaults :: "msg_defaults \<Rightarrow> pb_env \<Rightarrow> pb_field_iter \<Rightarrow> mem \<Rightarrow> (bool \<times> mem) option" where
  "submsg_defaults defs E field m =
     (case pb_field_iter_begin E (submsg_desc field) (pData field) m of
        (ok, it) \<Rightarrow>
          if \<not> ok then Some (True, m)
          else (case defs it m of None \<Rightarrow> None | Some (ok, _, m) \<Rightarrow> Some (ok, m)))"

definition decode_oneof_field ::
  "msg_decoder \<Rightarrow> msg_defaults \<Rightarrow> pb_env \<Rightarrow> pb_istream \<Rightarrow> wire_type \<Rightarrow> pb_field_iter \<Rightarrow> mem
   \<Rightarrow> field_result option" where
  "decode_oneof_field sub defs E s wt field m =
     (case (if PB_LTYPE_IS_SUBMSG (ftype field) \<and> read_psize m field \<noteq> tag field
            then
              let m = memset0 m (pData field) (unat (data_size field))
              in if needs_defaults E field then submsg_defaults defs E field m else Some (True, m)
            else Some (True, m)) of
        None \<Rightarrow> None
      | Some (ok, m) \<Rightarrow>
          if \<not> ok then Some (False, is_error ''failed to set defaults'' s, field, m)
          else
            (case write_psize (tag field) m field of
               (m, field) \<Rightarrow> with_field field (decode_basic_field sub E s wt field m)))"

definition decode_static_field ::
  "msg_decoder \<Rightarrow> msg_defaults \<Rightarrow> pb_env \<Rightarrow> pb_istream \<Rightarrow> wire_type \<Rightarrow> pb_field_iter \<Rightarrow> mem
   \<Rightarrow> field_result option" where
  "decode_static_field sub defs E s wt field m =
     (let ht = PB_HTYPE (ftype field)
      in if ht = PB_HTYPE_REQUIRED then with_field field (decode_basic_field sub E s wt field m)
         else if ht = PB_HTYPE_OPTIONAL
         then (case (if pSize field \<noteq> Size_null then write_pbool True m field else (m, field)) of
                 (m, field) \<Rightarrow> with_field field (decode_basic_field sub E s wt field m))
         else if ht = PB_HTYPE_REPEATED then decode_repeated_field sub E s wt field m
         else if ht = PB_HTYPE_ONEOF then decode_oneof_field sub defs E s wt field m
         else Some (False, is_error ''invalid field type'' s, field, m))"

definition decode_pointer_field ::
  "pb_istream \<Rightarrow> wire_type \<Rightarrow> pb_field_iter \<Rightarrow> mem \<Rightarrow> field_result" where
  "decode_pointer_field s wt field m = (False, is_error ''no malloc support'' s, field, m)"

text \<open>The message of a failed callback: the one the callback left, or the given one.\<close>

definition callback_failed :: "string \<Rightarrow> pb_istream \<Rightarrow> pb_istream \<Rightarrow> pb_istream" where
  "callback_failed msg substream s =
     is_error (case is_errmsg substream of None \<Rightarrow> msg | Some e \<Rightarrow> e) s"

partial_function (option) field_callback_loop ::
  "pb_env \<Rightarrow> field_callback \<Rightarrow> pb_istream \<Rightarrow> pb_field_iter \<Rightarrow> mem \<Rightarrow> dec_result option"
where
  "field_callback_loop E f s field m =
     (let prev_bytes_left = bytes_left s
      in case call_field_decode E f s field m of (ok, s, m) \<Rightarrow>
           if \<not> ok then Some (False, s, m)
           else if bytes_left s > 0 \<and> bytes_left s < prev_bytes_left
           then field_callback_loop E f s field m
           else Some (True, s, m))"

text \<open>The part of \<open>decode_callback_field\<close> that runs the callback in front of a submessage.\<close>

definition submsg_callback ::
  "pb_env \<Rightarrow> pb_istream \<Rightarrow> pb_field_iter \<Rightarrow> mem \<Rightarrow> bool \<times> pb_istream \<times> pb_field_iter \<times> mem" where
  "submsg_callback E substream field m =
     (if PB_LTYPE (ftype field) = PB_LTYPE_SUBMSG_W_CB \<and> pSize field \<noteq> Size_null
      then
        (case write_psize (tag field) m field of (m, field) \<Rightarrow>
           (case pSize field of
              Size_at a \<Rightarrow>
                let p = a - sizeof_pb_callback
                in if cb_func m p \<noteq> 0
                   then (case callback_decode E (cb_func m p) substream field (cb_arg p) m of
                           (ok, substream, m) \<Rightarrow> (ok, substream, field, m))
                   else (True, substream, field, m)
            | _ \<Rightarrow> (True, substream, field, m)))
      else (True, substream, field, m))"

definition decode_callback_field ::
  "pb_env \<Rightarrow> pb_istream \<Rightarrow> wire_type \<Rightarrow> pb_field_iter \<Rightarrow> mem \<Rightarrow> field_result option" where
  "decode_callback_field E s wt field m =
     (case field_callback (desc_at E (descriptor field)) of
        None \<Rightarrow>
          (case pb_skip_field E s wt m of
             None \<Rightarrow> None
           | Some (ok, s) \<Rightarrow> Some (ok, s, field, m))
      | Some f \<Rightarrow>
          if wt = PB_WT_STRING
          then
            (case pb_make_string_substream E s m of (ok, s, substream) \<Rightarrow>
               if \<not> ok then Some (False, s, field, m)
               else
                 (case submsg_callback E substream field m of (ok, substream, field, m) \<Rightarrow>
                    if \<not> ok
                    then Some (False, callback_failed ''submsg callback failed'' substream s, field, m)
                    else
                      (case field_callback_loop E f substream field m of
                         None \<Rightarrow> None
                       | Some (ok, substream, m) \<Rightarrow>
                           if \<not> ok
                           then Some (False, callback_failed ''callback failed'' substream s, field, m)
                           else
                             (case pb_close_string_substream E s substream m of
                                (ok, s) \<Rightarrow> Some (ok, s, field, m)))))
          else
            (case read_raw_value E s wt m of (ok, s, bs) \<Rightarrow>
               if \<not> ok then Some (False, s, field, m)
               else
                 let m = store_bytes m (local_buffer E) bs;
                     substream = pb_istream_from_buffer (local_buffer E) (of_nat (length bs))
                 in case call_field_decode E f substream field m of
                      (ok, _, m) \<Rightarrow> Some (ok, s, field, m)))"

definition decode_field ::
  "msg_decoder \<Rightarrow> msg_defaults \<Rightarrow> pb_env \<Rightarrow> pb_istream \<Rightarrow> wire_type \<Rightarrow> pb_field_iter \<Rightarrow> mem
   \<Rightarrow> field_result option" where
  "decode_field sub defs E s wt field m =
     (let aty = PB_ATYPE (ftype field)
      in if aty = PB_ATYPE_STATIC then decode_static_field sub defs E s wt field m
         else if aty = PB_ATYPE_POINTER then Some (decode_pointer_field s wt field m)
         else if aty = PB_ATYPE_CALLBACK then decode_callback_field E s wt field m
         else Some (False, is_error ''invalid field type'' s, field, m))"

section \<open>Extensions\<close>

definition default_extension_decoder ::
  "msg_decoder \<Rightarrow> msg_defaults \<Rightarrow> pb_env \<Rightarrow> pb_istream \<Rightarrow> addr \<Rightarrow> 32 word \<Rightarrow> wire_type \<Rightarrow> mem
   \<Rightarrow> dec_result option" where
  "default_extension_decoder sub defs E s extension tg wt m =
     (case pb_field_iter_begin_extension E extension m of (ok, it) \<Rightarrow>
        if \<not> ok then Some (False, is_error ''invalid extension'' s, m)
        else if ucast (tag it) \<noteq> tg \<or> message it = 0 then Some (True, s, m)
        else
          (case decode_field sub defs E s wt it (m(ext_found extension := 1)) of
             None \<Rightarrow> None
           | Some (ok, s, _, m) \<Rightarrow> Some (ok, s, m)))"

partial_function (option) decode_extension ::
  "msg_decoder \<Rightarrow> msg_defaults \<Rightarrow> pb_env \<Rightarrow> size_t \<Rightarrow> pb_istream \<Rightarrow> 32 word \<Rightarrow> wire_type \<Rightarrow> addr \<Rightarrow> mem
   \<Rightarrow> dec_result option"
where
  "decode_extension sub defs E pos s tg wt extension m =
     (if extension \<noteq> 0 \<and> pos = bytes_left s
      then
        let dec = ext_type_decode m (ext_type m extension)
        in case (if dec \<noteq> 0 then Some (extension_decode E dec s extension tg wt m)
                 else default_extension_decoder sub defs E s extension tg wt m) of
             None \<Rightarrow> None
           | Some (ok, s, m) \<Rightarrow>
               if \<not> ok then Some (False, s, m)
               else decode_extension sub defs E pos s tg wt (ext_next m extension) m
      else Some (True, s, m))"

section \<open>Default values\<close>

partial_function (option) extension_defaults ::
  "msg_defaults \<Rightarrow> pb_env \<Rightarrow> addr \<Rightarrow> mem \<Rightarrow> (bool \<times> mem) option"
where
  "extension_defaults defs E ext m =
     (if ext = 0 then Some (True, m)
      else
        case (case pb_field_iter_begin_extension E ext m of (ok, it) \<Rightarrow>
                if ok
                then (case defs it (m(ext_found ext := 0)) of
                        None \<Rightarrow> None
                      | Some (ok, _, m) \<Rightarrow> Some (ok, m))
                else Some (True, m)) of
          None \<Rightarrow> None
        | Some (ok, m) \<Rightarrow> if \<not> ok then Some (False, m) else extension_defaults defs E (ext_next m ext) m)"

definition pb_field_set_to_default ::
  "msg_defaults \<Rightarrow> pb_env \<Rightarrow> pb_field_iter \<Rightarrow> mem \<Rightarrow> (bool \<times> pb_field_iter \<times> mem) option" where
  "pb_field_set_to_default defs E field m =
     (let ty = ftype field
      in if PB_LTYPE ty = PB_LTYPE_EXTENSION
         then (case extension_defaults defs E (load_ptr m (pData field)) m of
                 None \<Rightarrow> None
               | Some (ok, m) \<Rightarrow> Some (ok, field, m))
         else if PB_ATYPE ty = PB_ATYPE_STATIC
         then
           if PB_HTYPE ty = PB_HTYPE_REPEATED \<or> PB_HTYPE ty = PB_HTYPE_ONEOF
           then (case write_psize 0 m field of (m, field) \<Rightarrow> Some (True, field, m))
           else
             (case (if PB_HTYPE ty = PB_HTYPE_OPTIONAL \<and> pSize field \<noteq> Size_null
                    then write_pbool False m field else (m, field)) of
                (m, field) \<Rightarrow>
                  if PB_LTYPE_IS_SUBMSG ty \<and> needs_defaults E field
                  then (case submsg_defaults defs E field m of
                          None \<Rightarrow> None
                        | Some (ok, m) \<Rightarrow> Some (ok, field, m))
                  else Some (True, field, memset0 m (pData field) (unat (data_size field))))
         else if PB_ATYPE ty = PB_ATYPE_POINTER
         then
           let m = store_word 8 m (pField field) (0 :: 64 word)
           in if PB_HTYPE ty = PB_HTYPE_REPEATED \<or> PB_HTYPE ty = PB_HTYPE_ONEOF
              then (case write_psize 0 m field of (m, field) \<Rightarrow> Some (True, field, m))
              else Some (True, field, m)
         else Some (True, field, m))"

text \<open>
  The loop of \<open>pb_message_set_to_defaults\<close>; \<open>wt\<close> and \<open>tg\<close> belong to the next default value in
  \<open>defstream\<close>.
\<close>

partial_function (option) defaults_loop ::
  "msg_decoder \<Rightarrow> msg_defaults \<Rightarrow> pb_env \<Rightarrow> pb_istream \<Rightarrow> wire_type \<Rightarrow> 32 word \<Rightarrow> pb_field_iter \<Rightarrow> mem
   \<Rightarrow> (bool \<times> pb_field_iter \<times> mem) option"
where
  "defaults_loop sub defs E defstream wt tg it m =
     (case pb_field_set_to_default defs E it m of
        None \<Rightarrow> None
      | Some (ok, it, m) \<Rightarrow>
          if \<not> ok then Some (False, it, m)
          else
            case (if tg \<noteq> 0 \<and> ucast (tag it) = tg
                  then
                    (case decode_field sub defs E defstream wt it m of
                       None \<Rightarrow> None
                     | Some (ok, defstream, it, m) \<Rightarrow>
                         if \<not> ok then Some (False, defstream, wt, tg, it, m)
                         else
                           (case pb_decode_tag E defstream m of (ok, defstream, wt, tg, eof) \<Rightarrow>
                              if \<not> ok then Some (False, defstream, wt, tg, it, m)
                              else
                                (case (if pSize it \<noteq> Size_null then write_pbool False m it else (m, it)) of
                                   (m, it) \<Rightarrow> Some (True, defstream, wt, tg, it, m))))
                  else Some (True, defstream, wt, tg, it, m)) of
              None \<Rightarrow> None
            | Some (ok, defstream, wt, tg, it, m) \<Rightarrow>
                if \<not> ok then Some (False, it, m)
                else
                  (case pb_field_iter_next E m it of (again, it) \<Rightarrow>
                     if again then defaults_loop sub defs E defstream wt tg it m else Some (True, it, m)))"

definition message_defaults :: "msg_decoder \<Rightarrow> msg_defaults \<Rightarrow> pb_env \<Rightarrow> msg_defaults" where
  "message_defaults sub defs E it m =
     (let d = desc_at E (descriptor it)
      in if default_value d \<noteq> 0
         then
           (case pb_decode_tag E (pb_istream_from_buffer (default_value d) (- 1)) m of
              (ok, defstream, wt, tg, eof) \<Rightarrow>
                if \<not> ok then Some (False, it, m) else defaults_loop sub defs E defstream wt tg it m)
         else defaults_loop sub defs E PB_ISTREAM_EMPTY PB_WT_VARINT 0 it m)"

section \<open>Messages\<close>

text \<open>The local variables of \<open>pb_decode_inner\<close> that outlive a round of its loop.\<close>

record decode_locals =
  extension_range_start :: "32 word"
  extensions :: addr
  fixed_count_field :: pb_size
  fixed_count_size :: pb_size
  fixed_count_total_size :: pb_size
  fields_seen :: "32 word list"

definition decode_locals_init :: decode_locals where
  "decode_locals_init =
     \<lparr>extension_range_start = 0, extensions = 0, fixed_count_field = PB_SIZE_MAX, fixed_count_size = 0,
      fixed_count_total_size = 0, fields_seen = [0, 0]\<rparr>"

type_synonym round_result = "bool \<times> pb_istream \<times> pb_field_iter \<times> mem \<times> decode_locals"

text \<open>A tag that no field has: an extension may take it, otherwise its data is skipped.\<close>

definition find_extensions ::
  "pb_env \<Rightarrow> pb_field_iter \<Rightarrow> mem \<Rightarrow> decode_locals \<Rightarrow> (pb_field_iter \<times> decode_locals) option" where
  "find_extensions E it m L =
     (if extension_range_start L \<noteq> 0 then Some (it, L)
      else
        case pb_field_iter_find_extension E m it of
          None \<Rightarrow> None
        | Some (found, it) \<Rightarrow>
            let L = (if found
                     then L\<lparr>extensions := load_ptr m (pData it), extension_range_start := ucast (tag it)\<rparr>
                     else L);
                L = (if extensions L = 0 then L\<lparr>extension_range_start := - 1\<rparr> else L)
            in Some (it, L))"

definition skip_unknown ::
  "pb_env \<Rightarrow> pb_istream \<Rightarrow> wire_type \<Rightarrow> pb_field_iter \<Rightarrow> mem \<Rightarrow> decode_locals \<Rightarrow> round_result option" where
  "skip_unknown E s wt it m L =
     (case pb_skip_field E s wt m of None \<Rightarrow> None | Some (ok, s) \<Rightarrow> Some (ok, s, it, m, L))"

definition decode_unknown ::
  "msg_decoder \<Rightarrow> msg_defaults \<Rightarrow> pb_env \<Rightarrow> pb_istream \<Rightarrow> wire_type \<Rightarrow> 32 word \<Rightarrow> pb_field_iter \<Rightarrow> mem
   \<Rightarrow> decode_locals \<Rightarrow> round_result option" where
  "decode_unknown sub defs E s wt tg it m L =
     (case find_extensions E it m L of
        None \<Rightarrow> None
      | Some (it, L) \<Rightarrow>
          if tg \<ge> extension_range_start L
          then
            (let pos = bytes_left s
             in case decode_extension sub defs E pos s tg wt (extensions L) m of
                  None \<Rightarrow> None
                | Some (ok, s, m) \<Rightarrow>
                    if \<not> ok then Some (False, s, it, m, L)
                    else if pos \<noteq> bytes_left s then Some (True, s, it, m, L)
                    else skip_unknown E s wt it m L)
          else skip_unknown E s wt it m L)"

text \<open>The counter of a repeated field of fixed length; \<^term>\<open>None\<close> if the previous one is incomplete.\<close>

definition select_fixed_count :: "pb_field_iter \<Rightarrow> decode_locals \<Rightarrow> (pb_field_iter \<times> decode_locals) option" where
  "select_fixed_count it L =
     (if PB_HTYPE (ftype it) = PB_HTYPE_REPEATED \<and> pSize it = Size_array
      then
        if fixed_count_field L \<noteq> it_index it
        then
          if fixed_count_field L \<noteq> PB_SIZE_MAX \<and> fixed_count_size L \<noteq> fixed_count_total_size L then None
          else
            let L = L\<lparr>fixed_count_field := it_index it, fixed_count_size := 0,
                      fixed_count_total_size := array_size it\<rparr>
            in Some (it\<lparr>pSize := Size_fixed_count (fixed_count_size L)\<rparr>, L)
        else Some (it\<lparr>pSize := Size_fixed_count (fixed_count_size L)\<rparr>, L)
      else Some (it, L))"

definition mark_seen :: "pb_field_iter \<Rightarrow> decode_locals \<Rightarrow> decode_locals" where
  "mark_seen it L =
     (if PB_HTYPE (ftype it) = PB_HTYPE_REQUIRED \<and> required_field_index it < 64
      then
        let i = unat (drop_bit 5 (required_field_index it));
            tmp = push_bit (unat (required_field_index it AND 31)) 1
        in L\<lparr>fields_seen := (fields_seen L)[i := fields_seen L ! i OR tmp]\<rparr>
      else L)"

definition keep_fixed_count :: "pb_field_iter \<Rightarrow> decode_locals \<Rightarrow> decode_locals" where
  "keep_fixed_count it L =
     (case pSize it of Size_fixed_count n \<Rightarrow> L\<lparr>fixed_count_size := n\<rparr> | _ \<Rightarrow> L)"

text \<open>One round of the loop, after the tag is read and found not to be zero.\<close>

definition decode_round ::
  "msg_decoder \<Rightarrow> msg_defaults \<Rightarrow> pb_env \<Rightarrow> pb_istream \<Rightarrow> wire_type \<Rightarrow> 32 word \<Rightarrow> pb_field_iter \<Rightarrow> mem
   \<Rightarrow> decode_locals \<Rightarrow> round_result option" where
  "decode_round sub defs E s wt tg it m L =
     (case pb_field_iter_find E m tg it of
        None \<Rightarrow> None
      | Some (found, it) \<Rightarrow>
          if \<not> found \<or> PB_LTYPE (ftype it) = PB_LTYPE_EXTENSION
          then decode_unknown sub defs E s wt tg it m L
          else
            case select_fixed_count it L of
              None \<Rightarrow> Some (False, is_error ''wrong size for fixed count field'' s, it, m, L)
            | Some (it, L) \<Rightarrow>
                (case decode_field sub defs E s wt it m of
                   None \<Rightarrow> None
                 | Some (ok, s, it, m) \<Rightarrow> Some (ok, s, it, m, keep_fixed_count it (mark_seen it L))))"

text \<open>
  The loop: the flag whether it ended without \<open>return\<close>, and \<open>eof\<close>.
\<close>

partial_function (option) decode_loop ::
  "msg_decoder \<Rightarrow> msg_defaults \<Rightarrow> pb_env \<Rightarrow> 32 word \<Rightarrow> pb_istream \<Rightarrow> pb_field_iter \<Rightarrow> mem \<Rightarrow> decode_locals
   \<Rightarrow> (bool \<times> bool \<times> pb_istream \<times> pb_field_iter \<times> mem \<times> decode_locals) option"
where
  "decode_loop sub defs E flags s it m L =
     (case pb_decode_tag E s m of (ok, s, wt, tg, eof) \<Rightarrow>
        if \<not> ok then Some (True, eof, s, it, m, L)
        else if tg = 0
        then
          if flags AND PB_DECODE_NULLTERMINATED \<noteq> 0 then Some (True, True, s, it, m, L)
          else Some (False, False, is_error ''zero tag'' s, it, m, L)
        else
          case decode_round sub defs E s wt tg it m L of
            None \<Rightarrow> None
          | Some (ok, s, it, m, L) \<Rightarrow>
              if ok then decode_loop sub defs E flags s it m L else Some (False, False, s, it, m, L))"

definition all_required_seen :: "pb_env \<Rightarrow> pb_field_iter \<Rightarrow> decode_locals \<Rightarrow> bool" where
  "all_required_seen E it L =
     (let n = required_field_count (desc_at E (descriptor it));
          n = (if n > 64 then 64 else n);
          w = unat (drop_bit 5 n);
          r = unat (n AND 31)
      in list_all (\<lambda>i. fields_seen L ! i = - 1) [0..<w]
         \<and> (r = 0 \<or> fields_seen L ! w = drop_bit (32 - r) (- 1)))"

definition decode_inner :: "msg_decoder \<Rightarrow> msg_defaults \<Rightarrow> msg_defaults \<Rightarrow> pb_env \<Rightarrow> msg_decoder" where
  "decode_inner sub defs own_defs E s desc dest flags m =
     (case pb_field_iter_begin E desc dest m of (begun, it) \<Rightarrow>
        case (if begun \<and> flags AND PB_DECODE_NOINIT = 0 then own_defs it m else Some (True, it, m)) of
          None \<Rightarrow> None
        | Some (ok, it, m) \<Rightarrow>
            if \<not> ok then Some (False, is_error ''failed to set defaults'' s, m)
            else
              case decode_loop sub defs E flags s it m decode_locals_init of
                None \<Rightarrow> None
              | Some (ended, eof, s, it, m, L) \<Rightarrow>
                  if \<not> ended then Some (False, s, m)
                  else if \<not> eof then Some (False, s, m)
                  else if fixed_count_field L \<noteq> PB_SIZE_MAX \<and> fixed_count_size L \<noteq> fixed_count_total_size L
                  then Some (False, is_error ''wrong size for fixed count field'' s, m)
                  else if \<not> all_required_seen E it L
                  then Some (False, is_error ''missing required field'' s, m)
                  else Some (True, s, m))"

text \<open>The two functions that call each other, for a given depth of nesting.\<close>

primrec pb_codec :: "nat \<Rightarrow> pb_env \<Rightarrow> msg_decoder \<times> msg_defaults" where
  "pb_codec 0 E = (\<lambda>s desc dest flags m. None, \<lambda>it m. None)"
| "pb_codec (Suc n) E =
     (case pb_codec n E of
        (sub, defs) \<Rightarrow> (decode_inner sub defs (message_defaults sub defs E) E, message_defaults sub defs E))"

definition pb_decode_inner :: "nat \<Rightarrow> pb_env \<Rightarrow> msg_decoder" where
  "pb_decode_inner n E = fst (pb_codec n E)"

definition pb_message_set_to_defaults :: "nat \<Rightarrow> pb_env \<Rightarrow> msg_defaults" where
  "pb_message_set_to_defaults n E = snd (pb_codec n E)"

lemma pb_decode_inner_Suc:
  "pb_decode_inner (Suc n) E =
     decode_inner (pb_decode_inner n E) (pb_message_set_to_defaults n E)
       (pb_message_set_to_defaults (Suc n) E) E"
  by (simp add: pb_decode_inner_def pb_message_set_to_defaults_def split: prod.split)

lemma pb_message_set_to_defaults_Suc:
  "pb_message_set_to_defaults (Suc n) E =
     message_defaults (pb_decode_inner n E) (pb_message_set_to_defaults n E) E"
  by (simp add: pb_decode_inner_def pb_message_set_to_defaults_def split: prod.split)

definition pb_decode_ex ::
  "nat \<Rightarrow> pb_env \<Rightarrow> pb_istream \<Rightarrow> addr \<Rightarrow> addr \<Rightarrow> 32 word \<Rightarrow> mem \<Rightarrow> dec_result option" where
  "pb_decode_ex n E s desc dest flags m =
     (if flags AND PB_DECODE_DELIMITED = 0 then pb_decode_inner n E s desc dest flags m
      else
        case pb_make_string_substream E s m of (ok, s, substream) \<Rightarrow>
          if \<not> ok then Some (False, s, m)
          else
            case pb_decode_inner n E substream desc dest flags m of
              None \<Rightarrow> None
            | Some (status, substream, m) \<Rightarrow>
                (case pb_close_string_substream E s substream m of
                   (ok, s) \<Rightarrow> Some (status \<and> ok, s, m)))"

definition pb_decode :: "nat \<Rightarrow> pb_env \<Rightarrow> pb_istream \<Rightarrow> addr \<Rightarrow> addr \<Rightarrow> mem \<Rightarrow> dec_result option" where
  "pb_decode n E s desc dest m = pb_decode_ex n E s desc dest 0 m"

end
