(* ===== verification/PbVarint.thy ===== *)
theory PbVarint
  imports PbEncode PbDecodeMessage
begin

text \<open>
  Variable-length integers: the encoder, which avoids 64-bit shifts, against the textbook
  encoding in groups of seven bits, and the round trips through the two decoders. Also the
  vocabulary for reading a known sequence of bytes from a buffer stream.
\<close>

section \<open>Reading known bytes\<close>

definition at_bytes :: "pb_istream \<Rightarrow> mem \<Rightarrow> pb_byte list \<Rightarrow> bool" where
  "at_bytes s m bs \<longleftrightarrow>
     is_callback s = Buffer_callback \<and> load_bytes m (is_state s) (length bs) = bs
     \<and> length bs \<le> unat (bytes_left s)"

definition skip_ahead :: "nat \<Rightarrow> pb_istream \<Rightarrow> pb_istream" where
  "skip_ahead n s = s\<lparr>is_state := is_state s + n, bytes_left := bytes_left s - of_nat n\<rparr>"

lemma skip_ahead_0 [simp]: "skip_ahead 0 s = s"
  by (simp add: skip_ahead_def)

lemma skip_ahead_add [simp]: "skip_ahead a (skip_ahead b s) = skip_ahead (a + b) s"
  by (simp add: skip_ahead_def algebra_simps)

lemma skip_ahead_callback [simp]: "is_callback (skip_ahead n s) = is_callback s"
  by (simp add: skip_ahead_def)

lemma skip_ahead_errmsg [simp]: "is_errmsg (skip_ahead n s) = is_errmsg s"
  by (simp add: skip_ahead_def)

lemma unat_of_size: "n < 2 ^ 64 \<Longrightarrow> unat (of_nat n :: size_t) = n"
  by (simp add: unsigned_of_nat take_bit_nat_eq_self)

lemma skip_ahead_left: "n \<le> unat (bytes_left s) \<Longrightarrow> unat (bytes_left (skip_ahead n s)) = unat (bytes_left s) - n"
proof -
  assume n: "n \<le> unat (bytes_left s)"
  moreover have "unat (bytes_left s) < 2 ^ LENGTH(64)" by (rule unsigned_less)
  ultimately have "n < 2 ^ 64" by simp
  then have "unat (of_nat n :: size_t) = n" by (rule unat_of_size)
  with n show ?thesis by (simp add: skip_ahead_def unat_sub word_le_nat_alt)
qed

lemma at_bytes_append:
  assumes "at_bytes s m (xs @ ys)"
  shows "at_bytes s m xs" and "at_bytes (skip_ahead (length xs) s) m ys"
proof -
  show "at_bytes s m xs" using assms by (auto simp: at_bytes_def load_bytes_add)
  have "length xs \<le> unat (bytes_left s)" using assms by (simp add: at_bytes_def)
  from skip_ahead_left [OF this] assms show "at_bytes (skip_ahead (length xs) s) m ys"
    by (auto simp: at_bytes_def load_bytes_add) (simp_all add: skip_ahead_def)
qed

lemma readbyte_at [simp]:
  assumes "at_bytes s m (b # bs)"
  shows "pb_readbyte E s m = (True, skip_ahead 1 s, b)"
  using assms
  by (auto simp: at_bytes_def pb_readbyte_def call_read_def buf_read_def skip_ahead_def first_byte_def
      load_bytes_Suc unat_eq_0)

lemma at_bytes_Cons:
  "at_bytes s m (b # bs) \<Longrightarrow> at_bytes (skip_ahead 1 s) m bs"
  using at_bytes_append(2) [of s m "[b]" bs] by simp

lemma read_bytes_at:
  assumes "at_bytes s m bs" and "n = of_nat (length bs)" and "length bs < 2 ^ 64"
  shows "pb_read_bytes E s n m = (True, skip_ahead (length bs) s, bs)"
proof -
  have n: "unat n = length bs" using assms(2,3) by (simp only: unat_of_size)
  then have "\<not> bytes_left s < n" using assms(1) by (simp add: at_bytes_def word_less_nat_alt)
  then show ?thesis
    using assms(1) n
    by (auto simp: pb_read_bytes_def read_some_def call_read_def buf_read_def at_bytes_def skip_ahead_def
        assms(2)[symmetric])
qed

section \<open>The reference encoding\<close>

function leb128 :: "64 word \<Rightarrow> pb_byte list" where
  "leb128 v = (if v \<le> 0x7F then [ucast v] else (ucast (v AND 0x7F) OR 0x80) # leb128 (drop_bit 7 v))"
  by pat_completeness auto
termination
  by (relation "measure unat") (auto intro!: drop_7_less)

declare leb128.simps [simp del]

lemma seven_bits: "drop_bit 7 (v :: 'a::len word) = 0 \<longleftrightarrow> v AND 0x7F = v"
proof -
  have "v AND 0x7F = take_bit 7 v"
    using take_bit_eq_mask[of 7 v] by (simp add: mask_eq_exp_minus_1)
  then show ?thesis
    by (metis bits_ident add_0_left take_bit_eq_self_iff_drop_bit_eq_0)
qed

lemma unat_drop_7: "unat (drop_bit 7 v) = unat v div 128" for v :: "'a::len word"
proof -
  have "unat (drop_bit 7 v) = drop_bit 7 (unat v)" by (rule unat_drop_bit_eq)
  then show ?thesis by (simp only: drop_bit_eq_div) simp
qed

lemma drop_7_eq_0: "drop_bit 7 v = 0 \<longleftrightarrow> unat v < 128" for v :: "'a::len word"
proof -
  have "drop_bit 7 v = 0 \<longleftrightarrow> unat (drop_bit 7 v) = 0" by (simp only: unat_eq_0)
  then show ?thesis by (simp only: unat_drop_7) (simp add: div_eq_0_iff)
qed

lemma le_seven: "(v :: 64 word) \<le> 0x7F \<longleftrightarrow> drop_bit 7 v = 0"
  by (simp add: drop_7_eq_0 word_le_nat_alt) arith

lemma leb128_rec:
  "leb128 v = (if drop_bit 7 v = 0 then [ucast (v AND 0x7F)]
               else (ucast (v AND 0x7F) OR 0x80) # leb128 (drop_bit 7 v))"
  by (subst leb128.simps) (auto simp: le_seven seven_bits)

lemma leb128_nonempty [simp]: "leb128 v \<noteq> []"
  by (subst leb128.simps) auto

text \<open>The masks of the code as truncations.\<close>

lemma mask_simps:
  "(w :: 8 word) AND 0x7F = take_bit 7 w" "(v :: 32 word) AND 0x7F = take_bit 7 v"
  "(u :: 64 word) AND 0x7F = take_bit 7 u" "v AND 0x07 = take_bit 3 v"
  by (simp_all add: take_bit_eq_mask mask_eq_exp_minus_1)

lemma bit_0x80: "bit (0x80 :: 'a::len word) n \<longleftrightarrow> n = 7 \<and> n < LENGTH('a)"
proof -
  have "(0x80 :: 'a word) = push_bit 7 1" by (simp add: push_bit_eq_mult)
  then show ?thesis by (simp only: bit_push_bit_iff bit_1_iff) auto
qed

lemmas bits = bit_or_iff bit_and_iff bit_push_bit_iff bit_drop_bit_eq bit_take_bit_iff bit_ucast_iff
  bit_0x80 mask_simps

lemma bit_beyond: "bit (w :: 'a::len word) n \<Longrightarrow> n < LENGTH('a)"
  by (rule bit_imp_le_length)

lemma ucast_32_eq_0: "(ucast (h :: 32 word) :: 64 word) = 0 \<longleftrightarrow> h = 0"
proof
  assume 0: "(ucast h :: 64 word) = 0"
  show "h = 0"
  proof (rule bit_word_eqI)
    fix n assume "n < LENGTH(32)"
    then show "bit h n = bit 0 n"
      using arg_cong [OF 0, of "\<lambda>w. bit w n"] by (simp add: bit_ucast_iff)
  qed
qed simp

lemma ucast_drop: "drop_bit 7 (ucast (w :: 32 word) :: 64 word) = ucast (drop_bit 7 w)"
  by (intro bit_word_eqI) (auto simp: bits dest: bit_beyond)

lemma ucast_low: "ucast (ucast (w :: 32 word) AND 0x7F :: 64 word) = (ucast (w AND 0x7F) :: pb_byte)"
  by (intro bit_word_eqI) (auto simp: bits)

section \<open>The encoder writes the reference encoding\<close>

lemma varint_high_leb128:
  assumes "drop_bit 7 w = ucast h" and "varint_high buf (ucast (w AND 0x7F)) h = (buf', b')"
  shows "buf' @ [b'] = buf @ leb128 w"
  using assms
proof (induction buf "ucast (w AND 0x7F) :: pb_byte" h arbitrary: w rule: varint_high.induct)
  case (1 buf h)
  show ?case
  proof (cases "h = 0")
    case True
    with 1 show ?thesis by (simp add: varint_high.simps leb128_rec [of w])
  next
    case False
    have nz: "drop_bit 7 w \<noteq> 0" using False "1.prems"(1) by (simp add: ucast_32_eq_0)
    have byte: "ucast (h AND 0x7F) = (ucast (drop_bit 7 w AND 0x7F) :: pb_byte)"
      using "1.prems"(1) by (intro bit_word_eqI) (auto simp: bits)
    have tail: "drop_bit 7 (drop_bit 7 w) = ucast (drop_bit 7 h)"
      using "1.prems"(1) by (intro bit_word_eqI) (auto simp: bits dest: bit_beyond)
    have "varint_high (buf @ [ucast (w AND 0x7F) OR 0x80]) (ucast (drop_bit 7 w AND 0x7F)) (drop_bit 7 h)
            = (buf', b')"
      using "1.prems"(2) False by (subst (asm) varint_high.simps) (simp add: byte)
    from "1.hyps" [OF False byte tail this] show ?thesis
      using nz by (simp add: leb128_rec [of w])
  qed
qed

lemma varint_low_leb128:
  assumes "unat w < 2 ^ (32 - 7 * length buf)" and "length buf \<le> 4"
    and "varint_low buf (ucast (w AND 0x7F)) (drop_bit 7 w) 0 = (buf', b')"
  shows "buf' @ [b'] = buf @ leb128 (ucast w)"
  using assms
proof (induction "4 - length buf" arbitrary: buf w)
  case 0
  then have "drop_bit 7 w = 0" by (simp add: drop_7_eq_0)
  with 0 show ?case
    by (simp add: varint_low.simps leb128_rec [of "ucast w"] ucast_drop ucast_low)
next
  case (Suc k)
  show ?case
  proof (cases "drop_bit 7 w = 0")
    case True
    with Suc.prems show ?thesis
      by (simp add: varint_low.simps leb128_rec [of "ucast w"] ucast_drop ucast_low)
  next
    case False
    have len: "length buf < 4" using Suc.hyps(2) by simp
    have "32 - 7 * length buf = 7 + (32 - 7 * length (buf @ [ucast (w AND 0x7F) OR 0x80]))"
      using len by simp
    with Suc.prems(1) have "unat (drop_bit 7 w) < 2 ^ (32 - 7 * length (buf @ [ucast (w AND 0x7F) OR 0x80]))"
      by (simp only: unat_drop_7 power_add) (simp add: less_mult_imp_div_less mult.commute)
    moreover have "varint_low (buf @ [ucast (w AND 0x7F) OR 0x80]) (ucast (drop_bit 7 w AND 0x7F))
        (drop_bit 7 (drop_bit 7 w)) 0 = (buf', b')"
      using Suc.prems(3) False len by (subst (asm) varint_low.simps) simp
    ultimately have "buf' @ [b'] = (buf @ [ucast (w AND 0x7F) OR 0x80]) @ leb128 (ucast (drop_bit 7 w))"
      using Suc.hyps(2) len by (intro Suc.hyps(1)) auto
    with False show ?thesis by (simp add: leb128_rec [of "ucast w"] ucast_drop ucast_low ucast_32_eq_0)
  qed
qed

lemma varint_low_full:
  assumes "high \<noteq> 0"
  shows "varint_low [] b low high =
    ([b OR 0x80, ucast (low AND 0x7F) OR 0x80, ucast (drop_bit 7 low AND 0x7F) OR 0x80,
      ucast (drop_bit 14 low AND 0x7F) OR 0x80], ucast (drop_bit 21 low AND 0x7F))"
  using assms by (simp add: varint_low.simps)

lemma leb128_four:
  assumes "drop_bit 28 v \<noteq> 0"
  shows "leb128 v =
    [ucast (v AND 0x7F) OR 0x80, ucast (drop_bit 7 v AND 0x7F) OR 0x80,
     ucast (drop_bit 14 v AND 0x7F) OR 0x80, ucast (drop_bit 21 v AND 0x7F) OR 0x80] @ leb128 (drop_bit 28 v)"
proof -
  have nz: "drop_bit n v \<noteq> 0" if "n \<le> 28" for n
  proof
    assume "drop_bit n v = 0"
    then have "drop_bit (28 - n) (drop_bit n v) = 0" by simp
    with that assms show False by simp
  qed
  show ?thesis
    by (simp add: leb128_rec [of v] leb128_rec [of "drop_bit 7 v"] leb128_rec [of "drop_bit 14 v"]
        leb128_rec [of "drop_bit 21 v"] nz)
qed

lemma varint_32_bytes_leb128: "varint_32_bytes (ucast v) (ucast (drop_bit 32 v)) = leb128 v"
proof (cases "ucast (drop_bit 32 v) = (0 :: 32 word)")
  case True
  obtain buf b where low: "varint_low [] (ucast (ucast v AND (0x7F :: 32 word))) (drop_bit 7 (ucast v)) 0 = (buf, b)"
    by (cases "varint_low [] (ucast (ucast v AND (0x7F :: 32 word))) (drop_bit 7 (ucast v)) 0")
  have high: "\<not> bit v n" if "32 \<le> n" for n
    using arg_cong [OF True, of "\<lambda>w. bit w (n - 32)"] that bit_beyond [of v n]
    by (auto simp: bits)
  have v: "ucast (ucast v :: 32 word) = v"
    by (intro bit_word_eqI) (auto simp: bits, metis high not_le)
  have "unat (ucast v :: 32 word) < 2 ^ LENGTH(32)" by (rule unsigned_less)
  then have "buf @ [b] = leb128 v"
    using varint_low_leb128 [of "ucast v" "[]" buf b] low by (simp add: v)
  with low True show ?thesis by (simp add: varint_32_bytes_def)
next
  case False
  define low high w where "low = (ucast v :: 32 word)" and "high = (ucast (drop_bit 32 v) :: 32 word)"
    and "w = drop_bit 28 v"
  have w: "w \<noteq> 0"
  proof
    assume "w = 0"
    then have "drop_bit 4 w = 0" by simp
    with False show False by (simp add: w_def)
  qed
  have byte: "ucast (drop_bit 21 (drop_bit 7 low) AND 0x7F) OR ucast (push_bit 4 (high AND 0x07))
      = (ucast (w AND 0x7F) :: pb_byte)"
    by (intro bit_word_eqI) (auto simp: bits low_def high_def w_def)
  have rest: "drop_bit 7 w = ucast (drop_bit 3 high)"
    by (intro bit_word_eqI) (auto simp: bits low_def high_def w_def add.commute dest: bit_beyond)
  obtain buf b where h: "varint_high [ucast (low AND 0x7F) OR 0x80, ucast (drop_bit 7 low AND 0x7F) OR 0x80,
      ucast (drop_bit 14 low AND 0x7F) OR 0x80, ucast (drop_bit 21 low AND 0x7F) OR 0x80]
      (ucast (w AND 0x7F)) (drop_bit 3 high) = (buf, b)" (is "varint_high ?pre _ _ = _") by fastforce
  have pre: "?pre = [ucast (v AND 0x7F) OR 0x80, ucast (drop_bit 7 v AND 0x7F) OR 0x80,
     ucast (drop_bit 14 v AND 0x7F) OR 0x80, ucast (drop_bit 21 v AND 0x7F) OR 0x80]"
    by (auto simp: low_def intro!: bit_word_eqI) (auto simp: bits)
  have "buf @ [b] = leb128 v"
    using varint_high_leb128 [OF rest h] leb128_four [of v] w by (simp add: pre w_def)
  then show ?thesis
    using False h byte unfolding varint_32_bytes_def low_def [symmetric] high_def [symmetric]
    by (simp add: varint_low_full Let_def)
qed

lemma encode_varint_eq:
  "pb_encode_varint E s v m = pb_write E s (leb128 v) (of_nat (length (leb128 v))) m"
proof (cases "v \<le> 0x7F")
  case True
  then show ?thesis by (simp add: pb_encode_varint_def leb128.simps)
next
  case False
  then show ?thesis
    by (simp add: pb_encode_varint_def pb_encode_varint_32_def varint_32_bytes_leb128 Let_def)
qed

section \<open>Decoding the reference encoding\<close>

lemma leb128_length: "unat v < 2 ^ (7 * n) \<Longrightarrow> 0 < n \<Longrightarrow> length (leb128 v) \<le> n"
proof (induction n arbitrary: v)
  case (Suc n)
  show ?case
  proof (cases "drop_bit 7 v = 0")
    case False
    have "unat (drop_bit 7 v) < 2 ^ (7 * n)"
      using Suc.prems(1) by (simp only: unat_drop_7 mult_Suc_right power_add)
        (simp add: less_mult_imp_div_less mult.commute)
    moreover have "0 < n" using False Suc.prems(1) by (cases n) (auto simp: drop_7_eq_0)
    ultimately have "length (leb128 (drop_bit 7 v)) \<le> n" by (rule Suc.IH)
    with False show ?thesis by (simp add: leb128_rec [of v])
  qed (simp add: leb128_rec [of v])
qed simp

lemma leb128_length_10: "length (leb128 v) \<le> 10"
proof -
  have "unat v < 2 ^ LENGTH(64)" by (rule unsigned_less)
  then show ?thesis by (intro leb128_length) simp_all
qed

text \<open>The bytes of the encoding, as the decoders take them apart.\<close>

lemma last_byte:
  fixes w :: "'a::len word"
  assumes "8 \<le> LENGTH('a)" and "drop_bit 7 w = 0"
  shows "ucast (w AND 0x7F) AND 0x80 = (0 :: pb_byte)"
    and "ucast (ucast (w AND 0x7F) AND 0x7F :: pb_byte) = w"
    and "ucast (ucast (w AND 0x7F) :: pb_byte) = w"
proof -
  have w: "w AND 0x7F = take_bit 7 w" by (simp add: take_bit_eq_mask mask_eq_exp_minus_1)
  have small: "n < 7" if "bit w n" for n
  proof (rule ccontr)
    assume "\<not> n < 7"
    then have "bit (drop_bit 7 w) (n - 7)" using that by (simp add: bit_drop_bit_eq)
    with assms(2) show False by simp
  qed
  show "ucast (w AND 0x7F) AND 0x80 = (0 :: pb_byte)"
    unfolding w by (intro bit_word_eqI) (simp only: bit_and_iff bit_ucast_iff bit_take_bit_iff bit_0x80, auto)
  show "ucast (ucast (w AND 0x7F) AND 0x7F :: pb_byte) = w" "ucast (ucast (w AND 0x7F) :: pb_byte) = w"
    unfolding w by (intro bit_word_eqI; auto simp: bits dest: small)+
qed

lemma more_byte:
  fixes w :: "'a::len word"
  assumes "8 \<le> LENGTH('a)"
  shows "(ucast (w AND 0x7F) OR 0x80) AND 0x80 \<noteq> (0 :: pb_byte)"
    and "ucast ((ucast (w AND 0x7F) OR 0x80) AND 0x7F :: pb_byte) = w AND 0x7F"
proof -
  have w: "w AND 0x7F = take_bit 7 w" by (simp add: take_bit_eq_mask mask_eq_exp_minus_1)
  have "bit ((ucast (w AND 0x7F) OR 0x80) AND (0x80 :: pb_byte)) 7" by (simp add: bits)
  then show "(ucast (w AND 0x7F) OR 0x80) AND 0x80 \<noteq> (0 :: pb_byte)" by auto
  show "ucast ((ucast (w AND 0x7F) OR 0x80) AND 0x7F :: pb_byte) = w AND 0x7F"
    unfolding w using assms by (intro bit_word_eqI) (auto simp: bits)
qed

lemma join_bits:
  fixes w :: "'a::len word"
  shows "(r OR push_bit k (w AND 0x7F)) OR push_bit (k + 7) (drop_bit 7 w) = r OR push_bit k w"
proof -
  have "bit (take_bit 7 w OR push_bit 7 (drop_bit 7 w)) n = bit w n" for n
    by (cases "n < 7") (auto simp: bits dest: bit_beyond)
  then have "take_bit 7 w OR push_bit 7 (drop_bit 7 w) = w" by (intro bit_eqI) simp
  moreover have "w AND 0x7F = take_bit 7 w" by (simp add: take_bit_eq_mask mask_eq_exp_minus_1)
  ultimately have "w = (w AND 0x7F) OR push_bit 7 (drop_bit 7 w)" by simp
  then have "push_bit k w = push_bit k (w AND 0x7F) OR push_bit k (push_bit 7 (drop_bit 7 w))"
    by (metis push_bit_or)
  then show ?thesis by (simp add: or.assoc del: push_bit_and)
qed

lemma varint_loop_leb128:
  assumes "at_bytes s m (leb128 w)" and "k \<le> 63" and "unat w < 2 ^ (64 - k)"
  shows "varint_loop E s r k m = (True, skip_ahead (length (leb128 w)) s, r OR push_bit k w)"
  using assms
proof (induction w arbitrary: s r k rule: leb128.induct)
  case (1 w)
  show ?case
  proof (cases "drop_bit 7 w = 0")
    case True
    have at: "at_bytes s m [ucast (w AND 0x7F)]" using "1.prems"(1) True by (simp add: leb128_rec [of w])
    have top: "ucast (w AND 0x7F) AND 0xFE = (0 :: pb_byte)" if "63 \<le> k"
    proof -
      from that "1.prems" have "w = 0 \<or> w = 1" by (simp add: unat_eq_0 [symmetric] word_unat_eq_iff) arith
      then show ?thesis by auto
    qed
    show ?thesis
      using top last_byte [OF _ True] True
      by (subst varint_loop.simps) (auto simp: readbyte_at [OF at] leb128_rec [of w] Let_def)
  next
    case False
    define b where "b = (ucast (w AND 0x7F) OR 0x80 :: pb_byte)"
    have at: "at_bytes s m (b # leb128 (drop_bit 7 w))"
      using "1.prems"(1) False by (simp add: leb128_rec [of w] b_def)
    have big: "128 \<le> unat w" using False by (simp add: drop_7_eq_0)
    have k: "k + 7 \<le> 63"
    proof (rule ccontr)
      assume "\<not> k + 7 \<le> 63"
      then have "(2::nat) ^ (64 - k) \<le> 2 ^ 7" by (intro power_increasing) auto
      with big "1.prems"(3) show False by simp
    qed
    have "64 - k = 7 + (64 - (k + 7))" using k by simp
    with "1.prems"(3) have w7: "unat (drop_bit 7 w) < 2 ^ (64 - (k + 7))"
      by (simp only: unat_drop_7 power_add) (simp add: less_mult_imp_div_less mult.commute)
    have "\<not> w \<le> 0x7F" using False by (simp add: le_seven)
    from "1.IH" [OF this at_bytes_Cons [OF at] k w7]
    show ?thesis
      using False k more_byte [of w]
      by (subst varint_loop.simps)
        (simp add: readbyte_at [OF at] leb128_rec [of w] b_def [symmetric] Let_def join_bits del: push_bit_and)
  qed
qed

lemma decode_varint_at:
  assumes "at_bytes s m (leb128 w)"
  shows "pb_decode_varint E s m = (True, skip_ahead (length (leb128 w)) s, w)"
proof -
  have "unat w < 2 ^ LENGTH(64)" by (rule unsigned_less)
  with varint_loop_leb128 [OF assms, of 0 E 0] show ?thesis by (simp add: pb_decode_varint_def)
qed

text \<open>Values of 32 bits, as tags and lengths are.\<close>

lemma leb128_32:
  fixes w :: "32 word"
  shows "leb128 (ucast w) = (if drop_bit 7 w = 0 then [ucast (w AND 0x7F)]
           else (ucast (w AND 0x7F) OR 0x80) # leb128 (ucast (drop_bit 7 w)))"
  by (simp add: leb128_rec [of "ucast w"] ucast_drop ucast_low ucast_32_eq_0)

lemma low_nibble_byte:
  fixes w :: "32 word"
  assumes "unat w < 16"
  shows "ucast (w AND 0x7F) AND 0x70 = (0 :: pb_byte)"
    and "ucast (ucast (w AND 0x7F) AND 0x0F :: pb_byte) = w"
proof -
  have small: "bit w n \<Longrightarrow> n < 4" for n by (rule bit_below [of w 4]) (use assms in simp_all)
  have masks: "(0x70 :: pb_byte) = push_bit 4 (mask 3)" "(0x0F :: pb_byte) = mask 4"
    by (simp_all add: push_bit_eq_mult mask_eq_exp_minus_1)
  show "ucast (w AND 0x7F) AND 0x70 = (0 :: pb_byte)"
    unfolding masks by (rule bit_word_eqI) (simp only: bits bit_mask_iff bit_0_eq bot_apply, auto dest: small)
  show "ucast (ucast (w AND 0x7F) AND 0x0F :: pb_byte) = w"
    unfolding masks by (rule bit_word_eqI) (simp only: bits bit_mask_iff, auto dest: small)
qed

lemma varint32_loop_leb128:
  assumes "at_bytes s m (leb128 (ucast w))" and "7 dvd k" and "k \<le> 28" and "unat w < 2 ^ (32 - k)"
  shows "varint32_loop E s r k m = (True, skip_ahead (length (leb128 (ucast w))) s, r OR push_bit k w)"
  using assms
proof (induction "unat w" arbitrary: s r k w rule: less_induct)
  case less
  have k: "k = 28 \<or> k + 7 \<le> 28" using less.prems(2,3) by (auto elim!: dvdE)
  show ?case
  proof (cases "drop_bit 7 w = 0")
    case True
    have at: "at_bytes s m [ucast (w AND 0x7F)]" using less.prems(1) True by (simp add: leb128_32 [of w])
    have top: "ucast (w AND 0x7F) AND 0x70 = (0 :: pb_byte)"
      "ucast (ucast (w AND 0x7F) AND 0x0F :: pb_byte) = w" if "k = 28"
      using low_nibble_byte [of w] that less.prems(4) by simp_all
    show ?thesis
      using top last_byte [OF _ True] True k
      by (subst varint32_loop.simps) (auto simp: readbyte_at [OF at] leb128_32 [of w] Let_def)
  next
    case False
    define b where "b = (ucast (w AND 0x7F) OR 0x80 :: pb_byte)"
    have at: "at_bytes s m (b # leb128 (ucast (drop_bit 7 w)))"
      using less.prems(1) False by (simp add: leb128_32 [of w] b_def)
    have big: "128 \<le> unat w" using False by (simp add: drop_7_eq_0)
    have k7: "k + 7 \<le> 28" using k big less.prems(4) by auto
    have "32 - k = 7 + (32 - (k + 7))" using k7 by simp
    with less.prems(4) have w7: "unat (drop_bit 7 w) < 2 ^ (32 - (k + 7))"
      by (simp only: unat_drop_7 power_add) (simp add: less_mult_imp_div_less mult.commute)
    have "unat (drop_bit 7 w) < unat w" "7 dvd k + 7" using big less.prems(2) by (auto simp: unat_drop_7)
    from less.hyps [OF this(1) at_bytes_Cons [OF at] this(2) k7 w7]
    show ?thesis
      using False k7 more_byte [of w]
      by (subst varint32_loop.simps)
        (simp add: readbyte_at [OF at] leb128_32 [of w] b_def [symmetric] Let_def join_bits del: push_bit_and)
  qed
qed

lemma decode_varint32_at:
  fixes w :: "32 word"
  assumes "at_bytes s m (leb128 (ucast w))"
  shows "pb_decode_varint32 E s m = (True, skip_ahead (length (leb128 (ucast w))) s, w)"
proof (cases "drop_bit 7 w = 0")
  case True
  have at: "at_bytes s m [ucast (w AND 0x7F)]" using assms True by (simp add: leb128_32 [of w])
  show ?thesis
    using last_byte [OF _ True] True
    by (simp add: pb_decode_varint32_def readbyte_at [OF at] leb128_32 [of w])
next
  case False
  define b where "b = (ucast (w AND 0x7F) OR 0x80 :: pb_byte)"
  have at: "at_bytes s m (b # leb128 (ucast (drop_bit 7 w)))"
    using assms False by (simp add: leb128_32 [of w] b_def)
  have "unat w < 2 ^ LENGTH(32)" by (rule unsigned_less)
  then have w7: "unat (drop_bit 7 w) < 2 ^ (32 - 7)"
    by (simp add: unat_drop_7 less_mult_imp_div_less)
  have "varint32_loop E (skip_ahead 1 s) (w AND 0x7F) 7 m =
      (True, skip_ahead (Suc (length (leb128 (ucast (drop_bit 7 w))))) s, w)"
    using varint32_loop_leb128 [OF at_bytes_Cons [OF at] _ _ w7, of E "w AND 0x7F"]
      join_bits [of 0 0 w] by simp
  then show ?thesis
    using False more_byte [of w]
    by (simp add: pb_decode_varint32_def readbyte_at [OF at] leb128_32 [of w] b_def [symmetric])
qed

section \<open>Writing to a buffer\<close>

definition wrote :: "nat \<Rightarrow> pb_ostream \<Rightarrow> pb_ostream" where
  "wrote n s = s\<lparr>os_state := os_state s + n, bytes_written := bytes_written s + of_nat n\<rparr>"

text \<open>A stream into a buffer with room for \<open>n\<close> more bytes.\<close>

definition has_room :: "pb_ostream \<Rightarrow> nat \<Rightarrow> bool" where
  "has_room s n \<longleftrightarrow> os_callback s = Buffer_callback \<and> unat (bytes_written s) + n \<le> unat (max_size s)"

lemma wrote_0 [simp]: "wrote 0 s = s"
  by (simp add: wrote_def)

lemma wrote_add [simp]: "wrote a (wrote b s) = wrote (b + a) s"
  by (simp add: wrote_def algebra_simps)

lemma wrote_simps [simp]:
  "os_state (wrote n s) = os_state s + n" "os_callback (wrote n s) = os_callback s"
  "max_size (wrote n s) = max_size s" "os_errmsg (wrote n s) = os_errmsg s"
  by (simp_all add: wrote_def)

lemma has_room_lt: "has_room s n \<Longrightarrow> n < 2 ^ 64"
proof -
  assume "has_room s n"
  moreover have "unat (max_size s) < 2 ^ LENGTH(64)" by (rule unsigned_less)
  ultimately show ?thesis by (simp add: has_room_def)
qed

lemma has_room_mono: "has_room s n \<Longrightarrow> k \<le> n \<Longrightarrow> has_room s k"
  by (simp add: has_room_def)

lemma wrote_bytes: "has_room s n \<Longrightarrow> unat (bytes_written (wrote n s)) = unat (bytes_written s) + n"
proof -
  assume r: "has_room s n"
  moreover have "unat (max_size s) < 2 ^ LENGTH(64)" by (rule unsigned_less)
  ultimately have "unat (bytes_written s) + n < 2 ^ LENGTH(64)" by (simp add: has_room_def)
  then show ?thesis
    using has_room_lt [OF r] by (simp add: wrote_def unat_word_ariths unat_of_size)
qed

lemma has_room_wrote: "has_room s (n + k) \<Longrightarrow> has_room (wrote n s) k"
  using wrote_bytes [OF has_room_mono, of s "n + k" n] by (simp add: has_room_def)

lemma pb_write_room:
  assumes "has_room s (length bs)" and n: "n = of_nat (length bs)"
  shows "pb_write E s bs n m = (True, wrote (length bs) s, store_bytes m (os_state s) bs)"
proof (cases "bs = []")
  case False
  have len: "unat n = length bs" using has_room_lt [OF assms(1)] by (simp add: n unat_of_size)
  have sum: "unat (bytes_written s + n) = unat (bytes_written s) + length bs"
    using wrote_bytes [OF assms(1)] by (simp add: wrote_def n)
  have "0 < n" using False len by (simp add: word_less_nat_alt)
  moreover have "\<not> bytes_written s + n < bytes_written s" "\<not> bytes_written s + n > max_size s"
    using sum assms(1) by (simp_all add: word_less_nat_alt has_room_def)
  ultimately show ?thesis
    using assms(1) len
    by (simp add: pb_write_def call_write_def buf_write_def Let_def has_room_def wrote_def n)
qed (simp add: pb_write_def n)

lemma encode_varint_room:
  assumes "has_room s (length (leb128 v))"
  shows "pb_encode_varint E s v m =
    (True, wrote (length (leb128 v)) s, store_bytes m (os_state s) (leb128 v))"
  using pb_write_room [OF assms refl] by (simp add: encode_varint_eq)

text \<open>A stream over bytes that were just stored.\<close>

lemma at_bytes_from_buffer:
  assumes "load_bytes m a (length bs) = bs" and "length bs \<le> unat n"
  shows "at_bytes (pb_istream_from_buffer a n) m bs"
  using assms by (simp add: at_bytes_def pb_istream_from_buffer_def)

section \<open>Zig-zag\<close>

lemma bit_63_iff: "v <s (0 :: 64 word) \<longleftrightarrow> bit v 63"
  using bit_last_iff [of v] by (simp add: word_sless_alt)

lemma unzigzag_zigzag [simp]: "unzigzag (zigzag v) = v"
proof (cases "bit v 63")
  case True
  have m: "drop_bit 1 (- 1) = (mask 63 :: 64 word)"
    by (intro bit_word_eqI) (simp add: bit_drop_bit_eq bit_mask_iff)
  have z: "zigzag v = NOT (push_bit 1 (v AND mask 63))" using True by (simp add: zigzag_def bit_63_iff m)
  have "bit (zigzag v AND 1) 0" unfolding z
    by (simp only: bit_and_iff bit_not_iff bit_push_bit_iff bit_1_iff possible_bit_word) simp
  then have "zigzag v AND 1 \<noteq> 0" by auto
  then have u: "unzigzag (zigzag v) = NOT (drop_bit 1 (zigzag v))" by (simp add: unzigzag_def)
  have bz: "bit (zigzag v) k \<longleftrightarrow> k < 64 \<and> \<not> (1 \<le> k \<and> bit v (k - 1) \<and> k - 1 < 63)" for k
    unfolding z by (simp only: bit_not_iff bit_push_bit_iff bit_and_iff bit_mask_iff possible_bit_word) auto
  show ?thesis
  proof (rule bit_word_eqI)
    fix n assume "n < LENGTH(64)"
    then show "bit (unzigzag (zigzag v)) n = bit v n"
      using True unfolding u by (cases "n = 63")
        (simp_all only: bit_not_iff bit_drop_bit_eq o_apply bz possible_bit_word, auto)
  qed
next
  case False
  have z: "zigzag v = push_bit 1 v" using False by (simp add: zigzag_def bit_63_iff)
  have "zigzag v AND 1 = 0" unfolding z
    by (intro bit_word_eqI) (simp only: bit_and_iff bit_push_bit_iff bit_1_iff, simp)
  moreover have "n < 63" if "n < 64" "bit v n" for n using that False by (cases "n = 63") auto
  ultimately show ?thesis
    unfolding unzigzag_def z
    by (intro bit_word_eqI) (simp only: if_not_P simp_thms bit_drop_bit_eq bit_push_bit_iff o_apply, auto)
qed

section \<open>Properties\<close>

text \<open>
  Property C29. The encoder of variable-length integers, which works on two 32-bit halves in two
  loops with a byte carried between them, writes exactly the base-128 encoding of the 64-bit
  value, for every stream and every value; the encoding never needs more than ten bytes, the size
  of the local array of the function.
\<close>

theorem varint_writes_leb128:
  "pb_encode_varint E s v m = pb_write E s (leb128 v) (of_nat (length (leb128 v))) m
   \<and> length (varint_32_bytes (ucast v) (ucast (drop_bit 32 v))) \<le> 10"
  by (simp add: encode_varint_eq varint_32_bytes_leb128 leb128_length_10)

text \<open>
  Integers survive the wire: if a buffer has room for ten more bytes, the plain and
  the zig-zag encoder succeed, and the matching decoder, run on exactly the bytes written,
  succeeds, returns the value and leaves nothing over; the 32-bit decoder used for tags and
  lengths agrees on values that fit.
\<close>

theorem integer_roundtrip:
  assumes "has_room s 10"
  shows "(\<exists>s' m'. pb_encode_varint E s v m = (True, s', m')
      \<and> (\<exists>t. pb_decode_varint E (pb_istream_from_buffer (os_state s) (bytes_written s' - bytes_written s)) m'
               = (True, t, v) \<and> bytes_left t = 0))
    \<and> (\<exists>s' m'. pb_encode_svarint E s v m = (True, s', m')
      \<and> (\<exists>t. pb_decode_svarint E (pb_istream_from_buffer (os_state s) (bytes_written s' - bytes_written s)) m'
               = (True, t, v) \<and> bytes_left t = 0))
    \<and> (\<exists>s' m'. pb_encode_varint E s (ucast (w :: 32 word)) m = (True, s', m')
      \<and> (\<exists>t. pb_decode_varint32 E (pb_istream_from_buffer (os_state s) (bytes_written s' - bytes_written s)) m'
               = (True, t, w) \<and> bytes_left t = 0))"
proof (intro conjI)
  have wr: "pb_encode_varint E s x m =
      (True, wrote (length (leb128 x)) s, store_bytes m (os_state s) (leb128 x))" for x
    by (rule encode_varint_room [OF has_room_mono [OF assms leb128_length_10]])
  have len: "bytes_written (wrote (length (leb128 x)) s) - bytes_written s = of_nat (length (leb128 x))" for x
    by (simp add: wrote_def)
  have size: "unat (of_nat (length (leb128 x)) :: size_t) = length (leb128 x)" for x
    using leb128_length_10 [of x] by (intro unat_of_size) simp
  have at: "at_bytes (pb_istream_from_buffer (os_state s) (of_nat (length (leb128 x))))
      (store_bytes m (os_state s) (leb128 x)) (leb128 x)" for x
    by (rule at_bytes_from_buffer) (simp_all add: size)
  have left: "bytes_left (skip_ahead n (pb_istream_from_buffer a (of_nat n))) = 0" for n a
    by (simp add: skip_ahead_def pb_istream_from_buffer_def)
  show "\<exists>s' m'. pb_encode_varint E s v m = (True, s', m')
      \<and> (\<exists>t. pb_decode_varint E (pb_istream_from_buffer (os_state s) (bytes_written s' - bytes_written s)) m'
               = (True, t, v) \<and> bytes_left t = 0)"
    by (simp add: wr len decode_varint_at [OF at] left)
  show "\<exists>s' m'. pb_encode_svarint E s v m = (True, s', m')
      \<and> (\<exists>t. pb_decode_svarint E (pb_istream_from_buffer (os_state s) (bytes_written s' - bytes_written s)) m'
               = (True, t, v) \<and> bytes_left t = 0)"
    by (simp add: pb_encode_svarint_def pb_decode_svarint_def wr len decode_varint_at [OF at] left)
  show "\<exists>s' m'. pb_encode_varint E s (ucast w) m = (True, s', m')
      \<and> (\<exists>t. pb_decode_varint32 E (pb_istream_from_buffer (os_state s) (bytes_written s' - bytes_written s)) m'
               = (True, t, w) \<and> bytes_left t = 0)"
    by (simp add: wr len decode_varint32_at [OF at] left)
qed

text \<open>A descriptor without fields; nothing in the round trip looks at it.\<close>

definition no_fields :: pb_msgdesc where
  "no_fields =
     \<lparr>field_info = [0], submsg_info = [0], default_value = 0, field_callback = None, field_count = 0,
      required_field_count = 0, largest_tag = 0\<rparr>"

theorem integer_roundtrip_witness:
  "\<exists>s' m'. pb_encode_svarint (no_user_code (\<lambda>_. no_fields)) (pb_ostream_from_buffer 100 16) (- 1234567) (\<lambda>_. 0) = (True, s', m')
      \<and> (\<exists>t. pb_decode_svarint (no_user_code (\<lambda>_. no_fields)) (pb_istream_from_buffer (os_state (pb_ostream_from_buffer 100 16))
              (bytes_written s' - bytes_written (pb_ostream_from_buffer 100 16))) m'
               = (True, t, - 1234567) \<and> bytes_left t = 0)"
  by (rule integer_roundtrip [THEN conjunct2, THEN conjunct1]) (simp add: has_room_def pb_ostream_from_buffer_def)

end
