(* ===== verification/PbBind.thy ===== *)
theory PbBind
  imports PbCommon
begin

text \<open>
  The macros of \<open>libs/msg/nanopb/pb.h\<close> that turn the list of a message's fields into its descriptor
  (\<open>PB_BIND\<close> and what it expands to), and the proof that the field iterator of \<open>PbCommon\<close> reads back
  from the packed words exactly what the macros put in.
\<close>

section \<open>Descriptor words\<close>

text \<open>The widths that \<open>PB_FIELDINFO_ASSERT_n\<close> demands of a field.\<close>

definition PB_FITS :: "32 word \<Rightarrow> nat \<Rightarrow> bool" where "PB_FITS value bits \<longleftrightarrow> unat value < 2 ^ bits"

lemma PB_FITS_bit: "PB_FITS v k \<Longrightarrow> bit v n \<Longrightarrow> n < k"
  unfolding PB_FITS_def by (rule bit_below)

lemma mask32:
  "(v :: 32 word) AND 3 = take_bit 2 v" "v AND 0x0F = take_bit 4 v" "v AND 0x3F = take_bit 6 v"
  "v AND 0xFF = take_bit 8 v" "v AND 0xFFF = take_bit 12 v" "v AND 0xFFFF = take_bit 16 v"
  by (simp_all add: take_bit_eq_mask mask_eq_exp_minus_1)

lemma bit_0x3c0: "bit (0x3c0 :: 32 word) n \<longleftrightarrow> 6 \<le> n \<and> n < 10"
proof -
  have "(0x3c0 :: 32 word) = push_bit 6 (mask 4)" by (simp add: push_bit_eq_mult mask_eq_exp_minus_1)
  then show ?thesis by (simp only: bit_push_bit_iff bit_mask_iff) auto
qed

lemma bit_0xFFFFFF00: "bit (0xFFFFFF00 :: 32 word) n \<longleftrightarrow> 8 \<le> n \<and> n < 32"
proof -
  have "(0xFFFFFF00 :: 32 word) = push_bit 8 (mask 24)" by (simp add: push_bit_eq_mult mask_eq_exp_minus_1)
  then show ?thesis by (simp only: bit_push_bit_iff bit_mask_iff) auto
qed

lemma bit_123: "bit (1 :: 32 word) n \<longleftrightarrow> n = 0" "bit (2 :: 32 word) n \<longleftrightarrow> n = 1"
  "bit (3 :: 32 word) n \<longleftrightarrow> n < 2"
proof -
  show "bit (1 :: 32 word) n \<longleftrightarrow> n = 0" by (simp add: bit_1_iff)
  have "(2 :: 32 word) = push_bit 1 1" by simp
  then show "bit (2 :: 32 word) n \<longleftrightarrow> n = 1" by (simp only: bit_push_bit_iff bit_1_iff) auto
  have "(3 :: 32 word) = mask 2" by (simp add: mask_eq_exp_minus_1)
  then show "bit (3 :: 32 word) n \<longleftrightarrow> n < 2" by (simp only: bit_mask_iff) auto
qed

lemmas info_bits = bit_or_iff bit_and_iff bit_push_bit_iff bit_drop_bit_eq bit_take_bit_iff
  bit_ucast_iff bit_0x3c0 bit_0xFFFFFF00 bit_123 o_apply bit_0_eq bot_apply

lemma format_1:
  fixes asz :: "32 word"
  assumes fits: "PB_FITS tg 6" "PB_FITS ty 8" "PB_FITS off 8" "PB_FITS soff 4" "PB_FITS dsz 4"
  defines "w \<equiv> (\<lambda>i. PB_FIELDINFO_1 tg ty off dsz soff asz ! i)"
  shows "unpack_field_info w = (1, ucast tg, ucast soff, off, ucast dsz)"
    and "ucast (drop_bit 8 (w 0) AND 0xFF) = (ucast ty :: pb_type)"
    and "drop_bit 2 (w 0) AND 0x3F = tg" and "w 0 AND 3 = 0"
proof -
  have w: "w 0 = take_bit 8 (push_bit 2 tg) OR push_bit 8 ty OR push_bit 16 (take_bit 8 off)
      OR push_bit 24 (take_bit 4 soff) OR push_bit 28 (take_bit 4 dsz)"
    by (simp add: w_def PB_FIELDINFO_1_def mask32)
  note b = fits [THEN PB_FITS_bit]
  show fmt: "w 0 AND 3 = 0"
    unfolding mask32 w by (rule bit_word_eqI) (simp only: info_bits, auto)
  show tag: "drop_bit 2 (w 0) AND 0x3F = tg"
    unfolding mask32 w by (rule bit_word_eqI) (simp only: info_bits, auto dest: b)
  show "ucast (drop_bit 8 (w 0) AND 0xFF) = (ucast ty :: pb_type)"
    unfolding mask32 w by (rule bit_word_eqI) (simp only: info_bits, auto dest: b)
  have "drop_bit 16 (w 0) AND 0xFF = off"
    unfolding mask32 w by (rule bit_word_eqI) (simp only: info_bits, auto dest: b)
  moreover have "drop_bit 24 (w 0) AND 0x0F = soff"
    unfolding mask32 w by (rule bit_word_eqI) (simp only: info_bits, auto dest: b)
  moreover have "drop_bit 28 (w 0) AND 0x0F = dsz"
    unfolding mask32 w by (rule bit_word_eqI) (simp only: info_bits, auto dest: b)
  ultimately show "unpack_field_info w = (1, ucast tg, ucast soff, off, ucast dsz)"
    using fmt tag by (simp add: unpack_field_info_def Let_def)
qed

lemma format_2:
  assumes fits: "PB_FITS tg 10" "PB_FITS ty 8" "PB_FITS off 16" "PB_FITS soff 4" "PB_FITS dsz 12" "PB_FITS asz 12"
  defines "w \<equiv> (\<lambda>i. PB_FIELDINFO_2 tg ty off dsz soff asz ! i)"
  shows "unpack_field_info w = (ucast asz, ucast tg, ucast soff, off, ucast dsz)"
    and "ucast (drop_bit 8 (w 0) AND 0xFF) = (ucast ty :: pb_type)" and "w 0 AND 3 = 1"
proof -
  have w: "w 0 = 1 OR take_bit 8 (push_bit 2 tg) OR push_bit 8 ty OR push_bit 16 (take_bit 12 asz)
      OR push_bit 28 (take_bit 4 soff)"
    "w 1 = take_bit 16 off OR push_bit 16 (take_bit 12 dsz) OR push_bit 22 (tg AND 0x3c0)"
    by (simp_all add: w_def PB_FIELDINFO_2_def mask32)
  note b = fits [THEN PB_FITS_bit]
  show fmt: "w 0 AND 3 = 1" unfolding mask32 w by (rule bit_word_eqI) (simp only: info_bits, auto)
  moreover have "(drop_bit 2 (w 0) AND 0x3F) OR push_bit 6 (drop_bit 28 (w 1)) = tg"
    unfolding mask32 w by (rule bit_word_eqI) (simp only: info_bits, auto dest: b)
  moreover have "drop_bit 16 (w 0) AND 0x0FFF = asz"
    unfolding mask32 w by (rule bit_word_eqI) (simp only: info_bits, auto dest: b)
  moreover have "drop_bit 28 (w 0) AND 0x0F = soff"
    unfolding mask32 w by (rule bit_word_eqI) (simp only: info_bits, auto dest: b)
  moreover have "w 1 AND 0xFFFF = off"
    unfolding mask32 w by (rule bit_word_eqI) (simp only: info_bits, auto dest: b)
  moreover have "drop_bit 16 (w 1) AND 0x0FFF = dsz"
    unfolding mask32 w by (rule bit_word_eqI) (simp only: info_bits, auto dest: b)
  ultimately show "unpack_field_info w = (ucast asz, ucast tg, ucast soff, off, ucast dsz)"
    by (simp add: unpack_field_info_def Let_def)
  show "ucast (drop_bit 8 (w 0) AND 0xFF) = (ucast ty :: pb_type)"
    unfolding mask32 w by (rule bit_word_eqI) (simp only: info_bits, auto dest: b)
qed

lemma format_48_tag:
  assumes "PB_FITS tg 16" and "w 0 = f OR take_bit 8 (push_bit 2 tg) OR push_bit 8 ty OR push_bit 16 (take_bit 16 asz)"
    and "f = 2 \<or> f = 3" and "w 1 = soff OR (push_bit 2 tg AND 0xFFFFFF00)" and "PB_FITS soff 8" and "PB_FITS ty 8"
  shows "(drop_bit 2 (w 0) AND 0x3F) OR push_bit 6 (drop_bit 8 (w 1)) = tg"
    and "w 0 AND 3 = f" and "w 1 AND 0xFF = soff"
    and "ucast (drop_bit 8 (w 0) AND 0xFF) = (ucast ty :: pb_type)"
    and "drop_bit 16 (w 0) AND 0xFFFF = take_bit 16 asz"
proof -
  note b = assms(1,5,6) [THEN PB_FITS_bit]
  note w = assms(2,4)
  show "(drop_bit 2 (w 0) AND 0x3F) OR push_bit 6 (drop_bit 8 (w 1)) = tg"
    unfolding mask32 w using assms(3)
    by (elim disjE) (rule bit_word_eqI; simp only: info_bits; auto dest: b)+
  show "w 0 AND 3 = f"
    unfolding mask32 w using assms(3) by (elim disjE) (rule bit_word_eqI; simp only: info_bits; auto)+
  show "w 1 AND 0xFF = soff"
    unfolding mask32 w by (rule bit_word_eqI) (simp only: info_bits, auto dest: b)
  show "ucast (drop_bit 8 (w 0) AND 0xFF) = (ucast ty :: pb_type)"
    unfolding mask32 w using assms(3) by (elim disjE) (rule bit_word_eqI; simp only: info_bits; auto dest: b)+
  show "drop_bit 16 (w 0) AND 0xFFFF = take_bit 16 asz"
    unfolding mask32 w using assms(3) by (elim disjE) (rule bit_word_eqI; simp only: info_bits; auto dest: b)+
qed

lemma ucast_scast_8: "ucast (scast (v :: 8 word) :: 32 word) = v"
proof -
  have "(ucast :: 32 word \<Rightarrow> 8 word) = scast" by (rule down_cast_same) (simp add: is_down)
  then show ?thesis by (simp add: scast_up_scast_id is_up)
qed

lemma format_4:
  fixes off dsz asz :: "32 word"
  assumes "PB_FITS tg 16" "PB_FITS ty 8" "PB_FITS (scast (ucast soff :: 8 word)) 8"
  defines "w \<equiv> (\<lambda>i. PB_FIELDINFO_4 tg ty off dsz soff asz ! i)"
  shows "unpack_field_info w = (ucast asz, ucast tg, ucast soff, off, ucast dsz)"
    and "ucast (drop_bit 8 (w 0) AND 0xFF) = (ucast ty :: pb_type)" and "w 0 AND 3 = 2"
proof -
  note t = format_48_tag [of tg w 2 ty asz "scast (ucast soff :: 8 word)", OF assms(1) _ _ _ assms(3,2)]
  have w: "w 0 = 2 OR take_bit 8 (push_bit 2 tg) OR push_bit 8 ty OR push_bit 16 (take_bit 16 asz)"
    "w 1 = scast (ucast soff :: 8 word) OR (push_bit 2 tg AND 0xFFFFFF00)"
    by (simp_all add: w_def PB_FIELDINFO_4_def mask32)
  have "ucast (drop_bit 16 (w 0)) = (ucast asz :: pb_size)"
  proof -
    have "ucast (drop_bit 16 (w 0)) = (ucast (drop_bit 16 (w 0) AND 0xFFFF) :: pb_size)"
      unfolding mask32 by (rule bit_word_eqI) (simp only: info_bits, auto)
    also have "\<dots> = ucast asz"
      unfolding t(5) [OF w(1) _ w(2), simplified] by (rule bit_word_eqI) (simp only: info_bits, auto)
    finally show ?thesis .
  qed
  moreover have "ucast (scast (ucast soff :: 8 word) :: 32 word) = (ucast soff :: 8 word)"
    by (rule ucast_scast_8)
  ultimately show "unpack_field_info w = (ucast asz, ucast tg, ucast soff, off, ucast dsz)"
    using t [OF w(1) _ w(2)] by (simp add: unpack_field_info_def Let_def w_def PB_FIELDINFO_4_def)
  show "ucast (drop_bit 8 (w 0) AND 0xFF) = (ucast ty :: pb_type)" "w 0 AND 3 = 2"
    using t [OF w(1) _ w(2)] by simp_all
qed

lemma format_8:
  fixes off dsz asz :: "32 word"
  assumes "PB_FITS tg 16" "PB_FITS ty 8" "PB_FITS (scast (ucast soff :: 8 word)) 8"
  defines "w \<equiv> (\<lambda>i. PB_FIELDINFO_8 tg ty off dsz soff asz ! i)"
  shows "unpack_field_info w = (ucast asz, ucast tg, ucast soff, off, ucast dsz)"
    and "ucast (drop_bit 8 (w 0) AND 0xFF) = (ucast ty :: pb_type)" and "w 0 AND 3 = 3"
proof -
  note t = format_48_tag [of tg w 3 ty 0 "scast (ucast soff :: 8 word)", OF assms(1) _ _ _ assms(3,2)]
  have w: "w 0 = 3 OR take_bit 8 (push_bit 2 tg) OR push_bit 8 ty OR push_bit 16 (take_bit 16 0)"
    "w 1 = scast (ucast soff :: 8 word) OR (push_bit 2 tg AND 0xFFFFFF00)"
    by (simp_all add: w_def PB_FIELDINFO_8_def mask32)
  moreover have "ucast (scast (ucast soff :: 8 word) :: 32 word) = (ucast soff :: 8 word)"
    by (rule ucast_scast_8)
  ultimately show "unpack_field_info w = (ucast asz, ucast tg, ucast soff, off, ucast dsz)"
    using t [OF w(1) _ w(2)] by (simp add: unpack_field_info_def Let_def w_def PB_FIELDINFO_8_def)
  show "ucast (drop_bit 8 (w 0) AND 0xFF) = (ucast ty :: pb_type)" "w 0 AND 3 = 3"
    using t [OF w(1) _ w(2)] by simp_all
qed

section \<open>Binding a message\<close>

text \<open>
  The width of a descriptor is written into the call of \<open>PB_BIND\<close>, or chosen by
  \<open>PB_FIELDINFO_WIDTH_AUTO\<close> for each field from its type.
\<close>

definition PB_FIELDINFO ::
  "nat \<Rightarrow> 32 word \<Rightarrow> 32 word \<Rightarrow> 32 word \<Rightarrow> 32 word \<Rightarrow> 32 word \<Rightarrow> 32 word \<Rightarrow> 32 word list" where
  "PB_FIELDINFO width =
     (if width = 1 then PB_FIELDINFO_1 else if width = 2 then PB_FIELDINFO_2
      else if width = 4 then PB_FIELDINFO_4 else PB_FIELDINFO_8)"

definition PB_FIELDINFO_ASSERT_1 :: "32 word \<Rightarrow> 32 word \<Rightarrow> 32 word \<Rightarrow> 32 word \<Rightarrow> 32 word \<Rightarrow> bool" where
  "PB_FIELDINFO_ASSERT_1 tg off dsz soff asz \<longleftrightarrow>
     PB_FITS tg 6 \<and> PB_FITS off 8 \<and> PB_FITS soff 4 \<and> PB_FITS dsz 4
     \<and> PB_FITS asz 1"

definition PB_FIELDINFO_ASSERT_2 :: "32 word \<Rightarrow> 32 word \<Rightarrow> 32 word \<Rightarrow> 32 word \<Rightarrow> 32 word \<Rightarrow> bool" where
  "PB_FIELDINFO_ASSERT_2 tg off dsz soff asz \<longleftrightarrow>
     PB_FITS tg 10 \<and> PB_FITS off 16 \<and> PB_FITS soff 4 \<and> PB_FITS dsz 12
     \<and> PB_FITS asz 12"

definition PB_FIELDINFO_ASSERT_4 :: "32 word \<Rightarrow> 32 word \<Rightarrow> 32 word \<Rightarrow> 32 word \<Rightarrow> 32 word \<Rightarrow> bool" where
  "PB_FIELDINFO_ASSERT_4 tg off dsz soff asz \<longleftrightarrow>
     PB_FITS tg 16 \<and> PB_FITS off 16 \<and> PB_FITS (scast (ucast soff :: 8 word)) 8
     \<and> PB_FITS dsz 16 \<and> PB_FITS asz 16"

definition PB_FIELDINFO_ASSERT_8 :: "32 word \<Rightarrow> 32 word \<Rightarrow> 32 word \<Rightarrow> 32 word \<Rightarrow> 32 word \<Rightarrow> bool" where
  "PB_FIELDINFO_ASSERT_8 tg off dsz soff asz \<longleftrightarrow>
     PB_FITS tg 16 \<and> PB_FITS off 16 \<and> PB_FITS (scast (ucast soff :: 8 word)) 8
     \<and> PB_FITS dsz 16 \<and> PB_FITS asz 16"

definition PB_FIELDINFO_ASSERT :: "nat \<Rightarrow> 32 word \<Rightarrow> 32 word \<Rightarrow> 32 word \<Rightarrow> 32 word \<Rightarrow> 32 word \<Rightarrow> bool" where
  "PB_FIELDINFO_ASSERT width =
     (if width = 1 then PB_FIELDINFO_ASSERT_1 else if width = 2 then PB_FIELDINFO_ASSERT_2
      else if width = 4 then PB_FIELDINFO_ASSERT_4 else PB_FIELDINFO_ASSERT_8)"

definition PB_FIELDINFO_WIDTH_AUTO :: "pb_type \<Rightarrow> nat" where
  "PB_FIELDINFO_WIDTH_AUTO ty =
     (if PB_ATYPE ty = PB_ATYPE_CALLBACK then 2
      else if PB_HTYPE ty = PB_HTYPE_REPEATED then 2
      else if PB_LTYPE ty = PB_LTYPE_BYTES \<or> PB_LTYPE ty = PB_LTYPE_STRING \<or> PB_LTYPE_IS_SUBMSG ty
              \<or> PB_LTYPE ty = PB_LTYPE_FIXED_LENGTH_BYTES
      then 2 else 1)"

text \<open>
  One line of a \<open>_FIELDLIST\<close>, with what \<open>offsetof\<close> and \<open>sizeof\<close> say about the structure; the
  descriptor pointer is used for submessages only.
\<close>

record pb_bind_field =
  bf_type :: pb_type
  bf_tag :: "32 word"
  bf_data_offset :: "32 word"
  bf_data_size :: "32 word"
  bf_size_offset :: "32 word"
  bf_array_size :: "32 word"
  bf_submsg :: addr

definition PB_GEN_FIELD_INFO :: "(pb_type \<Rightarrow> nat) \<Rightarrow> pb_bind_field \<Rightarrow> 32 word list" where
  "PB_GEN_FIELD_INFO width f =
     PB_FIELDINFO (width (bf_type f)) (bf_tag f) (ucast (bf_type f)) (bf_data_offset f) (bf_data_size f)
       (bf_size_offset f) (bf_array_size f)"

definition PB_GEN_FIELD_INFO_ASSERT :: "(pb_type \<Rightarrow> nat) \<Rightarrow> pb_bind_field \<Rightarrow> bool" where
  "PB_GEN_FIELD_INFO_ASSERT width f =
     PB_FIELDINFO_ASSERT (width (bf_type f)) (bf_tag f) (bf_data_offset f) (bf_data_size f)
       (bf_size_offset f) (bf_array_size f)"

definition PB_GEN_SUBMSG_INFO :: "pb_bind_field \<Rightarrow> addr list" where
  "PB_GEN_SUBMSG_INFO f = (if PB_LTYPE_IS_SUBMSG (bf_type f) then [bf_submsg f] else [])"

definition is_required :: "pb_bind_field \<Rightarrow> bool" where
  "is_required f \<longleftrightarrow> PB_HTYPE (bf_type f) = PB_HTYPE_REQUIRED"

definition PB_BIND ::
  "(pb_type \<Rightarrow> nat) \<Rightarrow> addr \<Rightarrow> field_callback option \<Rightarrow> pb_bind_field list \<Rightarrow> pb_msgdesc" where
  "PB_BIND width dflt callback fs =
     \<lparr>field_info = concat (map (PB_GEN_FIELD_INFO width) fs) @ [0],
      submsg_info = concat (map PB_GEN_SUBMSG_INFO fs) @ [0],
      default_value = dflt, field_callback = callback,
      field_count = of_nat (length fs),
      required_field_count = of_nat (length (filter is_required fs)),
      largest_tag = fold (\<lambda>f n. n * 0 + ucast (bf_tag f)) fs 0\<rparr>"

section \<open>Reading a field back\<close>

lemma unpack_cong:
  assumes "\<And>i. i < push_bit (unat (w 0 AND 3)) 1 \<Longrightarrow> w' i = w i"
  shows "unpack_field_info w' = unpack_field_info w"
proof -
  have 0: "w' 0 = w 0" by (rule assms) simp
  have "unat (w 0 AND 3) < 4"
  proof -
    have "w 0 AND 3 \<le> 3" by (rule word_and_le1)
    then show ?thesis by (simp add: word_le_nat_alt)
  qed
  then have "unat (w 0 AND 3) = 0 \<or> unat (w 0 AND 3) = 1 \<or> unat (w 0 AND 3) = 2 \<or> unat (w 0 AND 3) = 3" by arith
  then have "w 0 AND 3 = 0 \<or> w 0 AND 3 = 1 \<or> w 0 AND 3 = 2 \<or> w 0 AND 3 = 3"
    by (simp add: word_unat_eq_iff)
  then show ?thesis
    using assms by (elim disjE) (simp_all add: unpack_field_info_def 0 Let_def push_bit_eq_mult)
qed

lemma PB_FITS_type: "PB_FITS (ucast (ty :: pb_type)) 8"
proof -
  have "unat ty < 2 ^ LENGTH(8)" by (rule unsigned_less)
  then show ?thesis
    by (simp add: PB_FITS_def unsigned_ucast_eq) (rule le_less_trans [OF take_bit_nat_less_eq_self])
qed

lemma PB_FITS_mono: "PB_FITS v j \<Longrightarrow> j \<le> k \<Longrightarrow> PB_FITS v k"
  unfolding PB_FITS_def by (erule less_le_trans) (simp add: power_increasing)

text \<open>The length of an array is not kept in a descriptor of one word.\<close>

definition bound_array_size :: "(pb_type \<Rightarrow> nat) \<Rightarrow> pb_bind_field \<Rightarrow> pb_size" where
  "bound_array_size width f = (if width (bf_type f) = 1 then 1 else ucast (bf_array_size f))"

lemma field_words:
  assumes "PB_GEN_FIELD_INFO_ASSERT width f"
  defines "ws \<equiv> PB_GEN_FIELD_INFO width f"
  shows "unpack_field_info (\<lambda>i. ws ! i) =
      (bound_array_size width f, ucast (bf_tag f), ucast (bf_size_offset f), bf_data_offset f,
       ucast (bf_data_size f))"
    and "ucast (drop_bit 8 (ws ! 0) AND 0xFF) = bf_type f"
    and "length ws = push_bit (unat (ws ! 0 AND 3)) 1"
proof -
  let ?ty = "ucast (bf_type f) :: 32 word"
  let ?w = "width (bf_type f)"
  note d = ws_def PB_GEN_FIELD_INFO_def PB_FIELDINFO_def bound_array_size_def
  have ty: "ucast ?ty = bf_type f" by (rule bit_word_eqI) (simp add: bit_ucast_iff)
  have "?w = 1 \<or> ?w = 2 \<or> ?w = 4 \<or> ?w \<noteq> 1 \<and> ?w \<noteq> 2 \<and> ?w \<noteq> 4" by auto
  then have "unpack_field_info (\<lambda>i. ws ! i) =
      (bound_array_size width f, ucast (bf_tag f), ucast (bf_size_offset f), bf_data_offset f,
       ucast (bf_data_size f))
    \<and> ucast (drop_bit 8 (ws ! 0) AND 0xFF) = bf_type f
    \<and> length ws = push_bit (unat (ws ! 0 AND 3)) 1"
  proof (elim disjE)
    assume w: "?w = 1"
    then have a: "PB_FIELDINFO_ASSERT_1 (bf_tag f) (bf_data_offset f) (bf_data_size f) (bf_size_offset f) (bf_array_size f)"
      using assms(1) by (simp add: PB_GEN_FIELD_INFO_ASSERT_def PB_FIELDINFO_ASSERT_def)
    note f1 = format_1 [of "bf_tag f" ?ty "bf_data_offset f" "bf_size_offset f" "bf_data_size f" "bf_array_size f"]
    from f1 a w ty PB_FITS_type show ?thesis
      by (simp add: d PB_FIELDINFO_ASSERT_1_def) (simp add: PB_FIELDINFO_1_def)
  next
    assume w: "?w = 2"
    then have a: "PB_FIELDINFO_ASSERT_2 (bf_tag f) (bf_data_offset f) (bf_data_size f) (bf_size_offset f) (bf_array_size f)"
      using assms(1) by (simp add: PB_GEN_FIELD_INFO_ASSERT_def PB_FIELDINFO_ASSERT_def)
    note f2 = format_2 [of "bf_tag f" ?ty "bf_data_offset f" "bf_size_offset f" "bf_data_size f" "bf_array_size f"]
    from f2 a w ty PB_FITS_type show ?thesis
      by (simp add: d PB_FIELDINFO_ASSERT_2_def) (simp add: PB_FIELDINFO_2_def push_bit_eq_mult)
  next
    assume w: "?w = 4"
    then have a: "PB_FIELDINFO_ASSERT_4 (bf_tag f) (bf_data_offset f) (bf_data_size f) (bf_size_offset f) (bf_array_size f)"
      using assms(1) by (simp add: PB_GEN_FIELD_INFO_ASSERT_def PB_FIELDINFO_ASSERT_def)
    note f4 = format_4 [of "bf_tag f" ?ty "bf_size_offset f" "bf_data_offset f" "bf_data_size f" "bf_array_size f"]
    from f4 a w ty PB_FITS_type show ?thesis
      by (simp add: d PB_FIELDINFO_ASSERT_4_def) (simp add: PB_FIELDINFO_4_def push_bit_eq_mult)
  next
    assume w: "?w \<noteq> 1 \<and> ?w \<noteq> 2 \<and> ?w \<noteq> 4"
    then have a: "PB_FIELDINFO_ASSERT_8 (bf_tag f) (bf_data_offset f) (bf_data_size f) (bf_size_offset f) (bf_array_size f)"
      using assms(1) by (simp add: PB_GEN_FIELD_INFO_ASSERT_def PB_FIELDINFO_ASSERT_def)
    note f8 = format_8 [of "bf_tag f" ?ty "bf_size_offset f" "bf_data_offset f" "bf_data_size f" "bf_array_size f"]
    from f8 a w ty PB_FITS_type show ?thesis
      by (simp add: d PB_FIELDINFO_ASSERT_8_def) (simp add: PB_FIELDINFO_8_def push_bit_eq_mult)
  qed
  then show "unpack_field_info (\<lambda>i. ws ! i) =
      (bound_array_size width f, ucast (bf_tag f), ucast (bf_size_offset f), bf_data_offset f,
       ucast (bf_data_size f))"
    and "ucast (drop_bit 8 (ws ! 0) AND 0xFF) = bf_type f"
    and "length ws = push_bit (unat (ws ! 0 AND 3)) 1" by simp_all
qed

lemma field_words_nonempty: "PB_GEN_FIELD_INFO_ASSERT width f \<Longrightarrow> PB_GEN_FIELD_INFO width f \<noteq> []"
  using field_words(3) [of width f] by (auto simp: push_bit_eq_mult)

section \<open>The iterator in closed form\<close>

definition bind_words :: "(pb_type \<Rightarrow> nat) \<Rightarrow> pb_bind_field list \<Rightarrow> 32 word list" where
  "bind_words width fs = concat (map (PB_GEN_FIELD_INFO width) fs)"

text \<open>
  What the static assertions check, and the bound that the 16-bit index of the iterator needs for
  the array of words, its final zero included.
\<close>

definition bind_ok :: "(pb_type \<Rightarrow> nat) \<Rightarrow> pb_bind_field list \<Rightarrow> bool" where
  "bind_ok width fs \<longleftrightarrow>
     list_all (PB_GEN_FIELD_INFO_ASSERT width) fs \<and> length (bind_words width fs) + 1 < 2 ^ 16"

definition bound_iter ::
  "(pb_type \<Rightarrow> nat) \<Rightarrow> mem \<Rightarrow> addr \<Rightarrow> addr \<Rightarrow> pb_bind_field list \<Rightarrow> nat \<Rightarrow> pb_field_iter" where
  "bound_iter width m desc msg fs i =
     (let f = fs ! i
      in set_pointers m (ucast (bf_size_offset f)) (bf_data_offset f)
           \<lparr>descriptor = desc, message = msg, it_index = of_nat i,
            field_info_index = of_nat (length (bind_words width (take i fs))),
            required_field_index = of_nat (length (filter is_required (take i fs))),
            submessage_index = of_nat (length (concat (map PB_GEN_SUBMSG_INFO (take i fs)))),
            tag = ucast (bf_tag f), data_size = ucast (bf_data_size f),
            array_size = bound_array_size width f, ftype = bf_type f,
            pField = 0, pData = 0, pSize = Size_null,
            submsg_desc = (if PB_LTYPE_IS_SUBMSG (bf_type f) then bf_submsg f else 0)\<rparr>)"

lemma unat_of_nat_16: "n < 2 ^ 16 \<Longrightarrow> unat (of_nat n :: pb_size) = n"
  by (simp add: unsigned_of_nat take_bit_nat_eq_self)

lemma bind_words_length: "list_all (PB_GEN_FIELD_INFO_ASSERT width) fs \<Longrightarrow> length fs \<le> length (bind_words width fs)"
proof (induction fs)
  case (Cons f fs)
  then have "1 \<le> length (PB_GEN_FIELD_INFO width f)" using field_words_nonempty [of width f]
    by (cases "PB_GEN_FIELD_INFO width f") auto
  with Cons show ?case unfolding bind_words_def by simp
qed simp

lemma bind_ok_length: "bind_ok width fs \<Longrightarrow> length fs + 1 < 2 ^ 16"
  using bind_words_length by (fastforce simp: bind_ok_def)

lemma bind_words_take: "length (bind_words width (take i fs)) \<le> length (bind_words width fs)"
proof -
  have "bind_words width fs = bind_words width (take i fs) @ bind_words width (drop i fs)"
    unfolding bind_words_def by (metis append_take_drop_id concat_append map_append)
  then show ?thesis by simp
qed

lemma bind_split:
  assumes "i < length fs"
  shows "bind_words width fs =
      bind_words width (take i fs) @ PB_GEN_FIELD_INFO width (fs ! i) @ bind_words width (drop (Suc i) fs)"
proof -
  have "fs = take i fs @ fs ! i # drop (Suc i) fs" using assms by (rule id_take_nth_drop)
  then have "map (PB_GEN_FIELD_INFO width) fs = map (PB_GEN_FIELD_INFO width) (take i fs)
      @ PB_GEN_FIELD_INFO width (fs ! i) # map (PB_GEN_FIELD_INFO width) (drop (Suc i) fs)"
    by (metis list.simps(9) map_append)
  then show ?thesis by (simp add: bind_words_def)
qed

lemma submsgs_split:
  assumes "i < length fs"
  shows "concat (map PB_GEN_SUBMSG_INFO fs) = concat (map PB_GEN_SUBMSG_INFO (take i fs))
      @ PB_GEN_SUBMSG_INFO (fs ! i) @ concat (map PB_GEN_SUBMSG_INFO (drop (Suc i) fs))"
proof -
  have "fs = take i fs @ fs ! i # drop (Suc i) fs" using assms by (rule id_take_nth_drop)
  then have "map PB_GEN_SUBMSG_INFO fs = map PB_GEN_SUBMSG_INFO (take i fs)
      @ PB_GEN_SUBMSG_INFO (fs ! i) # map PB_GEN_SUBMSG_INFO (drop (Suc i) fs)"
    by (metis list.simps(9) map_append)
  then show ?thesis by simp
qed

lemma submsgs_length: "length (concat (map PB_GEN_SUBMSG_INFO (take i fs))) \<le> length fs"
proof -
  have "length (concat (map PB_GEN_SUBMSG_INFO gs)) \<le> length gs" for gs
    by (induction gs) (auto simp: PB_GEN_SUBMSG_INFO_def)
  from this [of "take i fs"] show ?thesis by simp
qed

text \<open>The words at the position of field \<open>i\<close>.\<close>

lemma words_at:
  fixes k :: pb_size
  assumes "bind_ok width fs" and "i < length fs"
    and d: "field_info d = bind_words width fs @ [0]"
    and k: "k = of_nat (length (bind_words width (take i fs)))"
  shows "j < length (PB_GEN_FIELD_INFO width (fs ! i)) \<Longrightarrow>
    field_info d ! (unat k + j) = PB_GEN_FIELD_INFO width (fs ! i) ! j"
proof -
  assume j: "j < length (PB_GEN_FIELD_INFO width (fs ! i))"
  have "length (bind_words width (take i fs)) < 2 ^ 16"
    using bind_words_take [of width i fs] assms(1) by (simp add: bind_ok_def)
  then have "unat k = length (bind_words width (take i fs))" unfolding k by (rule unat_of_nat_16)
  then show ?thesis using j by (simp add: d bind_split [OF assms(2)] nth_append)
qed

lemma set_pointers_submsg: "(set_pointers m o1 o2 it)\<lparr>submsg_desc := x\<rparr> = set_pointers m o1 o2 (it\<lparr>submsg_desc := x\<rparr>)"
  by (simp add: set_pointers_def Let_def)

lemma set_pointers_reset:
  "message it = 0 \<longrightarrow> pData it = 0 \<Longrightarrow>
    set_pointers m o1 o2 it = set_pointers m o1 o2 (it\<lparr>pField := 0, pData := 0, pSize := Size_null\<rparr>)"
  by (cases it) (simp add: set_pointers_def Let_def)

lemma set_pointers_simps [simp]:
  "descriptor (set_pointers m o1 o2 it) = descriptor it" "message (set_pointers m o1 o2 it) = message it"
  "it_index (set_pointers m o1 o2 it) = it_index it" "ftype (set_pointers m o1 o2 it) = ftype it"
  "field_info_index (set_pointers m o1 o2 it) = field_info_index it"
  "required_field_index (set_pointers m o1 o2 it) = required_field_index it"
  "submessage_index (set_pointers m o1 o2 it) = submessage_index it"
  "tag (set_pointers m o1 o2 it) = tag it" "data_size (set_pointers m o1 o2 it) = data_size it"
  "array_size (set_pointers m o1 o2 it) = array_size it"
  "submsg_desc (set_pointers m o1 o2 it) = submsg_desc it"
  by (simp_all add: set_pointers_def Let_def)

lemma set_pointers_null: "message it = 0 \<Longrightarrow> pData (set_pointers m o1 o2 it) = pData it"
  by (simp add: set_pointers_def)

text \<open>An iterator that has been moved to field \<open>i\<close>; the descriptor values are still to be loaded.\<close>

definition moved_to :: "(pb_type \<Rightarrow> nat) \<Rightarrow> addr \<Rightarrow> addr \<Rightarrow> pb_bind_field list \<Rightarrow> nat \<Rightarrow> pb_field_iter \<Rightarrow> bool" where
  "moved_to width desc msg fs i it \<longleftrightarrow>
     descriptor it = desc \<and> message it = msg \<and> it_index it = of_nat i
     \<and> field_info_index it = of_nat (length (bind_words width (take i fs)))
     \<and> required_field_index it = of_nat (length (filter is_required (take i fs)))
     \<and> submessage_index it = of_nat (length (concat (map PB_GEN_SUBMSG_INFO (take i fs))))
     \<and> (msg = 0 \<longrightarrow> pData it = 0)"

definition describes :: "pb_env \<Rightarrow> addr \<Rightarrow> (pb_type \<Rightarrow> nat) \<Rightarrow> pb_bind_field list \<Rightarrow> bool" where
  "describes E desc width fs \<longleftrightarrow>
     bind_ok width fs \<and> (\<exists>dflt cb. desc_at E desc = PB_BIND width dflt cb fs)"

lemma describesD:
  assumes "describes E desc width fs"
  shows "bind_ok width fs" and "field_info (desc_at E desc) = bind_words width fs @ [0]"
    and "unat (field_count (desc_at E desc)) = length fs"
    and "submsg_info (desc_at E desc) = concat (map PB_GEN_SUBMSG_INFO fs) @ [0]"
  using assms bind_ok_length [of width fs]
  by (auto simp: describes_def PB_BIND_def bind_words_def unat_of_nat_16)

lemma load_moved:
  assumes d: "describes E desc width fs" and i: "i < length fs" and it: "moved_to width desc msg fs i it"
  shows "load_descriptor_values E m it = (True, bound_iter width m desc msg fs i)"
proof -
  note D = describesD [OF d]
  let ?f = "fs ! i"
  let ?d = "desc_at E desc"
  let ?w = "\<lambda>j. field_info ?d ! (unat (field_info_index it) + j)"
  have ok: "PB_GEN_FIELD_INFO_ASSERT width ?f"
    using D(1) i by (simp add: bind_ok_def list_all_length)
  have k: "field_info_index it = of_nat (length (bind_words width (take i fs)))"
    using it by (simp add: moved_to_def)
  have len: "length (PB_GEN_FIELD_INFO width ?f) = push_bit (unat (PB_GEN_FIELD_INFO width ?f ! 0 AND 3)) 1"
    by (rule field_words(3) [OF ok])
  have w: "j < length (PB_GEN_FIELD_INFO width ?f) \<Longrightarrow> ?w j = PB_GEN_FIELD_INFO width ?f ! j" for j
    by (rule words_at [OF D(1) i D(2) k])
  have w0: "?w 0 = PB_GEN_FIELD_INFO width ?f ! 0"
    using w [of 0] field_words_nonempty [OF ok] by simp
  have unpack: "unpack_field_info ?w = (bound_array_size width ?f, ucast (bf_tag ?f),
      ucast (bf_size_offset ?f), bf_data_offset ?f, ucast (bf_data_size ?f))"
    unfolding field_words(1) [OF ok, symmetric] by (rule unpack_cong) (simp add: w len)
  have n: "\<not> it_index it \<ge> field_count ?d"
    using it i D(3) bind_ok_length [OF D(1)] unat_of_nat_16 [of i]
    by (simp add: moved_to_def word_le_nat_alt)
  have sub: "submsg_info ?d ! unat (submessage_index it) = bf_submsg ?f" if "PB_LTYPE_IS_SUBMSG (bf_type ?f)"
  proof -
    have "unat (submessage_index it) = length (concat (map PB_GEN_SUBMSG_INFO (take i fs)))"
      using it submsgs_length [of i fs] bind_ok_length [OF D(1)]
      by (simp add: moved_to_def) (rule unat_of_nat_16, simp)
    then show ?thesis
      unfolding D(4) submsgs_split [OF i] using that by (simp add: nth_append PB_GEN_SUBMSG_INFO_def)
  qed
  have "load_descriptor_values E m it = (True, set_pointers m (ucast (bf_size_offset ?f)) (bf_data_offset ?f)
      (it\<lparr>ftype := bf_type ?f, array_size := bound_array_size width ?f, tag := ucast (bf_tag ?f),
         data_size := ucast (bf_data_size ?f),
         submsg_desc := if PB_LTYPE_IS_SUBMSG (bf_type ?f) then bf_submsg ?f else 0\<rparr>))"
    using n unpack w0 field_words(2) [OF ok] sub it
    by (simp add: load_descriptor_values_def Let_def set_pointers_submsg moved_to_def)
  also have "\<dots> = (True, bound_iter width m desc msg fs i)"
    using it by (subst set_pointers_reset)
      (auto simp: bound_iter_def moved_to_def Let_def
        intro!: arg_cong [where f = "set_pointers m o1 o2" for o1 o2] pb_field_iter.equality)
  finally show ?thesis .
qed

lemma bound_iter_simps [simp]:
  "descriptor (bound_iter width m desc msg fs i) = desc" "message (bound_iter width m desc msg fs i) = msg"
  "it_index (bound_iter width m desc msg fs i) = of_nat i"
  "tag (bound_iter width m desc msg fs i) = ucast (bf_tag (fs ! i))"
  "ftype (bound_iter width m desc msg fs i) = bf_type (fs ! i)"
  "data_size (bound_iter width m desc msg fs i) = ucast (bf_data_size (fs ! i))"
  by (simp_all add: bound_iter_def Let_def)

lemma bound_iter_moved: "moved_to width desc msg fs i (bound_iter width m desc msg fs i)"
  by (simp add: moved_to_def bound_iter_def Let_def set_pointers_null)

lemma iter_begin:
  assumes d: "describes E desc width fs"
  shows "pb_field_iter_begin E desc msg m =
    (if fs = [] then (False, zero_iter\<lparr>descriptor := desc, message := msg\<rparr>)
     else (True, bound_iter width m desc msg fs 0))"
proof (cases "fs = []")
  case True
  with describesD(3) [OF d] show ?thesis
    by (simp add: pb_field_iter_begin_def load_descriptor_values_def zero_iter_def unat_eq_0)
next
  case False
  moreover have "moved_to width desc msg fs 0 (zero_iter\<lparr>descriptor := desc, message := msg\<rparr>)"
    by (simp add: moved_to_def zero_iter_def bind_words_def)
  ultimately show ?thesis
    using load_moved [OF d, of 0] by (simp add: pb_field_iter_begin_def)
qed

lemma advance_moved:
  assumes d: "describes E desc width fs" and i: "i < length fs" and it: "moved_to width desc msg fs i it"
  shows "moved_to width desc msg fs (if Suc i < length fs then Suc i else 0) (advance_iterator E it)"
proof -
  note D = describesD [OF d]
  have ok: "PB_GEN_FIELD_INFO_ASSERT width (fs ! i)"
    using D(1) i by (simp add: bind_ok_def list_all_length)
  have "unat (of_nat (Suc i) :: pb_size) = Suc i"
    using i bind_ok_length [OF D(1)] by (intro unat_of_nat_16) simp
  then have last: "it_index it + 1 \<ge> field_count (desc_at E desc) \<longleftrightarrow> \<not> Suc i < length fs"
    using it D(3) by (simp add: moved_to_def word_le_nat_alt add.commute not_less)
  show ?thesis
  proof (cases "Suc i < length fs")
    case False
    with last it show ?thesis
      by (simp add: advance_iterator_def moved_to_def Let_def bind_words_def)
  next
    case True
    have k: "field_info_index it = of_nat (length (bind_words width (take i fs)))"
      using it by (simp add: moved_to_def)
    have w: "field_info (desc_at E desc) ! unat (field_info_index it) = PB_GEN_FIELD_INFO width (fs ! i) ! 0"
      using words_at [OF D(1) i D(2) k, of 0] field_words_nonempty [OF ok] by simp
    have split: "take (Suc i) fs = take i fs @ [fs ! i]" using i by (rule take_Suc_conv_app_nth)
    have len: "push_bit (unat (PB_GEN_FIELD_INFO width (fs ! i) ! 0 AND 3)) 1
        = (of_nat (length (PB_GEN_FIELD_INFO width (fs ! i))) :: pb_size)"
      unfolding field_words(3) [OF ok] by (simp only: push_bit_of_nat [symmetric] of_nat_1)
    show ?thesis
      using last it True w len field_words(2) [OF ok]
      by (auto simp: advance_iterator_def moved_to_def Let_def bind_words_def split is_required_def
          PB_GEN_SUBMSG_INFO_def)
  qed
qed

lemma iter_next:
  assumes "describes E desc width fs" and "i < length fs"
  shows "pb_field_iter_next E m (bound_iter width m' desc msg fs i) =
    (Suc i < length fs, bound_iter width m desc msg fs (if Suc i < length fs then Suc i else 0))"
proof -
  let ?j = "if Suc i < length fs then Suc i else 0"
  have j: "?j < length fs" using assms(2) by auto
  have "load_descriptor_values E m (advance_iterator E (bound_iter width m' desc msg fs i))
      = (True, bound_iter width m desc msg fs ?j)"
    by (rule load_moved [OF assms(1) j advance_moved [OF assms bound_iter_moved]])
  moreover have "of_nat (Suc i) \<noteq> (0 :: pb_size)" if "Suc i < length fs"
    using unat_of_nat_16 [of "Suc i"] that bind_ok_length [OF describesD(1) [OF assms(1)]] by auto
  ultimately show ?thesis by (simp add: pb_field_iter_next_def)
qed

section \<open>Searching by tag\<close>

lemma field_words_tag: "drop_bit 2 (PB_GEN_FIELD_INFO width f ! 0) AND 0x3F = bf_tag f AND 0x3F"
proof -
  have "\<exists>c x. PB_GEN_FIELD_INFO width f ! 0 = c OR take_bit 8 (push_bit 2 (bf_tag f)) OR push_bit 8 x
      \<and> (\<forall>n. bit c n \<longrightarrow> n < 2)"
  proof -
    have "\<exists>c x. PB_FIELDINFO_1 tg ty off dsz soff asz ! 0 = c OR take_bit 8 (push_bit 2 tg) OR push_bit 8 x
      \<and> (\<forall>n. bit c n \<longrightarrow> n < 2)" for tg ty off dsz soff asz
      by (rule exI [of _ 0], rule exI [of _ "ty OR push_bit 8 (take_bit 8 off) OR push_bit 16 (take_bit 4 soff)
          OR push_bit 20 (take_bit 4 dsz)"])
        (simp add: PB_FIELDINFO_1_def mask32 or.assoc push_bit_or)
    moreover have "\<exists>c x. PB_FIELDINFO_2 tg ty off dsz soff asz ! 0 = c OR take_bit 8 (push_bit 2 tg) OR push_bit 8 x
      \<and> (\<forall>n. bit c n \<longrightarrow> n < 2)" for tg ty off dsz soff asz
      by (rule exI [of _ 1], rule exI [of _ "ty OR push_bit 8 (take_bit 12 asz) OR push_bit 20 (take_bit 4 soff)"])
        (simp add: PB_FIELDINFO_2_def mask32 or.assoc push_bit_or bit_1_iff)
    moreover have "\<exists>c x. PB_FIELDINFO_4 tg ty off dsz soff asz ! 0 = c OR take_bit 8 (push_bit 2 tg) OR push_bit 8 x
      \<and> (\<forall>n. bit c n \<longrightarrow> n < 2)" for tg ty off dsz soff asz
      by (rule exI [of _ 2], rule exI [of _ "ty OR push_bit 8 (take_bit 16 asz)"])
        (intro conjI allI impI, simp add: PB_FIELDINFO_4_def mask32 or.assoc push_bit_or, simp only: bit_123)
    moreover have "\<exists>c x. PB_FIELDINFO_8 tg ty off dsz soff asz ! 0 = c OR take_bit 8 (push_bit 2 tg) OR push_bit 8 x
      \<and> (\<forall>n. bit c n \<longrightarrow> n < 2)" for tg ty off dsz soff asz
      by (rule exI [of _ 3], rule exI [of _ "ty"])
        (intro conjI allI impI, simp add: PB_FIELDINFO_8_def mask32 or.assoc, simp only: bit_123)
    ultimately show ?thesis by (simp add: PB_GEN_FIELD_INFO_def PB_FIELDINFO_def)
  qed
  then obtain c x where w: "PB_GEN_FIELD_INFO width f ! 0 = c OR take_bit 8 (push_bit 2 (bf_tag f)) OR push_bit 8 x"
    and c: "\<And>n. bit c n \<Longrightarrow> n < 2" by blast
  show ?thesis unfolding mask32 w by (rule bit_word_eqI) (simp only: info_bits, auto dest: c)
qed

lemma tag_fits_16: "PB_GEN_FIELD_INFO_ASSERT width f \<Longrightarrow> PB_FITS (bf_tag f) 16"
  by (auto simp: PB_GEN_FIELD_INFO_ASSERT_def PB_FIELDINFO_ASSERT_def PB_FIELDINFO_ASSERT_1_def
      PB_FIELDINFO_ASSERT_2_def PB_FIELDINFO_ASSERT_4_def PB_FIELDINFO_ASSERT_8_def
      elim: PB_FITS_mono split: if_splits)

lemma tag_fits:
  assumes "PB_GEN_FIELD_INFO_ASSERT width f"
  shows "ucast (ucast (bf_tag f) :: pb_size) = bf_tag f"
  using PB_FITS_bit [OF tag_fits_16 [OF assms]] by (intro bit_word_eqI) (auto simp: bit_ucast_iff)

text \<open>Messages without extension ranges, their fields sorted by tag, as the generator writes them.\<close>

definition tags_sorted :: "pb_bind_field list \<Rightarrow> bool" where
  "tags_sorted fs \<longleftrightarrow> sorted_wrt (<) (map bf_tag fs) \<and> (\<forall>f\<in>set fs. PB_LTYPE (bf_type f) \<noteq> PB_LTYPE_EXTENSION)"

lemma find_step:
  assumes d: "describes E desc width fs" and k: "k < length fs" and ne: "tags_sorted fs"
    and it: "moved_to width desc msg fs k (advance_iterator E it)"
  shows "bf_tag (fs ! k) = tg \<Longrightarrow> find_loop E m tg start it = Some (True, bound_iter width m desc msg fs k)"
    and "bf_tag (fs ! k) \<noteq> tg \<Longrightarrow> start = of_nat k \<Longrightarrow>
      find_loop E m tg start it = Some (False, bound_iter width m desc msg fs k)"
    and "bf_tag (fs ! k) \<noteq> tg \<Longrightarrow> start \<noteq> of_nat k \<Longrightarrow>
      \<exists>it'. moved_to width desc msg fs k it' \<and> find_loop E m tg start it = find_loop E m tg start it'"
proof -
  note D = describesD [OF d]
  have ok: "PB_GEN_FIELD_INFO_ASSERT width (fs ! k)" using D(1) k by (simp add: bind_ok_def list_all_length)
  have idx: "field_info_index (advance_iterator E it) = of_nat (length (bind_words width (take k fs)))"
    and dd: "descriptor (advance_iterator E it) = desc" and ix: "it_index (advance_iterator E it) = of_nat k"
    using it by (simp_all add: moved_to_def)
  have w: "field_info (desc_at E desc) ! unat (field_info_index (advance_iterator E it))
      = PB_GEN_FIELD_INFO width (fs ! k) ! 0"
    using words_at [OF D(1) k D(2) idx, of 0] field_words_nonempty [OF ok] by simp
  have load: "load_descriptor_values E m' (advance_iterator E it) = (True, bound_iter width m' desc msg fs k)" for m'
    by (rule load_moved [OF d k it])
  have lt: "PB_LTYPE (bf_type (fs ! k)) \<noteq> PB_LTYPE_EXTENSION" using ne k by (simp add: tags_sorted_def)
  show "bf_tag (fs ! k) = tg \<Longrightarrow> find_loop E m tg start it = Some (True, bound_iter width m desc msg fs k)"
    using tag_fits [OF ok] by (subst find_loop.simps) (simp add: Let_def dd w field_words_tag load lt)
  show "bf_tag (fs ! k) \<noteq> tg \<Longrightarrow> start = of_nat k \<Longrightarrow>
      find_loop E m tg start it = Some (False, bound_iter width m desc msg fs k)"
    using load_moved [OF d k bound_iter_moved]
    by (subst find_loop.simps) (simp add: Let_def dd w field_words_tag load tag_fits [OF ok] ix)
  show "bf_tag (fs ! k) \<noteq> tg \<Longrightarrow> start \<noteq> of_nat k \<Longrightarrow>
      \<exists>it'. moved_to width desc msg fs k it' \<and> find_loop E m tg start it = find_loop E m tg start it'"
    using it bound_iter_moved [of width desc msg fs k m]
    by (subst find_loop.simps) (auto simp: Let_def dd w field_words_tag load tag_fits [OF ok] ix)
qed

lemma of_nat_16_eq: "i < 2 ^ 16 \<Longrightarrow> j < 2 ^ 16 \<Longrightarrow> (of_nat i :: pb_size) = of_nat j \<longleftrightarrow> i = j"
  by (metis unat_of_nat_16)

text \<open>One more round of the loop, from field \<open>k\<close> to the next.\<close>

lemma find_advance:
  assumes d: "describes E desc width fs" and "tags_sorted fs" and k: "Suc k < length fs"
    and it: "moved_to width desc msg fs k (advance_iterator E it)"
    and "bf_tag (fs ! k) \<noteq> tg" and "k \<noteq> s" and "s < length fs"
  shows "\<exists>it'. moved_to width desc msg fs (Suc k) (advance_iterator E it')
    \<and> find_loop E m tg (of_nat s) it = find_loop E m tg (of_nat s) it'"
proof -
  have "(of_nat s :: pb_size) \<noteq> of_nat k"
    using bind_ok_length [OF describesD(1) [OF d]] assms(6,7) k by (subst of_nat_16_eq) auto
  with find_step(3) [OF d Suc_lessD [OF k] assms(2) it assms(5)]
  obtain it' where "moved_to width desc msg fs k it'"
    "find_loop E m tg (of_nat s) it = find_loop E m tg (of_nat s) it'" by blast
  then show ?thesis using advance_moved [OF d Suc_lessD [OF k]] k by auto
qed

lemma find_up:
  assumes d: "describes E desc width fs" and ts: "tags_sorted fs" and e: "e < length fs" and s: "s < length fs"
  shows "k \<le> e \<Longrightarrow> moved_to width desc msg fs k (advance_iterator E it)
    \<Longrightarrow> (\<And>x. k \<le> x \<Longrightarrow> x < e \<Longrightarrow> bf_tag (fs ! x) \<noteq> tg \<and> x \<noteq> s)
    \<Longrightarrow> \<exists>it'. moved_to width desc msg fs e (advance_iterator E it')
        \<and> find_loop E m tg (of_nat s) it = find_loop E m tg (of_nat s) it'"
proof (induction "e - k" arbitrary: k it)
  case 0
  then show ?case by auto
next
  case (Suc n)
  then have "k < e" by simp
  with e have k: "Suc k < length fs" by simp
  from find_advance [OF d ts k Suc.prems(2) _ _ s] Suc.prems(3) [of k] \<open>k < e\<close>
  obtain it' where it': "moved_to width desc msg fs (Suc k) (advance_iterator E it')"
    "find_loop E m tg (of_nat s) it = find_loop E m tg (of_nat s) it'" by blast
  with Suc.hyps(1) [of "Suc k" it'] Suc.hyps(2) \<open>k < e\<close> Suc.prems(3) show ?case by auto
qed

lemma find_here:
  assumes "describes E desc width fs" "tags_sorted fs" "e < length fs" "s < length fs"
    and "k \<le> e" and "moved_to width desc msg fs k (advance_iterator E it)"
    and "\<And>x. k \<le> x \<Longrightarrow> x < e \<Longrightarrow> bf_tag (fs ! x) \<noteq> tg \<and> x \<noteq> s"
  shows "bf_tag (fs ! e) = tg \<Longrightarrow>
      find_loop E m tg (of_nat s) it = Some (True, bound_iter width m desc msg fs e)"
    and "bf_tag (fs ! e) \<noteq> tg \<Longrightarrow> e = s \<Longrightarrow>
      find_loop E m tg (of_nat s) it = Some (False, bound_iter width m desc msg fs s)"
  using find_up [OF assms, of m] find_step(1,2) [OF assms(1,3,2)] by metis+

text \<open>From the last field the search wraps around to the first.\<close>

lemma find_wrap:
  assumes d: "describes E desc width fs" and ts: "tags_sorted fs" and s: "s < length fs"
    and k: "k < length fs" "s < k" and it: "moved_to width desc msg fs k (advance_iterator E it)"
    and miss: "\<And>x. k \<le> x \<Longrightarrow> x < length fs \<Longrightarrow> bf_tag (fs ! x) \<noteq> tg"
  shows "\<exists>it'. moved_to width desc msg fs 0 (advance_iterator E it')
        \<and> find_loop E m tg (of_nat s) it = find_loop E m tg (of_nat s) it'"
proof -
  let ?e = "length fs - 1"
  have e: "?e < length fs" "k \<le> ?e" using k by auto
  obtain it1 where it1: "moved_to width desc msg fs ?e (advance_iterator E it1)"
    "find_loop E m tg (of_nat s) it = find_loop E m tg (of_nat s) it1"
    using find_up [OF d ts e(1) s e(2) it, of tg m] miss k by fastforce
  have "(of_nat s :: pb_size) \<noteq> of_nat ?e"
    using bind_ok_length [OF describesD(1) [OF d]] s k by (subst of_nat_16_eq) auto
  with find_step(3) [OF d e(1) ts it1(1)] miss [of ?e] e
  obtain it2 where "moved_to width desc msg fs ?e it2"
    "find_loop E m tg (of_nat s) it1 = find_loop E m tg (of_nat s) it2" by blast
  moreover have "\<not> Suc ?e < length fs" using k by simp
  ultimately show ?thesis using it1(2) advance_moved [OF d e(1), of msg it2] by auto
qed

lemma restart_moved:
  assumes d: "describes E desc width fs" and "fs \<noteq> []" and it: "descriptor it = desc" "message it = msg"
    and null: "msg = 0 \<longrightarrow> pData it = 0"
  shows "moved_to width desc msg fs 0 (advance_iterator E (it\<lparr>it_index := field_count (desc_at E desc)\<rparr>))"
proof -
  note D = describesD [OF d]
  have "unat (field_count (desc_at E desc) + 1) = length fs + 1"
    using D(3) bind_ok_length [OF D(1)] by (simp add: unat_word_ariths)
  then have "field_count (desc_at E desc) + 1 \<ge> field_count (desc_at E desc)"
    using D(3) by (simp add: word_le_nat_alt)
  then show ?thesis
    using it null by (simp add: advance_iterator_def moved_to_def Let_def bind_words_def)
qed

lemma tags_less: "tags_sorted fs \<Longrightarrow> i < j \<Longrightarrow> j < length fs \<Longrightarrow> bf_tag (fs ! i) < bf_tag (fs ! j)"
  unfolding tags_sorted_def by (auto simp: sorted_wrt_iff_nth_less)

lemma tags_eq: "tags_sorted fs \<Longrightarrow> i < length fs \<Longrightarrow> j < length fs \<Longrightarrow> bf_tag (fs ! i) = bf_tag (fs ! j) \<longleftrightarrow> i = j"
  using tags_less [of fs i j] tags_less [of fs j i] by (cases i j rule: linorder_cases) auto

lemma largest_tag_bound:
  assumes d: "describes E desc width fs" and "fs \<noteq> []"
  shows "ucast (largest_tag (desc_at E desc)) = bf_tag (fs ! (length fs - 1))"
proof -
  have "largest_tag (desc_at E desc) = ucast (bf_tag (last fs))"
    using d assms(2) by (cases fs rule: rev_cases) (auto simp: describes_def PB_BIND_def)
  moreover have "PB_GEN_FIELD_INFO_ASSERT width (last fs)"
    using describesD(1) [OF d] assms(2) by (simp add: bind_ok_def list_all_iff)
  ultimately show ?thesis using assms(2) by (simp add: tag_fits last_conv_nth)
qed

lemma find_hit:
  assumes d: "describes E desc width fs" and ts: "tags_sorted fs" and i: "i < length fs"
    and j: "j < length fs" "bf_tag (fs ! j) = tg"
  shows "\<exists>m''. (m'' = m \<or> m'' = m')
    \<and> pb_field_iter_find E m tg (bound_iter width m' desc msg fs i) = Some (True, bound_iter width m'' desc msg fs j)"
proof -
  let ?it = "bound_iter width m' desc msg fs i"
  have ok: "PB_GEN_FIELD_INFO_ASSERT width (fs ! k)" if "k < length fs" for k
    using describesD(1) [OF d] that by (simp add: bind_ok_def list_all_length)
  have tag_it: "ucast (tag ?it) = bf_tag (fs ! i)" using tag_fits [OF ok [OF i]] by simp
  have small: "\<not> tg > ucast (largest_tag (desc_at E desc))"
  proof -
    have "fs \<noteq> []" using i by auto
    moreover have "j < length fs - 1 \<or> j = length fs - 1" using j by auto
    ultimately show ?thesis
      using tags_less [OF ts, of j "length fs - 1"] j by (auto simp: largest_tag_bound [OF d] not_less)
  qed
  consider "j = i" | "j < i" | "i < j" by linarith
  then show ?thesis
  proof cases
    case 1
    then show ?thesis using j tag_it by (auto simp: pb_field_iter_find_def Let_def)
  next
    case 2
    have lt: "tg < bf_tag (fs ! i)" using tags_less [OF ts 2 i] j by simp
    have "moved_to width desc msg fs 0 (advance_iterator E (?it\<lparr>it_index := field_count (desc_at E desc)\<rparr>))"
      using bound_iter_moved [of width desc msg fs i m'] i
      by (intro restart_moved [OF d]) (auto simp: moved_to_def)
    from find_here(1) [OF d ts j(1) i _ this _ j(2), of m] 2 j tags_less [OF ts _ j(1)]
    have "find_loop E m tg (of_nat i) (?it\<lparr>it_index := field_count (desc_at E desc)\<rparr>)
        = Some (True, bound_iter width m desc msg fs j)" by fastforce
    with lt small tag_it show ?thesis by (auto simp: pb_field_iter_find_def Let_def)
  next
    case 3
    have gt: "bf_tag (fs ! i) < tg" using tags_less [OF ts 3 j(1)] j by simp
    have "moved_to width desc msg fs (Suc i) (advance_iterator E ?it)"
      using advance_moved [OF d i bound_iter_moved, of msg m'] 3 j by simp
    from find_here(1) [OF d ts j(1) i _ this _ j(2), of m] 3 j tags_less [OF ts _ j(1)]
    have "find_loop E m tg (of_nat i) ?it = Some (True, bound_iter width m desc msg fs j)" by fastforce
    with gt small tag_it show ?thesis by (auto simp: pb_field_iter_find_def Let_def)
  qed
qed

lemma find_miss:
  assumes d: "describes E desc width fs" and ts: "tags_sorted fs" and i: "i < length fs"
    and miss: "\<forall>j < length fs. bf_tag (fs ! j) \<noteq> tg"
  shows "\<exists>m''. (m'' = m \<or> m'' = m')
    \<and> pb_field_iter_find E m tg (bound_iter width m' desc msg fs i) = Some (False, bound_iter width m'' desc msg fs i)"
proof -
  let ?it = "bound_iter width m' desc msg fs i"
  have "PB_GEN_FIELD_INFO_ASSERT width (fs ! i)"
    using describesD(1) [OF d] i by (simp add: bind_ok_def list_all_length)
  then have tag_it: "ucast (tag ?it) = bf_tag (fs ! i)" using tag_fits by simp
  have ends: "find_loop E m tg (of_nat i) it = Some (False, bound_iter width m desc msg fs i)"
    if "moved_to width desc msg fs 0 (advance_iterator E it)" for it
    using find_here(2) [OF d ts i i _ that _ _ refl, of tg m] miss i by auto
  have "moved_to width desc msg fs 0 (advance_iterator E (?it\<lparr>it_index := field_count (desc_at E desc)\<rparr>))"
    using bound_iter_moved [of width desc msg fs i m'] i
    by (intro restart_moved [OF d]) (auto simp: moved_to_def)
  note down = ends [OF this]
  have up: "find_loop E m tg (of_nat i) ?it = Some (False, bound_iter width m desc msg fs i)"
  proof (cases "Suc i < length fs")
    case True
    then have "moved_to width desc msg fs (Suc i) (advance_iterator E ?it)"
      using advance_moved [OF d i bound_iter_moved, of msg m'] by simp
    from find_wrap [OF d ts i True lessI this] miss ends show ?thesis by metis
  next
    case False
    then show ?thesis using ends advance_moved [OF d i bound_iter_moved, of msg m'] by simp
  qed
  show ?thesis using down up tag_it miss i by (auto simp: pb_field_iter_find_def Let_def)
qed

section \<open>Properties\<close>

text \<open>
  The packed descriptor is read back without loss: for a message bound by \<open>PB_BIND\<close>
  with any width, or the automatic choice of width, whose fields pass the static assertions, the
  iterator starts at the first field, visits every field in order, tells the last one, and at
  field \<open>i\<close> its tag, type, size, descriptor of the submessage and pointer into the structure are the
  ones that were bound.
\<close>

theorem iterator_visits_bound_fields:
  assumes "bind_ok width fs" and "desc_at E desc = PB_BIND width dflt cb fs" and "i < length fs" and "msg \<noteq> 0"
  shows "pb_field_iter_begin E desc msg m = (True, bound_iter width m desc msg fs 0)
    \<and> pb_field_iter_next E m (bound_iter width m desc msg fs i)
        = (Suc i < length fs, bound_iter width m desc msg fs (if Suc i < length fs then Suc i else 0))
    \<and> ucast (tag (bound_iter width m desc msg fs i)) = bf_tag (fs ! i)
    \<and> ftype (bound_iter width m desc msg fs i) = bf_type (fs ! i)
    \<and> data_size (bound_iter width m desc msg fs i) = ucast (bf_data_size (fs ! i))
    \<and> pField (bound_iter width m desc msg fs i) = msg + unat (bf_data_offset (fs ! i))
    \<and> (PB_LTYPE_IS_SUBMSG (bf_type (fs ! i)) \<longrightarrow> submsg_desc (bound_iter width m desc msg fs i) = bf_submsg (fs ! i))"
proof -
  have d: "describes E desc width fs" using assms by (auto simp: describes_def)
  have ok: "PB_GEN_FIELD_INFO_ASSERT width (fs ! i)"
    using assms(1,3) by (simp add: bind_ok_def list_all_length)
  have "fs \<noteq> []" using assms(3) by auto
  then show ?thesis
    using iter_begin [OF d] iter_next [OF d assms(3)] tag_fits [OF ok] assms(4)
    by (auto simp: bound_iter_def Let_def) (simp_all add: set_pointers_def Let_def)
qed

text \<open>
  Searching for a tag always returns. Whatever field the iterator stands at, the search
  stops at the field with that tag if the message has one, and otherwise reports that there is none
  and leaves the iterator where it was, for a message whose fields are sorted by tag.
\<close>

theorem find_field_by_tag:
  assumes "bind_ok width fs" and "desc_at E desc = PB_BIND width dflt cb fs" and "tags_sorted fs"
    and "i < length fs"
  shows "(\<forall>j < length fs. bf_tag (fs ! j) = tg \<longrightarrow>
      pb_field_iter_find E m tg (bound_iter width m desc msg fs i) = Some (True, bound_iter width m desc msg fs j))
    \<and> ((\<forall>j < length fs. bf_tag (fs ! j) \<noteq> tg) \<longrightarrow>
      pb_field_iter_find E m tg (bound_iter width m desc msg fs i) = Some (False, bound_iter width m desc msg fs i))"
proof -
  have d: "describes E desc width fs" using assms by (auto simp: describes_def)
  show ?thesis using find_hit [OF d assms(3,4)] find_miss [OF d assms(3,4)] by metis
qed

end
