(* ===== verification/PbFlat.thy ===== *)
theory PbFlat
  imports PbVarint PbBind
begin

text \<open>
  Messages whose fields are all plain 32-bit numbers, as the radio messages of the program are:
  their wire format, and what the encoder and the decoder do on them. The encoder writes the wire
  format; the decoder reads it back, and on any other bytes returns as well, writing nothing
  outside the structure.
\<close>

section \<open>Messages\<close>

text \<open>Fields of proto3 (\<open>SINGULAR\<close>) of type \<open>uint32\<close> or of a four-byte type such as \<open>float\<close>.\<close>

definition PB_HTYPE_SINGULAR :: pb_type where "PB_HTYPE_SINGULAR = 0x10"

definition flat_uint :: pb_type where "flat_uint = PB_ATYPE_STATIC OR PB_HTYPE_SINGULAR OR PB_LTYPE_UVARINT"
definition flat_fixed :: pb_type where "flat_fixed = PB_ATYPE_STATIC OR PB_HTYPE_SINGULAR OR PB_LTYPE_FIXED32"

definition flat_field :: "pb_bind_field \<Rightarrow> bool" where
  "flat_field f \<longleftrightarrow>
     (bf_type f = flat_uint \<or> bf_type f = flat_fixed) \<and> bf_data_size f = 4 \<and> bf_size_offset f = 0
     \<and> bf_tag f \<noteq> 0"

text \<open>
  A message of such fields in a structure of \<open>sz\<close> bytes, bound without default values and callbacks.
\<close>

definition off :: "pb_bind_field \<Rightarrow> nat" where "off f = unat (bf_data_offset f)"

definition flat_layout :: "nat \<Rightarrow> pb_bind_field list \<Rightarrow> bool" where
  "flat_layout sz fs \<longleftrightarrow>
     fs \<noteq> [] \<and> list_all flat_field fs \<and> list_all (\<lambda>f. off f + 4 \<le> sz) fs
     \<and> sorted_wrt (\<lambda>f g. off f + 4 \<le> off g) fs
     \<and> tags_sorted fs"

definition flat_message :: "pb_env \<Rightarrow> addr \<Rightarrow> (pb_type \<Rightarrow> nat) \<Rightarrow> nat \<Rightarrow> pb_bind_field list \<Rightarrow> bool" where
  "flat_message E desc width sz fs \<longleftrightarrow>
     bind_ok width fs \<and> flat_layout sz fs \<and> desc_at E desc = PB_BIND width 0 None fs"

lemma flat_types [simp]:
  "PB_ATYPE flat_uint = PB_ATYPE_STATIC" "PB_ATYPE flat_fixed = PB_ATYPE_STATIC"
  "PB_HTYPE flat_uint = PB_HTYPE_OPTIONAL" "PB_HTYPE flat_fixed = PB_HTYPE_OPTIONAL"
  "PB_LTYPE flat_uint = PB_LTYPE_UVARINT" "PB_LTYPE flat_fixed = PB_LTYPE_FIXED32"
  "PB_LTYPE_IS_SUBMSG flat_uint = False" "PB_LTYPE_IS_SUBMSG flat_fixed = False"
  by (simp_all add: flat_uint_def flat_fixed_def PB_HTYPE_SINGULAR_def PB_ATYPE_def PB_HTYPE_def
      PB_LTYPE_def PB_LTYPE_IS_SUBMSG_def pb_type_values)

lemma flat_types_differ [simp]: "flat_fixed \<noteq> flat_uint"
  by (simp add: flat_uint_def flat_fixed_def PB_HTYPE_SINGULAR_def pb_type_values)

lemma type_neq [simp]:
  "PB_HTYPE_OPTIONAL \<noteq> PB_HTYPE_REQUIRED" "PB_HTYPE_OPTIONAL \<noteq> PB_HTYPE_REPEATED"
  "PB_HTYPE_OPTIONAL \<noteq> PB_HTYPE_ONEOF"
  "PB_ATYPE_STATIC \<noteq> PB_ATYPE_POINTER" "PB_ATYPE_STATIC \<noteq> PB_ATYPE_CALLBACK"
  "PB_LTYPE_UVARINT \<noteq> PB_LTYPE_EXTENSION" "PB_LTYPE_FIXED32 \<noteq> PB_LTYPE_EXTENSION"
  "PB_LTYPE_UVARINT \<noteq> PB_LTYPE_BOOL" "PB_LTYPE_FIXED32 \<noteq> PB_LTYPE_BOOL"
  "PB_LTYPE_FIXED32 \<noteq> PB_LTYPE_UVARINT" "PB_LTYPE_FIXED32 \<noteq> PB_LTYPE_VARINT"
  "PB_LTYPE_FIXED32 \<noteq> PB_LTYPE_SVARINT"
  "PB_LTYPE_UVARINT \<le> PB_LTYPE_LAST_PACKABLE" "PB_LTYPE_FIXED32 \<le> PB_LTYPE_LAST_PACKABLE"
  by (simp_all add: pb_type_values)

lemma flatD:
  assumes "flat_message E desc width sz fs"
  shows "describes E desc width fs" and "tags_sorted fs" and "fs \<noteq> []"
    and "desc_at E desc = PB_BIND width 0 None fs" and "flat_layout sz fs"
  using assms by (auto simp: flat_message_def describes_def flat_layout_def)

lemma flat_layoutD:
  assumes "flat_layout sz fs" and "i < length fs"
  shows "flat_field (fs ! i)" and "off (fs ! i) + 4 \<le> sz"
  using assms by (simp_all add: flat_layout_def list_all_length)

text \<open>The iterator on such a message.\<close>

lemma flat_iter:
  assumes "flat_field (fs ! i)" and "msg \<noteq> 0"
  shows "pData (bound_iter width m desc msg fs i) = msg + off (fs ! i)"
    and "pSize (bound_iter width m desc msg fs i) = Size_null"
    and "data_size (bound_iter width m desc msg fs i) = 4"
    and "bound_iter width m desc msg fs i = bound_iter width m' desc msg fs i"
  using assms by (auto simp: bound_iter_def Let_def set_pointers_def flat_field_def off_def)

section \<open>The wire format\<close>

text \<open>Fields that are zero are left out; the others are a key (tag and wire type) and the value.\<close>

definition flat_value :: "mem \<Rightarrow> addr \<Rightarrow> pb_bind_field \<Rightarrow> 32 word" where
  "flat_value m msg f = load_u32 m (msg + off f)"

definition flat_wt :: "pb_bind_field \<Rightarrow> wire_type" where
  "flat_wt f = (if bf_type f = flat_uint then PB_WT_VARINT else PB_WT_32BIT)"

definition flat_key :: "pb_bind_field \<Rightarrow> 64 word" where
  "flat_key f = push_bit 3 (ucast (bf_tag f)) OR ucast (flat_wt f)"

definition flat_payload :: "pb_bind_field \<Rightarrow> 32 word \<Rightarrow> pb_byte list" where
  "flat_payload f v = (if bf_type f = flat_uint then leb128 (ucast v) else le_bytes 4 v)"

definition flat_field_wire :: "pb_bind_field \<Rightarrow> 32 word \<Rightarrow> pb_byte list" where
  "flat_field_wire f v = (if v = 0 then [] else leb128 (flat_key f) @ flat_payload f v)"

definition flat_wire :: "pb_bind_field list \<Rightarrow> (pb_bind_field \<Rightarrow> 32 word) \<Rightarrow> pb_byte list" where
  "flat_wire fs v = concat (map (\<lambda>f. flat_field_wire f (v f)) fs)"

lemma le_word_zero: "le_word (replicate n 0) = 0"
  by (induction n) auto

lemma load_u32_bytes: "load_bytes m a 4 = le_bytes 4 (load_u32 m a)"
  using le_bytes_le_word [of "load_bytes m a 4", where 'a = 32] by (simp add: load_u32_def)

lemma zero_at_4: "zero_at m a 4 \<longleftrightarrow> load_u32 m a = 0"
proof
  assume "zero_at m a 4"
  then have "load_bytes m a 4 = replicate 4 0"
    by (intro replicate_eqI) (auto simp: zero_at_def list_all_iff)
  then show "load_u32 m a = 0" by (simp add: load_u32_def le_word_zero del: replicate.simps)
next
  assume "load_u32 m a = 0"
  then have "load_bytes m a 4 = le_bytes 4 (0 :: 32 word)" by (simp add: load_u32_bytes)
  then show "zero_at m a 4" by (simp add: zero_at_def numeral_eq_Suc)
qed

lemma load_u32_store: "load_u32 (store_word 4 m a (v :: 32 word)) a = v"
proof -
  have "take_bit 32 v = v" by (rule bit_word_eqI) (simp add: bit_take_bit_iff)
  then show ?thesis by (simp add: load_u32_def store_word_def le_word_le_bytes)
qed

lemma load_u32_store_bytes:
  "b + 4 \<le> a \<or> a + length bs \<le> b \<Longrightarrow> load_u32 (store_bytes m a bs) b = load_u32 m b"
  by (simp add: load_u32_def load_store_bytes_disjoint)

section \<open>Encoding\<close>

lemma enc_then_True [simp]: "enc_then (True, s, m) k = k s m"
  by (simp add: enc_then_def)

lemma enc_bind_True [simp]: "enc_bind (Some (True, s, m)) k = k s m"
  by (simp add: enc_bind_def)

text \<open>What the code for a field comes down to: the key, then the value as a varint or as four bytes.\<close>

lemma flat_field_code:
  assumes d: "flat_message E desc width sz fs" and i: "i < length fs" and msg: "msg \<noteq> 0"
    and v: "v = flat_value m msg (fs ! i)"
  shows "encode_field (check_default (pb_check_proto3_default_value n E) E) sub E s (bound_iter width m0 desc msg fs i) m =
    (if v = 0 then Some (True, s, m)
     else enc_bind (Some (pb_encode_varint E s (flat_key (fs ! i)) m)) (\<lambda>s m.
       Some (if bf_type (fs ! i) = flat_uint
             then pb_encode_varint E s (ucast (flat_value m msg (fs ! i))) m
             else pb_write E s (le_bytes 4 (flat_value m msg (fs ! i))) 4 m)))"
proof -
  let ?f = "fs ! i"
  let ?it = "bound_iter width m0 desc msg fs i"
  have f: "flat_field ?f" using flat_layoutD flatD(5) [OF d] i by blast
  have ty: "bf_type ?f = flat_uint \<or> bf_type ?f = flat_fixed" using f by (simp add: flat_field_def)
  note it = flat_iter(1-3) [OF f msg, of width m0 desc]
  have dv: "default_value (desc_at E desc) = 0" by (simp add: flatD(4) [OF d] PB_BIND_def)
  have dsz: "unat (ucast (bf_data_size ?f) :: pb_size) = 4" using f by (simp add: flat_field_def)
  have static: "check_static_default (pb_check_proto3_default_value n E) E ?it m = Some (v = 0)"
    using ty by (elim disjE) (simp_all add: check_static_default_def it(1) dsz zero_at_4 v flat_value_def)
  have "check_default (pb_check_proto3_default_value n E) E ?it m = Some (v = 0)"
    using ty by (elim disjE) (simp_all add: check_default_def it(2) dv static)
  then have absent: "field_absent (check_default (pb_check_proto3_default_value n E) E) E ?it m = Some (v = 0)"
    using ty by (elim disjE) (simp_all add: field_absent_def it(2))
  have tg: "ucast (ucast (bf_tag ?f) :: pb_size) = bf_tag ?f"
    using describesD(1) [OF flatD(1) [OF d]] i tag_fits [of width ?f] by (simp add: bind_ok_def list_all_length)
  have "wire_type_of (ftype ?it) = Some (flat_wt ?f)"
    using ty by (auto simp: wire_type_of_def Let_def flat_wt_def)
  then have key: "pb_encode_tag_for_field E s ?it m = pb_encode_varint E s (flat_key ?f) m"
    by (simp add: pb_encode_tag_for_field_def pb_encode_tag_def tg flat_key_def)
  have uint: "pb_enc_varint E s ?it m = pb_encode_varint E s (ucast (flat_value m msg ?f)) m"
    if "bf_type ?f = flat_uint" for s m
    using it that by (simp add: pb_enc_varint_def load_uint_def flat_value_def)
  have fixed: "pb_enc_fixed E s ?it m = pb_write E s (le_bytes 4 (flat_value m msg ?f)) 4 m"
    if "bf_type ?f = flat_fixed" for s m
    using it that by (simp add: pb_enc_fixed_def pb_encode_fixed32_def flat_value_def load_u32_bytes)
  show ?thesis
    using ty it(1) msg uint fixed
    by (elim disjE) (simp_all add: encode_field_def absent encode_basic_field_def key)
qed

lemma encode_flat_field:
  assumes d: "flat_message E desc width sz fs" and i: "i < length fs" and msg: "msg \<noteq> 0"
    and v: "v = flat_value m msg (fs ! i)" and room: "has_room s (length (flat_field_wire (fs ! i) v))"
    and apart: "os_state s + length (flat_field_wire (fs ! i) v) \<le> msg \<or> msg + sz \<le> os_state s"
  shows "encode_field (pb_check_proto3_default_value (Suc n) E) sub E s (bound_iter width m0 desc msg fs i) m =
    Some (True, wrote (length (flat_field_wire (fs ! i) v)) s,
      store_bytes m (os_state s) (flat_field_wire (fs ! i) v))"
proof (cases "v = 0")
  case True
  then show ?thesis by (simp add: flat_field_code [OF d i msg v] flat_field_wire_def)
next
  case False
  let ?f = "fs ! i"
  let ?k = "leb128 (flat_key ?f)" and ?p = "flat_payload ?f v"
  have w: "flat_field_wire ?f v = ?k @ ?p" using False by (simp add: flat_field_wire_def)
  have "has_room s (length ?k + length ?p)" using room by (simp add: w)
  then have r1: "has_room s (length ?k)" and r2: "has_room (wrote (length ?k) s) (length ?p)"
    using has_room_mono has_room_wrote by fastforce+
  let ?m1 = "store_bytes m (os_state s) ?k"
  have same: "flat_value ?m1 msg ?f = v"
  proof -
    have "os_state s + length ?k \<le> msg \<or> msg + sz \<le> os_state s" using apart by (auto simp: w)
    then have "load_u32 ?m1 (msg + off ?f) = load_u32 m (msg + off ?f)"
      using flat_layoutD(2) [OF flatD(5) [OF d] i] by (intro load_u32_store_bytes) auto
    then show ?thesis by (simp add: v flat_value_def)
  qed
  show ?thesis
  proof (cases "bf_type ?f = flat_uint")
    case True
    then show ?thesis
      using encode_varint_room [OF r1] encode_varint_room [of "wrote (length ?k) s" "ucast v" E ?m1] r2 False
      by (simp add: flat_field_code [OF d i msg v] same w flat_payload_def store_bytes_append)
  next
    case fixed: False
    then show ?thesis
      using encode_varint_room [OF r1] pb_write_room [OF r2, of 4 E ?m1] False
      by (simp add: flat_field_code [OF d i msg v] same w flat_payload_def store_bytes_append)
  qed
qed

lemma flat_wire_Nil [simp]: "flat_wire [] v = []"
  by (simp add: flat_wire_def)

lemma flat_wire_Cons [simp]: "flat_wire (f # fs) v = flat_field_wire f (v f) @ flat_wire fs v"
  by (simp add: flat_wire_def)

lemma flat_wire_cong: "(\<And>f. f \<in> set fs \<Longrightarrow> v f = v' f) \<Longrightarrow> flat_wire fs v = flat_wire fs v'"
  by (induction fs) auto

text \<open>The structure is not touched by writing next to it.\<close>

lemma flat_value_apart:
  assumes "flat_layout sz fs" and "f \<in> set fs" and "a + length bs \<le> msg \<or> msg + sz \<le> a"
  shows "flat_value (store_bytes m a bs) msg f = flat_value m msg f"
proof -
  have "off f + 4 \<le> sz" using assms(1,2) by (auto simp: flat_layout_def list_all_iff)
  then show ?thesis using assms(3) by (auto simp: flat_value_def intro!: load_u32_store_bytes)
qed

lemma encode_flat_fields:
  assumes d: "flat_message E desc width sz fs" and msg: "msg \<noteq> 0"
  shows "i < length fs \<Longrightarrow> w = flat_wire (drop i fs) (flat_value m msg) \<Longrightarrow> has_room s (length w)
    \<Longrightarrow> os_state s + length w \<le> msg \<or> msg + sz \<le> os_state s
    \<Longrightarrow> encode_fields (pb_check_proto3_default_value (Suc n) E) sub E s (bound_iter width m0 desc msg fs i) m =
      Some (True, wrote (length w) s, store_bytes m (os_state s) w)"
proof (induction "length fs - i" arbitrary: i s m m0 w)
  case 0
  then show ?case by simp
next
  case (Suc k)
  let ?f = "fs ! i"
  define w1 where "w1 = flat_field_wire ?f (flat_value m msg ?f)"
  define w2 where "w2 = flat_wire (drop (Suc i) fs) (flat_value m msg)"
  have w: "w = w1 @ w2"
    using Suc.prems(1,2) by (simp add: w1_def w2_def Cons_nth_drop_Suc [symmetric])
  have r1: "has_room s (length w1)" and r2: "has_room (wrote (length w1) s) (length w2)"
    using Suc.prems(3) has_room_mono [of s "length w" "length w1"] has_room_wrote [of s "length w1" "length w2"]
    by (simp_all add: w)
  have ap1: "os_state s + length w1 \<le> msg \<or> msg + sz \<le> os_state s" using Suc.prems(4) by (auto simp: w)
  let ?m1 = "store_bytes m (os_state s) w1"
  have field: "encode_field (pb_check_proto3_default_value (Suc n) E) sub E s (bound_iter width m0 desc msg fs i) m
      = Some (True, wrote (length w1) s, ?m1)"
    unfolding w1_def by (rule encode_flat_field [OF d Suc.prems(1) msg refl])
      (use r1 ap1 in \<open>simp_all only: w1_def\<close>)
  have ext: "PB_LTYPE (bf_type ?f) \<noteq> PB_LTYPE_EXTENSION"
    using flatD(2) [OF d] Suc.prems(1) by (simp add: tags_sorted_def)
  note next_it = iter_next [OF flatD(1) [OF d] Suc.prems(1), of ?m1 m0 msg]
  show ?case
  proof (cases "Suc i < length fs")
    case False
    then have "w2 = []" by (simp add: w2_def)
    then show ?thesis
      using False by (subst encode_fields.simps) (simp add: field [unfolded pb_check_proto3_default_value.simps] ext next_it w)
  next
    case True
    have w2: "w2 = flat_wire (drop (Suc i) fs) (flat_value ?m1 msg)"
      unfolding w2_def using flat_value_apart [OF flatD(5) [OF d] _ ap1]
      by (intro flat_wire_cong) (auto dest: in_set_dropD)
    have "encode_fields (pb_check_proto3_default_value (Suc n) E) sub E (wrote (length w1) s)
        (bound_iter width ?m1 desc msg fs (Suc i)) ?m1
      = Some (True, wrote (length w2) (wrote (length w1) s), store_bytes ?m1 (os_state (wrote (length w1) s)) w2)"
      using Suc.hyps(2) Suc.prems(4) r2 by (intro Suc.hyps(1) True w2) (auto simp: w)
    then show ?thesis
      using True by (subst encode_fields.simps)
        (simp add: field [unfolded pb_check_proto3_default_value.simps] ext next_it w store_bytes_append)
  qed
qed

lemma encode_flat:
  assumes d: "flat_message E desc width sz fs" and msg: "msg \<noteq> 0"
    and w: "w = flat_wire fs (flat_value m msg)" and room: "has_room s (length w)"
    and apart: "os_state s + length w \<le> msg \<or> msg + sz \<le> os_state s"
  shows "pb_encode (Suc n) E s desc msg m = Some (True, wrote (length w) s, store_bytes m (os_state s) w)"
proof -
  have "pb_field_iter_begin E desc msg m = (True, bound_iter width m desc msg fs 0)"
    using iter_begin [OF flatD(1) [OF d]] flatD(3) [OF d] by simp
  then show ?thesis
    using encode_flat_fields [OF d msg, of 0 w m s n "pb_encode n E" m] flatD(3) [OF d] assms(3-)
    by (simp add: encode_message_def)
qed

end
