(* ===== verification/PbFlatDecode.thy ===== *)
theory PbFlatDecode
  imports PbFlat
begin

text \<open>
  The decoder on messages of plain 32-bit fields: the default values, one round of the loop, the
  whole loop on the bytes the encoder writes, and the loop on arbitrary bytes.
\<close>

section \<open>Default values\<close>

definition same_outside :: "addr \<Rightarrow> nat \<Rightarrow> mem \<Rightarrow> mem \<Rightarrow> bool" where
  "same_outside a n m m' \<longleftrightarrow> (\<forall>x. x < a \<or> a + n \<le> x \<longrightarrow> m' x = m x)"

lemma same_outside_refl [simp]: "same_outside a n m m"
  by (simp add: same_outside_def)

lemma same_outside_trans: "same_outside a n m m' \<Longrightarrow> same_outside a n m' m'' \<Longrightarrow> same_outside a n m m''"
  by (simp add: same_outside_def)

lemma same_outside_store:
  "a \<le> b \<Longrightarrow> b + length bs \<le> a + n \<Longrightarrow> same_outside a n m (store_bytes m b bs)"
  by (auto simp: same_outside_def)

lemma same_outside_load:
  "same_outside a n m m' \<Longrightarrow> b + k \<le> a \<or> a + n \<le> b \<Longrightarrow> load_bytes m' b k = load_bytes m b k"
  by (auto simp: same_outside_def intro!: load_bytes_cong)

text \<open>The iterator does not depend on the memory.\<close>

abbreviation flat_it :: "(pb_type \<Rightarrow> nat) \<Rightarrow> addr \<Rightarrow> addr \<Rightarrow> pb_bind_field list \<Rightarrow> nat \<Rightarrow> pb_field_iter" where
  "flat_it width desc msg fs i \<equiv> bound_iter width (\<lambda>_. 0) desc msg fs i"

lemma flat_next:
  assumes d: "flat_message E desc width sz fs" and i: "i < length fs" and msg: "msg \<noteq> 0"
  shows "pb_field_iter_next E m (flat_it width desc msg fs i) =
    (Suc i < length fs, flat_it width desc msg fs (if Suc i < length fs then Suc i else 0))"
proof -
  have "(if Suc i < length fs then Suc i else 0) < length fs" using i by auto
  then have "flat_field (fs ! (if Suc i < length fs then Suc i else 0))"
    by (rule flat_layoutD(1) [OF flatD(5) [OF d]])
  with iter_next [OF flatD(1) [OF d] i] flat_iter(4) [OF _ msg] show ?thesis by metis
qed

lemma flat_begin:
  assumes d: "flat_message E desc width sz fs" and msg: "msg \<noteq> 0"
  shows "pb_field_iter_begin E desc msg m = (True, flat_it width desc msg fs 0)"
proof -
  have "flat_field (fs ! 0)" using flat_layoutD(1) [OF flatD(5) [OF d]] flatD(3) [OF d] by simp
  with iter_begin [OF flatD(1) [OF d]] flatD(3) [OF d] flat_iter(4) [OF _ msg] show ?thesis by metis
qed

lemma flat_find:
  assumes d: "flat_message E desc width sz fs" and i: "i < length fs" and msg: "msg \<noteq> 0"
  shows "j < length fs \<Longrightarrow> bf_tag (fs ! j) = tg \<Longrightarrow>
      pb_field_iter_find E m tg (flat_it width desc msg fs i) = Some (True, flat_it width desc msg fs j)"
    and "\<forall>j < length fs. bf_tag (fs ! j) \<noteq> tg \<Longrightarrow>
      pb_field_iter_find E m tg (flat_it width desc msg fs i) = Some (False, flat_it width desc msg fs i)"
  using find_hit [OF flatD(1,2) [OF d] i] find_miss [OF flatD(1,2) [OF d] i]
    flat_iter(4) [OF flat_layoutD(1) [OF flatD(5) [OF d]] msg] i by metis+

definition zero_fields :: "addr \<Rightarrow> pb_bind_field list \<Rightarrow> mem \<Rightarrow> mem" where
  "zero_fields dest fs m = fold (\<lambda>f m. memset0 m (dest + off f) 4) fs m"

lemma default_flat_field:
  assumes d: "flat_message E desc width sz fs" and i: "i < length fs" and msg: "msg \<noteq> 0"
  shows "pb_field_set_to_default defs E (flat_it width desc msg fs i) m =
    Some (True, flat_it width desc msg fs i, memset0 m (msg + off (fs ! i)) 4)"
proof -
  have f: "flat_field (fs ! i)" using flat_layoutD flatD(5) [OF d] i by blast
  then have ty: "bf_type (fs ! i) = flat_uint \<or> bf_type (fs ! i) = flat_fixed" by (simp add: flat_field_def)
  have dsz: "unat (ucast (bf_data_size (fs ! i)) :: pb_size) = 4" using f by (simp add: flat_field_def)
  note it = flat_iter(1,2) [OF f msg, of width "\<lambda>_. 0" desc]
  show ?thesis using ty by (elim disjE) (simp_all add: pb_field_set_to_default_def it dsz)
qed

lemma defaults_flat:
  assumes d: "flat_message E desc width sz fs" and msg: "msg \<noteq> 0"
  shows "i < length fs \<Longrightarrow>
    defaults_loop sub defs E PB_ISTREAM_EMPTY PB_WT_VARINT 0 (flat_it width desc msg fs i) m =
      Some (True, flat_it width desc msg fs 0, zero_fields msg (drop i fs) m)"
proof (induction "length fs - i" arbitrary: i m)
  case (Suc k)
  note i = Suc.prems
  have drop: "drop i fs = fs ! i # drop (Suc i) fs" using i by (simp add: Cons_nth_drop_Suc)
  note step = default_flat_field [OF d i msg] flat_next [OF d i msg]
  show ?case
  proof (cases "Suc i < length fs")
    case True
    with Suc show ?thesis
      by (subst defaults_loop.simps) (simp add: step drop zero_fields_def)
  next
    case False
    then show ?thesis
      by (subst defaults_loop.simps) (simp add: step drop zero_fields_def)
  qed
qed simp

lemma message_defaults_flat:
  assumes d: "flat_message E desc width sz fs" and msg: "msg \<noteq> 0"
  shows "message_defaults sub defs E (flat_it width desc msg fs 0) m =
    Some (True, flat_it width desc msg fs 0, zero_fields msg fs m)"
  using defaults_flat [OF d msg, of 0] flatD(3) [OF d]
  by (simp add: message_defaults_def flatD(4) [OF d] PB_BIND_def)

lemma store_zero: "memset0 m a 4 = store_word 4 m a (0 :: 32 word)"
proof -
  have "le_bytes 4 (0 :: 32 word) = replicate 4 0" by (simp add: numeral_eq_Suc)
  then show ?thesis by (simp only: memset0_def store_word_def)
qed

lemma same_outside_field:
  assumes "flat_layout sz fs" and "f \<in> set fs"
  shows "same_outside dest sz m (store_word 4 m (dest + off f) (v :: 32 word))"
  using assms by (auto simp: store_word_def flat_layout_def list_all_iff intro!: same_outside_store)

lemma flat_apart:
  assumes "flat_layout sz fs" and "i < length fs" and "j < length fs" and "i \<noteq> j"
  shows "off (fs ! i) + 4 \<le> off (fs ! j) \<or> off (fs ! j) + 4 \<le> off (fs ! i)"
  using assms by (cases i j rule: linorder_cases) (auto simp: flat_layout_def sorted_wrt_iff_nth_less)

lemma flat_value_store:
  assumes "flat_layout sz fs" and "i < length fs" and "j < length fs"
  shows "flat_value (store_word 4 m (dest + off (fs ! i)) v) dest (fs ! j) =
    (if i = j then v else flat_value m dest (fs ! j))"
  using flat_apart [OF assms]
  by (auto simp: flat_value_def load_u32_store) (auto simp: store_word_def intro!: load_u32_store_bytes)

lemma same_outside_zero:
  assumes "flat_layout sz fs" and "set gs \<subseteq> set fs"
  shows "same_outside dest sz m (zero_fields dest gs m)"
  using assms(2)
proof (induction gs arbitrary: m)
  case (Cons g gs)
  then have "same_outside dest sz m (memset0 m (dest + off g) 4)"
    using same_outside_field [OF assms(1), of g dest m 0] by (simp add: store_zero)
  from same_outside_trans [OF this] Cons show ?case by (simp add: zero_fields_def)
qed (simp add: zero_fields_def)

lemma flat_value_zero:
  assumes l: "flat_layout sz fs"
  shows "j < length fs \<Longrightarrow> flat_value (zero_fields dest (drop i fs) m) dest (fs ! j)
     = (if i \<le> j then 0 else flat_value m dest (fs ! j))"
proof (induction "length fs - i" arbitrary: i m)
  case 0
  then show ?case by (simp add: zero_fields_def)
next
  case (Suc k)
  then have i: "i < length fs" by simp
  then have "zero_fields dest (drop i fs) m = zero_fields dest (drop (Suc i) fs) (memset0 m (dest + off (fs ! i)) 4)"
    by (simp add: zero_fields_def Cons_nth_drop_Suc [symmetric])
  with Suc i flat_value_store [OF l i, of j] show ?case by (auto simp: store_zero)
qed

section \<open>A field of the message\<close>

lemma decode_flat_static:
  assumes f: "flat_field (fs ! j)" and dest: "dest \<noteq> 0"
  shows "decode_field sub defs E s wt (flat_it width desc dest fs j) m =
    with_field (flat_it width desc dest fs j) (decode_basic_field sub E s wt (flat_it width desc dest fs j) m)"
proof -
  have "bf_type (fs ! j) = flat_uint \<or> bf_type (fs ! j) = flat_fixed" using f by (simp add: flat_field_def)
  then show ?thesis
    using flat_iter(2) [OF f dest, of width "\<lambda>_. 0" desc]
    by (elim disjE) (simp_all add: decode_field_def decode_static_field_def)
qed

lemma take_bit_32 [simp]: "take_bit 32 (v :: 32 word) = v"
  by (rule bit_word_eqI) (simp add: bit_take_bit_iff)

lemma ucast_32_64 [simp]: "ucast (ucast (v :: 32 word) :: 64 word) = v"
  by (rule bit_word_eqI) (simp add: bit_ucast_iff)

lemma decode_flat_field_at:
  assumes f: "flat_field (fs ! j)" and dest: "dest \<noteq> 0" and at: "at_bytes s m (flat_payload (fs ! j) v)"
  shows "decode_field sub defs E s (flat_wt (fs ! j)) (flat_it width desc dest fs j) m =
    Some (True, skip_ahead (length (flat_payload (fs ! j) v)) s, flat_it width desc dest fs j,
      store_word 4 m (dest + off (fs ! j)) v)"
proof -
  note it = flat_iter(1,3) [OF f dest, of width "\<lambda>_. 0" desc]
  have dsz: "ucast (bf_data_size (fs ! j)) = (4 :: pb_size)" using f by (simp add: flat_field_def)
  show ?thesis
  proof (cases "bf_type (fs ! j) = flat_uint")
    case True
    with at have "pb_decode_varint E s m = (True, skip_ahead (length (leb128 (ucast v))) s, ucast v)"
      by (intro decode_varint_at) (simp add: flat_payload_def)
    with True it dsz show ?thesis
      unfolding decode_flat_static [OF f dest]
      by (simp add: with_field_def decode_basic_field_def flat_wt_def pb_dec_varint_def clamp_uint_def
          clamp_result_def flat_payload_def)
  next
    case False
    with f have ty: "bf_type (fs ! j) = flat_fixed" by (simp add: flat_field_def)
    from at False have "at_bytes s m (le_bytes 4 v)" by (simp add: flat_payload_def)
    from read_bytes_at [OF this, of 4] have "pb_read_bytes E s 4 m = (True, skip_ahead 4 s, le_bytes 4 v)" by simp
    with ty False it show ?thesis
      unfolding decode_flat_static [OF f dest]
      by (simp add: with_field_def decode_basic_field_def flat_wt_def pb_decode_fixed32_def
          flat_payload_def store_word_def)
  qed
qed

text \<open>The key in front of a field.\<close>

definition flat_key32 :: "pb_bind_field \<Rightarrow> 32 word" where
  "flat_key32 f = push_bit 3 (bf_tag f) OR flat_wt f"

lemma flat_wt_bit: "bit (flat_wt f) n \<Longrightarrow> n < 3"
proof (rule PB_FITS_bit)
  show "PB_FITS (flat_wt f) 3" by (simp add: flat_wt_def PB_FITS_def pb_wire_values)
qed

lemma flat_key32_split:
  assumes "PB_FITS (bf_tag f) 16"
  shows "flat_key f = ucast (flat_key32 f)" and "flat_key32 f AND 7 = flat_wt f"
    and "drop_bit 3 (flat_key32 f) = bf_tag f"
proof -
  note b = PB_FITS_bit [OF assms]
  note wt = flat_wt_bit
  have m7: "(w :: 32 word) AND 7 = take_bit 3 w" for w by (simp add: take_bit_eq_mask mask_eq_exp_minus_1)
  show "flat_key f = ucast (flat_key32 f)"
    unfolding flat_key_def flat_key32_def
    by (rule bit_word_eqI) (simp only: info_bits, auto dest: b wt)
  show "flat_key32 f AND 7 = flat_wt f"
    unfolding m7 flat_key32_def by (rule bit_word_eqI) (simp only: info_bits, auto dest: wt)
  show "drop_bit 3 (flat_key32 f) = bf_tag f"
    unfolding flat_key32_def by (rule bit_word_eqI) (simp only: info_bits, auto dest: wt b)
qed

lemma decode_tag_at:
  assumes "PB_FITS (bf_tag f) 16" and "at_bytes s m (leb128 (flat_key f))"
  shows "pb_decode_tag E s m =
    (True, skip_ahead (length (leb128 (flat_key f))) s, flat_wt f, bf_tag f, False)"
proof -
  note k = flat_key32_split [OF assms(1)]
  have "bytes_left s \<noteq> 0"
    using assms(2) by (cases "leb128 (flat_key f)") (auto simp: at_bytes_def leb128_nonempty)
  then show ?thesis
    using decode_varint32_at [of s m "flat_key32 f" E] assms(2) k by (simp add: pb_decode_tag_def)
qed

lemma decode_flat_round:
  assumes d: "flat_message E desc width sz fs" and dest: "dest \<noteq> 0" and i: "i < length fs" and j: "j < length fs"
    and at: "at_bytes s m (leb128 (flat_key (fs ! j)) @ flat_payload (fs ! j) v)"
  shows "decode_loop sub defs E flags s (flat_it width desc dest fs i) m L =
    decode_loop sub defs E flags
      (skip_ahead (length (leb128 (flat_key (fs ! j)) @ flat_payload (fs ! j) v)) s)
      (flat_it width desc dest fs j) (store_word 4 m (dest + off (fs ! j)) v) L"
proof -
  let ?f = "fs ! j"
  have f: "flat_field ?f" using flat_layoutD flatD(5) [OF d] j by blast
  have ty: "bf_type ?f = flat_uint \<or> bf_type ?f = flat_fixed" and tg0: "bf_tag ?f \<noteq> 0"
    using f by (simp_all add: flat_field_def)
  have "PB_GEN_FIELD_INFO_ASSERT width ?f"
    using describesD(1) [OF flatD(1) [OF d]] j by (simp add: bind_ok_def list_all_length)
  then have fits: "PB_FITS (bf_tag ?f) 16" by (rule tag_fits_16)
  note it = flat_iter(2) [OF f dest, of width "\<lambda>_. 0" desc]
  note at_key = at_bytes_append(1) [OF at] and at_val = at_bytes_append(2) [OF at]
  have sel: "select_fixed_count (flat_it width desc dest fs j) L = Some (flat_it width desc dest fs j, L)"
    and seen: "mark_seen (flat_it width desc dest fs j) L = L"
    and keep: "keep_fixed_count (flat_it width desc dest fs j) L = L"
    and ext: "PB_LTYPE (bf_type ?f) \<noteq> PB_LTYPE_EXTENSION"
    using ty it by (auto simp: select_fixed_count_def mark_seen_def keep_fixed_count_def)
  have round: "decode_round sub defs E (skip_ahead (length (leb128 (flat_key ?f))) s) (flat_wt ?f) (bf_tag ?f)
      (flat_it width desc dest fs i) m L =
    Some (True, skip_ahead (length (leb128 (flat_key ?f) @ flat_payload ?f v)) s, flat_it width desc dest fs j,
      store_word 4 m (dest + off ?f) v, L)"
    using flat_find(1) [OF d i dest j refl]
    by (simp add: decode_round_def ext sel decode_flat_field_at [OF f dest at_val] seen keep add.commute)
  show ?thesis
    by (subst decode_loop.simps) (simp add: decode_tag_at [OF fits at_key] tg0 round)
qed

text \<open>Tags below 16 make keys of one byte, and fields of six bytes at most.\<close>

lemma flat_field_wire_length:
  assumes "PB_FITS (bf_tag f) 4"
  shows "length (flat_field_wire f v) \<le> 6"
proof -
  have "drop_bit 7 (flat_key f) = 0"
    unfolding flat_key_def
    by (rule bit_word_eqI) (simp only: info_bits, auto dest: flat_wt_bit PB_FITS_bit [OF assms])
  then have "length (leb128 (flat_key f)) = 1" by (simp add: leb128_rec)
  moreover have "length (leb128 (ucast v)) \<le> 5"
  proof -
    have "unat v < 2 ^ LENGTH(32)" by (rule unsigned_less)
    then show ?thesis by (intro leb128_length) (simp_all add: unsigned_ucast_eq take_bit_nat_eq_self)
  qed
  ultimately show ?thesis by (simp add: flat_field_wire_def flat_payload_def)
qed

lemma flat_wire_length:
  "list_all (\<lambda>f. PB_FITS (bf_tag f) 4) fs \<Longrightarrow> length (flat_wire fs v) \<le> 6 * length fs"
proof (induction fs)
  case (Cons f fs)
  then show ?case using flat_field_wire_length [of f "v f"] by simp
qed simp

section \<open>The bytes of the encoder\<close>

lemma at_bytes_outside:
  assumes "at_bytes s m bs" and "same_outside a n m m'" and "is_state s + length bs \<le> a \<or> a + n \<le> is_state s"
  shows "at_bytes s m' bs"
  using assms(1) same_outside_load [OF assms(2,3)] by (simp add: at_bytes_def)

lemma decode_flat_wire:
  assumes d: "flat_message E desc width sz fs" and dest: "dest \<noteq> 0"
  shows "i \<le> length fs \<Longrightarrow> k < length fs \<Longrightarrow> w = flat_wire (drop i fs) v \<Longrightarrow> at_bytes s m w
    \<Longrightarrow> bytes_left s = of_nat (length w) \<Longrightarrow> is_state s + length w \<le> dest \<or> dest + sz \<le> is_state s
    \<Longrightarrow> \<exists>s' k' m'.
      decode_loop sub defs E flags s (flat_it width desc dest fs k) m L =
        Some (True, True, s', flat_it width desc dest fs k', m', L)
      \<and> k' < length fs \<and> bytes_left s' = 0 \<and> same_outside dest sz m m'
      \<and> (\<forall>x < length fs. flat_value m' dest (fs ! x) =
            (if i \<le> x \<and> v (fs ! x) \<noteq> 0 then v (fs ! x) else flat_value m dest (fs ! x)))"
proof (induction "length fs - i" arbitrary: i k s m w)
  case 0
  then have "w = []" by simp
  with 0 show ?case
    by (intro exI [of _ s] exI [of _ k] exI [of _ m])
      (subst decode_loop.simps, simp add: pb_decode_tag_def)
next
  case (Suc n)
  then have i: "i < length fs" and n: "n = length fs - Suc i" "Suc i \<le> length fs" by simp_all
  let ?f = "fs ! i"
  have w: "w = flat_field_wire ?f (v ?f) @ flat_wire (drop (Suc i) fs) v"
    using Suc.prems(3) i by (simp add: Cons_nth_drop_Suc [symmetric])
  show ?case
  proof (cases "v ?f = 0")
    case True
    then have "w = flat_wire (drop (Suc i) fs) v" by (simp add: w flat_field_wire_def)
    from Suc.hyps(1) [OF n Suc.prems(2) this Suc.prems(4-6)] obtain s' k' m'
      where *: "decode_loop sub defs E flags s (flat_it width desc dest fs k) m L =
          Some (True, True, s', flat_it width desc dest fs k', m', L)"
        "k' < length fs" "bytes_left s' = 0" "same_outside dest sz m m'"
        "\<forall>x < length fs. flat_value m' dest (fs ! x) =
            (if Suc i \<le> x \<and> v (fs ! x) \<noteq> 0 then v (fs ! x) else flat_value m dest (fs ! x))" by blast
    moreover have "(if Suc i \<le> x \<and> v (fs ! x) \<noteq> 0 then v (fs ! x) else flat_value m dest (fs ! x))
        = (if i \<le> x \<and> v (fs ! x) \<noteq> 0 then v (fs ! x) else flat_value m dest (fs ! x))" for x
      using True by (cases "x = i") auto
    ultimately show ?thesis by simp blast
  next
    case False
    define w1 where "w1 = leb128 (flat_key ?f) @ flat_payload ?f (v ?f)"
    define w2 where "w2 = flat_wire (drop (Suc i) fs) v"
    have ww: "w = w1 @ w2" using False by (simp add: w w1_def w2_def flat_field_wire_def)
    let ?s = "skip_ahead (length w1) s"
    let ?m = "store_word 4 m (dest + off ?f) (v ?f)"
    have so: "same_outside dest sz m ?m" using same_outside_field [OF flatD(5) [OF d]] i by simp
    have at: "at_bytes s m (w1 @ w2)" using Suc.prems(4) by (simp add: ww)
    have ap: "is_state ?s + length w2 \<le> dest \<or> dest + sz \<le> is_state ?s"
      using Suc.prems(6) by (auto simp: ww skip_ahead_def)
    have at2: "at_bytes ?s ?m w2" by (rule at_bytes_outside [OF at_bytes_append(2) [OF at] so ap])
    have left: "bytes_left ?s = of_nat (length w2)" using Suc.prems(5) by (simp add: skip_ahead_def ww)
    have round: "decode_loop sub defs E flags s (flat_it width desc dest fs k) m L =
        decode_loop sub defs E flags ?s (flat_it width desc dest fs i) ?m L"
      using decode_flat_round [OF d dest Suc.prems(2) i, of s m "v ?f"] at_bytes_append(1) [OF at]
      by (simp add: w1_def)
    from Suc.hyps(1) [OF n i w2_def at2 left ap] obtain s' k' m'
      where *: "decode_loop sub defs E flags ?s (flat_it width desc dest fs i) ?m L =
          Some (True, True, s', flat_it width desc dest fs k', m', L)"
        "k' < length fs" "bytes_left s' = 0" "same_outside dest sz ?m m'"
        "\<forall>x < length fs. flat_value m' dest (fs ! x) =
            (if Suc i \<le> x \<and> v (fs ! x) \<noteq> 0 then v (fs ! x) else flat_value ?m dest (fs ! x))" by blast
    have "flat_value m' dest (fs ! x) =
        (if i \<le> x \<and> v (fs ! x) \<noteq> 0 then v (fs ! x) else flat_value m dest (fs ! x))" if "x < length fs" for x
      using *(5) that False flat_value_store [OF flatD(5) [OF d] i that, of m dest "v ?f"] by (cases "x = i") auto
    with * round same_outside_trans [OF so *(4)] show ?thesis by auto
  qed
qed

text \<open>The whole decoder on such bytes.\<close>

lemma required_flat: "list_all flat_field fs \<Longrightarrow> filter is_required fs = []"
  by (induction fs) (auto simp: flat_field_def is_required_def)

lemma decode_flat:
  assumes d: "flat_message E desc width sz fs" and dest: "dest \<noteq> 0" and w: "w = flat_wire fs v"
    and at: "at_bytes s m w" and left: "bytes_left s = of_nat (length w)"
    and apart: "is_state s + length w \<le> dest \<or> dest + sz \<le> is_state s"
  shows "\<exists>s' m'. pb_decode (Suc n) E s desc dest m = Some (True, s', m')
    \<and> bytes_left s' = 0 \<and> same_outside dest sz m m'
    \<and> (\<forall>f \<in> set fs. flat_value m' dest f = v f)"
proof -
  let ?m = "zero_fields dest fs m"
  have so: "same_outside dest sz m ?m" by (rule same_outside_zero [OF flatD(5) [OF d]]) simp
  have fs: "0 < length fs" using flatD(3) [OF d] by simp
  obtain s' k' m' where
    loop: "decode_loop (pb_decode_inner n E) (pb_message_set_to_defaults n E) E 0 s (flat_it width desc dest fs 0) ?m
        decode_locals_init = Some (True, True, s', flat_it width desc dest fs k', m', decode_locals_init)"
    and k: "k' < length fs" "bytes_left s' = 0" and so': "same_outside dest sz ?m m'"
    and vals: "\<forall>x < length fs. flat_value m' dest (fs ! x) =
            (if 0 \<le> x \<and> v (fs ! x) \<noteq> 0 then v (fs ! x) else flat_value ?m dest (fs ! x))"
    using decode_flat_wire [OF d dest le0 fs _ at_bytes_outside [OF at so apart] left apart, of v
        "pb_decode_inner n E" "pb_message_set_to_defaults n E" 0 decode_locals_init] w
    by (simp only: drop_0) blast
  have v: "flat_value m' dest f = v f" if "f \<in> set fs" for f
    using that vals flat_value_zero [OF flatD(5) [OF d], of _ dest 0 m] by (auto simp: in_set_conv_nth)
  have "required_field_count (desc_at E desc) = 0"
    using flatD(5) [OF d] by (simp add: flatD(4) [OF d] PB_BIND_def flat_layout_def required_flat)
  then have seen: "all_required_seen E (flat_it width desc dest fs k') decode_locals_init"
    by (simp add: all_required_seen_def)
  have "pb_decode (Suc n) E s desc dest m = Some (True, s', m')"
    by (simp add: pb_decode_def pb_decode_ex_def pb_decode_inner_Suc decode_inner_def flat_begin [OF d dest]
        pb_message_set_to_defaults_Suc message_defaults_flat [OF d dest] loop seen)
      (simp add: decode_locals_init_def)
  then show ?thesis using k so' v same_outside_trans [OF so so'] by blast
qed

end
