(* ===== verification/PbFlatSafe.thy ===== *)
theory PbFlatSafe
  imports PbFlatDecode
begin

text \<open>
  The decoder on arbitrary bytes, for messages of plain 32-bit fields: it always returns, every
  round of its loop consumes input, and it writes nothing outside the structure.
\<close>

section \<open>Streams only shrink\<close>

definition shrunk :: "pb_istream \<Rightarrow> pb_istream \<Rightarrow> bool" where
  "shrunk s s' \<longleftrightarrow> is_callback s' = is_callback s \<and> unat (bytes_left s') \<le> unat (bytes_left s)"

lemma shrunk_refl [simp]: "shrunk s s"
  by (simp add: shrunk_def)

lemma shrunk_trans: "shrunk s s' \<Longrightarrow> shrunk s' s'' \<Longrightarrow> shrunk s s''"
  by (auto simp: shrunk_def)

lemma shrunk_error [simp]: "shrunk s (is_error msg s') \<longleftrightarrow> shrunk s s'"
  by (simp add: shrunk_def is_error_def)

lemma left_minus: "n \<le> bytes_left s \<Longrightarrow> unat (bytes_left s - n) = unat (bytes_left s) - unat n"
  by (rule unat_sub)

lemma readbyte_shrunk:
  assumes "is_callback s = Buffer_callback" and "pb_readbyte E s m = (ok, s', b)"
  shows "shrunk s s'" and "ok \<Longrightarrow> unat (bytes_left s') < unat (bytes_left s)"
proof -
  have "bytes_left s \<noteq> 0 \<Longrightarrow> unat (bytes_left s - 1) = unat (bytes_left s) - 1"
    by (rule unat_minus_one)
  moreover have "bytes_left s \<noteq> 0 \<Longrightarrow> 0 < unat (bytes_left s)" by (simp add: unat_gt_0)
  ultimately show "shrunk s s'" "ok \<Longrightarrow> unat (bytes_left s') < unat (bytes_left s)"
    using assms
    by (auto simp: pb_readbyte_def call_read_def buf_read_def Let_def shrunk_def is_error_def split: if_splits)
qed

lemma read_bytes_shrunk:
  assumes "is_callback s = Buffer_callback" and "pb_read_bytes E s n m = (ok, s', bs)"
  shows "shrunk s s'" and "ok \<Longrightarrow> unat (bytes_left s') = unat (bytes_left s) - unat n"
    and "ok \<Longrightarrow> length bs = unat n" and "ok \<Longrightarrow> n \<noteq> 0 \<Longrightarrow> bytes_left s \<noteq> 0"
  using assms left_minus [of n s]
  by (auto simp: pb_read_bytes_def read_some_def call_read_def buf_read_def Let_def shrunk_def is_error_def
      not_less split: if_splits)

lemma varint32_loop_shrunk:
  "is_callback s = Buffer_callback \<Longrightarrow> varint32_loop E s r k m = (ok, s', v) \<Longrightarrow> shrunk s s'"
proof (induction E s r k m rule: varint32_loop.induct)
  case (1 E s r k m)
  obtain ok1 s1 b where rb: "pb_readbyte E s m = (ok1, s1, b)" by (cases "pb_readbyte E s m")
  note s1 = readbyte_shrunk(1) [OF "1.prems"(1) rb]
  then have cb: "is_callback s1 = Buffer_callback" using "1.prems"(1) by (simp add: shrunk_def)
  note ih = "1.IH" [OF rb [symmetric] refl, OF _ refl refl]
  show ?case
    using "1.prems"(2) s1 ih [OF _ _ _ refl _ cb] shrunk_trans [OF s1]
    by (subst (asm) varint32_loop.simps) (auto simp: rb Let_def split: if_splits)
qed

lemma varint_loop_shrunk:
  "is_callback s = Buffer_callback \<Longrightarrow> varint_loop E s r k m = (ok, s', v) \<Longrightarrow> shrunk s s'"
proof (induction E s r k m rule: varint_loop.induct)
  case (1 E s r k m)
  obtain ok1 s1 b where rb: "pb_readbyte E s m = (ok1, s1, b)" by (cases "pb_readbyte E s m")
  note s1 = readbyte_shrunk(1) [OF "1.prems"(1) rb]
  then have cb: "is_callback s1 = Buffer_callback" using "1.prems"(1) by (simp add: shrunk_def)
  show ?case
    using "1.prems"(2) s1 "1.IH" [OF rb [symmetric] refl _ _ refl _ cb] shrunk_trans [OF s1]
    by (subst (asm) varint_loop.simps) (auto simp: rb Let_def split: if_splits)
qed

lemma decode_varint_shrunk:
  "is_callback s = Buffer_callback \<Longrightarrow> pb_decode_varint E s m = (ok, s', v) \<Longrightarrow> shrunk s s'"
  unfolding pb_decode_varint_def by (rule varint_loop_shrunk)

lemma decode_varint32_shrunk:
  assumes "is_callback s = Buffer_callback" and "pb_decode_varint32 E s m = (ok, s', v)"
  shows "shrunk s s'" and "ok \<Longrightarrow> unat (bytes_left s') < unat (bytes_left s)"
proof -
  obtain ok1 s1 b where rb: "pb_readbyte E s m = (ok1, s1, b)" by (cases "pb_readbyte E s m")
  note s1 = readbyte_shrunk [OF assms(1) rb]
  then have cb: "is_callback s1 = Buffer_callback" using assms(1) by (simp add: shrunk_def)
  have "shrunk s1 s'" "ok \<Longrightarrow> ok1"
    using assms(2) varint32_loop_shrunk [OF cb]
    by (auto simp: pb_decode_varint32_def rb split: if_splits)
  then show "shrunk s s'" and "ok \<Longrightarrow> unat (bytes_left s') < unat (bytes_left s)"
    using s1 by (auto simp: shrunk_def)
qed

lemma skip_shrunk:
  assumes "is_callback s = Buffer_callback" and "pb_skip E s n m = (ok, s')"
  shows "shrunk s s'"
  using assms read_bytes_shrunk(1) [OF assms(1), of E n m]
  by (auto simp: pb_skip_def pb_read_bytes_def split: if_splits prod.splits)

lemma skip_varint_total:
  "is_callback s = Buffer_callback \<Longrightarrow> \<exists>ok s'. pb_skip_varint E s m = Some (ok, s') \<and> shrunk s s'"
proof (induction "unat (bytes_left s)" arbitrary: s rule: less_induct)
  case less
  obtain ok1 s1 bs where rb: "pb_read_bytes E s 1 m = (ok1, s1, bs)" by (cases "pb_read_bytes E s 1 m")
  note s1 = read_bytes_shrunk [OF less.prems rb]
  show ?case
  proof (cases "ok1 \<and> first_byte bs AND 0x80 \<noteq> 0")
    case True
    then have "unat (bytes_left s1) < unat (bytes_left s)" using s1(2,4) by (simp add: unat_gt_0)
    moreover have "is_callback s1 = Buffer_callback" using s1(1) less.prems by (simp add: shrunk_def)
    ultimately obtain ok s' where "pb_skip_varint E s1 m = Some (ok, s')" "shrunk s1 s'"
      using less.hyps by blast
    with True s1(1) show ?thesis
      by (subst pb_skip_varint.simps) (auto simp: rb intro: shrunk_trans)
  next
    case False
    with s1(1) show ?thesis by (subst pb_skip_varint.simps) (auto simp: rb)
  qed
qed

lemma skip_field_total:
  assumes "is_callback s = Buffer_callback"
  shows "\<exists>ok s'. pb_skip_field E s wt m = Some (ok, s') \<and> shrunk s s'"
proof -
  have str: "shrunk s (snd (pb_skip_string E s m))"
  proof -
    obtain ok1 s1 n where v: "pb_decode_varint32 E s m = (ok1, s1, n)" by (cases "pb_decode_varint32 E s m")
    note s1 = decode_varint32_shrunk(1) [OF assms v]
    then have "is_callback s1 = Buffer_callback" using assms by (simp add: shrunk_def)
    from shrunk_trans [OF s1 skip_shrunk [OF this surjective_pairing]] s1
    show ?thesis by (simp add: pb_skip_string_def v)
  qed
  show ?thesis
    using skip_varint_total [OF assms] str skip_shrunk [OF assms surjective_pairing]
    by (auto simp: pb_skip_field_def) (metis surjective_pairing)+
qed

lemma decode_tag_shrunk:
  assumes "is_callback s = Buffer_callback" and "pb_decode_tag E s m = (ok, s', wt, tg, eof)"
  shows "shrunk s s'" and "ok \<Longrightarrow> unat (bytes_left s') < unat (bytes_left s)"
    and "\<not> ok \<Longrightarrow> eof \<Longrightarrow> bytes_left s' = 0"
proof -
  obtain ok1 s1 n where v: "pb_decode_varint32 E s m = (ok1, s1, n)" by (cases "pb_decode_varint32 E s m")
  note s1 = decode_varint32_shrunk [OF assms(1) v]
  then have "is_callback s1 = Buffer_callback" using assms(1) by (simp add: shrunk_def)
  with assms(2) s1 show "shrunk s s'" and "ok \<Longrightarrow> unat (bytes_left s') < unat (bytes_left s)"
    and "\<not> ok \<Longrightarrow> eof \<Longrightarrow> bytes_left s' = 0"
    by (auto simp: pb_decode_tag_def v split: if_splits)
qed

section \<open>Looking for an extension range\<close>

text \<open>The number of rounds from field \<open>k\<close> to field \<open>s\<close>, around the end of the \<open>n\<close> fields.\<close>

definition rounds :: "nat \<Rightarrow> nat \<Rightarrow> nat \<Rightarrow> nat" where
  "rounds n s k = (if k \<le> s then s - k else s + n - k)"

lemma find_extension_loop_flat:
  assumes d: "flat_message E desc width sz fs" and msg: "msg \<noteq> 0" and s: "s < length fs"
  shows "k < length fs \<Longrightarrow> moved_to width desc msg fs k (advance_iterator E it)
    \<Longrightarrow> find_extension_loop E m (of_nat s) it = Some (False, flat_it width desc msg fs s)"
proof (induction "rounds (length fs) s k" arbitrary: k it rule: less_induct)
  case less
  note D = describesD [OF flatD(1) [OF d]]
  let ?a = "advance_iterator E it"
  have ok: "PB_GEN_FIELD_INFO_ASSERT width (fs ! k)"
    using D(1) less.prems(1) by (simp add: bind_ok_def list_all_length)
  have idx: "field_info_index ?a = of_nat (length (bind_words width (take k fs)))"
    and dd: "descriptor ?a = desc" and ix: "it_index ?a = of_nat k"
    using less.prems(2) by (simp_all add: moved_to_def)
  have w: "field_info (desc_at E desc) ! unat (field_info_index ?a) = PB_GEN_FIELD_INFO width (fs ! k) ! 0"
    using words_at [OF D(1) less.prems(1) D(2) idx, of 0] field_words_nonempty [OF ok] by simp
  have ext: "PB_LTYPE (bf_type (fs ! k)) \<noteq> PB_LTYPE_EXTENSION"
    using flatD(2) [OF d] less.prems(1) by (simp add: tags_sorted_def)
  show ?case
  proof (cases "k = s")
    case True
    have "load_descriptor_values E m ?a = (True, flat_it width desc msg fs k)"
      using load_moved [OF flatD(1) [OF d] less.prems, of m]
        flat_iter(4) [OF flat_layoutD(1) [OF flatD(5) [OF d] less.prems(1)] msg] by metis
    then show ?thesis
      unfolding True [symmetric]
      by (subst find_extension_loop.simps) (simp add: Let_def dd w field_words(2) [OF ok] ext ix)
  next
    case False
    have "(of_nat k :: pb_size) \<noteq> of_nat s"
      using bind_ok_length [OF D(1)] less.prems(1) s False by (subst of_nat_16_eq) auto
    moreover let ?k = "if Suc k < length fs then Suc k else 0"
    have "rounds (length fs) s ?k < rounds (length fs) s k" "?k < length fs"
      using False less.prems(1) s by (auto simp: rounds_def)
    then have "find_extension_loop E m (of_nat s) ?a = Some (False, flat_it width desc msg fs s)"
      by (rule less.hyps) (rule advance_moved [OF flatD(1) [OF d] less.prems])
    ultimately show ?thesis
      by (subst find_extension_loop.simps) (simp add: Let_def dd w field_words(2) [OF ok] ext ix)
  qed
qed

lemma find_extension_flat:
  assumes d: "flat_message E desc width sz fs" and msg: "msg \<noteq> 0" and i: "i < length fs"
  shows "pb_field_iter_find_extension E m (flat_it width desc msg fs i) = Some (False, flat_it width desc msg fs i)"
proof -
  have "PB_LTYPE (bf_type (fs ! i)) \<noteq> PB_LTYPE_EXTENSION"
    using flatD(2) [OF d] i by (simp add: tags_sorted_def)
  moreover have "(if Suc i < length fs then Suc i else 0) < length fs" using i by auto
  ultimately show ?thesis
    using find_extension_loop_flat [OF d msg i _ advance_moved [OF flatD(1) [OF d] i bound_iter_moved]]
    by (simp add: pb_field_iter_find_extension_def)
qed

section \<open>One field, one round\<close>

lemma decode_flat_any:
  assumes d: "flat_message E desc width sz fs" and dest: "dest \<noteq> 0" and j: "j < length fs"
    and cb: "is_callback s = Buffer_callback"
  shows "\<exists>ok s' m'. decode_field sub defs E s wt (flat_it width desc dest fs j) m =
      Some (ok, s', flat_it width desc dest fs j, m') \<and> shrunk s s' \<and> same_outside dest sz m m'"
proof -
  have f: "flat_field (fs ! j)" using flat_layoutD flatD(5) [OF d] j by blast
  have so: "same_outside dest sz m (store_word 4 m (dest + off (fs ! j)) v)" for v :: "32 word"
    using same_outside_field [OF flatD(5) [OF d]] j by simp
  note it = flat_iter(1) [OF f dest, of width "\<lambda>_. 0" desc]
  have dsz: "ucast (bf_data_size (fs ! j)) = (4 :: pb_size)" using f by (simp add: flat_field_def)
  have "\<exists>ok s' m'. decode_basic_field sub E s wt (flat_it width desc dest fs j) m = Some (ok, s', m')
      \<and> shrunk s s' \<and> same_outside dest sz m m'"
  proof (cases "bf_type (fs ! j) = flat_uint")
    case True
    obtain ok1 s1 v where v: "pb_decode_varint E s m = (ok1, s1, v)" by (cases "pb_decode_varint E s m")
    have "shrunk s s1" by (rule decode_varint_shrunk [OF cb v])
    with True so show ?thesis
      by (auto simp: decode_basic_field_def pb_dec_varint_def v dsz it clamp_uint_def clamp_result_def)
  next
    case False
    with f have ty: "bf_type (fs ! j) = flat_fixed" by (simp add: flat_field_def)
    obtain ok1 s1 bs where r: "pb_read_bytes E s 4 m = (ok1, s1, bs)" by (cases "pb_read_bytes E s 4 m")
    note s1 = read_bytes_shrunk [OF cb r]
    have "same_outside dest sz m (store_bytes m (dest + off (fs ! j)) bs)" if ok1
      using s1(3) [OF that] flat_layoutD(2) [OF flatD(5) [OF d] j] by (intro same_outside_store) auto
    with ty s1(1) show ?thesis
      by (auto simp: decode_basic_field_def pb_decode_fixed32_def r it)
  qed
  then show ?thesis unfolding decode_flat_static [OF f dest] by (auto simp: with_field_def)
qed

text \<open>What the loop keeps of its local variables.\<close>

definition flat_locals :: "decode_locals \<Rightarrow> bool" where
  "flat_locals L \<longleftrightarrow> extensions L = 0 \<and> fixed_count_field L = PB_SIZE_MAX"

lemma find_extensions_flat:
  assumes "flat_message E desc width sz fs" and "dest \<noteq> 0" and "i < length fs" and "flat_locals L"
  shows "\<exists>L'. find_extensions E (flat_it width desc dest fs i) m L = Some (flat_it width desc dest fs i, L')
    \<and> flat_locals L'"
  using assms(4) by (cases "extension_range_start L = 0")
    (simp_all add: find_extensions_def find_extension_flat [OF assms(1-3)] flat_locals_def Let_def)

lemma decode_unknown_flat:
  assumes d: "flat_message E desc width sz fs" and dest: "dest \<noteq> 0" and i: "i < length fs"
    and cb: "is_callback s = Buffer_callback" and L: "flat_locals L"
  shows "\<exists>ok s' L'. decode_unknown sub defs E s wt tg (flat_it width desc dest fs i) m L =
      Some (ok, s', flat_it width desc dest fs i, m, L') \<and> shrunk s s' \<and> flat_locals L'"
proof -
  obtain L' where L': "find_extensions E (flat_it width desc dest fs i) m L = Some (flat_it width desc dest fs i, L')"
    "flat_locals L'"
    using find_extensions_flat [OF d dest i L] by blast
  obtain ok s' where "pb_skip_field E s wt m = Some (ok, s')" "shrunk s s'" using skip_field_total [OF cb] by blast
  moreover have "decode_extension sub defs E (bytes_left s) s tg wt 0 m = Some (True, s, m)"
    by (subst decode_extension.simps) simp
  ultimately show ?thesis
    using L' by (simp add: decode_unknown_def skip_unknown_def flat_locals_def)
qed

lemma decode_round_flat:
  assumes d: "flat_message E desc width sz fs" and dest: "dest \<noteq> 0" and i: "i < length fs"
    and cb: "is_callback s = Buffer_callback" and L: "flat_locals L"
  shows "\<exists>ok s' k m' L'. decode_round sub defs E s wt tg (flat_it width desc dest fs i) m L =
      Some (ok, s', flat_it width desc dest fs k, m', L') \<and> k < length fs \<and> shrunk s s'
      \<and> same_outside dest sz m m' \<and> flat_locals L'"
proof (cases "\<exists>j < length fs. bf_tag (fs ! j) = tg")
  case False
  moreover obtain ok s' L' where
    "decode_unknown sub defs E s wt tg (flat_it width desc dest fs i) m L =
      Some (ok, s', flat_it width desc dest fs i, m, L')" "shrunk s s'" "flat_locals L'"
    using decode_unknown_flat [OF d dest i cb L] by blast
  ultimately show ?thesis
    using flat_find(2) [OF d i dest, of tg m] i by (auto simp: decode_round_def)
next
  case True
  then obtain j where j: "j < length fs" "bf_tag (fs ! j) = tg" by blast
  have f: "flat_field (fs ! j)" using flat_layoutD flatD(5) [OF d] j by blast
  then have ty: "bf_type (fs ! j) = flat_uint \<or> bf_type (fs ! j) = flat_fixed" by (simp add: flat_field_def)
  note it = flat_iter(2) [OF f dest, of width "\<lambda>_. 0" desc]
  have sel: "select_fixed_count (flat_it width desc dest fs j) L = Some (flat_it width desc dest fs j, L)"
    and seen: "mark_seen (flat_it width desc dest fs j) L = L"
    and keep: "keep_fixed_count (flat_it width desc dest fs j) L = L"
    and ext: "PB_LTYPE (bf_type (fs ! j)) \<noteq> PB_LTYPE_EXTENSION"
    using ty it by (auto simp: select_fixed_count_def mark_seen_def keep_fixed_count_def)
  obtain ok s' m' where "decode_field sub defs E s wt (flat_it width desc dest fs j) m =
      Some (ok, s', flat_it width desc dest fs j, m')" "shrunk s s'" "same_outside dest sz m m'"
    using decode_flat_any [OF d dest j(1) cb] by blast
  with flat_find(1) [OF d i dest j, of m] j L show ?thesis
    by (auto simp: decode_round_def ext sel seen keep)
qed

section \<open>The loop\<close>

lemma decode_loop_flat:
  assumes d: "flat_message E desc width sz fs" and dest: "dest \<noteq> 0"
  shows "i < length fs \<Longrightarrow> is_callback s = Buffer_callback \<Longrightarrow> flat_locals L \<Longrightarrow>
    \<exists>ended eof s' k m' L'. decode_loop sub defs E 0 s (flat_it width desc dest fs i) m L =
      Some (ended, eof, s', flat_it width desc dest fs k, m', L')
      \<and> shrunk s s' \<and> same_outside dest sz m m' \<and> flat_locals L' \<and> (ended \<and> eof \<longrightarrow> bytes_left s' = 0)"
proof (induction "unat (bytes_left s)" arbitrary: s i m L rule: less_induct)
  case less
  obtain ok1 s1 wt tg eof where t: "pb_decode_tag E s m = (ok1, s1, wt, tg, eof)" by (cases "pb_decode_tag E s m")
  note s1 = decode_tag_shrunk [OF less.prems(2) t]
  then have cb: "is_callback s1 = Buffer_callback" using less.prems(2) by (simp add: shrunk_def)
  show ?case
  proof (cases "ok1 \<and> tg \<noteq> 0")
    case False
    then show ?thesis
      using s1 less.prems(3) by (subst decode_loop.simps) (auto simp: t)
  next
    case True
    obtain ok s2 k m2 L2 where r: "decode_round sub defs E s1 wt tg (flat_it width desc dest fs i) m L =
        Some (ok, s2, flat_it width desc dest fs k, m2, L2)"
      and k: "k < length fs" "shrunk s1 s2" "same_outside dest sz m m2" "flat_locals L2"
      using decode_round_flat [OF d dest less.prems(1) cb less.prems(3)] by blast
    show ?thesis
    proof (cases ok)
      case False
      with True k shrunk_trans [OF s1(1) k(2)] show ?thesis by (subst decode_loop.simps) (auto simp: t r)
    next
      case ok: True
      have "unat (bytes_left s2) < unat (bytes_left s)" using s1(2) True k(2) by (auto simp: shrunk_def)
      moreover have "is_callback s2 = Buffer_callback" using cb k(2) by (simp add: shrunk_def)
      ultimately obtain ended eof s' k' m' L'
        where rest: "decode_loop sub defs E 0 s2 (flat_it width desc dest fs k) m2 L2 =
            Some (ended, eof, s', flat_it width desc dest fs k', m', L')"
          and *: "shrunk s2 s'" "same_outside dest sz m2 m'" "flat_locals L'" "ended \<and> eof \<longrightarrow> bytes_left s' = 0"
        using less.hyps [OF _ k(1) _ k(4)] by blast
      have "shrunk s s'" using shrunk_trans [OF s1(1)] shrunk_trans [OF k(2) *(1)] by blast
      moreover have "same_outside dest sz m m'" by (rule same_outside_trans [OF k(3) *(2)])
      moreover have "decode_loop sub defs E 0 s (flat_it width desc dest fs i) m L =
          Some (ended, eof, s', flat_it width desc dest fs k', m', L')"
        using True ok rest by (subst decode_loop.simps) (simp add: t r)
      ultimately show ?thesis using * by blast
    qed
  qed
qed

text \<open>Behind the loop nothing is left to do for such a message.\<close>

lemma decode_flat_finish:
  assumes d: "flat_message E desc width sz fs" and dest: "dest \<noteq> 0"
    and loop: "decode_loop (pb_decode_inner n E) (pb_message_set_to_defaults n E) E 0 s (flat_it width desc dest fs 0)
        (zero_fields dest fs m) decode_locals_init = Some (ended, eof, s', flat_it width desc dest fs k, m', L')"
    and L: "flat_locals L'"
  shows "pb_decode (Suc n) E s desc dest m = Some (ended \<and> eof, s', m')"
proof -
  have "required_field_count (desc_at E desc) = 0"
    using flatD(5) [OF d] by (simp add: flatD(4) [OF d] PB_BIND_def flat_layout_def required_flat)
  then have seen: "all_required_seen E (flat_it width desc dest fs k) L'"
    by (simp add: all_required_seen_def)
  then show ?thesis
    using L
    by (simp add: pb_decode_def pb_decode_ex_def pb_decode_inner_Suc decode_inner_def flat_begin [OF d dest]
        pb_message_set_to_defaults_Suc message_defaults_flat [OF d dest] loop flat_locals_def)
qed

lemma decode_flat_total:
  assumes d: "flat_message E desc width sz fs" and dest: "dest \<noteq> 0" and cb: "is_callback s = Buffer_callback"
  shows "\<exists>ok s' m'. pb_decode (Suc n) E s desc dest m = Some (ok, s', m')
    \<and> shrunk s s' \<and> same_outside dest sz m m' \<and> (ok \<longrightarrow> bytes_left s' = 0)"
proof -
  let ?m = "zero_fields dest fs m"
  have fs: "0 < length fs" using flatD(3) [OF d] by simp
  have L: "flat_locals decode_locals_init" by (simp add: flat_locals_def decode_locals_init_def)
  obtain ended eof s' k m' L' where
    loop: "decode_loop (pb_decode_inner n E) (pb_message_set_to_defaults n E) E 0 s (flat_it width desc dest fs 0) ?m
        decode_locals_init = Some (ended, eof, s', flat_it width desc dest fs k, m', L')"
    and *: "shrunk s s'" "same_outside dest sz ?m m'" "flat_locals L'" "ended \<and> eof \<longrightarrow> bytes_left s' = 0"
    using decode_loop_flat [OF d dest fs cb L] by blast
  have "same_outside dest sz m ?m" by (rule same_outside_zero [OF flatD(5) [OF d]]) simp
  from same_outside_trans [OF this *(2)] have so: "same_outside dest sz m m'" .
  have "pb_decode (Suc n) E s desc dest m = Some (ended \<and> eof, s', m')"
    by (rule decode_flat_finish [OF d dest loop *(3)])
  then show ?thesis using * so by blast
qed

end
