(* ===== verification/PbFlatFull.thy ===== *)
theory PbFlatFull
  imports PbFlat
begin

text \<open>
  The error path of the encoder on flat messages: what happens when the wire format does not fit in
  the buffer. Every write tests the room first, so the first one that does not fit reports
  \<open>stream full\<close>, and the error is passed up to the caller.
\<close>

section \<open>Streams that are too small\<close>

text \<open>A stream into a buffer that is within its limit and has reported no error.\<close>

definition fresh :: "pb_ostream \<Rightarrow> bool" where
  "fresh s \<longleftrightarrow> os_callback s = Buffer_callback \<and> unat (bytes_written s) \<le> unat (max_size s) \<and> os_errmsg s = None"

definition stream_full :: "enc_result \<Rightarrow> bool" where
  "stream_full r \<longleftrightarrow> (case r of (ok, s, m) \<Rightarrow> \<not> ok \<and> os_errmsg s = Some ''stream full'')"

lemma fresh_wrote: "fresh s \<Longrightarrow> has_room s n \<Longrightarrow> fresh (wrote n s)"
  using wrote_bytes [of s n] by (simp add: fresh_def has_room_def)

lemma room_split: "fresh s \<Longrightarrow> has_room s n \<Longrightarrow> has_room (wrote n s) k \<longleftrightarrow> has_room s (n + k)"
  using wrote_bytes [of s n] by (simp add: has_room_def add.assoc)

lemma no_room_mono: "\<not> has_room s k \<Longrightarrow> k \<le> n \<Longrightarrow> \<not> has_room s n"
  using has_room_mono by blast

lemma has_room_0: "fresh s \<Longrightarrow> has_room s 0"
  by (simp add: fresh_def has_room_def)

lemma pb_write_full:
  assumes "fresh s" and "\<not> has_room s (length bs)" and "length bs < 2 ^ 64" and n: "n = of_nat (length bs)"
  shows "stream_full (pb_write E s bs n m)"
proof -
  have len: "unat n = length bs" using assms(3) by (simp add: n unat_of_size)
  have over: "unat (max_size s) < unat (bytes_written s) + unat n"
    using assms(1,2) len by (simp add: fresh_def has_room_def)
  then have "0 < n" using assms(1) by (auto simp: fresh_def word_less_nat_alt intro: gr0I)
  moreover have "bytes_written s + n < bytes_written s \<or> max_size s < bytes_written s + n"
  proof (cases "unat (bytes_written s) + unat n < 2 ^ LENGTH(64)")
    case True
    then have "unat (bytes_written s + n) = unat (bytes_written s) + unat n" by (simp add: unat_word_ariths)
    with over show ?thesis by (simp add: word_less_nat_alt)
  next
    case False
    have lt: "unat n < 2 ^ LENGTH(64)" "unat (bytes_written s) < 2 ^ LENGTH(64)" by (rule unsigned_less)+
    have "unat (bytes_written s + n) = (unat (bytes_written s) + unat n) mod 2 ^ LENGTH(64)"
      by (simp add: unat_word_ariths)
    also have "\<dots> = unat (bytes_written s) + unat n - 2 ^ LENGTH(64)"
      using False lt by (subst le_mod_geq) (auto simp: mod_less)
    finally have "unat (bytes_written s + n) < unat (bytes_written s)" using False lt by linarith
    then show ?thesis by (simp add: word_less_nat_alt)
  qed
  ultimately show ?thesis
    using assms(1) by (auto simp: pb_write_def stream_full_def fresh_def os_error_def)
qed

lemma encode_varint_full:
  assumes "fresh s" and "\<not> has_room s (length (leb128 v))"
  shows "stream_full (pb_encode_varint E s v m)"
proof -
  have "length (leb128 v) < 2 ^ 64" using leb128_length_10 [of v] by (rule le_less_trans) simp
  then show ?thesis using pb_write_full [OF assms _ refl] by (simp add: encode_varint_eq)
qed

section \<open>Flat messages\<close>

lemma enc_bind_full: "stream_full r \<Longrightarrow> \<exists>r'. enc_bind (Some r) k = Some r' \<and> stream_full r'"
  by (auto simp: enc_bind_def stream_full_def)

lemma encode_flat_field_full:
  assumes d: "flat_message E desc width sz fs" and i: "i < length fs" and msg: "msg \<noteq> 0"
    and v: "v = flat_value m msg (fs ! i)" and s: "fresh s"
    and room: "\<not> has_room s (length (flat_field_wire (fs ! i) v))"
    and apart: "os_state s + length (flat_field_wire (fs ! i) v) \<le> msg \<or> msg + sz \<le> os_state s"
  shows "\<exists>r. encode_field (check_default (pb_check_proto3_default_value n E) E) sub E s
      (bound_iter width m0 desc msg fs i) m = Some r \<and> stream_full r"
proof -
  let ?f = "fs ! i"
  let ?k = "leb128 (flat_key ?f)" and ?p = "flat_payload ?f v"
  have "v \<noteq> 0" using room has_room_0 [OF s] by (auto simp: flat_field_wire_def)
  note code = flat_field_code [OF d i msg v] this
  have w: "flat_field_wire ?f v = ?k @ ?p" using \<open>v \<noteq> 0\<close> by (simp add: flat_field_wire_def)
  show ?thesis
  proof (cases "has_room s (length ?k)")
    case False
    from enc_bind_full [OF encode_varint_full [OF s this]] show ?thesis by (simp add: code)
  next
    case True
    let ?m1 = "store_bytes m (os_state s) ?k"
    have s1: "fresh (wrote (length ?k) s)" by (rule fresh_wrote [OF s True])
    have r1: "\<not> has_room (wrote (length ?k) s) (length ?p)" using room by (simp add: room_split [OF s True] w)
    have "os_state s + length ?k \<le> msg \<or> msg + sz \<le> os_state s" using apart by (auto simp: w)
    then have same: "flat_value ?m1 msg ?f = v"
      using flat_value_apart [OF flatD(5) [OF d], of ?f] i by (simp add: v)
    show ?thesis
    proof (cases "bf_type ?f = flat_uint")
      case uint: True
      then show ?thesis
        using encode_varint_full [OF s1, of "ucast v" E ?m1] r1 encode_varint_room [OF True]
        by (simp add: code same flat_payload_def)
    next
      case False
      then show ?thesis
        using pb_write_full [OF s1 r1 _ refl, of E ?m1] encode_varint_room [OF True]
        by (simp add: code same flat_payload_def)
    qed
  qed
qed

lemma encode_flat_fields_full:
  assumes d: "flat_message E desc width sz fs" and msg: "msg \<noteq> 0"
  shows "i < length fs \<Longrightarrow> w = flat_wire (drop i fs) (flat_value m msg) \<Longrightarrow> fresh s \<Longrightarrow> \<not> has_room s (length w)
    \<Longrightarrow> os_state s + length w \<le> msg \<or> msg + sz \<le> os_state s
    \<Longrightarrow> \<exists>r. encode_fields (check_default (pb_check_proto3_default_value n E) E) sub E s
          (bound_iter width m0 desc msg fs i) m = Some r \<and> stream_full r"
proof (induction "length fs - i" arbitrary: i s m m0 w)
  case 0
  then show ?case by simp
next
  case (Suc k)
  let ?f = "fs ! i"
  define w1 where "w1 = flat_field_wire ?f (flat_value m msg ?f)"
  define w2 where "w2 = flat_wire (drop (Suc i) fs) (flat_value m msg)"
  have w: "w = w1 @ w2"
    using Suc.prems(1,2) by (simp add: w1_def w2_def Cons_nth_drop_Suc [symmetric])
  have ap1: "os_state s + length w1 \<le> msg \<or> msg + sz \<le> os_state s" using Suc.prems(5) by (auto simp: w)
  have ext: "PB_LTYPE (bf_type ?f) \<noteq> PB_LTYPE_EXTENSION"
    using flatD(2) [OF d] Suc.prems(1) by (simp add: tags_sorted_def)
  show ?case
  proof (cases "has_room s (length w1)")
    case False
    from encode_flat_field_full [OF d Suc.prems(1) msg refl Suc.prems(3) False [unfolded w1_def] ap1 [unfolded w1_def],
        of n sub m0]
    show ?thesis by (subst encode_fields.simps) (auto simp: ext stream_full_def)
  next
    case True
    let ?m1 = "store_bytes m (os_state s) w1"
    have r2: "\<not> has_room (wrote (length w1) s) (length w2)"
      using Suc.prems(3,4) True by (simp add: room_split w)
    have "w2 \<noteq> []" using r2 has_room_0 [OF fresh_wrote [OF Suc.prems(3) True]] by auto
    then have more: "Suc i < length fs" using Suc.prems(1) by (cases "Suc i < length fs") (simp_all add: w2_def)
    have w2: "w2 = flat_wire (drop (Suc i) fs) (flat_value ?m1 msg)"
      unfolding w2_def using flat_value_apart [OF flatD(5) [OF d] _ ap1]
      by (intro flat_wire_cong) (auto dest: in_set_dropD)
    have field: "encode_field (pb_check_proto3_default_value (Suc n) E) sub E s (bound_iter width m0 desc msg fs i) m
        = Some (True, wrote (length w1) s, ?m1)"
      unfolding w1_def by (rule encode_flat_field [OF d Suc.prems(1) msg refl])
        (use True ap1 in \<open>simp_all only: w1_def\<close>)
    have "\<exists>r. encode_fields (check_default (pb_check_proto3_default_value n E) E) sub E (wrote (length w1) s)
        (bound_iter width ?m1 desc msg fs (Suc i)) ?m1 = Some r \<and> stream_full r"
    proof (rule Suc.hyps(1) [OF _ more w2 fresh_wrote [OF Suc.prems(3) True] r2])
      show "os_state (wrote (length w1) s) + length w2 \<le> msg \<or> msg + sz \<le> os_state (wrote (length w1) s)"
        using Suc.prems(5) by (auto simp: w)
    qed (use Suc.hyps(2) in simp)
    then show ?thesis
      using more by (subst encode_fields.simps)
        (simp add: field [unfolded pb_check_proto3_default_value.simps] ext iter_next [OF flatD(1) [OF d] Suc.prems(1)])
  qed
qed

lemma encode_flat_full:
  assumes d: "flat_message E desc width sz fs" and msg: "msg \<noteq> 0"
    and w: "w = flat_wire fs (flat_value m msg)" and "fresh s" and room: "\<not> has_room s (length w)"
    and apart: "os_state s + length w \<le> msg \<or> msg + sz \<le> os_state s"
  shows "\<exists>r. pb_encode (Suc n) E s desc msg m = Some r \<and> stream_full r"
proof -
  have "pb_field_iter_begin E desc msg m = (True, bound_iter width m desc msg fs 0)"
    using iter_begin [OF flatD(1) [OF d]] flatD(3) [OF d] by simp
  then show ?thesis
    using encode_flat_fields_full [OF d msg, of 0 w m s n "pb_encode n E" m] flatD(3) [OF d] assms(3-)
    by (simp add: encode_message_def)
qed

end
