(* ===== verification/PbEncodeSafe.thy ===== *)
theory PbEncodeSafe
  imports PbVarint
begin

text \<open>
  Memory safety of the encoder. \<open>enc_frame\<close> is the contract of every encoding function on a buffer
  or sizing stream: the stream stays of its kind, advances by as many bytes as it counts, never
  past its limit, and only those bytes of the memory change. The contract composes along the code's
  sequencing; functions of the user have to meet it too, which is what the locale asks for.
\<close>

section \<open>The contract\<close>

definition os_ok :: "pb_ostream \<Rightarrow> bool" where
  "os_ok s \<longleftrightarrow>
     (case os_callback s of
        No_callback \<Rightarrow> True
      | Buffer_callback \<Rightarrow> unat (bytes_written s) \<le> unat (max_size s) \<and> unat (max_size s) \<le> 2 ^ 63
      | User_callback k \<Rightarrow> False)"

definition advanced :: "pb_ostream \<Rightarrow> mem \<Rightarrow> pb_ostream \<Rightarrow> mem \<Rightarrow> nat \<Rightarrow> bool" where
  "advanced s m s' m' n \<longleftrightarrow>
     os_state s' = os_state s + n \<and> unat (bytes_written s') = unat (bytes_written s) + n
     \<and> (\<forall>a. a < os_state s \<or> os_state s + n \<le> a \<longrightarrow> m' a = m a)"

definition enc_frame :: "pb_ostream \<Rightarrow> mem \<Rightarrow> enc_result \<Rightarrow> bool" where
  "enc_frame s m r \<longleftrightarrow>
     (os_ok s \<longrightarrow>
       (case r of (ok, s', m') \<Rightarrow>
          os_ok s' \<and> os_callback s' = os_callback s \<and> max_size s' = max_size s
          \<and> (if os_callback s = No_callback then os_state s' = os_state s \<and> m' = m
             else \<exists>n. advanced s m s' m' n)))"

definition enc_frame_opt :: "pb_ostream \<Rightarrow> mem \<Rightarrow> enc_result option \<Rightarrow> bool" where
  "enc_frame_opt s m r \<longleftrightarrow> (case r of None \<Rightarrow> True | Some r \<Rightarrow> enc_frame s m r)"

named_theorems enc_frames

lemma advanced_trans:
  "advanced s m s' m' n \<Longrightarrow> advanced s' m' s'' m'' k \<Longrightarrow> advanced s m s'' m'' (n + k)"
  by (auto simp: advanced_def)

lemma advanced_refl: "os_state s' = os_state s \<Longrightarrow> bytes_written s' = bytes_written s \<Longrightarrow> advanced s m s' m 0"
  by (simp add: advanced_def)

lemma enc_frame_trans:
  assumes "enc_frame s m (ok, s', m')" and "enc_frame s' m' r"
  shows "enc_frame s m r"
  using assms by (cases r) (force simp: enc_frame_def intro: advanced_trans)

lemma enc_frame_same:
  assumes "os_callback s' = os_callback s" "max_size s' = max_size s" "os_state s' = os_state s"
    "bytes_written s' = bytes_written s"
  shows "enc_frame s m (ok, s', m)"
proof -
  have "os_ok s' = os_ok s" using assms by (simp add: os_ok_def split: stream_callback.split)
  with assms advanced_refl [of s' s m] show ?thesis by (auto simp: enc_frame_def)
qed

lemma enc_frame_refl [enc_frames]: "enc_frame s m (ok, s, m)"
  by (rule enc_frame_same) simp_all

lemma enc_frame_error [enc_frames]: "enc_frame s m (ok, os_error msg s, m)"
  by (rule enc_frame_same) (simp_all add: os_error_def)

lemma enc_frame_status: "enc_frame s m (ok, s', m') \<Longrightarrow> enc_frame s m (ok', s', m')"
  by (simp add: enc_frame_def)

lemma enc_frame_error_after: "enc_frame s m (ok, s', m') \<Longrightarrow> enc_frame s m (False, os_error msg s', m')"
  by (rule enc_frame_trans [OF _ enc_frame_error])

lemma enc_then_frame [enc_frames]:
  assumes "enc_frame s m r" and "\<And>s m. enc_frame s m (k s m)"
  shows "enc_frame s m (enc_then r k)"
  using assms by (cases r) (auto simp: enc_then_def intro: enc_frame_trans enc_frame_status)

lemma enc_bind_frame [enc_frames]:
  assumes "enc_frame_opt s m r" and "\<And>s m. enc_frame_opt s m (k s m)"
  shows "enc_frame_opt s m (enc_bind r k)"
proof (cases r)
  case (Some r')
  obtain ok s' m' where r': "r' = (ok, s', m')" by (cases r') auto
  have "enc_frame s m (ok, s', m')" using assms(1) by (simp add: Some r' enc_frame_opt_def)
  with assms(2) [of s' m'] show ?thesis
    by (auto simp: Some r' enc_bind_def enc_frame_opt_def split: option.split
        intro: enc_frame_trans enc_frame_status)
qed (simp add: enc_frame_opt_def enc_bind_def)

lemma enc_frame_Some [enc_frames]: "enc_frame s m r \<Longrightarrow> enc_frame_opt s m (Some r)"
  by (simp add: enc_frame_opt_def)

lemma enc_frame_None [enc_frames]: "enc_frame_opt s m None"
  by (simp add: enc_frame_opt_def)

lemma enc_frame_if [enc_frames]:
  "(b \<Longrightarrow> enc_frame s m x) \<Longrightarrow> (\<not> b \<Longrightarrow> enc_frame s m y) \<Longrightarrow> enc_frame s m (if b then x else y)"
  by simp

lemma enc_frame_opt_if [enc_frames]:
  "(b \<Longrightarrow> enc_frame_opt s m x) \<Longrightarrow> (\<not> b \<Longrightarrow> enc_frame_opt s m y) \<Longrightarrow> enc_frame_opt s m (if b then x else y)"
  by simp

section \<open>Primitive encoders\<close>

lemma pb_write_frame [enc_frames]: "enc_frame s m (pb_write E s buf count m)"
proof (cases "os_callback s")
  case No_callback
  then show ?thesis by (simp add: pb_write_def enc_frame_def os_ok_def)
next
  case Buffer_callback
  show ?thesis
  proof (cases "count = 0")
    case True
    then show ?thesis by (auto simp: pb_write_def intro: enc_frame_same)
  next
    case False
    show ?thesis
    proof (cases "bytes_written s + count < bytes_written s \<or> bytes_written s + count > max_size s")
      case True
      then show ?thesis using False Buffer_callback
        by (simp add: pb_write_def word_neq_0_conv enc_frame_error)
    next
      case fits: False
      then have sum: "unat (bytes_written s + count) = unat (bytes_written s) + unat count"
        by (metis not_less unat_plus_simple)
      have "advanced s m (s\<lparr>os_state := os_state s + unat count, bytes_written := bytes_written s + count\<rparr>)
          (store_bytes m (os_state s) (take (unat count) buf)) (unat count)"
        using sum by (auto simp: advanced_def)
      moreover have "0 < count" using False by (simp add: word_neq_0_conv)
      with fits Buffer_callback have "pb_write E s buf count m =
          (True, s\<lparr>os_state := os_state s + unat count, bytes_written := bytes_written s + count\<rparr>,
           store_bytes m (os_state s) (take (unat count) buf))"
        by (simp add: pb_write_def call_write_def buf_write_def Let_def)
      moreover have "unat (bytes_written s) + unat count \<le> unat (max_size s)"
        using fits sum by (simp add: word_less_nat_alt)
      ultimately show ?thesis
        using Buffer_callback sum by (auto simp: enc_frame_def os_ok_def)
    qed
  qed
qed (simp add: enc_frame_def os_ok_def)

lemma encode_varint_frame [enc_frames]: "enc_frame s m (pb_encode_varint E s v m)"
  by (simp add: encode_varint_eq pb_write_frame)

lemma encode_svarint_frame [enc_frames]: "enc_frame s m (pb_encode_svarint E s v m)"
  by (simp add: pb_encode_svarint_def encode_varint_frame)

lemma encode_tag_frame [enc_frames]: "enc_frame s m (pb_encode_tag E s wt n m)"
  by (simp add: pb_encode_tag_def encode_varint_frame)

lemma encode_tag_for_field_frame [enc_frames]: "enc_frame s m (pb_encode_tag_for_field E s field m)"
  by (simp add: pb_encode_tag_for_field_def enc_frames split: option.split)

lemma encode_string_frame [enc_frames]: "enc_frame s m (pb_encode_string E s buf sz m)"
  by (simp add: pb_encode_string_def enc_frames)

lemma enc_bool_frame [enc_frames]: "enc_frame s m (pb_enc_bool E s field m)"
  by (simp add: pb_enc_bool_def enc_frames)

lemma enc_varint_frame [enc_frames]: "enc_frame s m (pb_enc_varint E s field m)"
  by (simp add: pb_enc_varint_def enc_frames split: option.split)

lemma enc_fixed_frame [enc_frames]: "enc_frame s m (pb_enc_fixed E s field m)"
  by (simp add: pb_enc_fixed_def pb_encode_fixed32_def pb_encode_fixed64_def enc_frames)

lemma enc_bytes_frame [enc_frames]: "enc_frame s m (pb_enc_bytes E s field m)"
  by (simp add: pb_enc_bytes_def Let_def enc_frames)

lemma enc_string_frame [enc_frames]: "enc_frame s m (pb_enc_string E s field m)"
  by (simp add: pb_enc_string_def Let_def enc_frames)

lemma enc_fixed_length_bytes_frame [enc_frames]: "enc_frame s m (pb_enc_fixed_length_bytes E s field m)"
  by (simp add: pb_enc_fixed_length_bytes_def enc_frames)

lemma size_items_frame: "enc_frame s m (size_items n E s field m)"
  by (induction n arbitrary: s field m) (auto intro: enc_frames)

lemma packed_items_frame [enc_frames]: "enc_frame s m (packed_items n E s field m)"
  by (induction n arbitrary: s field m) (auto intro!: enc_frames)

section \<open>Messages\<close>

text \<open>What is asked of the encoder for submessages: the contract, and sizes below half the address space.\<close>

definition framed_sub :: "msg_encoder \<Rightarrow> bool" where
  "framed_sub sub \<longleftrightarrow>
     (\<forall>s d src m. enc_frame_opt s m (sub s d src m))
     \<and> (\<forall>d src m ok s' m'. sub PB_OSTREAM_SIZING d src m = Some (ok, s', m')
          \<longrightarrow> unat (bytes_written s') < 2 ^ 63)"

lemma framed_subD:
  assumes "framed_sub sub"
  shows "enc_frame_opt s m (sub s d src m)"
    and "sub PB_OSTREAM_SIZING d src m = Some (ok, s', m') \<Longrightarrow> unat (bytes_written s') < 2 ^ 63"
    and "sub s d src m = Some r \<Longrightarrow> enc_frame s m r"
proof -
  show opt: "enc_frame_opt s m (sub s d src m)" for s d src m using assms by (simp add: framed_sub_def)
  show "sub PB_OSTREAM_SIZING d src m = Some (ok, s', m') \<Longrightarrow> unat (bytes_written s') < 2 ^ 63"
    using assms unfolding framed_sub_def by blast
  show "sub s d src m = Some r \<Longrightarrow> enc_frame s m r" using opt [of s m d src] by (simp add: enc_frame_opt_def)
qed

lemma sizing_memory:
  assumes "framed_sub sub" and "sub PB_OSTREAM_SIZING d src m = Some (ok, s', m')"
  shows "m' = m"
  using framed_subD(3) [OF assms] by (simp add: enc_frame_def os_ok_def PB_OSTREAM_SIZING_def)

text \<open>The substream that writes a submessage of a known size into the rest of the buffer.\<close>

lemma substream_frame:
  assumes "framed_sub sub" and buf: "os_callback s \<noteq> No_callback"
    and fits: "\<not> bytes_written s + sz > max_size s" and sz: "unat sz < 2 ^ 63"
    and run: "sub (s\<lparr>max_size := sz, bytes_written := 0, os_errmsg := None\<rparr>) d src m = Some (status, ss, m')"
  shows "enc_frame s m (ok, s\<lparr>bytes_written := bytes_written s + bytes_written ss,
           os_state := os_state ss, os_errmsg := os_errmsg ss\<rparr>, m')"
proof (cases "os_ok s")
  case True
  let ?t = "s\<lparr>max_size := sz, bytes_written := 0, os_errmsg := None\<rparr>"
  have b: "os_callback s = Buffer_callback" "unat (bytes_written s) \<le> unat (max_size s)"
    "unat (max_size s) \<le> 2 ^ 63"
    using True buf by (auto simp: os_ok_def split: stream_callback.splits)
  have "os_ok ?t" using b sz by (simp add: os_ok_def)
  moreover have "enc_frame ?t m (status, ss, m')" by (rule framed_subD(3) [OF assms(1) run])
  ultimately obtain n where n: "advanced ?t m ss m' n" "os_ok ss" "os_callback ss = Buffer_callback" "max_size ss = sz"
    using b by (auto simp: enc_frame_def)
  then have le: "unat (bytes_written ss) \<le> unat sz" "unat (bytes_written ss) = n"
    by (simp_all add: os_ok_def advanced_def)
  have "unat (bytes_written s + sz) = unat (bytes_written s) + unat sz"
    using b sz by (simp add: unat_word_ariths)
  then have room: "unat (bytes_written s) + unat sz \<le> unat (max_size s)"
    using fits by (simp add: word_less_nat_alt)
  then have "unat (bytes_written s + bytes_written ss) = unat (bytes_written s) + n"
    using b le by (simp add: unat_word_ariths)
  then have "advanced s m (s\<lparr>bytes_written := bytes_written s + bytes_written ss,
      os_state := os_state ss, os_errmsg := os_errmsg ss\<rparr>) m' n"
    using n by (simp add: advanced_def)
  moreover have "unat (bytes_written s + bytes_written ss) \<le> unat (max_size s)"
    using le room \<open>unat (bytes_written s + bytes_written ss) = _\<close> by simp
  ultimately show ?thesis
    using b by (auto simp: enc_frame_def os_ok_def)
qed (simp add: enc_frame_def)

lemma encode_submessage_frame:
  assumes sub: "framed_sub sub"
  shows "enc_frame_opt s m (pb_encode_submessage sub E s d src m)"
proof (cases "sub PB_OSTREAM_SIZING d src m")
  case (Some r)
  obtain ok ss m1 where r: "r = (ok, ss, m1)" by (cases r) auto
  note size = framed_subD(2) [OF sub Some [unfolded r]]
  have [simp]: "m1 = m" by (rule sizing_memory [OF sub Some [unfolded r]])
  have err: "enc_frame s m (False, s\<lparr>os_errmsg := e\<rparr>, m)" for e by (rule enc_frame_same) simp_all
  have tail: "enc_frame_opt s' m' (if os_callback s' = No_callback then Some (pb_write E s' [] (bytes_written ss) m')
      else if bytes_written s' + bytes_written ss > max_size s' then Some (False, os_error ''stream full'' s', m')
      else case sub (s'\<lparr>max_size := bytes_written ss, bytes_written := 0, os_errmsg := None\<rparr>) d src m' of
             None \<Rightarrow> None
           | Some (status, st, m'') \<Rightarrow>
               let s'' = s'\<lparr>bytes_written := bytes_written s' + bytes_written st, os_state := os_state st,
                          os_errmsg := os_errmsg st\<rparr>
               in if bytes_written st \<noteq> bytes_written ss then Some (False, os_error ''submsg size changed'' s'', m'')
                  else Some (status, s'', m''))" for s' m'
  proof -
    let ?t = "s'\<lparr>max_size := bytes_written ss, bytes_written := 0, os_errmsg := None\<rparr>"
    show ?thesis
    proof (cases "os_callback s' = No_callback \<or> bytes_written s' + bytes_written ss > max_size s' \<or> sub ?t d src m' = None")
      case True
      then show ?thesis by (auto intro!: enc_frames)
    next
      case False
      then obtain status st m'' where run: "sub ?t d src m' = Some (status, st, m'')"
        by (cases "sub ?t d src m'") auto
      have "enc_frame s' m' (status, s'\<lparr>bytes_written := bytes_written s' + bytes_written st,
          os_state := os_state st, os_errmsg := os_errmsg st\<rparr>, m'')"
        using False by (intro substream_frame [OF sub _ _ _ run] size) simp_all
      with False run show ?thesis
        by (cases "bytes_written st = bytes_written ss")
          (simp_all add: Let_def enc_frame_opt_def enc_frame_error_after)
    qed
  qed
  show ?thesis
    using err tail by (simp add: pb_encode_submessage_def Some r Let_def enc_frames)
qed (simp add: pb_encode_submessage_def enc_frames)

text \<open>
  The encoder, stopped after a nested call that has sized a message of half the address space or more:
  such a size may overflow where \<open>pb_encode_submessage\<close> adds it to what is written.
\<close>

definition below_half :: "enc_result option \<Rightarrow> enc_result option" where
  "below_half r =
     (case r of
        None \<Rightarrow> None
      | Some (ok, s, m) \<Rightarrow>
          if os_callback s = No_callback \<and> 0x8000000000000000 \<le> bytes_written s then None else Some (ok, s, m))"

primrec pb_encode_sized :: "nat \<Rightarrow> pb_env \<Rightarrow> msg_encoder" where
  "pb_encode_sized 0 E = (\<lambda>s desc src m. None)"
| "pb_encode_sized (Suc n) E =
     encode_message (pb_check_proto3_default_value (Suc n) E)
       (\<lambda>s desc src m. below_half (pb_encode_sized n E s desc src m)) E"

text \<open>A run of the encoder in which that does not happen.\<close>

definition sizes_fit :: "nat \<Rightarrow> pb_env \<Rightarrow> pb_ostream \<Rightarrow> addr \<Rightarrow> addr \<Rightarrow> mem \<Rightarrow> bool" where
  "sizes_fit n E s desc src m \<longleftrightarrow> pb_encode_sized n E s desc src m \<noteq> None"

section \<open>A run that is not stopped is a run of the encoder\<close>

definition opt_le :: "'a option \<Rightarrow> 'a option \<Rightarrow> bool" where
  "opt_le r r' \<longleftrightarrow> r = None \<or> r' = r"

definition sub_le :: "msg_encoder \<Rightarrow> msg_encoder \<Rightarrow> bool" where
  "sub_le sub sub' \<longleftrightarrow> (\<forall>s d src m. opt_le (sub s d src m) (sub' s d src m))"

named_theorems enc_le

lemma opt_le_refl [enc_le]: "opt_le r r"
  by (simp add: opt_le_def)

lemma opt_le_Some: "opt_le r r' \<Longrightarrow> r = Some x \<Longrightarrow> r' = Some x"
  by (auto simp: opt_le_def)

lemma opt_leI: "(\<And>x. r = Some x \<Longrightarrow> r' = Some x) \<Longrightarrow> opt_le r r'"
  by (cases r) (auto simp: opt_le_def)

lemma opt_le_if [enc_le]:
  "opt_le x x' \<Longrightarrow> opt_le y y' \<Longrightarrow> opt_le (if b then x else y) (if b then x' else y')"
  by simp

lemma opt_le_case [enc_le]:
  "opt_le r r' \<Longrightarrow> (\<And>ok s m. opt_le (k ok s m) (k' ok s m)) \<Longrightarrow>
   opt_le (case r of None \<Rightarrow> None | Some (ok, s, m) \<Rightarrow> k ok s m)
     (case r' of None \<Rightarrow> None | Some (ok, s, m) \<Rightarrow> k' ok s m)"
  by (auto simp: opt_le_def split: option.split)

lemma enc_bind_le [enc_le]:
  "opt_le r r' \<Longrightarrow> (\<And>s m. opt_le (k s m) (k' s m)) \<Longrightarrow> opt_le (enc_bind r k) (enc_bind r' k')"
  unfolding enc_bind_def by (intro enc_le)

lemma submessage_le [enc_le]:
  "sub_le sub sub' \<Longrightarrow> opt_le (pb_encode_submessage sub E s d src m) (pb_encode_submessage sub' E s d src m)"
  unfolding pb_encode_submessage_def Let_def by (intro enc_le) (simp_all add: sub_le_def)

lemma enc_submessage_le [enc_le]:
  "sub_le sub sub' \<Longrightarrow> opt_le (pb_enc_submessage sub E s field m) (pb_enc_submessage sub' E s field m)"
  unfolding pb_enc_submessage_def by (intro enc_le)

lemma basic_field_le [enc_le]:
  "sub_le sub sub' \<Longrightarrow> opt_le (encode_basic_field sub E s field m) (encode_basic_field sub' E s field m)"
  unfolding encode_basic_field_def Let_def by (intro enc_le)

lemma unpacked_items_le [enc_le]:
  "sub_le sub sub' \<Longrightarrow> opt_le (unpacked_items n sub E s field m) (unpacked_items n sub' E s field m)"
proof (induction n arbitrary: s field m)
  case (Suc n)
  then show ?case unfolding unpacked_items.simps Let_def by (intro enc_le)
qed (simp add: enc_le)

lemma array_le [enc_le]:
  "sub_le sub sub' \<Longrightarrow> opt_le (encode_array sub E s field m) (encode_array sub' E s field m)"
  unfolding encode_array_def Let_def by (intro enc_le)

lemma encode_field_le [enc_le]:
  "sub_le sub sub' \<Longrightarrow> opt_le (encode_field chk sub E s field m) (encode_field chk sub' E s field m)"
  unfolding encode_field_def by (auto split: option.split bool.split intro!: enc_le)

lemma default_extension_le [enc_le]:
  "sub_le sub sub' \<Longrightarrow>
   opt_le (default_extension_encoder chk sub E s ext m) (default_extension_encoder chk sub' E s ext m)"
  unfolding default_extension_encoder_def by (auto split: prod.split intro!: enc_le)

lemma extension_loop_le [enc_le]:
  assumes "sub_le sub sub'"
  shows "opt_le (extension_loop chk sub E s ext m) (extension_loop chk sub' E s ext m)"
proof (rule opt_leI)
  fix y assume "extension_loop chk sub E s ext m = Some y"
  then have "sub_le sub sub' \<longrightarrow> extension_loop chk sub' E s ext m = Some y"
  proof (rule extension_loop.raw_induct
      [where P = "\<lambda>chk sub E s ext m y. sub_le sub sub' \<longrightarrow> extension_loop chk sub' E s ext m = Some y", rotated])
    fix loop chk sub E s ext m y
    assume IH: "\<And>chk sub E s ext m y. loop chk sub E s ext m = Some y \<Longrightarrow>
        sub_le sub sub' \<longrightarrow> extension_loop chk sub' E s ext m = Some y"
      and step: "(if ext = 0 then Some (True, s, m)
        else let enc = ext_type_encode m (ext_type m ext)
             in case if enc \<noteq> 0 then Some (extension_encode E enc s ext m)
                     else default_extension_encoder chk sub E s ext m of
                  None \<Rightarrow> None
                | Some (ok, s, m) \<Rightarrow>
                    if ok then loop chk sub E s (ext_next m ext) m else Some (False, s, m)) = Some y"
    show "sub_le sub sub' \<longrightarrow> extension_loop chk sub' E s ext m = Some y"
    proof
      assume sub: "sub_le sub sub'"
      have loop_le: "opt_le (loop chk sub E s ext m) (extension_loop chk sub' E s ext m)" for s ext m
        using IH sub by (blast intro: opt_leI)
      have "opt_le (case if ext_type_encode m (ext_type m ext) \<noteq> 0
            then Some (extension_encode E (ext_type_encode m (ext_type m ext)) s ext m)
            else default_extension_encoder chk sub E s ext m of
          None \<Rightarrow> None
        | Some (ok, s, m) \<Rightarrow> if ok then loop chk sub E s (ext_next m ext) m else Some (False, s, m))
        (case if ext_type_encode m (ext_type m ext) \<noteq> 0
            then Some (extension_encode E (ext_type_encode m (ext_type m ext)) s ext m)
            else default_extension_encoder chk sub' E s ext m of
          None \<Rightarrow> None
        | Some (ok, s, m) \<Rightarrow> if ok then extension_loop chk sub' E s (ext_next m ext) m else Some (False, s, m))"
        by (intro enc_le loop_le sub)
      from opt_le_Some [OF this] step show "extension_loop chk sub' E s ext m = Some y"
        by (subst extension_loop.simps) (auto simp: Let_def split: if_splits)
    qed
  qed
  then show "extension_loop chk sub' E s ext m = Some y" using assms by blast
qed

lemma encode_fields_le [enc_le]:
  assumes "sub_le sub sub'"
  shows "opt_le (encode_fields chk sub E s it m) (encode_fields chk sub' E s it m)"
proof (rule opt_leI)
  fix y assume "encode_fields chk sub E s it m = Some y"
  then have "sub_le sub sub' \<longrightarrow> encode_fields chk sub' E s it m = Some y"
  proof (rule encode_fields.raw_induct
      [where P = "\<lambda>chk sub E s it m y. sub_le sub sub' \<longrightarrow> encode_fields chk sub' E s it m = Some y", rotated])
    fix loop chk sub E s it m y
    assume IH: "\<And>chk sub E s it m y. loop chk sub E s it m = Some y \<Longrightarrow>
        sub_le sub sub' \<longrightarrow> encode_fields chk sub' E s it m = Some y"
      and step: "(case if PB_LTYPE (ftype it) = PB_LTYPE_EXTENSION
           then encode_extension_field chk sub E s it m else encode_field chk sub E s it m of
         None \<Rightarrow> None
       | Some (ok, s, m) \<Rightarrow>
          if ok
          then case pb_field_iter_next E m it of
                 (again, it) \<Rightarrow> if again then loop chk sub E s it m else Some (True, s, m)
          else Some (False, s, m)) = Some y"
    show "sub_le sub sub' \<longrightarrow> encode_fields chk sub' E s it m = Some y"
    proof
      assume sub: "sub_le sub sub'"
      have "opt_le (loop chk sub E s it m) (encode_fields chk sub' E s it m)" for s it m
        using IH sub by (blast intro: opt_leI)
      then have rest: "opt_le
          (if ok then case pb_field_iter_next E m it of
               (again, it) \<Rightarrow> if again then loop chk sub E s it m else Some (True, s, m)
           else Some (False, s, m))
          (if ok then case pb_field_iter_next E m it of
               (again, it) \<Rightarrow> if again then encode_fields chk sub' E s it m else Some (True, s, m)
           else Some (False, s, m))" for ok s m
        by (auto split: prod.split intro: enc_le)
      have "opt_le (if PB_LTYPE (ftype it) = PB_LTYPE_EXTENSION
            then encode_extension_field chk sub E s it m else encode_field chk sub E s it m)
          (if PB_LTYPE (ftype it) = PB_LTYPE_EXTENSION
            then encode_extension_field chk sub' E s it m else encode_field chk sub' E s it m)"
        unfolding encode_extension_field_def by (intro enc_le sub)
      from opt_le_Some [OF opt_le_case [OF this rest] step]
      show "encode_fields chk sub' E s it m = Some y" by (subst encode_fields.simps)
    qed
  qed
  then show "encode_fields chk sub' E s it m = Some y" using assms by blast
qed

lemma encode_message_le [enc_le]:
  "sub_le sub sub' \<Longrightarrow> opt_le (encode_message chk sub E s d src m) (encode_message chk sub' E s d src m)"
  unfolding encode_message_def by (auto split: prod.split intro!: enc_le)

lemma below_half_le: "opt_le r r' \<Longrightarrow> opt_le (below_half r) r'"
  by (auto simp: opt_le_def below_half_def split: option.split)

lemma sized_le: "opt_le (pb_encode_sized n E s d src m) (pb_encode n E s d src m)"
proof (induction n arbitrary: s d src m)
  case (Suc n)
  then have "sub_le (\<lambda>s d src m. below_half (pb_encode_sized n E s d src m)) (pb_encode n E)"
    by (simp add: sub_le_def below_half_le)
  then show ?case by (simp add: encode_message_le)
qed (simp add: opt_le_def)

lemma sizes_fit_run:
  assumes "sizes_fit n E s d src m"
  shows "pb_encode_sized n E s d src m = pb_encode n E s d src m"
  using sized_le [of n E s d src m] assms by (auto simp: opt_le_def sizes_fit_def)

text \<open>Messages that are not nested have nothing to size.\<close>

lemma sizes_fit_flat: "sizes_fit 1 E s d src m \<longleftrightarrow> pb_encode 1 E s d src m \<noteq> None"
  by (simp add: sizes_fit_def below_half_def)

section \<open>The contract for messages\<close>

text \<open>The functions of the user that encoding may call.\<close>

locale framed_user_code =
  fixes E :: pb_env
  assumes callback_frame: "enc_frame s m (callback_encode E f s field arg m)"
    and field_frame: "enc_frame s m (user_field_encode E k s field m)"
    and extension_frame: "enc_frame s m (extension_encode E f s ext m)"
begin

lemmas user_frames = callback_frame field_frame extension_frame

lemma enc_submessage_frame:
  "framed_sub sub \<Longrightarrow> enc_frame_opt s m (pb_enc_submessage sub E s field m)"
  by (auto simp: pb_enc_submessage_def split: option.split
      intro!: enc_frames user_frames encode_submessage_frame)

lemma basic_field_frame:
  "framed_sub sub \<Longrightarrow> enc_frame_opt s m (encode_basic_field sub E s field m)"
  by (auto simp: encode_basic_field_def Let_def intro!: enc_frames enc_submessage_frame)

lemma unpacked_items_frame:
  "framed_sub sub \<Longrightarrow> enc_frame_opt s m (unpacked_items n sub E s field m)"
  by (induction n arbitrary: s field m) (auto simp: Let_def intro!: enc_frames basic_field_frame)

lemma array_frame: "framed_sub sub \<Longrightarrow> enc_frame_opt s m (encode_array sub E s field m)"
  by (auto simp: encode_array_def Let_def split: prod.split intro!: enc_frames unpacked_items_frame)

lemma callback_field_frame: "enc_frame s m (encode_callback_field E s field m)"
proof -
  have "enc_frame s m (call_field_encode E f s field m)" for f
    by (auto simp: call_field_encode_def default_field_encode_def split: field_callback.split
        intro!: enc_frames user_frames)
  note call = this
  have "enc_frame s m (case call_field_encode E f s field m of
      (ok, s, m) \<Rightarrow> if ok then (True, s, m) else (False, os_error ''callback error'' s, m))" for f
  proof -
    obtain ok s' m' where r: "call_field_encode E f s field m = (ok, s', m')"
      by (cases "call_field_encode E f s field m")
    with call [of f] have "enc_frame s m (ok, s', m')" by simp
    with r show ?thesis
      by (cases ok) (auto intro: enc_frame_error_after)
  qed
  then show ?thesis by (simp add: encode_callback_field_def enc_frame_refl split: option.split)
qed

lemma field_frame_opt:
  assumes "framed_sub sub"
  shows "enc_frame_opt s m (encode_field chk sub E s field m)"
proof (cases "field_absent chk E field m")
  case (Some b)
  then show ?thesis
    by (cases b) (simp_all add: encode_field_def enc_frames callback_field_frame
        array_frame [OF assms] basic_field_frame [OF assms])
qed (simp add: encode_field_def enc_frames)

lemma default_extension_frame:
  "framed_sub sub \<Longrightarrow> enc_frame_opt s m (default_extension_encoder chk sub E s ext m)"
  by (simp add: default_extension_encoder_def enc_frames field_frame_opt split: prod.split)

lemma extension_loop_frame:
  assumes "extension_loop chk sub E s ext m = Some r" and "framed_sub sub"
  shows "enc_frame s m r"
proof -
  have "framed_sub sub' \<and> E' = E \<longrightarrow> enc_frame s m r"
    if "extension_loop chk sub' E' s ext m = Some r" for sub' E'
    using that
  proof (rule extension_loop.raw_induct
      [where P = "\<lambda>chk sub' E' s ext m r. framed_sub sub' \<and> E' = E \<longrightarrow> enc_frame s m r", rotated])
    fix loop chk sub' E' s ext m y
    assume IH: "\<And>chk sub E' s ext m y. loop chk sub E' s ext m = Some y \<Longrightarrow>
        framed_sub sub \<and> E' = E \<longrightarrow> enc_frame s m y"
      and step: "(if ext = 0 then Some (True, s, m)
        else let enc = ext_type_encode m (ext_type m ext)
             in case if enc \<noteq> 0 then Some (extension_encode E' enc s ext m)
                     else default_extension_encoder chk sub' E' s ext m of
                  None \<Rightarrow> None
                | Some (ok, s, m) \<Rightarrow>
                    if ok then loop chk sub' E' s (ext_next m ext) m else Some (False, s, m)) = Some y"
    show "framed_sub sub' \<and> E' = E \<longrightarrow> enc_frame s m y"
    proof (intro impI, elim conjE)
      assume sub: "framed_sub sub'" and E: "E' = E"
      show "enc_frame s m y"
      proof (cases "ext = 0")
        case False
        define one where "one = (if ext_type_encode m (ext_type m ext) \<noteq> 0
          then Some (extension_encode E (ext_type_encode m (ext_type m ext)) s ext m)
          else default_extension_encoder chk sub' E s ext m)"
        have frame: "enc_frame_opt s m one"
          unfolding one_def by (intro enc_frames user_frames default_extension_frame sub)
        from step False obtain ok s' m' where one: "one = Some (ok, s', m')"
          and rest: "(if ok then loop chk sub' E s' (ext_next m' ext) m' else Some (False, s', m')) = Some y"
          unfolding E one_def [symmetric] Let_def by (auto split: option.splits)
        have "enc_frame s m (ok, s', m')" using frame one by (simp add: enc_frame_opt_def)
        with rest IH [of chk sub' E s' "ext_next m' ext" m' y] sub show ?thesis
          by (cases ok) (auto intro: enc_frame_trans enc_frame_status)
      qed (use step in \<open>auto simp: enc_frame_refl\<close>)
    qed
  qed
  then show ?thesis using assms by blast
qed

lemma encode_fields_frame:
  assumes "encode_fields chk sub E s it m = Some r" and "framed_sub sub"
  shows "enc_frame s m r"
proof -
  have "framed_sub sub' \<and> E' = E \<longrightarrow> enc_frame s m r"
    if "encode_fields chk sub' E' s it m = Some r" for sub' E'
    using that
  proof (rule encode_fields.raw_induct
      [where P = "\<lambda>chk sub' E' s it m r. framed_sub sub' \<and> E' = E \<longrightarrow> enc_frame s m r", rotated])
    fix loop chk sub' E' s it m y
    assume IH: "\<And>chk sub E' s it m y. loop chk sub E' s it m = Some y \<Longrightarrow>
        framed_sub sub \<and> E' = E \<longrightarrow> enc_frame s m y"
      and step: "(case if PB_LTYPE (ftype it) = PB_LTYPE_EXTENSION
           then encode_extension_field chk sub' E' s it m else encode_field chk sub' E' s it m of
         None \<Rightarrow> None
       | Some (ok, s, m) \<Rightarrow>
          if ok
          then case pb_field_iter_next E' m it of
                 (again, it) \<Rightarrow> if again then loop chk sub' E' s it m else Some (True, s, m)
          else Some (False, s, m)) = Some y"
    show "framed_sub sub' \<and> E' = E \<longrightarrow> enc_frame s m y"
    proof (intro impI, elim conjE)
      assume sub: "framed_sub sub'" and E: "E' = E"
      define one where "one = (if PB_LTYPE (ftype it) = PB_LTYPE_EXTENSION
        then encode_extension_field chk sub' E s it m else encode_field chk sub' E s it m)"
      have frame: "enc_frame_opt s m one"
        unfolding one_def encode_extension_field_def
        by (intro enc_frames field_frame_opt sub)
          (auto simp: enc_frame_opt_def split: option.split intro: extension_loop_frame sub)
      from step obtain ok s' m' where one: "one = Some (ok, s', m')"
        and rest: "(if ok then case pb_field_iter_next E m' it of
             (again, it) \<Rightarrow> if again then loop chk sub' E s' it m' else Some (True, s', m')
           else Some (False, s', m')) = Some y"
        unfolding E one_def [symmetric] by (auto split: option.splits)
      have f1: "enc_frame s m (ok, s', m')" using frame one by (simp add: enc_frame_opt_def)
      obtain again it' where n: "pb_field_iter_next E m' it = (again, it')" by fastforce
      from rest n IH [of chk sub' E s' it' m' y] sub f1 show "enc_frame s m y"
        by (cases ok; cases again) (auto intro: enc_frame_trans enc_frame_status)
    qed
  qed
  then show ?thesis using assms by blast
qed

lemma encode_message_frame:
  "framed_sub sub \<Longrightarrow> enc_frame_opt s m (encode_message chk sub E s d src m)"
  by (auto simp: encode_message_def enc_frame_opt_def enc_frame_refl split: prod.split option.split
      intro: encode_fields_frame)

lemma sized_frame: "enc_frame_opt s m (pb_encode_sized n E s d src m)"
proof (induction n arbitrary: s m d src)
  case (Suc n)
  have "framed_sub (\<lambda>s d src m. below_half (pb_encode_sized n E s d src m))"
    unfolding framed_sub_def
  proof (intro conjI allI impI)
    show "enc_frame_opt s m (below_half (pb_encode_sized n E s d src m))" for s d src m
      using Suc [of s m d src] by (auto simp: below_half_def enc_frame_opt_def split: option.split)
    fix d src m ok s' m'
    assume *: "below_half (pb_encode_sized n E PB_OSTREAM_SIZING d src m) = Some (ok, s', m')"
    then have r: "pb_encode_sized n E PB_OSTREAM_SIZING d src m = Some (ok, s', m')"
      and h: "\<not> (os_callback s' = No_callback \<and> 0x8000000000000000 \<le> bytes_written s')"
      by (auto simp: below_half_def split: option.splits if_splits)
    have "enc_frame PB_OSTREAM_SIZING m (ok, s', m')"
      using Suc [of PB_OSTREAM_SIZING m d src] by (simp add: r enc_frame_opt_def)
    then have "os_callback s' = No_callback" by (simp add: enc_frame_def os_ok_def PB_OSTREAM_SIZING_def)
    then show "unat (bytes_written s') < 2 ^ 63" using h by (simp add: word_less_nat_alt not_le)
  qed
  then show ?case by (simp add: encode_message_frame)
qed (simp add: enc_frames)

lemma pb_encode_frame:
  "sizes_fit n E s d src m \<Longrightarrow> enc_frame_opt s m (pb_encode n E s d src m)"
  using sized_frame [of s m n d src] by (simp add: sizes_fit_run)

end

end
