(* ===== verification/PbDecodeSafe.thy ===== *)
theory PbDecodeSafe
  imports PbVarint
begin

text \<open>
  Where the decoder reads, for messages of any descriptor. \<open>dec_frame\<close> is the contract of every
  decoding function on a buffer stream: the stream only moves forward and never past its end, and
  where the function succeeds, it has given up exactly as many bytes as it has passed over. The
  contract composes along the code's sequencing, through substreams and packed arrays; functions of
  the user have to meet it too, which is what the locale asks for.
\<close>

section \<open>The contract\<close>

definition stream_end :: "pb_istream \<Rightarrow> nat" where
  "stream_end s = is_state s + unat (bytes_left s)"

definition dec_frame :: "pb_istream \<Rightarrow> bool \<Rightarrow> pb_istream \<Rightarrow> bool" where
  "dec_frame s ok s' \<longleftrightarrow>
     (is_callback s = Buffer_callback \<longrightarrow>
        is_callback s' = Buffer_callback \<and> is_state s \<le> is_state s' \<and> bytes_left s' \<le> bytes_left s
        \<and> stream_end s' \<le> stream_end s \<and> (ok \<longrightarrow> stream_end s' = stream_end s))"

lemma dec_frame_refl [simp]: "dec_frame s ok s"
  by (simp add: dec_frame_def)

lemma dec_frame_error [simp]: "dec_frame s ok (is_error msg s') = dec_frame s ok s'"
  by (simp add: dec_frame_def stream_end_def is_error_def)

lemma dec_frame_trans: "dec_frame s True s1 \<Longrightarrow> dec_frame s1 ok s2 \<Longrightarrow> dec_frame s ok s2"
  by (auto simp: dec_frame_def)

lemma dec_frame_weak: "dec_frame s ok s' \<Longrightarrow> dec_frame s False s'"
  by (simp add: dec_frame_def)

lemma dec_frame_imp: "dec_frame s ok s' \<Longrightarrow> (ok' \<Longrightarrow> ok) \<Longrightarrow> dec_frame s ok' s'"
  by (auto simp: dec_frame_def)

section \<open>Reading\<close>

lemma read_some_frame: "read_some E s n m = (ok, s', bs) \<Longrightarrow> dec_frame s ok s'"
  by (auto simp: read_some_def call_read_def buf_read_def dec_frame_def stream_end_def is_error_def Let_def
      word_less_nat_alt word_le_nat_alt unat_sub split: if_splits)

lemma read_bytes_frame: "pb_read_bytes E s n m = (ok, s', bs) \<Longrightarrow> dec_frame s ok s'"
  by (auto simp: pb_read_bytes_def dest: read_some_frame split: if_splits)

lemma pb_read_frame: "pb_read E s buf n m = (ok, s', m') \<Longrightarrow> dec_frame s ok s'"
  by (auto simp: pb_read_def dest: read_bytes_frame split: prod.splits)

lemma readbyte_frame: "pb_readbyte E s m = (ok, s', b) \<Longrightarrow> dec_frame s ok s'"
proof -
  have "bytes_left s \<noteq> 0 \<Longrightarrow> unat (bytes_left s - 1) = unat (bytes_left s) - 1 \<and> 0 < unat (bytes_left s)"
    by (simp add: unat_minus_one unat_gt_0)
  then show "pb_readbyte E s m = (ok, s', b) \<Longrightarrow> dec_frame s ok s'"
    by (auto simp: pb_readbyte_def call_read_def buf_read_def dec_frame_def stream_end_def is_error_def Let_def
        word_le_nat_alt split: if_splits)
qed

lemma skip_blocks_frame: "skip_blocks E s n m = (ok, s') \<Longrightarrow> dec_frame s ok s'"
proof (induction E s n m rule: skip_blocks.induct)
  case (1 E s n m)
  obtain ok1 s1 bs where r: "pb_read_bytes E s (if n > 16 then 16 else n) m = (ok1, s1, bs)"
    by (cases "pb_read_bytes E s (if n > 16 then 16 else n) m")
  note f = read_bytes_frame [OF r]
  show ?case
  proof (cases "n > 16 \<and> ok1")
    case True
    with r have r16: "(ok1, s1, bs) = pb_read_bytes E s 16 m" by simp
    from True "1.prems" r have "skip_blocks E s1 (n - 16) m = (ok, s')"
      by (subst (asm) skip_blocks.simps) simp
    from "1.IH" [OF _ r16 refl _ this] True f show ?thesis by (auto intro: dec_frame_trans)
  next
    case False
    with "1.prems" r f show ?thesis
      by (subst (asm) skip_blocks.simps) (auto split: if_splits)
  qed
qed

lemma skip_frame: "pb_skip E s n m = (ok, s') \<Longrightarrow> dec_frame s ok s'"
  by (auto simp: pb_skip_def dest: read_some_frame skip_blocks_frame split: if_splits prod.splits)

lemma varint32_loop_frame: "varint32_loop E s r k m = (ok, s', v) \<Longrightarrow> dec_frame s ok s'"
proof (induction E s r k m rule: varint32_loop.induct)
  case (1 E s r k m)
  obtain ok1 s1 b where rb: "pb_readbyte E s m = (ok1, s1, b)" by (cases "pb_readbyte E s m")
  note f = readbyte_frame [OF rb]
  show ?case
    using "1.prems" f "1.IH" [OF rb [symmetric] refl] dec_frame_weak [OF f] dec_frame_trans [of s s1]
    by (subst (asm) varint32_loop.simps) (auto simp: rb Let_def split: if_splits)
qed

lemma varint_loop_frame: "varint_loop E s r k m = (ok, s', v) \<Longrightarrow> dec_frame s ok s'"
proof (induction E s r k m rule: varint_loop.induct)
  case (1 E s r k m)
  obtain ok1 s1 b where rb: "pb_readbyte E s m = (ok1, s1, b)" by (cases "pb_readbyte E s m")
  note f = readbyte_frame [OF rb]
  show ?case
    using "1.prems" f "1.IH" [OF rb [symmetric] refl] dec_frame_weak [OF f] dec_frame_trans [of s s1]
    by (subst (asm) varint_loop.simps) (auto simp: rb Let_def split: if_splits)
qed

lemma varint_frame: "pb_decode_varint E s m = (ok, s', v) \<Longrightarrow> dec_frame s ok s'"
  unfolding pb_decode_varint_def by (rule varint_loop_frame)

lemma varint32_frame: "pb_decode_varint32 E s m = (ok, s', v) \<Longrightarrow> dec_frame s ok s'"
  by (auto simp: pb_decode_varint32_def dest: readbyte_frame varint32_loop_frame
      intro: dec_frame_trans dec_frame_weak split: prod.splits if_splits)

lemma skip_varint_frame:
  assumes "pb_skip_varint E s m = Some (ok, s')"
  shows "dec_frame s ok s'"
proof -
  have "case r of (ok, s') \<Rightarrow> dec_frame s ok s'" if "pb_skip_varint E s m = Some r" for r
    using that
  proof (rule pb_skip_varint.raw_induct [rotated])
    fix loop and E :: pb_env and s m y
    assume IH: "\<And>E s m y. loop E s m = Some y \<Longrightarrow> case y of (ok, s') \<Rightarrow> dec_frame s ok s'"
      and step: "(case pb_read_bytes E s 1 m of (ok, s, bs) \<Rightarrow>
        if \<not> ok then Some (False, s)
        else if first_byte bs AND 0x80 \<noteq> 0 then loop E s m
        else Some (True, s)) = Some y"
    obtain ok1 s1 bs where r: "pb_read_bytes E s 1 m = (ok1, s1, bs)" by (cases "pb_read_bytes E s 1 m")
    note f = read_bytes_frame [OF r]
    from step IH [of E s1 m y] f show "case y of (ok, s') \<Rightarrow> dec_frame s ok s'"
      by (auto simp: r split: if_splits intro: dec_frame_trans)
  qed
  from this [OF assms] show ?thesis by simp
qed

lemma skip_string_frame: "pb_skip_string E s m = (ok, s') \<Longrightarrow> dec_frame s ok s'"
  by (auto simp: pb_skip_string_def dest: varint32_frame skip_frame intro: dec_frame_trans
      split: prod.splits if_splits)

lemma skip_field_frame: "pb_skip_field E s wt m = Some (ok, s') \<Longrightarrow> dec_frame s ok s'"
  by (auto simp: pb_skip_field_def dest: skip_varint_frame skip_frame skip_string_frame split: if_splits)

text \<open>At the end of a buffer the tag is missing, and nothing was read.\<close>

lemma decode_tag_frame:
  assumes "pb_decode_tag E s m = (ok, s', wt, tg, eof)"
  shows "dec_frame s (ok \<or> eof) s'" and "is_callback s = Buffer_callback \<Longrightarrow> eof \<Longrightarrow> bytes_left s' = 0 \<and> \<not> ok"
proof -
  obtain ok1 s1 v where r: "pb_decode_varint32 E s m = (ok1, s1, v)" by (cases "pb_decode_varint32 E s m")
  note f = varint32_frame [OF r]
  show "dec_frame s (ok \<or> eof) s'" "is_callback s = Buffer_callback \<Longrightarrow> eof \<Longrightarrow> bytes_left s' = 0 \<and> \<not> ok"
    using assms f by (auto simp: pb_decode_tag_def r dec_frame_def stream_end_def split: if_splits)
qed

lemma raw_varint_frame: "raw_varint E s bs m = (ok, s', bs') \<Longrightarrow> dec_frame s ok s'"
proof (induction E s bs m rule: raw_varint.induct)
  case (1 E s bs m)
  obtain ok1 s1 b where rb: "pb_read_bytes E s 1 m = (ok1, s1, b)" by (cases "pb_read_bytes E s 1 m")
  note f = read_bytes_frame [OF rb]
  show ?case
    using "1.prems" f "1.IH" [OF _ rb [symmetric] refl] dec_frame_weak [OF f] dec_frame_trans [of s s1]
    by (subst (asm) raw_varint.simps) (auto simp: rb split: if_splits)
qed

lemma read_raw_value_frame: "read_raw_value E s wt m = (ok, s', bs) \<Longrightarrow> dec_frame s ok s'"
  by (auto simp: read_raw_value_def dest: raw_varint_frame read_bytes_frame split: if_splits)

section \<open>Substreams\<close>

text \<open>
  Between making and closing a substream the parent stream is ahead of its position: it has given up
  the bytes of the substream without having passed over them. Closing makes up for that.
\<close>

lemma make_substream_frame:
  assumes "pb_make_string_substream E s m = (ok, s', substream)"
  shows "dec_frame s False s'"
    and "ok \<Longrightarrow> dec_frame substream status substream' \<Longrightarrow> pb_close_string_substream E s' substream' m' = (ok', s'') \<Longrightarrow>
      dec_frame s (status \<and> ok') s''"
proof -
  obtain ok1 s1 sz where v: "pb_decode_varint32 E s m = (ok1, s1, sz)" by (cases "pb_decode_varint32 E s m")
  note f = varint32_frame [OF v]
  have sub: "ucast sz \<le> bytes_left s1 \<Longrightarrow> unat (bytes_left s1 - ucast sz) = unat (bytes_left s1) - unat (ucast sz :: size_t)
      \<and> unat (ucast sz :: size_t) \<le> unat (bytes_left s1)"
    by (simp add: unat_sub word_le_nat_alt)
  show "dec_frame s False s'"
    using assms f sub
    by (auto simp: pb_make_string_substream_def v dec_frame_def stream_end_def is_error_def not_less word_le_nat_alt
        split: if_splits)
  assume ok and st: "dec_frame substream status substream'"
    and cl: "pb_close_string_substream E s' substream' m' = (ok', s'')"
  then have sz: "ok1" "ucast sz \<le> bytes_left s1"
    and s': "s' = s1\<lparr>bytes_left := bytes_left s1 - ucast sz\<rparr>" "substream = s1\<lparr>bytes_left := ucast sz\<rparr>"
    using assms by (auto simp: pb_make_string_substream_def v not_less split: if_splits)
  obtain okc sub2 where c: "(if bytes_left substream' \<noteq> 0 then pb_skip E substream' (bytes_left substream') m'
            else (True, substream')) = (okc, sub2)" by fastforce
  have sk: "dec_frame substream' okc sub2" using c by (auto simp: skip_frame split: if_splits)
  have "okc \<Longrightarrow> is_callback substream' = Buffer_callback \<Longrightarrow> bytes_left sub2 = 0"
    using c by (auto simp: pb_skip_def read_some_def call_read_def buf_read_def Let_def split: if_splits)
  with cl c sk st sub [OF sz(2)] f sz s' show "dec_frame s (status \<and> ok') s''"
    by (auto simp: pb_close_string_substream_def dec_frame_def stream_end_def word_le_nat_alt split: if_splits)
qed

section \<open>Scalar fields\<close>

lemma decode_bool_frame: "pb_decode_bool E s dest m = (ok, s', m') \<Longrightarrow> dec_frame s ok s'"
  by (auto simp: pb_decode_bool_def dest: varint32_frame split: prod.splits if_splits)

lemma svarint_frame: "pb_decode_svarint E s m = (ok, s', v) \<Longrightarrow> dec_frame s ok s'"
  by (auto simp: pb_decode_svarint_def dest: varint_frame split: prod.splits)

lemma fixed_frame:
  "pb_decode_fixed32 E s dest m = (ok, s', m') \<Longrightarrow> dec_frame s ok s'"
  "pb_decode_fixed64 E s dest m = (ok, s', m') \<Longrightarrow> dec_frame s ok s'"
  by (auto simp: pb_decode_fixed32_def pb_decode_fixed64_def dest: read_bytes_frame split: prod.splits if_splits)

lemma clamp_frame: "clamp_result s1 m v c = (ok, s', m') \<Longrightarrow> dec_frame s True s1 \<Longrightarrow> dec_frame s ok s'"
  by (auto simp: clamp_result_def dest: dec_frame_weak split: option.splits prod.splits if_splits)

lemma dec_varint_frame:
  assumes "pb_dec_varint E s field m = (ok, s', m')"
  shows "dec_frame s ok s'"
proof (cases "PB_LTYPE (ftype field) = PB_LTYPE_UVARINT")
  case True
  with assms show ?thesis
    by (auto simp: pb_dec_varint_def dest: varint_frame clamp_frame split: prod.splits if_splits)
next
  case False
  define r where "r = (if PB_LTYPE (ftype field) = PB_LTYPE_SVARINT then pb_decode_svarint E s m
    else case pb_decode_varint E s m of (ok, s, value) \<Rightarrow>
      (ok, s, if data_size field = 8 then value else scast (ucast value :: 32 word)))"
  obtain ok1 s1 v where e: "r = (ok1, s1, v)" by (cases r)
  then have "dec_frame s ok1 s1"
    by (auto simp: r_def dest: svarint_frame varint_frame split: if_splits prod.splits)
  with False assms e show ?thesis
    by (auto simp: pb_dec_varint_def r_def [symmetric] dest: clamp_frame split: if_splits)
qed

lemma dec_bytes_frame: "pb_dec_bytes E s field m = (ok, s', m') \<Longrightarrow> dec_frame s ok s'"
  by (auto simp: pb_dec_bytes_def Let_def dest!: varint32_frame pb_read_frame
      intro: dec_frame_trans dec_frame_weak split: prod.splits if_splits)

lemma dec_string_frame: "pb_dec_string E s field m = (ok, s', m') \<Longrightarrow> dec_frame s ok s'"
  by (auto simp: pb_dec_string_def Let_def dest!: varint32_frame pb_read_frame
      intro: dec_frame_trans dec_frame_weak split: prod.splits if_splits)

lemma dec_fixed_length_frame: "pb_dec_fixed_length_bytes E s field m = (ok, s', m') \<Longrightarrow> dec_frame s ok s'"
  by (auto simp: pb_dec_fixed_length_bytes_def Let_def dest!: varint32_frame pb_read_frame
      intro: dec_frame_trans dec_frame_weak split: prod.splits if_splits)

section \<open>Fields, with the functions of the user\<close>

definition framed_dec :: "msg_decoder \<Rightarrow> bool" where
  "framed_dec sub \<longleftrightarrow> (\<forall>s desc dest flags m ok s' m'. sub s desc dest flags m = Some (ok, s', m') \<longrightarrow> dec_frame s ok s')"

lemma framed_decD: "framed_dec sub \<Longrightarrow> sub s desc dest flags m = Some (ok, s', m') \<Longrightarrow> dec_frame s ok s'"
  unfolding framed_dec_def by blast

locale framed_user_decoding =
  fixes E :: pb_env
  assumes callback_frame: "callback_decode E f s field arg m = (ok, s', m') \<Longrightarrow> dec_frame s ok s'"
    and field_frame: "user_field_decode E k s field m = (ok, s', m') \<Longrightarrow> dec_frame s ok s'"
    and extension_frame: "extension_decode E f s ext tg wt m = (ok, s', m') \<Longrightarrow> dec_frame s ok s'"
begin

lemma dec_submessage_frame:
  assumes sub: "framed_dec sub" and r: "pb_dec_submessage sub E s field m = Some (ok, s', m')"
  shows "dec_frame s ok s'"
proof -
  obtain ok1 s1 ss where mk: "pb_make_string_substream E s m = (ok1, s1, ss)" by (cases "pb_make_string_substream E s m")
  note f = make_substream_frame [OF mk]
  show ?thesis
  proof (cases "ok1 \<and> submsg_desc field \<noteq> 0")
    case False
    with r mk f(1) show ?thesis by (auto simp: pb_dec_submessage_def split: if_splits)
  next
    case True
    define called where "called = (case (if PB_LTYPE (ftype field) = PB_LTYPE_SUBMSG_W_CB
        then (case pSize field of Size_at a \<Rightarrow> Some (a - sizeof_pb_callback) | _ \<Rightarrow> None) else None) of
        Some p \<Rightarrow> if cb_func m p \<noteq> 0 then (True, callback_decode E (cb_func m p) ss field (cb_arg p) m)
          else (False, True, ss, m)
      | None \<Rightarrow> (False, True, ss, m))"
    obtain c st s2 m2 where ca: "called = (c, st, s2, m2)" by (cases called)
    have cf: "dec_frame ss st s2"
      using ca callback_frame by (auto simp: called_def split: option.splits if_splits)
    define flags where "flags = (if PB_ATYPE (ftype field) = PB_ATYPE_STATIC
        \<and> PB_HTYPE (ftype field) \<noteq> PB_HTYPE_REPEATED then PB_DECODE_NOINIT else 0)"
    define body where "body = (if st \<and> \<not> (c \<and> bytes_left s2 = 0)
        then sub s2 (submsg_desc field) (pData field) flags m2 else Some (st, s2, m2))"
    have step: "pb_dec_submessage sub E s field m = (case body of None \<Rightarrow> None
      | Some (status, substream, m) \<Rightarrow>
          (case pb_close_string_substream E s1 substream m of
             (ok, s) \<Rightarrow> if \<not> ok then Some (False, s, m) else Some (status, s, m)))"
      using True by (simp add: pb_dec_submessage_def mk called_def [symmetric] ca body_def flags_def Let_def) blast
    then obtain st3 s3 m3 where b: "body = Some (st3, s3, m3)" using r by (cases body) auto
    have "dec_frame ss st3 s3"
      using b cf framed_decD [OF sub] by (auto simp: body_def split: if_splits intro: dec_frame_trans)
    moreover obtain okc sc where cl: "pb_close_string_substream E s1 s3 m3 = (okc, sc)" by fastforce
    ultimately have "dec_frame s (st3 \<and> okc) sc" using f(2) True by blast
    with r step b cl show ?thesis by (auto split: if_splits intro: dec_frame_weak)
  qed
qed

lemma basic_field_frame:
  assumes "framed_dec sub" and "decode_basic_field sub E s wt field m = Some (ok, s', m')"
  shows "dec_frame s ok s'"
  using assms(2)
  by (auto simp: decode_basic_field_def Let_def pb_dec_bool_def
      dest: decode_bool_frame dec_varint_frame fixed_frame dec_bytes_frame dec_string_frame dec_fixed_length_frame
        dec_submessage_frame [OF assms(1)]
      split: if_splits)

lemma with_field_frame:
  assumes "framed_dec sub" and "with_field f (decode_basic_field sub E s wt field m) = Some (ok, s', f', m')"
  shows "dec_frame s ok s'"
  using assms(2) by (auto simp: with_field_def dest: basic_field_frame [OF assms(1)] split: option.splits)

lemma packed_loop_frame:
  assumes "packed_loop sub E s field m = Some (ok, s', f', m')" and "framed_dec sub"
  shows "dec_frame s ok s'"
proof -
  have "framed_dec sub' \<and> E' = E \<longrightarrow> (case r of (ok, s', f', m') \<Rightarrow> dec_frame s ok s')"
    if "packed_loop sub' E' s field m = Some r" for sub' E' r
    using that
  proof (rule packed_loop.raw_induct [rotated])
    fix loop sub' E' s field m y
    assume IH: "\<And>sub' E' s field m y. loop sub' E' s field m = Some y \<Longrightarrow>
        framed_dec sub' \<and> E' = E \<longrightarrow> (case y of (ok, s', f', m') \<Rightarrow> dec_frame s ok s')"
      and step: "(if bytes_left s > 0 \<and> read_psize m field < array_size field
      then (case decode_basic_field sub' E' s PB_WT_PACKED field m of
              None \<Rightarrow> None
            | Some (ok, s, m) \<Rightarrow>
                if \<not> ok then Some (False, s, field, m)
                else
                  (case write_psize (read_psize m field + 1) m field of
                     (m, field) \<Rightarrow>
                       loop sub' E' s (field\<lparr>pData := pData field + unat (data_size field)\<rparr>) m))
      else Some (True, s, field, m)) = Some y"
    show "framed_dec sub' \<and> E' = E \<longrightarrow> (case y of (ok, s', f', m') \<Rightarrow> dec_frame s ok s')"
    proof (intro impI, elim conjE)
      assume sub: "framed_dec sub'" and E: "E' = E"
      show "case y of (ok, s', f', m') \<Rightarrow> dec_frame s ok s'"
      proof (cases "bytes_left s > 0 \<and> read_psize m field < array_size field")
        case True
        with step E obtain ok1 s1 m1 where one: "decode_basic_field sub' E s PB_WT_PACKED field m = Some (ok1, s1, m1)"
          by (auto split: option.splits)
        note f = basic_field_frame [OF sub one]
        obtain m2 f2 where w: "write_psize (read_psize m1 field + 1) m1 field = (m2, f2)" by fastforce
        from step True one w f IH [of sub' E s1 "f2\<lparr>pData := pData f2 + unat (data_size f2)\<rparr>" m2 y] sub show ?thesis
          unfolding E by (cases ok1) (auto intro: dec_frame_trans)
      qed (use step in auto)
    qed
  qed
  from this [OF assms(1)] assms(2) show ?thesis by simp
qed

lemma repeated_frame:
  assumes sub: "framed_dec sub" and r: "decode_repeated_field sub E s wt field m = Some (ok, s', f', m')"
  shows "dec_frame s ok s'"
proof (cases "wt = PB_WT_STRING \<and> PB_LTYPE (ftype (seek_item m field)) \<le> PB_LTYPE_LAST_PACKABLE")
  case True
  obtain ok1 s1 ss where mk: "pb_make_string_substream E s m = (ok1, s1, ss)" by (cases "pb_make_string_substream E s m")
  note f = make_substream_frame [OF mk]
  show ?thesis
  proof (cases ok1)
    case ok: True
    with True r mk obtain st s2 f2 m2 where p: "packed_loop sub E ss (seek_item m field) m = Some (st, s2, f2, m2)"
      by (auto simp: decode_repeated_field_def Let_def split: option.splits)
    note pf = packed_loop_frame [OF p sub]
    obtain okc sc where cl: "pb_close_string_substream E s1 s2 m2 = (okc, sc)" by fastforce
    from f(2) [OF ok pf cl] True r mk ok p f(1) cl show ?thesis
      by (auto simp: decode_repeated_field_def Let_def split: if_splits intro: dec_frame_weak)
  next
    case False
    with True r mk f(1) show ?thesis by (auto simp: decode_repeated_field_def Let_def)
  qed
next
  case False
  with r show ?thesis
    by (auto simp: decode_repeated_field_def Let_def split: prod.splits if_splits dest: with_field_frame [OF sub])
qed

lemma static_frame:
  assumes sub: "framed_dec sub" and r: "decode_static_field sub defs E s wt field m = Some (ok, s', f', m')"
  shows "dec_frame s ok s'"
  using r
  by (auto simp: decode_static_field_def decode_oneof_field_def Let_def split: if_splits prod.splits option.splits
      dest: with_field_frame [OF sub] repeated_frame [OF sub])

lemma call_field_frame: "call_field_decode E f s field m = (ok, s', m') \<Longrightarrow> dec_frame s ok s'"
  by (auto simp: call_field_decode_def default_field_decode_def split: field_callback.splits if_splits
      dest: callback_frame field_frame)

lemma field_callback_loop_frame:
  assumes "field_callback_loop E f s field m = Some (ok, s', m')"
  shows "dec_frame s ok s'"
proof -
  have "E' = E \<longrightarrow> (case r of (ok, s', m') \<Rightarrow> dec_frame s ok s')"
    if "field_callback_loop E' f s field m = Some r" for E' r
    using that
  proof (rule field_callback_loop.raw_induct [rotated])
    fix loop E' f s field m y
    assume IH: "\<And>E' f s field m y. loop E' f s field m = Some y \<Longrightarrow>
        E' = E \<longrightarrow> (case y of (ok, s', m') \<Rightarrow> dec_frame s ok s')"
      and step: "(let prev_bytes_left = bytes_left s
        in case call_field_decode E' f s field m of (ok, s, m) \<Rightarrow>
           if \<not> ok then Some (False, s, m)
           else if bytes_left s > 0 \<and> bytes_left s < prev_bytes_left
           then loop E' f s field m
           else Some (True, s, m)) = Some y"
    show "E' = E \<longrightarrow> (case y of (ok, s', m') \<Rightarrow> dec_frame s ok s')"
    proof
      assume E: "E' = E"
      obtain ok1 s1 m1 where c: "call_field_decode E f s field m = (ok1, s1, m1)" by (cases "call_field_decode E f s field m")
      from step call_field_frame [OF c] IH [of E f s1 field m1 y]
      show "case y of (ok, s', m') \<Rightarrow> dec_frame s ok s'"
        by (auto simp: E c Let_def split: if_splits intro: dec_frame_trans)
    qed
  qed
  from this [OF assms] show ?thesis by simp
qed

lemma submsg_callback_frame: "submsg_callback E ss field m = (ok, ss', f', m') \<Longrightarrow> dec_frame ss ok ss'"
  by (auto simp: submsg_callback_def Let_def split: if_splits prod.splits size_ptr.splits dest: callback_frame)

lemma callback_field_frame:
  assumes r: "decode_callback_field E s wt field m = Some (ok, s', f', m')"
  shows "dec_frame s ok s'"
proof (cases "field_callback (desc_at E (descriptor field))")
  case None
  with r show ?thesis by (auto simp: decode_callback_field_def dest: skip_field_frame split: option.splits)
next
  case (Some f)
  show ?thesis
  proof (cases "wt = PB_WT_STRING")
    case False
    with Some r show ?thesis
      by (auto simp: decode_callback_field_def Let_def dest!: read_raw_value_frame split: prod.splits if_splits
          intro: dec_frame_imp)
  next
    case True
    obtain ok1 s1 ss where mk: "pb_make_string_substream E s m = (ok1, s1, ss)" by (cases "pb_make_string_substream E s m")
    note fr = make_substream_frame [OF mk]
    obtain ok2 s2 f2 m2 where sc: "submsg_callback E ss field m = (ok2, s2, f2, m2)" by (cases "submsg_callback E ss field m")
    show ?thesis
    proof (cases "ok1 \<and> ok2")
      case False
      with Some True r mk fr(1) sc show ?thesis
        by (auto simp: decode_callback_field_def callback_failed_def split: if_splits)
    next
      case oks: True
      with Some True r mk sc obtain ok3 s3 m3 where l: "field_callback_loop E f s2 f2 m2 = Some (ok3, s3, m3)"
        by (auto simp: decode_callback_field_def split: option.splits)
      have "dec_frame ss ok3 s3"
        using submsg_callback_frame [OF sc] field_callback_loop_frame [OF l] oks by (auto intro: dec_frame_trans)
      moreover obtain okc sc where cl: "pb_close_string_substream E s1 s3 m3 = (okc, sc)" by fastforce
      ultimately have "dec_frame s (ok3 \<and> okc) sc" using fr(2) oks by blast
      with Some True r mk sc oks l fr(1) cl show ?thesis
        by (auto simp: decode_callback_field_def callback_failed_def split: if_splits)
    qed
  qed
qed

lemma field_frame_any:
  assumes "framed_dec sub" and "decode_field sub defs E s wt field m = Some (ok, s', f', m')"
  shows "dec_frame s ok s'"
  using assms(2)
  by (auto simp: decode_field_def Let_def decode_pointer_field_def split: if_splits
      dest: static_frame [OF assms(1)] callback_field_frame)

lemma default_extension_frame:
  assumes sub: "framed_dec sub" and "default_extension_decoder sub defs E s ext tg wt m = Some (ok, s', m')"
  shows "dec_frame s ok s'"
  using assms(2)
  by (auto simp: default_extension_decoder_def split: prod.splits if_splits option.splits dest: field_frame_any [OF sub])

lemma decode_extension_frame:
  assumes "decode_extension sub defs E pos s tg wt ext m = Some (ok, s', m')" and "framed_dec sub"
  shows "dec_frame s ok s'"
proof -
  have "framed_dec sub' \<and> E' = E \<longrightarrow> (case r of (ok, s', m') \<Rightarrow> dec_frame s ok s')"
    if "decode_extension sub' defs E' pos s tg wt ext m = Some r" for sub' E' r
    using that
  proof (rule decode_extension.raw_induct [rotated])
    fix loop sub' defs E' pos s tg wt ext m y
    assume IH: "\<And>sub' defs E' pos s tg wt ext m y. loop sub' defs E' pos s tg wt ext m = Some y \<Longrightarrow>
        framed_dec sub' \<and> E' = E \<longrightarrow> (case y of (ok, s', m') \<Rightarrow> dec_frame s ok s')"
      and step: "(if ext \<noteq> 0 \<and> pos = bytes_left s
      then
        let dec = ext_type_decode m (ext_type m ext)
        in case (if dec \<noteq> 0 then Some (extension_decode E' dec s ext tg wt m)
                 else default_extension_decoder sub' defs E' s ext tg wt m) of
             None \<Rightarrow> None
           | Some (ok, s, m) \<Rightarrow>
               if \<not> ok then Some (False, s, m)
               else loop sub' defs E' pos s tg wt (ext_next m ext) m
      else Some (True, s, m)) = Some y"
    show "framed_dec sub' \<and> E' = E \<longrightarrow> (case y of (ok, s', m') \<Rightarrow> dec_frame s ok s')"
    proof (intro impI, elim conjE)
      assume sub: "framed_dec sub'" and E: "E' = E"
      show "case y of (ok, s', m') \<Rightarrow> dec_frame s ok s'"
      proof (cases "ext \<noteq> 0 \<and> pos = bytes_left s")
        case True
        define one where "one = (if ext_type_decode m (ext_type m ext) \<noteq> 0
          then Some (extension_decode E (ext_type_decode m (ext_type m ext)) s ext tg wt m)
          else default_extension_decoder sub' defs E s ext tg wt m)"
        from step True obtain ok1 s1 m1 where o: "one = Some (ok1, s1, m1)"
          and rest: "(if \<not> ok1 then Some (False, s1, m1) else loop sub' defs E pos s1 tg wt (ext_next m1 ext) m1) = Some y"
          unfolding E one_def [symmetric] Let_def by (auto split: option.splits)
        have "dec_frame s ok1 s1"
          using o extension_frame default_extension_frame [OF sub] by (auto simp: one_def split: if_splits)
        with rest IH [of sub' defs E pos s1 tg wt "ext_next m1 ext" m1 y] sub show ?thesis
          by (cases ok1) (auto intro: dec_frame_trans)
      qed (use step in auto)
    qed
  qed
  from this [OF assms(1)] assms(2) show ?thesis by simp
qed

lemma unknown_frame:
  assumes "framed_dec sub" and r: "decode_unknown sub defs E s wt tg it m L = Some (ok, s', it', m', L')"
  shows "dec_frame s ok s'"
proof -
  obtain it1 L1 where f: "find_extensions E it m L = Some (it1, L1)"
    using r by (cases "find_extensions E it m L") (auto simp: decode_unknown_def)
  have skip: "skip_unknown E s1 wt it1 m1 L1 = Some (ok, s', it', m', L') \<Longrightarrow> dec_frame s1 ok s'" for s1 m1
    by (auto simp: skip_unknown_def dest: skip_field_frame split: option.splits)
  show ?thesis
  proof (cases "tg \<ge> extension_range_start L1")
    case True
    obtain ok1 s1 m1 where d: "decode_extension sub defs E (bytes_left s) s tg wt (extensions L1) m = Some (ok1, s1, m1)"
      using r f True by (auto simp: decode_unknown_def Let_def split: option.splits)
    note df = decode_extension_frame [OF d assms(1)]
    from r f True d df show ?thesis
      by (auto simp: decode_unknown_def Let_def split: if_splits dest!: skip intro: dec_frame_trans)
  next
    case False
    with r f skip show ?thesis by (auto simp: decode_unknown_def)
  qed
qed

lemma round_frame:
  assumes "framed_dec sub" and r: "decode_round sub defs E s wt tg it m L = Some (ok, s', it', m', L')"
  shows "dec_frame s ok s'"
  using r
  by (auto simp: decode_round_def split: option.splits prod.splits if_splits
      dest: unknown_frame [OF assms(1)] field_frame_any [OF assms(1)])

text \<open>If the loop has come to its end, then because nothing is left.\<close>

lemma loop_frame:
  assumes "decode_loop sub defs E flags s it m L = Some (ended, eof, s', it', m', L')" and "framed_dec sub"
  shows "dec_frame s (ended \<and> eof) s'"
    and "is_callback s = Buffer_callback \<Longrightarrow> flags AND PB_DECODE_NULLTERMINATED = 0 \<Longrightarrow> ended \<and> eof \<Longrightarrow> bytes_left s' = 0"
proof -
  let ?post = "\<lambda>flags s ended eof s'. dec_frame s (ended \<and> eof) s'
    \<and> (is_callback s = Buffer_callback \<and> flags AND PB_DECODE_NULLTERMINATED = 0 \<and> ended \<and> eof \<longrightarrow> bytes_left s' = 0)"
  have "framed_dec sub' \<and> E' = E \<longrightarrow> (case r of (ended, eof, s', it', m', L') \<Rightarrow> ?post flags s ended eof s')"
    if "decode_loop sub' defs E' flags s it m L = Some r" for sub' E' r
    using that
  proof (rule decode_loop.raw_induct [rotated])
    fix loop sub' defs E' flags s it m L y
    assume IH: "\<And>sub' defs E' flags s it m L y. loop sub' defs E' flags s it m L = Some y \<Longrightarrow>
        framed_dec sub' \<and> E' = E \<longrightarrow> (case y of (ended, eof, s', it', m', L') \<Rightarrow> ?post flags s ended eof s')"
      and step: "(case pb_decode_tag E' s m of (ok, s, wt, tg, eof) \<Rightarrow>
        if \<not> ok then Some (True, eof, s, it, m, L)
        else if tg = 0
        then
          if flags AND PB_DECODE_NULLTERMINATED \<noteq> 0 then Some (True, True, s, it, m, L)
          else Some (False, False, is_error ''zero tag'' s, it, m, L)
        else
          case decode_round sub' defs E' s wt tg it m L of
            None \<Rightarrow> None
          | Some (ok, s, it, m, L) \<Rightarrow>
              if ok then loop sub' defs E' flags s it m L else Some (False, False, s, it, m, L)) = Some y"
    show "framed_dec sub' \<and> E' = E \<longrightarrow> (case y of (ended, eof, s', it', m', L') \<Rightarrow> ?post flags s ended eof s')"
    proof (intro impI, elim conjE)
      assume sub: "framed_dec sub'" and E: "E' = E"
      obtain ok1 s1 wt tg eof1 where t: "pb_decode_tag E s m = (ok1, s1, wt, tg, eof1)" by (cases "pb_decode_tag E s m")
      note tf = decode_tag_frame [OF t]
      show "case y of (ended, eof, s', it', m', L') \<Rightarrow> ?post flags s ended eof s'"
      proof (cases "ok1 \<and> tg \<noteq> 0")
        case False
        with step tf show ?thesis
          by (auto simp: E t split: if_splits intro: dec_frame_imp)
      next
        case True
        with step obtain ok2 s2 it2 m2 L2 where r: "decode_round sub' defs E s1 wt tg it m L = Some (ok2, s2, it2, m2, L2)"
          by (auto simp: E t split: option.splits)
        have f1: "dec_frame s True s1" using tf(1) True by simp
        note f2 = dec_frame_trans [OF f1 round_frame [OF sub r]]
        show ?thesis
        proof (cases ok2)
          case ok2: True
          with step True r have "loop sub' defs E flags s2 it2 m2 L2 = Some y" by (simp add: E t)
          from IH [OF this] sub f2 ok2 show ?thesis
            by (auto intro: dec_frame_trans) (auto simp: dec_frame_def)
        next
          case False
          with step True r f2 show ?thesis by (auto simp: E t)
        qed
      qed
    qed
  qed
  from this [OF assms(1)] assms(2) show "dec_frame s (ended \<and> eof) s'"
    "is_callback s = Buffer_callback \<Longrightarrow> flags AND PB_DECODE_NULLTERMINATED = 0 \<Longrightarrow> ended \<and> eof \<Longrightarrow> bytes_left s' = 0"
    by simp_all
qed

lemma inner_frame:
  assumes sub: "framed_dec sub" and r: "decode_inner sub defs own E s desc dest flags m = Some (ok, s', m')"
  shows "dec_frame s ok s'"
    and "is_callback s = Buffer_callback \<Longrightarrow> flags AND PB_DECODE_NULLTERMINATED = 0 \<Longrightarrow> ok \<Longrightarrow> bytes_left s' = 0"
proof -
  obtain begun it where b: "pb_field_iter_begin E desc dest m = (begun, it)" by fastforce
  obtain ok1 it1 m1 where d: "(if begun \<and> flags AND PB_DECODE_NOINIT = 0 then own it m else Some (True, it, m)) = Some (ok1, it1, m1)"
    using r b by (auto simp: decode_inner_def split: option.splits)
  have "dec_frame s ok s' \<and> (is_callback s = Buffer_callback \<longrightarrow> flags AND PB_DECODE_NULLTERMINATED = 0 \<longrightarrow> ok \<longrightarrow> bytes_left s' = 0)"
  proof (cases ok1)
    case False
    with r b d show ?thesis by (auto simp: decode_inner_def split: if_splits)
  next
    case True
    then obtain ended eof s2 it2 m2 L2 where l: "decode_loop sub defs E flags s it1 m1 decode_locals_init =
        Some (ended, eof, s2, it2, m2, L2)"
      using r b d by (auto simp: decode_inner_def split: option.splits)
    note f = loop_frame [OF l sub]
    have "(if \<not> (ended \<and> eof) then Some (False, s2, m2)
        else if fixed_count_field L2 \<noteq> PB_SIZE_MAX \<and> fixed_count_size L2 \<noteq> fixed_count_total_size L2
        then Some (False, is_error ''wrong size for fixed count field'' s2, m2)
        else if \<not> all_required_seen E it2 L2
        then Some (False, is_error ''missing required field'' s2, m2)
        else Some (True, s2, m2)) = Some (ok, s', m')"
      using r True unfolding decode_inner_def b by (auto simp: d l split: if_splits)
    with f show ?thesis by (auto split: if_splits intro: dec_frame_imp dec_frame_weak)
  qed
  then show "dec_frame s ok s'"
    "is_callback s = Buffer_callback \<Longrightarrow> flags AND PB_DECODE_NULLTERMINATED = 0 \<Longrightarrow> ok \<Longrightarrow> bytes_left s' = 0" by blast+
qed

lemma decode_inner_framed: "framed_dec (pb_decode_inner n E)"
proof (induction n)
  case (Suc n)
  from inner_frame(1) [OF this] show ?case unfolding framed_dec_def pb_decode_inner_Suc by blast
qed (simp add: framed_dec_def pb_decode_inner_def)

lemma decode_ex_frame: "pb_decode_ex n E s desc dest flags m = Some (ok, s', m') \<Longrightarrow> dec_frame s ok s'"
proof -
  assume r: "pb_decode_ex n E s desc dest flags m = Some (ok, s', m')"
  obtain ok1 s1 ss where mk: "pb_make_string_substream E s m = (ok1, s1, ss)" by (cases "pb_make_string_substream E s m")
  note f = make_substream_frame [OF mk] and sub = framed_decD [OF decode_inner_framed]
  show ?thesis
  proof (cases "flags AND PB_DECODE_DELIMITED = 0 \<or> \<not> ok1")
    case True
    with r mk f(1) show ?thesis by (auto simp: pb_decode_ex_def dest: sub split: if_splits)
  next
    case False
    with r mk obtain st s2 m2 where d: "pb_decode_inner n E ss desc dest flags m = Some (st, s2, m2)"
      by (auto simp: pb_decode_ex_def split: option.splits)
    obtain okc sc where cl: "pb_close_string_substream E s1 s2 m2 = (okc, sc)" by fastforce
    from f(2) [OF _ sub [OF d] cl] False r mk d cl show ?thesis by (auto simp: pb_decode_ex_def)
  qed
qed

lemma decode_reads_all:
  assumes "pb_decode n E s desc dest m = Some (ok, s', m')" and "is_callback s = Buffer_callback"
  shows "dec_frame s ok s'" and "ok \<Longrightarrow> bytes_left s' = 0"
proof -
  have r: "pb_decode_inner n E s desc dest 0 m = Some (ok, s', m')"
    using assms(1) by (simp add: pb_decode_def pb_decode_ex_def)
  then obtain k where n: "n = Suc k" by (cases n) (auto simp: pb_decode_inner_def)
  from inner_frame [OF decode_inner_framed r [unfolded n pb_decode_inner_Suc]] assms(2)
  show "dec_frame s ok s'" "ok \<Longrightarrow> bytes_left s' = 0" by simp_all
qed

end

end
