(* ===== verification/MessageInterface.thy ===== *)
theory MessageInterface
  imports PbEncodeSafe PbDecodeSafe
begin

text \<open>
  The payload callbacks of \<open>libs/msg/src/MessageInterface.cpp\<close>, which user code may register in a
  message, as functions of the runtime's environment. Logging is left out. The encoding callback
  meets the contract of \<open>PbEncodeSafe\<close>, so messages that use it are encoded within their buffer;
  the decoding callback meets that of \<open>PbDecodeSafe\<close>, so messages that use it are decoded within
  their input, but it keeps to its own buffer on a first call only.
\<close>

section \<open>Callbacks\<close>

text \<open>\<open>StringPayload\<close> (data, size) and \<open>StringPayloadDecode\<close> (buffer, buffer size, pointer to a count).\<close>

definition payload_data :: "mem \<Rightarrow> addr \<Rightarrow> addr" where "payload_data m p = load_ptr m p"
definition payload_size :: "mem \<Rightarrow> addr \<Rightarrow> size_t" where "payload_size m p = load_u64 m (p + 8)"
definition decode_buffer :: "mem \<Rightarrow> addr \<Rightarrow> addr" where "decode_buffer m p = load_ptr m p"
definition decode_buffer_size :: "mem \<Rightarrow> addr \<Rightarrow> size_t" where "decode_buffer_size m p = load_u64 m (p + 8)"
definition decode_count :: "mem \<Rightarrow> addr \<Rightarrow> addr" where "decode_count m p = load_ptr m (p + 16)"

definition PayloadEncodeCallback :: "pb_env \<Rightarrow> pb_ostream \<Rightarrow> pb_field_iter \<Rightarrow> addr \<Rightarrow> mem \<Rightarrow> enc_result" where
  "PayloadEncodeCallback E s field arg m =
     (let payload = load_ptr m arg
      in enc_then (pb_encode_tag_for_field E s field m)
           (\<lambda>s m. pb_encode_string E s (payload_data m payload) (payload_size m payload) m))"

definition PayloadDecodeCallback :: "pb_env \<Rightarrow> pb_istream \<Rightarrow> addr \<Rightarrow> mem \<Rightarrow> dec_result" where
  "PayloadDecodeCallback E s arg m =
     (let sp = load_ptr m arg;
          bytes_to_read = bytes_left s
      in if bytes_to_read > decode_buffer_size m sp then (False, s, m)
         else
           case pb_read E s (decode_buffer m sp + unat (load_u64 m (decode_count m sp))) bytes_to_read m of
             (ok, s, m) \<Rightarrow>
               if \<not> ok then (False, s, m)
               else (True, s, store_word 8 m (decode_count m sp)
                       (load_u64 m (decode_count m sp) + bytes_to_read)))"

text \<open>
  The environment of a program that registers no user functions but these: descriptors \<open>D\<close>; every
  callback pointer that is not \<open>NULL\<close> is one of the two above.
\<close>

definition payload_env :: "(addr \<Rightarrow> pb_msgdesc) \<Rightarrow> pb_env" where
  "payload_env D = (no_user_code D)
     \<lparr>callback_encode := (\<lambda>f s field arg m. PayloadEncodeCallback (no_user_code D) s field arg m),
      callback_decode := (\<lambda>f s field arg m. PayloadDecodeCallback (no_user_code D) s arg m)\<rparr>"

lemma payload_env_desc [simp]: "desc_at (payload_env D) = D"
  by (simp add: payload_env_def)

lemma PayloadEncodeCallback_frame: "enc_frame s m (PayloadEncodeCallback E s field arg m)"
  by (simp add: PayloadEncodeCallback_def Let_def enc_frames)

interpretation payload: framed_user_code "payload_env D" for D
  by unfold_locales
    (simp_all add: payload_env_def no_user_code_def PayloadEncodeCallback_frame enc_frame_refl)

section \<open>Properties\<close>

text \<open>
  Property C11. Encoding a message, of any descriptor, with nested messages, repeated fields,
  extensions and the payload callback, into a buffer never writes outside the buffer: at most its
  size is counted as written, the stream has advanced by exactly that count, and every byte of the
  memory outside the part written is unchanged, whether the encoding succeeds or stops with an
  error. Assumed are a buffer of at most half the address space and a run in which no nested message
  is sized at half the address space or more (\<open>sizes_fit\<close>): \<open>pb_encode_submessage\<close> adds such a size
  without a test for overflow. For messages that are not nested every run is one (\<open>sizes_fit_flat\<close>).
\<close>

theorem encode_within_buffer:
  assumes "pb_encode n (payload_env D) (pb_ostream_from_buffer buf cap) d src m = Some (ok, s', m')"
    and "unat cap \<le> 2 ^ 63" and "sizes_fit n (payload_env D) (pb_ostream_from_buffer buf cap) d src m"
  shows "unat (bytes_written s') \<le> unat cap \<and> os_state s' = buf + unat (bytes_written s')
    \<and> (\<forall>a. a < buf \<or> buf + unat (bytes_written s') \<le> a \<longrightarrow> m' a = m a)"
proof -
  let ?s = "pb_ostream_from_buffer buf cap"
  have "os_ok ?s" using assms(2) by (simp add: os_ok_def pb_ostream_from_buffer_def)
  moreover have "enc_frame ?s m (ok, s', m')"
    using payload.pb_encode_frame [OF assms(3)] assms(1) by (simp add: enc_frame_opt_def)
  ultimately show ?thesis
    by (auto simp: enc_frame_def os_ok_def advanced_def pb_ostream_from_buffer_def)
qed

lemma PayloadDecodeCallback_frame: "PayloadDecodeCallback E s arg m = (ok, s', m') \<Longrightarrow> dec_frame s ok s'"
  by (auto simp: PayloadDecodeCallback_def Let_def dest: pb_read_frame split: prod.splits if_splits)

interpretation payload_decoding: framed_user_decoding "payload_env D" for D
  by unfold_locales (auto simp: payload_env_def no_user_code_def dest: PayloadDecodeCallback_frame)

text \<open>
  Property C9. Decoding a message, of any descriptor, with nested messages, packed arrays, unions,
  extensions and the payload callback, from any bytes reads forward within them: wherever it stops,
  its position and what it takes to be left lie inside the input; and if it succeeds, it has used
  exactly the whole input, including every submessage it has entered or skipped.
\<close>

theorem decode_within_input:
  assumes "pb_decode n (payload_env D) (pb_istream_from_buffer buf len) d dest m = Some (ok, s', m')"
  shows "buf \<le> is_state s' \<and> is_state s' + unat (bytes_left s') \<le> buf + unat len
    \<and> (ok \<longrightarrow> is_state s' = buf + unat len \<and> bytes_left s' = 0)"
proof -
  have cb: "is_callback (pb_istream_from_buffer buf len) = Buffer_callback" by (simp add: pb_istream_from_buffer_def)
  from payload_decoding.decode_reads_all [OF assms cb] show ?thesis
    by (auto simp: dec_frame_def stream_end_def pb_istream_from_buffer_def)
qed

end
