(* ===== verification/RobotMessages.thy ===== *)
theory RobotMessages
  imports PbFlatSafe PbFlatFull MessageInterface
begin

text \<open>
  The two messages of the robots (\<open>libs/msg/proto/message.proto\<close>) and the functions that turn them
  into strings and back (\<open>libs/msg/src/EncodingDecoding.cpp\<close>). A message is a structure in memory;
  its \<open>float\<close> members are their bit patterns. The code generated from the \<open>.proto\<close> file is not part
  of the repository: \<open>robot_descriptors\<close> states what the generator writes, one descriptor per message,
  bound with automatic widths, without default values and callbacks, the members in the order of
  the file.
\<close>

section \<open>Messages\<close>

definition singular_field :: "pb_type \<Rightarrow> 32 word \<Rightarrow> 32 word \<Rightarrow> pb_bind_field" where
  "singular_field ty number offset =
     \<lparr>bf_type = ty, bf_tag = number, bf_data_offset = offset, bf_data_size = 4, bf_size_offset = 0,
      bf_array_size = 1, bf_submsg = 0\<rparr>"

definition RobotCommandMsg_FIELDLIST :: "pb_bind_field list" where
  "RobotCommandMsg_FIELDLIST =
     [singular_field flat_uint 1 0, singular_field flat_fixed 2 4, singular_field flat_fixed 3 8,
      singular_field flat_fixed 4 12, singular_field flat_fixed 5 16, singular_field flat_fixed 6 20,
      singular_field flat_fixed 7 24]"

definition RobotResponseMsg_FIELDLIST :: "pb_bind_field list" where
  "RobotResponseMsg_FIELDLIST =
     [singular_field flat_uint 1 0, singular_field flat_fixed 2 4, singular_field flat_fixed 3 8,
      singular_field flat_fixed 4 12, singular_field flat_uint 5 16, singular_field flat_uint 6 20]"

definition sizeof_RobotCommandMsg :: nat where "sizeof_RobotCommandMsg = 28"
definition sizeof_RobotResponseMsg :: nat where "sizeof_RobotResponseMsg = 24"

text \<open>The addresses of the two descriptors.\<close>

definition RobotCommandMsg_fields :: addr where "RobotCommandMsg_fields = 8"
definition RobotResponseMsg_fields :: addr where "RobotResponseMsg_fields = 16"

definition robot_descriptors :: "pb_env \<Rightarrow> bool" where
  "robot_descriptors E \<longleftrightarrow>
     desc_at E RobotCommandMsg_fields = PB_BIND PB_FIELDINFO_WIDTH_AUTO 0 None RobotCommandMsg_FIELDLIST
     \<and> desc_at E RobotResponseMsg_fields = PB_BIND PB_FIELDINFO_WIDTH_AUTO 0 None RobotResponseMsg_FIELDLIST"

record RobotCommandMsg =
  cmd_id :: "32 word"
  cmd_vx :: "32 word"
  cmd_vy :: "32 word"
  cmd_w :: "32 word"
  cmd_chargeVal :: "32 word"
  cmd_kickVal :: "32 word"
  cmd_dribbler :: "32 word"

record RobotResponseMsg =
  rsp_id :: "32 word"
  rsp_x :: "32 word"
  rsp_y :: "32 word"
  rsp_theta :: "32 word"
  rsp_state :: "32 word"
  rsp_errors :: "32 word"

definition command_at :: "mem \<Rightarrow> addr \<Rightarrow> RobotCommandMsg" where
  "command_at m p =
     \<lparr>cmd_id = load_u32 m p, cmd_vx = load_u32 m (p + 4), cmd_vy = load_u32 m (p + 8),
      cmd_w = load_u32 m (p + 12), cmd_chargeVal = load_u32 m (p + 16), cmd_kickVal = load_u32 m (p + 20),
      cmd_dribbler = load_u32 m (p + 24)\<rparr>"

definition response_at :: "mem \<Rightarrow> addr \<Rightarrow> RobotResponseMsg" where
  "response_at m p =
     \<lparr>rsp_id = load_u32 m p, rsp_x = load_u32 m (p + 4), rsp_y = load_u32 m (p + 8),
      rsp_theta = load_u32 m (p + 12), rsp_state = load_u32 m (p + 16), rsp_errors = load_u32 m (p + 20)\<rparr>"

section \<open>Functions\<close>

definition PROTOBUF_BUFFER_SIZE :: size_t where "PROTOBUF_BUFFER_SIZE = 256"

text \<open>
  \<open>buffer\<close> is the address of the local or static array. The result is the string and the memory;
  messages nest no deeper than one level, so \<open>pb_encode\<close> and \<open>pb_decode\<close> get the bound 1.
\<close>

definition SerializeRobotResponseMsg :: "pb_env \<Rightarrow> addr \<Rightarrow> addr \<Rightarrow> mem \<Rightarrow> (pb_byte list \<times> mem) option" where
  "SerializeRobotResponseMsg E inner_buffer robot_response_msg m =
     (let stream = pb_ostream_from_buffer inner_buffer PROTOBUF_BUFFER_SIZE
      in case pb_encode 1 E stream RobotResponseMsg_fields robot_response_msg m of
           None \<Rightarrow> None
         | Some (ok, stream, m) \<Rightarrow>
             if \<not> ok then Some ([], m)
             else Some (load_bytes m inner_buffer (unat (bytes_written stream)), m))"

definition SerializeRobotCommandMsg :: "pb_env \<Rightarrow> addr \<Rightarrow> addr \<Rightarrow> mem \<Rightarrow> (pb_byte list \<times> mem) option" where
  "SerializeRobotCommandMsg E buffer robot_command_msg m =
     (let stream = pb_ostream_from_buffer buffer PROTOBUF_BUFFER_SIZE
      in case pb_encode 1 E stream RobotCommandMsg_fields robot_command_msg m of
           None \<Rightarrow> None
         | Some (ok, stream, m) \<Rightarrow>
             if \<not> ok then Some ([], m)
             else Some (load_bytes m buffer (unat (bytes_written stream)), m))"

text \<open>The payload is a string of \<open>len\<close> bytes at \<open>payload\<close>; the message is reset first.\<close>

definition DeserializeRobotCommandMsg ::
  "pb_env \<Rightarrow> addr \<Rightarrow> size_t \<Rightarrow> addr \<Rightarrow> mem \<Rightarrow> (bool \<times> mem) option" where
  "DeserializeRobotCommandMsg E payload len robot_command_msg m =
     (let m = memset0 m robot_command_msg sizeof_RobotCommandMsg;
          stream = pb_istream_from_buffer payload len
      in case pb_decode 1 E stream RobotCommandMsg_fields robot_command_msg m of
           None \<Rightarrow> None
         | Some (ok, _, m) \<Rightarrow> if \<not> ok then Some (False, m) else Some (True, m))"

definition DeserializeRobotResponseMsg ::
  "pb_env \<Rightarrow> addr \<Rightarrow> size_t \<Rightarrow> addr \<Rightarrow> mem \<Rightarrow> (bool \<times> mem) option" where
  "DeserializeRobotResponseMsg E payload len robot_response_msg m =
     (let m = memset0 m robot_response_msg sizeof_RobotResponseMsg;
          stream = pb_istream_from_buffer payload len
      in case pb_decode 1 E stream RobotResponseMsg_fields robot_response_msg m of
           None \<Rightarrow> None
         | Some (ok, _, m) \<Rightarrow> if \<not> ok then Some (False, m) else Some (True, m))"

section \<open>The descriptors are in order\<close>

lemma singular_simps [simp]:
  "bf_type (singular_field ty n o1) = ty" "bf_tag (singular_field ty n o1) = n"
  "bf_data_offset (singular_field ty n o1) = o1" "bf_data_size (singular_field ty n o1) = 4"
  "bf_size_offset (singular_field ty n o1) = 0" "bf_array_size (singular_field ty n o1) = 1"
  "off (singular_field ty n o1) = unat o1"
  by (simp_all add: singular_field_def off_def)

lemma flat_width [simp]: "PB_FIELDINFO_WIDTH_AUTO flat_uint = 1" "PB_FIELDINFO_WIDTH_AUTO flat_fixed = 1"
  by (simp_all add: PB_FIELDINFO_WIDTH_AUTO_def) (simp_all add: pb_type_values)

lemma flat_singular:
  "n \<noteq> 0 \<Longrightarrow> flat_field (singular_field flat_uint n o1)" "n \<noteq> 0 \<Longrightarrow> flat_field (singular_field flat_fixed n o1)"
  by (simp_all add: flat_field_def)

lemma singular_ok:
  assumes "PB_FITS n 6" and "PB_FITS o1 8"
  shows "PB_GEN_FIELD_INFO_ASSERT PB_FIELDINFO_WIDTH_AUTO (singular_field flat_uint n o1)"
    and "PB_GEN_FIELD_INFO_ASSERT PB_FIELDINFO_WIDTH_AUTO (singular_field flat_fixed n o1)"
    and "length (PB_GEN_FIELD_INFO PB_FIELDINFO_WIDTH_AUTO (singular_field flat_uint n o1)) = 1"
    and "length (PB_GEN_FIELD_INFO PB_FIELDINFO_WIDTH_AUTO (singular_field flat_fixed n o1)) = 1"
  using assms
  by (simp_all add: PB_GEN_FIELD_INFO_ASSERT_def PB_FIELDINFO_ASSERT_def PB_FIELDINFO_ASSERT_1_def
      PB_GEN_FIELD_INFO_def PB_FIELDINFO_def PB_FIELDINFO_1_def) (simp_all add: PB_FITS_def)

lemma command_bind_ok: "bind_ok PB_FIELDINFO_WIDTH_AUTO RobotCommandMsg_FIELDLIST"
  by (simp add: bind_ok_def RobotCommandMsg_FIELDLIST_def bind_words_def singular_ok PB_FITS_def)

lemma response_bind_ok: "bind_ok PB_FIELDINFO_WIDTH_AUTO RobotResponseMsg_FIELDLIST"
  by (simp add: bind_ok_def RobotResponseMsg_FIELDLIST_def bind_words_def singular_ok PB_FITS_def)

lemma command_tags: "tags_sorted RobotCommandMsg_FIELDLIST"
  by (simp add: tags_sorted_def RobotCommandMsg_FIELDLIST_def)

lemma response_tags: "tags_sorted RobotResponseMsg_FIELDLIST"
  by (simp add: tags_sorted_def RobotResponseMsg_FIELDLIST_def)

lemma command_layout: "flat_layout sizeof_RobotCommandMsg RobotCommandMsg_FIELDLIST"
  by (simp add: flat_layout_def command_tags)
    (simp add: RobotCommandMsg_FIELDLIST_def sizeof_RobotCommandMsg_def flat_singular)

lemma response_layout: "flat_layout sizeof_RobotResponseMsg RobotResponseMsg_FIELDLIST"
  by (simp add: flat_layout_def response_tags)
    (simp add: RobotResponseMsg_FIELDLIST_def sizeof_RobotResponseMsg_def flat_singular)

lemma command_flat:
  "robot_descriptors E \<Longrightarrow> flat_message E RobotCommandMsg_fields PB_FIELDINFO_WIDTH_AUTO
     sizeof_RobotCommandMsg RobotCommandMsg_FIELDLIST"
  by (simp add: flat_message_def command_bind_ok command_layout robot_descriptors_def)

lemma response_flat:
  "robot_descriptors E \<Longrightarrow> flat_message E RobotResponseMsg_fields PB_FIELDINFO_WIDTH_AUTO
     sizeof_RobotResponseMsg RobotResponseMsg_FIELDLIST"
  by (simp add: flat_message_def response_bind_ok response_layout robot_descriptors_def)

text \<open>The records say the same as the fields.\<close>

lemma command_at_eq:
  "command_at m p = command_at m' p' \<longleftrightarrow>
    (\<forall>f \<in> set RobotCommandMsg_FIELDLIST. flat_value m p f = flat_value m' p' f)"
  by (simp add: command_at_def RobotCommandMsg_FIELDLIST_def flat_value_def)

lemma response_at_eq:
  "response_at m p = response_at m' p' \<longleftrightarrow>
    (\<forall>f \<in> set RobotResponseMsg_FIELDLIST. flat_value m p f = flat_value m' p' f)"
  by (simp add: response_at_def RobotResponseMsg_FIELDLIST_def flat_value_def)

section \<open>What the strings are\<close>

definition command_wire :: "mem \<Rightarrow> addr \<Rightarrow> pb_byte list" where
  "command_wire m p = flat_wire RobotCommandMsg_FIELDLIST (flat_value m p)"

definition response_wire :: "mem \<Rightarrow> addr \<Rightarrow> pb_byte list" where
  "response_wire m p = flat_wire RobotResponseMsg_FIELDLIST (flat_value m p)"

lemma command_wire_length: "length (command_wire m p) \<le> 42"
  using flat_wire_length [of RobotCommandMsg_FIELDLIST "flat_value m p"]
  by (simp add: command_wire_def RobotCommandMsg_FIELDLIST_def PB_FITS_def)

lemma response_wire_length: "length (response_wire m p) \<le> 36"
  using flat_wire_length [of RobotResponseMsg_FIELDLIST "flat_value m p"]
  by (simp add: response_wire_def RobotResponseMsg_FIELDLIST_def PB_FITS_def)

lemma buffer_room: "n \<le> 256 \<Longrightarrow> has_room (pb_ostream_from_buffer buf PROTOBUF_BUFFER_SIZE) n"
  by (simp add: has_room_def pb_ostream_from_buffer_def PROTOBUF_BUFFER_SIZE_def)

lemma wrote_buffer: "n \<le> 256 \<Longrightarrow> unat (bytes_written (wrote n (pb_ostream_from_buffer buf PROTOBUF_BUFFER_SIZE))) = n"
  using wrote_bytes [OF buffer_room, of n buf] by (simp add: pb_ostream_from_buffer_def)

text \<open>The buffer and the message do not overlap.\<close>

definition apart :: "addr \<Rightarrow> nat \<Rightarrow> addr \<Rightarrow> nat \<Rightarrow> bool" where
  "apart a n b k \<longleftrightarrow> a + n \<le> b \<or> b + k \<le> a"

lemma serialize_command:
  assumes "robot_descriptors E" and "msg \<noteq> 0" and "apart buffer 256 msg sizeof_RobotCommandMsg"
  shows "SerializeRobotCommandMsg E buffer msg m =
    Some (command_wire m msg, store_bytes m buffer (command_wire m msg))"
proof -
  let ?w = "command_wire m msg" and ?s = "pb_ostream_from_buffer buffer PROTOBUF_BUFFER_SIZE"
  have len: "length ?w \<le> 256" using command_wire_length [of m msg] by simp
  have "pb_encode (Suc 0) E ?s RobotCommandMsg_fields msg m =
      Some (True, wrote (length ?w) ?s, store_bytes m (os_state ?s) ?w)"
    using assms(3) len
    by (intro encode_flat [OF command_flat [OF assms(1)] assms(2)] buffer_room)
      (auto simp: command_wire_def apart_def pb_ostream_from_buffer_def)
  then show ?thesis
    using wrote_buffer [OF len, of buffer] by (simp add: SerializeRobotCommandMsg_def pb_ostream_from_buffer_def)
qed

lemma serialize_response:
  assumes "robot_descriptors E" and "msg \<noteq> 0" and "apart buffer 256 msg sizeof_RobotResponseMsg"
  shows "SerializeRobotResponseMsg E buffer msg m =
    Some (response_wire m msg, store_bytes m buffer (response_wire m msg))"
proof -
  let ?w = "response_wire m msg" and ?s = "pb_ostream_from_buffer buffer PROTOBUF_BUFFER_SIZE"
  have len: "length ?w \<le> 256" using response_wire_length [of m msg] by simp
  have "pb_encode (Suc 0) E ?s RobotResponseMsg_fields msg m =
      Some (True, wrote (length ?w) ?s, store_bytes m (os_state ?s) ?w)"
    using assms(3) len
    by (intro encode_flat [OF response_flat [OF assms(1)] assms(2)] buffer_room)
      (auto simp: response_wire_def apart_def pb_ostream_from_buffer_def)
  then show ?thesis
    using wrote_buffer [OF len, of buffer] by (simp add: SerializeRobotResponseMsg_def pb_ostream_from_buffer_def)
qed

lemma memset_outside: "same_outside a n m (memset0 m a n)"
  by (simp add: memset0_def same_outside_store)

text \<open>Decoding a flat message after the reset of the structure.\<close>

lemma decode_after_reset:
  assumes d: "flat_message E desc width sz fs" and dest: "dest \<noteq> 0" and w: "w = flat_wire fs v"
    and mem: "load_bytes m payload (length w) = w" and len: "length w < 2 ^ 64"
    and ap: "apart payload (length w) dest sz"
  shows "\<exists>s' m'. pb_decode (Suc 0) E (pb_istream_from_buffer payload (of_nat (length w))) desc dest (memset0 m dest sz)
      = Some (True, s', m') \<and> same_outside dest sz m m' \<and> (\<forall>f \<in> set fs. flat_value m' dest f = v f)"
proof -
  let ?s = "pb_istream_from_buffer payload (of_nat (length w))"
  have apart: "is_state ?s + length w \<le> dest \<or> dest + sz \<le> is_state ?s"
    using ap by (auto simp: apart_def pb_istream_from_buffer_def)
  have "at_bytes ?s m w" using mem len by (intro at_bytes_from_buffer) (simp_all add: unat_of_size)
  from at_bytes_outside [OF this memset_outside apart]
  have "at_bytes ?s (memset0 m dest sz) w" .
  moreover have "bytes_left ?s = of_nat (length w)" by (simp add: pb_istream_from_buffer_def)
  ultimately obtain s' m' where "pb_decode (Suc 0) E ?s desc dest (memset0 m dest sz) = Some (True, s', m')"
    "same_outside dest sz (memset0 m dest sz) m'" "\<forall>f \<in> set fs. flat_value m' dest f = v f"
    using decode_flat [OF d dest w _ _ apart] by blast
  then show ?thesis using same_outside_trans [OF memset_outside] by blast
qed

lemma deserialize_command:
  assumes "robot_descriptors E" and "dest \<noteq> 0" and w: "w = command_wire m0 msg"
    and "load_bytes m payload (length w) = w" and "apart payload (length w) dest sizeof_RobotCommandMsg"
  shows "\<exists>m'. DeserializeRobotCommandMsg E payload (of_nat (length w)) dest m = Some (True, m')
    \<and> command_at m' dest = command_at m0 msg \<and> same_outside dest sizeof_RobotCommandMsg m m'"
proof -
  have "length w < 2 ^ 64" using command_wire_length [of m0 msg] by (simp add: w)
  from decode_after_reset [OF command_flat [OF assms(1)] assms(2) w [unfolded command_wire_def] assms(4) this assms(5)]
  show ?thesis by (auto simp: DeserializeRobotCommandMsg_def command_at_eq)
qed

lemma deserialize_response:
  assumes "robot_descriptors E" and "dest \<noteq> 0" and w: "w = response_wire m0 msg"
    and "load_bytes m payload (length w) = w" and "apart payload (length w) dest sizeof_RobotResponseMsg"
  shows "\<exists>m'. DeserializeRobotResponseMsg E payload (of_nat (length w)) dest m = Some (True, m')
    \<and> response_at m' dest = response_at m0 msg \<and> same_outside dest sizeof_RobotResponseMsg m m'"
proof -
  have "length w < 2 ^ 64" using response_wire_length [of m0 msg] by (simp add: w)
  from decode_after_reset [OF response_flat [OF assms(1)] assms(2) w [unfolded response_wire_def] assms(4) this assms(5)]
  show ?thesis by (auto simp: DeserializeRobotResponseMsg_def response_at_eq)
qed

lemma decode_reset_total:
  assumes "flat_message E desc width sz fs" and "dest \<noteq> 0"
  shows "\<exists>ok s' m'. pb_decode (Suc 0) E (pb_istream_from_buffer payload len) desc dest (memset0 m dest sz)
      = Some (ok, s', m') \<and> same_outside dest sz m m' \<and> (ok \<longrightarrow> bytes_left s' = 0)"
proof -
  have "is_callback (pb_istream_from_buffer payload len) = Buffer_callback" by (simp add: pb_istream_from_buffer_def)
  from decode_flat_total [OF assms this] same_outside_trans [OF memset_outside] show ?thesis by blast
qed

section \<open>Properties\<close>

text \<open>
  Property C7. Messages survive the radio. Serialising a command or a response always succeeds, and
  the string has at most 42 (36) of the 256 bytes of the buffer; whoever holds the string, at any
  address that does not overlap the destination, and deserialises it, gets true and a message equal
  in every member, floats bit by bit, and no byte outside the destination is changed.
\<close>

theorem robot_message_roundtrip:
  assumes "robot_descriptors E" and "msg \<noteq> 0" and "dest \<noteq> 0"
    and "apart buffer 256 msg sizeof_RobotCommandMsg"
  shows "(\<exists>w m1. SerializeRobotCommandMsg E buffer msg m = Some (w, m1) \<and> length w \<le> 42
      \<and> (\<forall>m2 payload. load_bytes m2 payload (length w) = w
            \<and> apart payload (length w) dest sizeof_RobotCommandMsg \<longrightarrow>
          (\<exists>m3. DeserializeRobotCommandMsg E payload (of_nat (length w)) dest m2 = Some (True, m3)
            \<and> command_at m3 dest = command_at m msg
            \<and> same_outside dest sizeof_RobotCommandMsg m2 m3)))
    \<and> (\<exists>w m1. SerializeRobotResponseMsg E buffer msg m = Some (w, m1) \<and> length w \<le> 36
      \<and> (\<forall>m2 payload. load_bytes m2 payload (length w) = w
            \<and> apart payload (length w) dest sizeof_RobotResponseMsg \<longrightarrow>
          (\<exists>m3. DeserializeRobotResponseMsg E payload (of_nat (length w)) dest m2 = Some (True, m3)
            \<and> response_at m3 dest = response_at m msg
            \<and> same_outside dest sizeof_RobotResponseMsg m2 m3)))"
proof -
  have "apart buffer 256 msg sizeof_RobotResponseMsg"
    using assms(4) by (auto simp: apart_def sizeof_RobotCommandMsg_def sizeof_RobotResponseMsg_def)
  then show ?thesis
    using serialize_command [OF assms(1,2,4)] serialize_response [OF assms(1,2)]
      deserialize_command [OF assms(1,3) refl] deserialize_response [OF assms(1,3) refl]
    by (simp add: command_wire_length response_wire_length)
qed

text \<open>
  Property C8. Deserialising is total and safe on every input: whatever bytes a datagram holds, of
  whatever length, the two functions return, with true or false, and change no byte outside the
  message they were given.
\<close>

theorem deserialize_any_bytes:
  assumes "robot_descriptors E" and "dest \<noteq> 0"
  shows "(\<exists>ok m'. DeserializeRobotCommandMsg E payload len dest m = Some (ok, m')
      \<and> same_outside dest sizeof_RobotCommandMsg m m')
    \<and> (\<exists>ok m'. DeserializeRobotResponseMsg E payload len dest m = Some (ok, m')
      \<and> same_outside dest sizeof_RobotResponseMsg m m')"
  using decode_reset_total [OF command_flat [OF assms(1)] assms(2), of payload len m]
    decode_reset_total [OF response_flat [OF assms(1)] assms(2), of payload len m]
  by (auto simp: DeserializeRobotCommandMsg_def DeserializeRobotResponseMsg_def)

text \<open>
  Property C28. Encoding a command into a buffer of any size returns true exactly when the string
  fits, and then the buffer holds it and the stream counts it; otherwise it returns false with the
  message \<open>stream full\<close>, wherever in the message the room ran out, in a key or in a value.
\<close>

theorem encode_reports_full_buffer:
  assumes "robot_descriptors E" and "msg \<noteq> 0" and "apart buffer 42 msg sizeof_RobotCommandMsg"
  shows "\<exists>ok s' m'. pb_encode 1 E (pb_ostream_from_buffer buffer n) RobotCommandMsg_fields msg m = Some (ok, s', m')
    \<and> (if length (command_wire m msg) \<le> unat n
       then ok \<and> load_bytes m' buffer (unat (bytes_written s')) = command_wire m msg
       else \<not> ok \<and> os_errmsg s' = Some ''stream full'')"
proof -
  let ?s = "pb_ostream_from_buffer buffer n" and ?w = "command_wire m msg"
  have s: "os_state ?s = buffer" "fresh ?s" "has_room ?s k \<longleftrightarrow> k \<le> unat n" "unat (bytes_written ?s) = 0" for k
    by (simp_all add: pb_ostream_from_buffer_def fresh_def has_room_def)
  have ap: "os_state ?s + length ?w \<le> msg \<or> msg + sizeof_RobotCommandMsg \<le> os_state ?s"
    using assms(3) command_wire_length [of m msg] by (auto simp: apart_def s)
  note flat = command_flat [OF assms(1)]
  show ?thesis
  proof (cases "length ?w \<le> unat n")
    case True
    then show ?thesis
      using encode_flat [OF flat assms(2) command_wire_def, where s = ?s and n = 0] ap wrote_bytes [of ?s "length ?w"]
      by (simp add: s) (blast intro: TrueI)
  next
    case False
    then show ?thesis
      using encode_flat_full [OF flat assms(2) command_wire_def s(2), where n = 0] ap by (auto simp: s stream_full_def)
  qed
qed

section \<open>Witnesses\<close>

definition robot_descs :: "addr \<Rightarrow> pb_msgdesc" where
  "robot_descs a =
     (if a = RobotCommandMsg_fields then PB_BIND PB_FIELDINFO_WIDTH_AUTO 0 None RobotCommandMsg_FIELDLIST
      else PB_BIND PB_FIELDINFO_WIDTH_AUTO 0 None RobotResponseMsg_FIELDLIST)"

lemma robot_descs_ok: "robot_descriptors (no_user_code robot_descs)" "robot_descriptors (payload_env robot_descs)"
  by (simp_all add: robot_descriptors_def robot_descs_def RobotCommandMsg_fields_def RobotResponseMsg_fields_def)

theorem robot_message_roundtrip_witness:
  "\<exists>w m1 m3. SerializeRobotCommandMsg (no_user_code robot_descs) 1000 2000 (\<lambda>a. if a = 2004 then 7 else 0) = Some (w, m1)
     \<and> DeserializeRobotCommandMsg (no_user_code robot_descs) 5000 (of_nat (length w)) 3000 (store_bytes (\<lambda>_. 0) 5000 w)
         = Some (True, m3)
     \<and> cmd_vx (command_at m3 3000) = 7"
proof -
  let ?m = "\<lambda>a. if a = 2004 then 7 else 0 :: 8 word"
  have "cmd_vx (command_at ?m 2000) = 7"
    by (simp add: command_at_def load_u32_def load_bytes_def upt_rec)
  moreover have "apart 1000 256 2000 sizeof_RobotCommandMsg" by (simp add: apart_def)
  then obtain w m1 where "SerializeRobotCommandMsg (no_user_code robot_descs) 1000 2000 ?m = Some (w, m1)"
    and "\<forall>m2 payload. load_bytes m2 payload (length w) = w \<and> apart payload (length w) 3000 sizeof_RobotCommandMsg \<longrightarrow>
      (\<exists>m3. DeserializeRobotCommandMsg (no_user_code robot_descs) payload (of_nat (length w)) 3000 m2 = Some (True, m3)
        \<and> command_at m3 3000 = command_at ?m 2000 \<and> same_outside 3000 sizeof_RobotCommandMsg m2 m3)"
    using conjunct1 [OF robot_message_roundtrip [OF robot_descs_ok(1), of 2000 3000 1000 ?m]] by auto
  moreover have "load_bytes (store_bytes (\<lambda>_. 0) 5000 w) 5000 (length w) = w" by simp
  moreover have "apart 5000 (length w) 3000 sizeof_RobotCommandMsg"
    by (simp add: apart_def sizeof_RobotCommandMsg_def)
  ultimately show ?thesis by metis
qed

theorem deserialize_any_bytes_witness:
  "\<exists>ok m'. DeserializeRobotCommandMsg (no_user_code robot_descs) 1000 500 3000 (\<lambda>a. 255) = Some (ok, m')
     \<and> same_outside 3000 sizeof_RobotCommandMsg (\<lambda>a. 255) m'"
  using deserialize_any_bytes [OF robot_descs_ok(1), of 3000 1000 500 "\<lambda>a. 255"] by simp

theorem encode_reports_full_buffer_witness:
  "\<exists>s' m'. pb_encode 1 (no_user_code robot_descs) (pb_ostream_from_buffer 1000 3) RobotCommandMsg_fields 2000
        (\<lambda>a. if a = 2004 then 7 else 0) = Some (False, s', m') \<and> os_errmsg s' = Some ''stream full''"
proof -
  let ?m = "\<lambda>a. if a = 2004 then 7 else 0 :: 8 word"
  have "load_u32 ?m 2004 = 7" by (simp add: load_u32_def load_bytes_def upt_rec)
  then have "4 \<le> length (flat_field_wire (singular_field flat_fixed 2 4) (flat_value ?m 2000 (singular_field flat_fixed 2 4)))"
    by (simp add: flat_value_def flat_field_wire_def flat_payload_def)
  then have "\<not> length (command_wire ?m 2000) \<le> 3"
    by (simp add: command_wire_def RobotCommandMsg_FIELDLIST_def)
  moreover have "apart 1000 42 2000 sizeof_RobotCommandMsg" by (simp add: apart_def)
  ultimately show ?thesis
    using encode_reports_full_buffer [OF robot_descs_ok(1), of 2000 1000 3 ?m] by auto
qed

theorem iterator_visits_bound_fields_witness:
  "pb_field_iter_begin (no_user_code robot_descs) RobotCommandMsg_fields 2000 (\<lambda>_. 0)
     = (True, bound_iter PB_FIELDINFO_WIDTH_AUTO (\<lambda>_. 0) RobotCommandMsg_fields 2000 RobotCommandMsg_FIELDLIST 0)
   \<and> pField (bound_iter PB_FIELDINFO_WIDTH_AUTO (\<lambda>_. 0) RobotCommandMsg_fields 2000 RobotCommandMsg_FIELDLIST 3) = 2012"
  using iterator_visits_bound_fields [OF command_bind_ok, of "no_user_code robot_descs" RobotCommandMsg_fields 0 None 3 2000 "\<lambda>_. 0"]
  by (simp add: robot_descs_def) (simp add: RobotCommandMsg_FIELDLIST_def)

theorem find_field_by_tag_witness:
  "pb_field_iter_find (no_user_code robot_descs) (\<lambda>_. 0) 2
       (bound_iter PB_FIELDINFO_WIDTH_AUTO (\<lambda>_. 0) RobotCommandMsg_fields 2000 RobotCommandMsg_FIELDLIST 5)
     = Some (True, bound_iter PB_FIELDINFO_WIDTH_AUTO (\<lambda>_. 0) RobotCommandMsg_fields 2000 RobotCommandMsg_FIELDLIST 1)"
  using find_field_by_tag [OF command_bind_ok _ command_tags, of "no_user_code robot_descs" RobotCommandMsg_fields 0 None 5 2 "\<lambda>_. 0" 2000]
  by (simp add: robot_descs_def) (simp add: RobotCommandMsg_FIELDLIST_def)

end
