(* ===== verification/HostComm.thy ===== *)
theory HostComm
  imports RobotMessages SystemConfig
begin

text \<open>
  The link to the base station (\<open>libs/comm/src/HostComm.cpp\<close>): the string of commands the host
  prepares, and the three threads that share it. The main thread calls \<open>SetRobotCommands\<close> and
  \<open>Exit\<close>; one thread waits for \<open>ready\<close> datagrams, another sends the string. A step of the relation is
  a critical section or one access to the shared string, so every interleaving the mutex allows is
  a sequence of steps. The sockets, the addresses and the console are left out.
\<close>

section \<open>The string of commands\<close>

text \<open>
  What the loop of \<open>SetRobotCommands\<close> appends, piece by piece: for each robot the length of its
  serialised command in two bytes, then the command. Element 0 of the array is not used.
\<close>

fun append_commands ::
  "pb_env \<Rightarrow> addr \<Rightarrow> addr \<Rightarrow> nat list \<Rightarrow> mem \<Rightarrow> (pb_byte list list \<times> mem) option" where
  "append_commands E buffer robot_cmd_msg [] m = Some ([], m)"
| "append_commands E buffer robot_cmd_msg (i # is) m =
     (case SerializeRobotCommandMsg E buffer (robot_cmd_msg + i * sizeof_RobotCommandMsg) m of
        None \<Rightarrow> None
      | Some (cmd_i, m) \<Rightarrow>
          let len = of_nat (length cmd_i) :: 16 word
          in case append_commands E buffer robot_cmd_msg is m of
               None \<Rightarrow> None
             | Some (pieces, m) \<Rightarrow> Some (le_bytes 2 len # cmd_i # pieces, m))"

definition command_pieces :: "pb_env \<Rightarrow> addr \<Rightarrow> addr \<Rightarrow> mem \<Rightarrow> (pb_byte list list \<times> mem) option" where
  "command_pieces E buffer robot_cmd_msg m = append_commands E buffer robot_cmd_msg [1..<unat num_robots + 1] m"

text \<open>How the receiver takes the string apart: \<open>n\<close> times a length and as many bytes.\<close>

fun split_commands :: "nat \<Rightarrow> pb_byte list \<Rightarrow> pb_byte list list option" where
  "split_commands 0 bs = (if bs = [] then Some [] else None)"
| "split_commands (Suc n) bs =
     (if length bs < 2 then None
      else
        let len = unat (le_word (take 2 bs) :: 16 word); rest = drop 2 bs
        in if length rest < len then None
           else map_option ((#) (take len rest)) (split_commands n (drop len rest)))"

definition command_addr :: "addr \<Rightarrow> nat \<Rightarrow> addr" where
  "command_addr robot_cmd_msg i = robot_cmd_msg + i * sizeof_RobotCommandMsg"

lemma command_wire_outside:
  assumes "same_outside a n m m'" and "apart a n p sizeof_RobotCommandMsg"
  shows "command_wire m' p = command_wire m p"
proof -
  have "off f + 4 \<le> sizeof_RobotCommandMsg" if "f \<in> set RobotCommandMsg_FIELDLIST" for f
    using that command_layout by (auto simp: flat_layout_def list_all_iff)
  then have "flat_value m' p f = flat_value m p f" if "f \<in> set RobotCommandMsg_FIELDLIST" for f
    using that assms same_outside_load [OF assms(1), of "p + off f" 4]
    by (force simp: flat_value_def load_u32_def apart_def)
  then show ?thesis unfolding command_wire_def by (rule flat_wire_cong)
qed

lemma append_commands_eq:
  assumes "robot_descriptors E" and "cmds \<noteq> 0"
  shows "(\<forall>i \<in> set is. apart buffer 256 (command_addr cmds i) sizeof_RobotCommandMsg) \<Longrightarrow>
    \<exists>m'. append_commands E buffer cmds is m =
      Some (concat (map (\<lambda>i. [le_bytes 2 (of_nat (length (command_wire m (command_addr cmds i))) :: 16 word),
                              command_wire m (command_addr cmds i)]) is), m')
      \<and> same_outside buffer 256 m m'"
proof (induction "is" arbitrary: m)
  case (Cons i "is")
  let ?w = "command_wire m (command_addr cmds i)"
  let ?m1 = "store_bytes m buffer ?w"
  have ser: "SerializeRobotCommandMsg E buffer (cmds + i * sizeof_RobotCommandMsg) m = Some (?w, ?m1)"
    using serialize_command [OF assms(1), of "command_addr cmds i" buffer m] Cons.prems assms(2)
    by (simp add: command_addr_def)
  have so: "same_outside buffer 256 m ?m1"
    using command_wire_length [of m "command_addr cmds i"] by (intro same_outside_store) auto
  have same: "command_wire ?m1 (command_addr cmds j) = command_wire m (command_addr cmds j)" if "j \<in> set is" for j
    using command_wire_outside [OF so] Cons.prems that by simp
  from Cons.IH [of ?m1] Cons.prems same so show ?case
    by (auto simp: ser intro: same_outside_trans cong: map_cong)
qed simp

lemma split_commands_concat:
  assumes "list_all (\<lambda>w. length w < 2 ^ 16) ws"
  shows "split_commands (length ws) (concat (concat (map (\<lambda>w. [le_bytes 2 (of_nat (length w) :: 16 word), w]) ws))) = Some ws"
  using assms
proof (induction ws)
  case (Cons w ws)
  have t: "take_bit 16 v = v" for v :: "16 word" by (rule bit_word_eqI) (simp add: bit_take_bit_iff)
  have len: "unat (le_word (le_bytes 2 (of_nat (length w) :: 16 word)) :: 16 word) = length w"
    using Cons.prems by (simp add: le_word_le_bytes t unat_of_nat_16)
  have take: "take 2 (le_bytes 2 (of_nat (length w) :: 16 word) @ x) = le_bytes 2 (of_nat (length w) :: 16 word)"
    and drop: "drop 2 (le_bytes 2 (of_nat (length w) :: 16 word) @ x) = x" for x
    by simp_all
  show ?case using Cons by (simp only: list.map concat.simps append_Cons append_Nil append_assoc
      list.size split_commands.simps Suc_eq_plus1 [symmetric] take drop) (simp add: Let_def len)
qed simp

section \<open>The threads\<close>

text \<open>
  Where each thread is: \<open>Storing\<close> holds the pieces the main thread has still to append, \<open>Rx_process\<close>
  the datagram that was received.
\<close>

datatype main_pc = Idle | Storing "pb_byte list list" | Exiting | Exited
datatype tx_pc = Tx_test | Tx_wait | Tx_send | Tx_stopped
datatype rx_pc = Rx_test | Rx_receive | Rx_process string | Rx_stopped

text \<open>
  The members of \<open>HostComm\<close> the threads share, and a record of what happened: the datagrams sent,
  the strings completed, the number of \<open>ready\<close> datagrams processed.
\<close>

record host =
  running :: bool
  received_ready :: bool
  new_stored_commands :: bool
  stored_commands :: "pb_byte list"
  main_at :: main_pc
  tx_at :: tx_pc
  rx_at :: rx_pc
  sent :: "pb_byte list list"
  completed :: "pb_byte list list"
  readies :: nat

definition host_init :: host where
  "host_init =
     \<lparr>running = True, received_ready = False, new_stored_commands = False, stored_commands = [],
      main_at = Idle, tx_at = Tx_test, rx_at = Rx_test, sent = [], completed = [], readies = 0\<rparr>"

definition wake_condition :: "host \<Rightarrow> bool" where
  "wake_condition s \<longleftrightarrow> received_ready s \<and> new_stored_commands s"

definition ProcessBaseStationMessage :: "string \<Rightarrow> host \<Rightarrow> host" where
  "ProcessBaseStationMessage msg s =
     (if msg = ''ready'' then s\<lparr>received_ready := True, readies := readies s + 1\<rparr> else s)"

text \<open>\<open>TransmissionThread\<close>: the test of the loop, the critical section after the wait, the send.\<close>

inductive tx_step :: "host \<Rightarrow> host \<Rightarrow> bool" where
  tx_loop: "tx_at s = Tx_test \<Longrightarrow> running s \<Longrightarrow> tx_step s (s\<lparr>tx_at := Tx_wait\<rparr>)"
| tx_stop: "tx_at s = Tx_test \<Longrightarrow> \<not> running s \<Longrightarrow> tx_step s (s\<lparr>tx_at := Tx_stopped\<rparr>)"
| tx_wake: "tx_at s = Tx_wait \<Longrightarrow> wake_condition s \<Longrightarrow>
    tx_step s (s\<lparr>received_ready := False, new_stored_commands := False, tx_at := Tx_send\<rparr>)"
| tx_send: "tx_at s = Tx_send \<Longrightarrow> tx_step s (s\<lparr>sent := sent s @ [stored_commands s], tx_at := Tx_test\<rparr>)"

text \<open>\<open>ReceptionThread\<close>; any datagram may arrive.\<close>

inductive rx_step :: "host \<Rightarrow> host \<Rightarrow> bool" where
  rx_loop: "rx_at s = Rx_test \<Longrightarrow> running s \<Longrightarrow> rx_step s (s\<lparr>rx_at := Rx_receive\<rparr>)"
| rx_stop: "rx_at s = Rx_test \<Longrightarrow> \<not> running s \<Longrightarrow> rx_step s (s\<lparr>rx_at := Rx_stopped\<rparr>)"
| rx_receive: "rx_at s = Rx_receive \<Longrightarrow> rx_step s (s\<lparr>rx_at := Rx_process msg\<rparr>)"
| rx_process: "rx_at s = Rx_process msg \<Longrightarrow> rx_step s ((ProcessBaseStationMessage msg s)\<lparr>rx_at := Rx_test\<rparr>)"

text \<open>
  The main thread: \<open>SetRobotCommands\<close> with any array, one append at a time, then the flag under the
  mutex; \<open>Exit\<close> clears \<open>running\<close> and joins the two threads.
\<close>

inductive main_step :: "pb_env \<Rightarrow> addr \<Rightarrow> host \<Rightarrow> host \<Rightarrow> bool" for E buffer where
  set_clear: "main_at s = Idle \<Longrightarrow> command_pieces E buffer robot_cmd_msg m = Some (pieces, m') \<Longrightarrow>
    main_step E buffer s (s\<lparr>stored_commands := [], main_at := Storing pieces\<rparr>)"
| set_append: "main_at s = Storing (p # pieces) \<Longrightarrow>
    main_step E buffer s (s\<lparr>stored_commands := stored_commands s @ p, main_at := Storing pieces\<rparr>)"
| set_flag: "main_at s = Storing [] \<Longrightarrow>
    main_step E buffer s (s\<lparr>new_stored_commands := True, main_at := Idle,
      completed := completed s @ [stored_commands s]\<rparr>)"
| exit_begin: "main_at s = Idle \<Longrightarrow> main_step E buffer s (s\<lparr>running := False, main_at := Exiting\<rparr>)"
| exit_joined: "main_at s = Exiting \<Longrightarrow> tx_at s = Tx_stopped \<Longrightarrow> rx_at s = Rx_stopped \<Longrightarrow>
    main_step E buffer s (s\<lparr>main_at := Exited\<rparr>)"

definition host_step :: "pb_env \<Rightarrow> addr \<Rightarrow> host \<Rightarrow> host \<Rightarrow> bool" where
  "host_step E buffer s s' \<longleftrightarrow> main_step E buffer s s' \<or> tx_step s s' \<or> rx_step s s'"

inductive host_reachable :: "pb_env \<Rightarrow> addr \<Rightarrow> host \<Rightarrow> bool" for E buffer where
  start: "host_reachable E buffer host_init"
| step: "host_reachable E buffer s \<Longrightarrow> host_step E buffer s s' \<Longrightarrow> host_reachable E buffer s'"

inductive_cases tx_stepE: "tx_step s s'"
inductive_cases rx_stepE: "rx_step s s'"
inductive_cases main_stepE: "main_step E buffer s s'"

lemma host_stepE:
  assumes "host_step E buffer s s'"
  obtains "main_step E buffer s s'" | "tx_step s s'" | "rx_step s s'"
  using assms by (auto simp: host_step_def)

section \<open>Flow control\<close>

text \<open>
  Every datagram uses up one \<open>ready\<close> and one completed string; the flags and the thread that is about
  to send hold what is not yet used up.
\<close>

definition pending :: "bool \<Rightarrow> nat" where "pending b = (if b then 1 else 0)"

definition flow_inv :: "host \<Rightarrow> bool" where
  "flow_inv s \<longleftrightarrow>
     length (sent s) + pending (tx_at s = Tx_send) + pending (received_ready s) \<le> readies s
     \<and> length (sent s) + pending (tx_at s = Tx_send) + pending (new_stored_commands s) \<le> length (completed s)"

lemma flow_inv_step: "flow_inv s \<Longrightarrow> host_step E buffer s s' \<Longrightarrow> flow_inv s'"
  by (elim host_stepE main_stepE tx_stepE rx_stepE)
    (auto simp: flow_inv_def pending_def wake_condition_def ProcessBaseStationMessage_def split: if_splits)

lemma reachable_flow: "host_reachable E buffer s \<Longrightarrow> flow_inv s"
proof (induction rule: host_reachable.induct)
  case start
  show ?case by (simp add: flow_inv_def host_init_def pending_def)
next
  case (step s s')
  then show ?case by (blast intro: flow_inv_step)
qed

text \<open>What the shared string holds between two calls, and while a call appends to it.\<close>

definition command_string :: "pb_env \<Rightarrow> addr \<Rightarrow> pb_byte list \<Rightarrow> bool" where
  "command_string E buffer bs \<longleftrightarrow> (\<exists>cmds m pieces m'. command_pieces E buffer cmds m = Some (pieces, m') \<and> bs = concat pieces)"

definition string_inv :: "pb_env \<Rightarrow> addr \<Rightarrow> host \<Rightarrow> bool" where
  "string_inv E buffer s \<longleftrightarrow>
     list_all (command_string E buffer) (completed s)
     \<and> (case main_at s of
          Storing pieces \<Rightarrow> command_string E buffer (stored_commands s @ concat pieces)
        | _ \<Rightarrow> completed s \<noteq> [] \<longrightarrow> stored_commands s = last (completed s))"

lemma string_inv_step: "string_inv E buffer s \<Longrightarrow> host_step E buffer s s' \<Longrightarrow> string_inv E buffer s'"
  by (elim host_stepE main_stepE tx_stepE rx_stepE)
    (auto simp: string_inv_def ProcessBaseStationMessage_def command_string_def split: main_pc.splits)

lemma reachable_string: "host_reachable E buffer s \<Longrightarrow> string_inv E buffer s"
proof (induction rule: host_reachable.induct)
  case start
  show ?case by (simp add: string_inv_def host_init_def)
next
  case (step s s')
  then show ?case by (blast intro: string_inv_step)
qed

section \<open>Runs\<close>

lemma command_pieces_eq:
  assumes "robot_descriptors E" and "cmds \<noteq> 0" and "apart buffer 256 cmds (7 * sizeof_RobotCommandMsg)"
  shows "\<exists>m'. command_pieces E buffer cmds m =
      Some (concat (map (\<lambda>w. [le_bytes 2 (of_nat (length w) :: 16 word), w])
        (map (\<lambda>i. command_wire m (command_addr cmds i)) [1..<7])), m')"
proof -
  have "apart buffer 256 (command_addr cmds i) sizeof_RobotCommandMsg" if "i \<in> set [1..<7]" for i
    using assms(3) that by (auto simp: apart_def command_addr_def sizeof_RobotCommandMsg_def)
  with append_commands_eq [OF assms(1,2), of "[1..<7]" buffer m] show ?thesis
    by (auto simp: command_pieces_def num_robots_def comp_def)
qed

lemma append_commands_long: "append_commands E buffer cmds is m = Some (ps, m') \<Longrightarrow> 2 * length is \<le> length (concat ps)"
proof (induction "is" arbitrary: m ps m')
  case (Cons i "is")
  then show ?case
    by (auto simp: Let_def split: option.splits prod.splits) fastforce
qed simp

lemma command_string_long: "command_string E buffer bs \<Longrightarrow> 12 \<le> length bs"
  by (auto simp: command_string_def command_pieces_def num_robots_def dest!: append_commands_long)

text \<open>A call of \<open>SetRobotCommands\<close> that is not interrupted.\<close>

lemma reachable_store:
  "host_reachable E buffer s \<Longrightarrow> main_at s = Storing pieces \<Longrightarrow>
    host_reachable E buffer (s\<lparr>stored_commands := stored_commands s @ concat pieces, main_at := Idle,
      new_stored_commands := True, completed := completed s @ [stored_commands s @ concat pieces]\<rparr>)"
proof (induction pieces arbitrary: s)
  case Nil
  from set_flag [OF Nil(2), of E buffer] Nil(1)
  have "host_reachable E buffer (s\<lparr>new_stored_commands := True, main_at := Idle,
      completed := completed s @ [stored_commands s]\<rparr>)"
    by (auto simp: host_step_def intro: host_reachable.step)
  then show ?case by (cases s) simp
next
  case (Cons p ps)
  from set_append [OF Cons.prems(2)] Cons.prems(1)
  have "host_reachable E buffer (s\<lparr>stored_commands := stored_commands s @ p, main_at := Storing ps\<rparr>)"
    by (auto simp: host_step_def intro: host_reachable.step)
  from Cons.IH [OF this] show ?case by simp
qed

lemma reachable_set:
  assumes "host_reachable E buffer s" and "main_at s = Idle"
    and "command_pieces E buffer cmds m = Some (pieces, m')"
  shows "host_reachable E buffer (s\<lparr>stored_commands := concat pieces, main_at := Idle,
      new_stored_commands := True, completed := completed s @ [concat pieces]\<rparr>)"
proof -
  have "host_reachable E buffer (s\<lparr>stored_commands := [], main_at := Storing pieces\<rparr>)"
    using assms set_clear [OF assms(2,3)] by (auto simp: host_step_def intro: host_reachable.step)
  from reachable_store [OF this] show ?thesis by simp
qed

lemmas host_run = host_reachable.step [OF _ iffD2 [OF host_step_def]]

lemma reachable_tx: "host_reachable E buffer s \<Longrightarrow> tx_step s s' \<Longrightarrow> host_reachable E buffer s'"
  by (rule host_run) auto

lemma reachable_rx: "host_reachable E buffer s \<Longrightarrow> rx_step s s' \<Longrightarrow> host_reachable E buffer s'"
  by (rule host_run) auto

text \<open>A \<open>ready\<close> arrives.\<close>

lemma reachable_ready:
  assumes "host_reachable E buffer s" and "rx_at s = Rx_test" and "running s"
  shows "host_reachable E buffer (s\<lparr>received_ready := True, readies := readies s + 1\<rparr>)"
proof -
  let ?s1 = "s\<lparr>rx_at := Rx_receive\<rparr>" and ?s2 = "s\<lparr>rx_at := Rx_process ''ready''\<rparr>"
  have "host_reachable E buffer ?s1" using reachable_rx [OF assms(1) rx_loop] assms(2,3) by simp
  from reachable_rx [OF this rx_receive, of "''ready''"] have "host_reachable E buffer ?s2" by simp
  from reachable_rx [OF this rx_process, of "''ready''"]
  have "host_reachable E buffer ((ProcessBaseStationMessage ''ready'' ?s2)\<lparr>rx_at := Rx_test\<rparr>)" by simp
  with assms(2) show ?thesis by (cases s) (simp add: ProcessBaseStationMessage_def)
qed

text \<open>The transmission thread waits, a string is complete, \<open>ready\<close> has come.\<close>

lemma about_to_send:
  assumes "command_pieces E buffer cmds m = Some (pieces, m')"
  shows "\<exists>s. host_reachable E buffer s \<and> main_at s = Idle \<and> tx_at s = Tx_send \<and> running s
    \<and> \<not> new_stored_commands s"
proof -
  have "host_reachable E buffer (host_init\<lparr>tx_at := Tx_wait\<rparr>)"
    by (rule reachable_tx [OF host_reachable.start tx_loop]) (simp_all add: host_init_def)
  from reachable_set [OF this _ assms]
  obtain s where s: "host_reachable E buffer s" "main_at s = Idle" "tx_at s = Tx_wait" "rx_at s = Rx_test"
    "running s" "new_stored_commands s" by (auto simp: host_init_def)
  from reachable_tx [OF reachable_ready [OF s(1,4,5)] tx_wake] s
  show ?thesis by (auto simp: wake_condition_def)
qed

lemma commands_split_and_decode:
  assumes "robot_descriptors E" and "robot_cmd_msg \<noteq> 0" and "dest \<noteq> 0"
    and "apart buffer 256 robot_cmd_msg (7 * sizeof_RobotCommandMsg)"
  shows "\<exists>pieces m1 ws. command_pieces E buffer robot_cmd_msg m = Some (pieces, m1)
    \<and> split_commands (unat num_robots) (concat pieces) = Some ws \<and> length ws = unat num_robots
    \<and> (\<forall>i \<in> {1..unat num_robots}. \<forall>m2 payload.
        load_bytes m2 payload (length (ws ! (i - 1))) = ws ! (i - 1)
        \<and> apart payload (length (ws ! (i - 1))) dest sizeof_RobotCommandMsg \<longrightarrow>
        (\<exists>m3. DeserializeRobotCommandMsg E payload (of_nat (length (ws ! (i - 1)))) dest m2 = Some (True, m3)
          \<and> command_at m3 dest = command_at m (command_addr robot_cmd_msg i)))"
proof -
  let ?ws = "map (\<lambda>i. command_wire m (command_addr robot_cmd_msg i)) [1..<7]"
  obtain m1 where p: "command_pieces E buffer robot_cmd_msg m =
      Some (concat (map (\<lambda>w. [le_bytes 2 (of_nat (length w) :: 16 word), w]) ?ws), m1)"
    using command_pieces_eq [OF assms(1,2,4)] by blast
  have "list_all (\<lambda>w. length w < 2 ^ 16) ?ws"
    by (auto simp: list_all_iff intro: le_less_trans [OF command_wire_length])
  from split_commands_concat [OF this]
  have split: "split_commands (unat num_robots)
      (concat (concat (map (\<lambda>w. [le_bytes 2 (of_nat (length w) :: 16 word), w]) ?ws))) = Some ?ws"
    by (simp only: length_map length_upt num_robots_def) simp
  have nth: "?ws ! (i - 1) = command_wire m (command_addr robot_cmd_msg i)" if "i \<in> {1..unat num_robots}" for i
  proof -
    have "i - 1 < length [1..<7]" "1 + (i - 1) = i" using that by (auto simp: num_robots_def)
    then show ?thesis by (simp only: nth_map nth_upt length_upt)
  qed
  have len: "length ?ws = unat num_robots" by (simp add: num_robots_def)
  have "\<forall>i \<in> {1..unat num_robots}. \<forall>m2 payload.
        load_bytes m2 payload (length (?ws ! (i - 1))) = ?ws ! (i - 1)
        \<and> apart payload (length (?ws ! (i - 1))) dest sizeof_RobotCommandMsg \<longrightarrow>
        (\<exists>m3. DeserializeRobotCommandMsg E payload (of_nat (length (?ws ! (i - 1)))) dest m2 = Some (True, m3)
          \<and> command_at m3 dest = command_at m (command_addr robot_cmd_msg i))"
  proof (intro ballI allI impI, elim conjE)
    fix i m2 payload assume i: "i \<in> {1..unat num_robots}"
    assume "load_bytes m2 payload (length (?ws ! (i - 1))) = ?ws ! (i - 1)"
      "apart payload (length (?ws ! (i - 1))) dest sizeof_RobotCommandMsg"
    with deserialize_command [OF assms(1,3) refl]
    show "\<exists>m3. DeserializeRobotCommandMsg E payload (of_nat (length (?ws ! (i - 1)))) dest m2 = Some (True, m3)
          \<and> command_at m3 dest = command_at m (command_addr robot_cmd_msg i)"
      unfolding nth [OF i] by blast
  qed
  with p split len show ?thesis by blast
qed

text \<open>One call of \<open>SetRobotCommands\<close>, one \<open>ready\<close>, one datagram.\<close>

lemma string_is_sent:
  assumes "command_pieces E buffer cmds m = Some (pieces, m')"
  shows "\<exists>s. host_reachable E buffer s \<and> readies s = 1 \<and> sent s = [concat pieces]"
proof -
  have "host_reachable E buffer (host_init\<lparr>tx_at := Tx_wait\<rparr>)"
    by (rule reachable_tx [OF host_reachable.start tx_loop]) (simp_all add: host_init_def)
  from reachable_set [OF this _ assms]
  obtain s where s: "host_reachable E buffer s" "tx_at s = Tx_wait" "rx_at s = Rx_test"
    "running s" "new_stored_commands s" "stored_commands s = concat pieces" "sent s = []" "readies s = 0"
    by (auto simp: host_init_def)
  from reachable_tx [OF reachable_ready [OF s(1,3,4)] tx_wake] s
  have "host_reachable E buffer (s\<lparr>readies := 1, received_ready := False, new_stored_commands := False, tx_at := Tx_send\<rparr>)"
    by (simp add: wake_condition_def)
  from reachable_tx [OF this tx_send] s show ?thesis by (auto simp: intro!: exI)
qed

section \<open>Properties\<close>

text \<open>
  From the array of commands to the robots: the string that \<open>SetRobotCommands\<close> builds can
  be taken apart again by length prefixes into exactly six payloads, and payload \<open>i\<close>, deserialised on
  a robot, is true and gives the command that element \<open>i\<close> of the array held.
\<close>

theorem robot_commands_delivered:
  assumes "robot_descriptors E" and "robot_cmd_msg \<noteq> 0" and "dest \<noteq> 0"
    and "apart buffer 256 robot_cmd_msg (7 * sizeof_RobotCommandMsg)"
  shows "\<exists>pieces m1 ws. command_pieces E buffer robot_cmd_msg m = Some (pieces, m1)
    \<and> split_commands (unat num_robots) (concat pieces) = Some ws \<and> length ws = unat num_robots
    \<and> (\<forall>i \<in> {1..unat num_robots}. \<forall>m2 payload.
        load_bytes m2 payload (length (ws ! (i - 1))) = ws ! (i - 1)
        \<and> apart payload (length (ws ! (i - 1))) dest sizeof_RobotCommandMsg \<longrightarrow>
        (\<exists>m3. DeserializeRobotCommandMsg E payload (of_nat (length (ws ! (i - 1)))) dest m2 = Some (True, m3)
          \<and> command_at m3 dest = command_at m (command_addr robot_cmd_msg i)))"
  by (rule commands_split_and_decode [OF assms])

theorem robot_commands_delivered_witness:
  "\<exists>pieces m1 ws. command_pieces (no_user_code robot_descs) 1000 2000 (\<lambda>a. if a = 2032 then 7 else 0) = Some (pieces, m1)
    \<and> split_commands (unat num_robots) (concat pieces) = Some ws \<and> length ws = unat num_robots"
  using robot_commands_delivered [OF robot_descs_ok(1), of 2000 3000 1000 "\<lambda>a. if a = 2032 then 7 else 0"]
  by (auto simp: apart_def)

text \<open>
  Property C20. Flow control: in every state the threads can reach, the number of datagrams sent is at
  most the number of \<open>ready\<close> datagrams processed and at most the number of completed calls of
  \<open>SetRobotCommands\<close>, counting what is about to be sent; so a \<open>ready\<close> never releases two datagrams and
  a string is never sent twice.
\<close>

theorem host_flow_control:
  assumes "host_reachable E buffer s"
  shows "length (sent s) + (if tx_at s = Tx_send then 1 else 0) \<le> readies s
    \<and> length (sent s) + (if tx_at s = Tx_send then 1 else 0) \<le> length (completed s)"
  using reachable_flow [OF assms] by (auto simp: flow_inv_def pending_def split: if_splits)

theorem host_flow_control_witness:
  "\<exists>s. host_reachable (no_user_code robot_descs) 1000 s \<and> tx_at s = Tx_send \<and> length (sent s) + 1 \<le> readies s"
proof -
  obtain pieces m' where "command_pieces (no_user_code robot_descs) 1000 2000 (\<lambda>_. 0) = Some (pieces, m')"
    using command_pieces_eq [OF robot_descs_ok(1), of 2000 1000 "\<lambda>_. 0"] by (auto simp: apart_def)
  from about_to_send [OF this] host_flow_control show ?thesis by fastforce
qed

text \<open>
  If the main thread is not inside \<open>SetRobotCommands\<close> when the transmission thread sends,
  the datagram is the string of the last completed call, whole and as one call built it.
\<close>

theorem quiet_send_is_whole:
  assumes "host_reachable E buffer s" and "tx_at s = Tx_send" and "main_at s = Idle" and "tx_step s s'"
  shows "sent s' = sent s @ [last (completed s)] \<and> command_string E buffer (last (completed s))"
proof -
  have "completed s \<noteq> []"
    using reachable_flow [OF assms(1)] assms(2) by (auto simp: flow_inv_def pending_def)
  moreover have "string_inv E buffer s" by (rule reachable_string [OF assms(1)])
  ultimately show ?thesis
    using assms(2-) by (auto simp: string_inv_def list_all_iff elim!: tx_stepE)
qed

theorem quiet_send_is_whole_witness:
  "\<exists>s s'. host_reachable (no_user_code robot_descs) 1000 s \<and> tx_step s s'
     \<and> sent s' = sent s @ [last (completed s)]"
proof -
  obtain pieces m' where "command_pieces (no_user_code robot_descs) 1000 2000 (\<lambda>_. 0) = Some (pieces, m')"
    using command_pieces_eq [OF robot_descs_ok(1), of 2000 1000 "\<lambda>_. 0"] by (auto simp: apart_def)
  from about_to_send [OF this] tx_send quiet_send_is_whole show ?thesis by blast
qed

text \<open>
  The string is read outside the mutex. If the next call of \<open>SetRobotCommands\<close> has begun, the thread
  can send an unfinished string, for instance an empty datagram, which no call ever builds.
\<close>

theorem torn_datagram:
  assumes "command_pieces E buffer cmds m = Some (pieces, m')"
  shows "\<exists>s. host_reachable E buffer s \<and> [] \<in> set (sent s) \<and> \<not> command_string E buffer []"
proof -
  obtain s where s: "host_reachable E buffer s" "main_at s = Idle" "tx_at s = Tx_send"
    using about_to_send [OF assms] by blast
  let ?s = "s\<lparr>stored_commands := [], main_at := Storing pieces\<rparr>"
  have "host_reachable E buffer ?s" by (rule host_run [OF s(1)]) (use set_clear [OF s(2) assms] in blast)
  from reachable_tx [OF this tx_send] s(3)
  have "host_reachable E buffer (?s\<lparr>sent := sent s @ [[]], tx_at := Tx_test\<rparr>)" by simp
  moreover have "\<not> command_string E buffer []" using command_string_long by fastforce
  ultimately show ?thesis by (intro exI conjI) auto
qed

text \<open>\<open>Exit\<close> has been called while the transmission thread sleeps and no commands are stored.\<close>

definition exit_stuck :: "host \<Rightarrow> bool" where
  "exit_stuck s \<longleftrightarrow> main_at s = Exiting \<and> tx_at s = Tx_wait \<and> \<not> new_stored_commands s"

lemma exit_stuck_step: "exit_stuck s \<Longrightarrow> host_step E buffer s s' \<Longrightarrow> exit_stuck s'"
  by (elim host_stepE main_stepE tx_stepE rx_stepE)
    (auto simp: exit_stuck_def wake_condition_def ProcessBaseStationMessage_def)

text \<open>
  \<open>Exit\<close> can wait forever. If it is called while the transmission thread sleeps and the
  last string has been sent, no sequence of steps, whatever arrives from the base station, lets the
  main thread past the join: the thread is never notified and would not look at \<open>running\<close> if it were.
  Such a state is reachable for every array of commands.
\<close>

theorem exit_waits_forever:
  assumes "command_pieces E buffer cmds m = Some (pieces, m')"
  shows "\<exists>s. host_reachable E buffer s \<and> \<not> running s \<and> main_at s = Exiting
    \<and> (\<forall>s'. (host_step E buffer)\<^sup>*\<^sup>* s s' \<longrightarrow> main_at s' = Exiting)"
proof -
  obtain s where s: "host_reachable E buffer s" "main_at s = Idle" "tx_at s = Tx_send" "running s"
    "\<not> new_stored_commands s"
    using about_to_send [OF assms] by blast
  let ?s1 = "s\<lparr>sent := sent s @ [stored_commands s], tx_at := Tx_test\<rparr>"
  have "host_reachable E buffer ?s1" by (rule reachable_tx [OF s(1) tx_send [OF s(3)]])
  from reachable_tx [OF this tx_loop] s(4) have "host_reachable E buffer (?s1\<lparr>tx_at := Tx_wait\<rparr>)" by simp
  from host_run [OF this disjI1, OF exit_begin] s(2)
  have "host_reachable E buffer (?s1\<lparr>tx_at := Tx_wait, running := False, main_at := Exiting\<rparr>)" (is "host_reachable E buffer ?s") by simp
  moreover have "exit_stuck ?s" using s(5) by (simp add: exit_stuck_def)
  moreover have "exit_stuck s'" if "(host_step E buffer)\<^sup>*\<^sup>* ?s s'" for s'
    using that \<open>exit_stuck ?s\<close> by (induction rule: rtranclp_induct) (auto intro: exit_stuck_step)
  ultimately show ?thesis by (intro exI [of _ ?s]) (auto simp: exit_stuck_def)
qed

theorem exit_waits_forever_witness:
  "\<exists>s. host_reachable (no_user_code robot_descs) 1000 s \<and> \<not> running s \<and> main_at s = Exiting
    \<and> (\<forall>s'. (host_step (no_user_code robot_descs) 1000)\<^sup>*\<^sup>* s s' \<longrightarrow> main_at s' = Exiting)"
proof -
  obtain pieces m' where "command_pieces (no_user_code robot_descs) 1000 2000 (\<lambda>_. 0) = Some (pieces, m')"
    using command_pieces_eq [OF robot_descs_ok(1), of 2000 1000 "\<lambda>_. 0"] by (auto simp: apart_def)
  then show ?thesis by (rule exit_waits_forever)
qed

end
