(* ===== verification/Camera.thy ===== *)
theory Camera
  imports Complex_Main
begin

text \<open>
  The receiver of the camera (\<open>libs/comm/src/CameraComm.cpp\<close>): the regular expression that finds the
  robots in a datagram, the conversion of what it captures, and the loop of the receiving thread.
  The regular expression is data, run by a matcher with the semantics of ECMAScript: alternatives
  in order of priority, repetitions greedy, the first outcome wins. The rounding of a decimal
  number to a \<open>float\<close> is the parameter \<open>rnd\<close>, \<^term>\<open>None\<close> where the library reports that the number
  is out of range; an exception is the left part of a sum.
\<close>

section \<open>Regular expressions\<close>

definition is_digit :: "char \<Rightarrow> bool" where "is_digit c \<longleftrightarrow> c \<in> set ''0123456789''"

text \<open>The white space of the C locale: blank, and the codes 9 to 13.\<close>

definition is_space :: "char \<Rightarrow> bool" where
  "is_space c \<longleftrightarrow> c = CHR '' '' \<or> 9 \<le> (of_char c :: nat) \<and> (of_char c :: nat) \<le> 13"

definition is_sign :: "char \<Rightarrow> bool" where "is_sign c \<longleftrightarrow> c = CHR ''+'' \<or> c = CHR ''-''"

datatype regex =
    Empty
  | One "char \<Rightarrow> bool"
  | Many "char \<Rightarrow> bool"
  | Opt regex
  | Seq regex regex
  | Group nat regex

type_synonym captures = "(nat \<times> string) list"

text \<open>What a repetition can take from the front of a string, the longest first.\<close>

fun greedy :: "(char \<Rightarrow> bool) \<Rightarrow> string \<Rightarrow> (string \<times> string) list" where
  "greedy p [] = [([], [])]"
| "greedy p (c # s) = (if p c then map (\<lambda>(u, t). (c # u, t)) (greedy p s) else []) @ [([], c # s)]"

text \<open>The outcomes at the front of a string, in order of priority: text matched, rest, captures.\<close>

fun runs :: "regex \<Rightarrow> string \<Rightarrow> (string \<times> string \<times> captures) list" where
  "runs Empty s = [([], s, [])]"
| "runs (One p) s = (case s of [] \<Rightarrow> [] | c # t \<Rightarrow> if p c then [([c], t, [])] else [])"
| "runs (Many p) s = map (\<lambda>(u, t). (u, t, [])) (greedy p s)"
| "runs (Opt r) s = runs r s @ [([], s, [])]"
| "runs (Seq q r) s =
     concat (map (\<lambda>(u, t, cs). map (\<lambda>(u', t', cs'). (u @ u', t', cs @ cs')) (runs r t)) (runs q s))"
| "runs (Group n r) s = map (\<lambda>(u, t, cs). (u, t, (n, u) # cs)) (runs r s)"

text \<open>The first match in a string: the rest behind it and what it captured.\<close>

fun search :: "regex \<Rightarrow> string \<Rightarrow> (string \<times> captures) option" where
  "search r [] = (case runs r [] of [] \<Rightarrow> None | (u, t, cs) # _ \<Rightarrow> Some (t, cs))"
| "search r (c # s) = (case runs r (c # s) of [] \<Rightarrow> search r s | (u, t, cs) # _ \<Rightarrow> Some (t, cs))"

definition str :: "captures \<Rightarrow> nat \<Rightarrow> string" where
  "str cs n = (case map_of cs n of None \<Rightarrow> [] | Some u \<Rightarrow> u)"

section \<open>The expression of the program\<close>

fun seqs :: "regex list \<Rightarrow> regex" where
  "seqs [] = Empty"
| "seqs (r # rs) = Seq r (seqs rs)"

definition chars :: "string \<Rightarrow> regex list" where "chars s = map (\<lambda>c. One ((=) c)) s"

definition spaces :: regex where "spaces = Many is_space"
definition digits :: regex where "digits = Seq (One is_digit) (Many is_digit)"

definition number :: "nat \<Rightarrow> regex" where
  "number n = seqs [Opt (One is_sign), Opt (Group (n + 1) (Seq (Many is_digit) (One ((=) CHR ''.'')))), digits]"

text \<open>A quoted name, a colon, and blanks around it; a comma and blanks around it.\<close>

definition label :: "string \<Rightarrow> regex list" where
  "label nm = chars (CHR 0x22 # nm @ [CHR 0x22]) @ [spaces, One ((=) CHR '':''), spaces]"

definition comma :: "regex list" where "comma = [spaces, One ((=) CHR '',''), spaces]"

definition camera_re :: regex where
  "camera_re =
     seqs (label ''id'' @ [Group 1 digits] @ comma @ label ''x'' @ [Group 2 (number 2)] @ comma
       @ label ''y'' @ [Group 4 (number 4)] @ comma @ label ''orientation'' @ [Group 6 (number 6)])"

section \<open>Conversions\<close>

datatype conversion_error = Invalid_argument | Out_of_range

definition digit_value :: "char \<Rightarrow> nat" where "digit_value c = of_char c - 48"

definition digits_value :: "string \<Rightarrow> nat" where
  "digits_value s = foldl (\<lambda>n c. 10 * n + digit_value c) 0 s"

text \<open>The optional sign in front of a number, and what follows.\<close>

definition split_sign :: "string \<Rightarrow> bool \<times> string" where
  "split_sign s =
     (case s of
        [] \<Rightarrow> (False, s)
      | c # t \<Rightarrow> if c = CHR ''-'' then (True, t) else if c = CHR ''+'' then (False, t) else (False, s))"

definition stoi :: "string \<Rightarrow> conversion_error + int" where
  "stoi s =
     (let (neg, s) = split_sign (dropWhile is_space s);
          ds = takeWhile is_digit s;
          n = int (digits_value ds);
          n = (if neg then - n else n)
      in if ds = [] then Inl Invalid_argument
         else if n < - (2 ^ 31) \<or> 2 ^ 31 \<le> n then Inl Out_of_range else Inr n)"

text \<open>
  The number at the front of a string: sign, digits, and a fraction. Exponents, hexadecimal
  numbers, infinities and NaN, which \<open>stof\<close> would read, cannot be captured by the expression.
\<close>

definition decimal_value :: "string \<Rightarrow> real option" where
  "decimal_value s =
     (let (neg, s) = split_sign (dropWhile is_space s);
          ws = takeWhile is_digit s;
          s = dropWhile is_digit s;
          fs = (case s of [] \<Rightarrow> [] | c # t \<Rightarrow> if c = CHR ''.'' then takeWhile is_digit t else []);
          x = real (digits_value ws) + real (digits_value fs) / 10 ^ length fs
      in if ws = [] \<and> fs = [] then None else Some (if neg then - x else x))"

definition stof :: "(real \<Rightarrow> real option) \<Rightarrow> string \<Rightarrow> conversion_error + real" where
  "stof rnd s =
     (case decimal_value s of
        None \<Rightarrow> Inl Invalid_argument
      | Some x \<Rightarrow> (case rnd x of None \<Rightarrow> Inl Out_of_range | Some y \<Rightarrow> Inr y))"

section \<open>A datagram\<close>

record CameraValues =
  cam_id :: int
  cam_x :: real
  cam_y :: real
  cam_orientation :: real

definition attempt :: "'e + 'a \<Rightarrow> ('a \<Rightarrow> 'e + 'b) \<Rightarrow> 'e + 'b" where
  "attempt r k = (case r of Inl e \<Rightarrow> Inl e | Inr x \<Rightarrow> k x)"

definition read_match :: "(real \<Rightarrow> real option) \<Rightarrow> captures \<Rightarrow> conversion_error + CameraValues" where
  "read_match rnd cs =
     attempt (stoi (str cs 1)) (\<lambda>i. attempt (stof rnd (str cs 2)) (\<lambda>x. attempt (stof rnd (str cs 4)) (\<lambda>y.
       attempt (stof rnd (str cs 6)) (\<lambda>th.
         Inr \<lparr>cam_id = i, cam_x = x, cam_y = y, cam_orientation = th\<rparr>))))"

fun read_matches :: "(real \<Rightarrow> real option) \<Rightarrow> captures list \<Rightarrow> conversion_error + CameraValues list" where
  "read_matches rnd [] = Inr []"
| "read_matches rnd (cs # css) =
     attempt (read_match rnd cs) (\<lambda>v. attempt (read_matches rnd css) (\<lambda>vs. Inr (v # vs)))"

text \<open>A match takes at least one character, so the iterator comes to an end.\<close>

lemma greedy_split: "(u, t) \<in> set (greedy p s) \<Longrightarrow> s = u @ t \<and> list_all p u"
  by (induction p s arbitrary: u rule: greedy.induct) (auto split: if_splits)

lemma runs_split: "(u, t, cs) \<in> set (runs r s) \<Longrightarrow> s = u @ t"
proof (induction r arbitrary: s u t cs)
  case (Many p)
  then show ?case using greedy_split by auto
next
  case (Seq q r)
  then show ?case by fastforce
qed (auto split: list.splits if_splits)

lemma search_Some:
  assumes "search r s = Some (t, cs)"
  obtains a u where "s = a @ u @ t" and "(u, t, cs) \<in> set (runs r (u @ t))"
proof -
  have hit: "\<exists>u. s = u @ t \<and> (u, t, cs) \<in> set (runs r (u @ t))" if "runs r s = (u, t, cs) # os" for s u os
    using that runs_split [of u t cs r s] by (intro exI [of _ u]) (metis list.set_intros(1))
  have "\<exists>a u. s = a @ u @ t \<and> (u, t, cs) \<in> set (runs r (u @ t))"
    using assms
  proof (induction s)
    case Nil
    then obtain u os where "runs r [] = (u, t, cs) # os" by (auto split: list.splits)
    from hit [OF this] show ?case by (metis append_Nil)
  next
    case (Cons c s)
    show ?case
    proof (cases "runs r (c # s)")
      case Nil
      with Cons obtain a u where "s = a @ u @ t" "(u, t, cs) \<in> set (runs r (u @ t))" by auto
      then show ?thesis by (intro exI [of _ "c # a"] exI [of _ u]) auto
    next
      case (Cons o1 os)
      with Cons.prems obtain u where "runs r (c # s) = (u, t, cs) # os" by (cases o1) auto
      from hit [OF this] show ?thesis by (metis append_Nil)
    qed
  qed
  then show ?thesis using that by blast
qed

lemma camera_re_quote: "\<exists>r. camera_re = Seq (One ((=) CHR 0x22)) r"
  by (simp add: camera_re_def label_def chars_def)

lemma camera_re_nonempty: "(u, t, cs) \<in> set (runs camera_re s) \<Longrightarrow> u \<noteq> []"
proof -
  assume m: "(u, t, cs) \<in> set (runs camera_re s)"
  obtain r where r: "camera_re = Seq (One ((=) CHR 0x22)) r" using camera_re_quote by blast
  from m [unfolded r] show ?thesis by (auto split: list.splits if_splits)
qed

lemma search_shorter:
  assumes "search camera_re s = Some (t, cs)"
  shows "length t < length s"
proof -
  obtain a u where "s = a @ u @ t" "(u, t, cs) \<in> set (runs camera_re (u @ t))" by (rule search_Some [OF assms])
  with camera_re_nonempty show ?thesis by force
qed

function camera_matches :: "string \<Rightarrow> captures list" where
  "camera_matches s =
     (case search camera_re s of None \<Rightarrow> [] | Some (t, cs) \<Rightarrow> cs # camera_matches t)"
  by pat_completeness auto
termination
  by (relation "measure length") (auto intro: search_shorter)

declare camera_matches.simps [simp del]

definition discovered_robots :: "(real \<Rightarrow> real option) \<Rightarrow> string \<Rightarrow> conversion_error + CameraValues list" where
  "discovered_robots rnd s = read_matches rnd (camera_matches s)"

section \<open>The receiving thread\<close>

datatype recv_result = Would_block | Recv_error | Datagram string

record CameraComm =
  sock_fd :: int
  cam_running :: bool
  latest_values :: "CameraValues list"

definition CAMERA_BUFFER_SIZE :: nat where "CAMERA_BUFFER_SIZE = 65536"

text \<open>The constructor: the descriptor \<open>socket()\<close> returned, and whether \<open>bind()\<close> succeeded.\<close>

definition CameraComm_new :: "int \<Rightarrow> bool \<Rightarrow> CameraComm" where
  "CameraComm_new fd bound =
     (if fd < 0 then \<lparr>sock_fd = fd, cam_running = False, latest_values = []\<rparr>
      else if \<not> bound then \<lparr>sock_fd = -1, cam_running = False, latest_values = []\<rparr>
      else \<lparr>sock_fd = fd, cam_running = True, latest_values = []\<rparr>)"

text \<open>
  The destructor: the flag that ends the loop, and, after the join, the descriptor that is closed. The
  thread never blocks in a receive, so the join returns.
\<close>

definition CameraComm_delete :: "CameraComm \<Rightarrow> CameraComm \<times> int option" where
  "CameraComm_delete c =
     (let c = c\<lparr>cam_running := False\<rparr> in (c, if sock_fd c \<ge> 0 then Some (sock_fd c) else None))"

definition receive_round ::
  "(real \<Rightarrow> real option) \<Rightarrow> recv_result \<Rightarrow> CameraComm \<Rightarrow> conversion_error + CameraComm" where
  "receive_round rnd ev c =
     (if sock_fd c < 0 then Inr c
      else
        case ev of
          Would_block \<Rightarrow> Inr c
        | Recv_error \<Rightarrow> Inr c
        | Datagram bytes \<Rightarrow>
            let s = take CAMERA_BUFFER_SIZE bytes
            in attempt (discovered_robots rnd s) (\<lambda>vs.
                 Inr (if vs \<noteq> [] then c\<lparr>latest_values := vs\<rparr> else c)))"

text \<open>The loop, over what \<open>recvfrom\<close> reports; an exception ends the thread, and the program with it.\<close>

fun ReceiveLoop ::
  "(real \<Rightarrow> real option) \<Rightarrow> recv_result list \<Rightarrow> CameraComm \<Rightarrow> conversion_error + CameraComm" where
  "ReceiveLoop rnd [] c = Inr c"
| "ReceiveLoop rnd (ev # evs) c =
     (if cam_running c then attempt (receive_round rnd ev c) (ReceiveLoop rnd evs) else Inr c)"

definition GetCameraValues :: "CameraComm \<Rightarrow> CameraValues list" where
  "GetCameraValues c = latest_values c"

end
