(* ===== verification/PhysicalApp.thy ===== *)
theory PhysicalApp
  imports WindowEvents HostComm Camera
begin

text \<open>
  The application that plays with real robots (\<open>apps/PhysicalApp.cpp\<close>): one round of its loop reads
  the camera, runs the input handlers and the simulation step, and turns the players of team 1 into
  the commands that \<open>HostComm\<close> sends. The conversion of a number to the bits of a \<open>float\<close> is the
  parameter \<open>to_float\<close>; the local array of commands is not initialised, so it starts with what the
  memory holds, the parameter \<open>mem\<close>.
\<close>

section \<open>Commands\<close>

definition player_command :: "(real \<Rightarrow> 32 word) \<Rightarrow> nat \<Rightarrow> GameObject \<Rightarrow> RobotCommandMsg \<Rightarrow> RobotCommandMsg" where
  "player_command to_float robot_id p cmd =
     cmd\<lparr>cmd_id := of_nat robot_id,
         cmd_vx := to_float ((fst (velocity p) * (3570 / 820) / 1000) * 1000),
         cmd_vy := to_float ((snd (velocity p) * (2380 / 490) / 1000) * 1000),
         cmd_w := to_float (angular_velocity p), cmd_chargeVal := to_float (charge p),
         cmd_kickVal := to_float (kick p), cmd_dribbler := to_float (dribbler p)\<rparr>"

text \<open>The loop over the players, with the counter \<open>robot_id\<close>.\<close>

fun prepare_commands ::
  "(real \<Rightarrow> 32 word) \<Rightarrow> nat \<Rightarrow> GameObject list \<Rightarrow> RobotCommandMsg list \<Rightarrow> RobotCommandMsg list" where
  "prepare_commands to_float robot_id [] robot_cmds = robot_cmds"
| "prepare_commands to_float robot_id (p # ps) robot_cmds =
     (let robot_id = robot_id + 1
      in prepare_commands to_float robot_id ps
           (robot_cmds[robot_id := player_command to_float robot_id p (robot_cmds ! robot_id)]))"

definition PrepareRobotCommands ::
  "(real \<Rightarrow> 32 word) \<Rightarrow> RobotCommandMsg list \<Rightarrow> Game \<Rightarrow> RobotCommandMsg list" where
  "PrepareRobotCommands to_float mem soccer = prepare_commands to_float 0 (team1_players soccer) mem"

section \<open>The loop\<close>

text \<open>
  What a round reads: the time step, the events of the window, the button and the cursor at each of
  the two calls of \<open>ProcessInput\<close>, the positions from the camera, the random numbers and clock readings of the planner.
\<close>

record round_input =
  in_dt :: real
  in_events1 :: "window_event list"
  in_mouse1 :: "bool \<times> vec2"
  in_events2 :: "window_event list"
  in_mouse2 :: "bool \<times> vec2"
  in_camera :: "CameraValues list"
  in_readings :: "(real \<times> draw) list"

text \<open>The two calls of \<open>ProcessInput\<close>: the first robot of the camera, if there is one; then constants.\<close>

definition ProcessInputs :: "round_input \<Rightarrow> Game \<Rightarrow> (motion_error + Game) option" where
  "ProcessInputs inp soccer =
     (let dt = in_dt inp;
          soccer = poll_events (in_events1 inp) soccer;
          first_input =
            (case in_camera inp of
               v # _ \<Rightarrow>
                 ProcessInput (fst (in_mouse1 inp)) (snd (in_mouse1 inp)) dt (cam_x v) (cam_y v) (cam_orientation v) soccer
             | [] \<Rightarrow> ProcessInput (fst (in_mouse1 inp)) (snd (in_mouse1 inp)) dt 0 0 0 soccer)
      in case first_input of
           None \<Rightarrow> None
         | Some (Inl e) \<Rightarrow> Some (Inl e)
         | Some (Inr soccer) \<Rightarrow>
             ProcessInput (fst (in_mouse2 inp)) (snd (in_mouse2 inp)) dt 50 30 20 (poll_events (in_events2 inp) soccer))"

definition LoopStep ::
  "(real \<Rightarrow> 32 word) \<Rightarrow> RobotCommandMsg list \<Rightarrow> round_input \<Rightarrow> Game
   \<Rightarrow> (motion_error + Game \<times> RobotCommandMsg list) option" where
  "LoopStep to_float mem inp soccer =
     (case ProcessInputs inp soccer of
        None \<Rightarrow> None
      | Some (Inl e) \<Rightarrow> Some (Inl e)
      | Some (Inr soccer) \<Rightarrow>
          (case UpdateSimulation (in_readings inp) (in_dt inp) soccer of
             None \<Rightarrow> None
           | Some (Inl e) \<Rightarrow> Some (Inl e)
           | Some (Inr soccer) \<Rightarrow> Some (Inr (soccer, PrepareRobotCommands to_float mem soccer))))"

section \<open>Lemmas\<close>

lemma prepare_commands_length [simp]: "length (prepare_commands to_float k ps cmds) = length cmds"
  by (induction ps arbitrary: k cmds) (simp_all add: Let_def)

lemma prepare_commands_nth:
  "k + length ps < length cmds \<Longrightarrow> i < length cmds \<Longrightarrow>
    prepare_commands to_float k ps cmds ! i =
      (if k < i \<and> i \<le> k + length ps then player_command to_float i (ps ! (i - k - 1)) (cmds ! i) else cmds ! i)"
proof (induction ps arbitrary: k cmds)
  case (Cons p ps)
  consider "i = Suc k" | "i \<noteq> Suc k" by blast
  then show ?case
  proof cases
    case 1
    with Cons show ?thesis by (simp add: Let_def)
  next
    case 2
    have "(p # ps) ! (i - k - 1) = ps ! (i - Suc k - 1)" if "Suc k < i"
      using that by (cases "i - k - 1") (auto simp: nth_Cons')
    with 2 Cons show ?thesis by (auto simp: Let_def)
  qed
qed auto

lemma ProcessInputs_split:
  obtains x y w where "ProcessInputs inp g =
    (case ProcessInput (fst (in_mouse1 inp)) (snd (in_mouse1 inp)) (in_dt inp) x y w (poll_events (in_events1 inp) g) of
       None \<Rightarrow> None | Some (Inl e) \<Rightarrow> Some (Inl e)
     | Some (Inr g) \<Rightarrow> ProcessInput (fst (in_mouse2 inp)) (snd (in_mouse2 inp)) (in_dt inp) 50 30 20 (poll_events (in_events2 inp) g))"
proof (cases "in_camera inp")
  case Nil
  then show ?thesis by (intro that [of 0 0 0]) (simp add: ProcessInputs_def Let_def)
next
  case (Cons v vs)
  then show ?thesis
    by (intro that [of "cam_x v" "cam_y v" "cam_orientation v"]) (simp add: ProcessInputs_def Let_def)
qed

lemma ProcessInputs_returns:
  assumes "reachable g"
  obtains g' where "ProcessInputs inp g = Some (Inr g')" and "reachable g'"
proof -
  obtain x y w where p: "ProcessInputs inp g =
    (case ProcessInput (fst (in_mouse1 inp)) (snd (in_mouse1 inp)) (in_dt inp) x y w (poll_events (in_events1 inp) g) of
       None \<Rightarrow> None | Some (Inl e) \<Rightarrow> Some (Inl e)
     | Some (Inr g) \<Rightarrow> ProcessInput (fst (in_mouse2 inp)) (snd (in_mouse2 inp)) (in_dt inp) 50 30 20 (poll_events (in_events2 inp) g))"
    by (rule ProcessInputs_split)
  obtain g1 where g1: "ProcessInput (fst (in_mouse1 inp)) (snd (in_mouse1 inp)) (in_dt inp) x y w (poll_events (in_events1 inp) g) = Some (Inr g1)"
    using ProcessInput_total by blast
  obtain g2 where g2: "ProcessInput (fst (in_mouse2 inp)) (snd (in_mouse2 inp)) (in_dt inp) 50 30 20 (poll_events (in_events2 inp) g1) = Some (Inr g2)"
    using ProcessInput_total by blast
  have "reachable g2"
    by (rule reachable.step [OF poll_reachable [OF reachable.step [OF poll_reachable [OF assms] game_step.input [OF g1]]]
      game_step.input [OF g2]])
  with p g1 g2 that show ?thesis by simp
qed

lemma LoopStep_returns:
  assumes "reachable g" and "\<exists>r\<in>set (in_readings inp). 10 \<le> fst r"
  shows "\<exists>g'. LoopStep to_float mem inp g = Some (Inr (g', PrepareRobotCommands to_float mem g')) \<and> reachable g'"
proof -
  obtain g2 where g2: "ProcessInputs inp g = Some (Inr g2)" "reachable g2" by (rule ProcessInputs_returns [OF assms(1)])
  from UpdateSimulation_total [OF g2(2) assms(2)] obtain g3
    where "UpdateSimulation (in_readings inp) (in_dt inp) g2 = Some (Inr g3)" "reachable g3" by blast
  with g2 show ?thesis by (simp add: LoopStep_def)
qed

lemma prepared_command:
  assumes "reachable g" and "length mem = 7" and "i < 7"
  shows "PrepareRobotCommands to_float mem g ! i = (if 1 \<le> i \<and> i \<le> 3
      then player_command to_float i (team1_players g ! (i - 1)) (mem ! i) else mem ! i)"
proof -
  have "length (team1_players g) = 3" by (rule game_inv_lock(1) [OF reachable_inv [OF assms(1)]])
  then show ?thesis
    using prepare_commands_nth [of 0 "team1_players g" mem i to_float] assms(2,3)
    by (auto simp: PrepareRobotCommands_def)
qed

lemma player_command_eq:
  "player_command to_float i p cmd =
     \<lparr>cmd_id = of_nat i, cmd_vx = to_float (fst (velocity p) * 3570 / 820),
      cmd_vy = to_float (snd (velocity p) * 2380 / 490), cmd_w = to_float (angular_velocity p),
      cmd_chargeVal = to_float (charge p), cmd_kickVal = to_float (kick p), cmd_dribbler = to_float (dribbler p)\<rparr>"
  by (cases cmd) (simp add: player_command_def)

text \<open>The array of commands in memory, one structure after the other.\<close>

definition command_bytes :: "RobotCommandMsg \<Rightarrow> pb_byte list" where
  "command_bytes c =
     concat (map (le_bytes 4) [cmd_id c, cmd_vx c, cmd_vy c, cmd_w c, cmd_chargeVal c, cmd_kickVal c, cmd_dribbler c])"

fun store_commands :: "addr \<Rightarrow> RobotCommandMsg list \<Rightarrow> mem \<Rightarrow> mem" where
  "store_commands a [] m = m"
| "store_commands a (c # cs) m = store_commands (a + sizeof_RobotCommandMsg) cs (store_bytes m a (command_bytes c))"

lemma command_bytes_length: "length (command_bytes c) = 28"
  by (simp add: command_bytes_def)

lemma load_words:
  "load_bytes m a (4 * length ws) = concat (map (le_bytes 4) ws) \<Longrightarrow> i < length ws \<Longrightarrow>
    load_u32 m (a + 4 * i) = (ws ! i :: 32 word)"
proof (induction ws arbitrary: a i)
  case (Cons w ws)
  have "load_bytes m a 4 @ load_bytes m (a + 4) (4 * length ws) = le_bytes 4 w @ concat (map (le_bytes 4) ws)"
    using Cons.prems(1) load_bytes_add [of m a 4 "4 * length ws"] by simp
  then have 1: "load_bytes m a 4 = le_bytes 4 w" and 2: "load_bytes m (a + 4) (4 * length ws) = concat (map (le_bytes 4) ws)"
    by simp_all
  show ?case
  proof (cases i)
    case 0
    then show ?thesis by (simp add: load_u32_def 1 le_word_le_bytes)
  next
    case (Suc j)
    with Cons.IH [OF 2, of j] Cons.prems(2) show ?thesis by (simp add: add.assoc)
  qed
qed simp

lemma command_at_store: "command_at (store_bytes m a (command_bytes c)) a = c"
proof -
  let ?ws = "[cmd_id c, cmd_vx c, cmd_vy c, cmd_w c, cmd_chargeVal c, cmd_kickVal c, cmd_dribbler c]"
  have "load_bytes (store_bytes m a (command_bytes c)) a (4 * length ?ws) = concat (map (le_bytes 4) ?ws)"
    using load_store_bytes [of 28 "command_bytes c" m a] by (simp add: command_bytes_length) (simp add: command_bytes_def)
  note w = load_words [OF this]
  show ?thesis using w [of 0] w [of 1] w [of 2] w [of 3] w [of 4] w [of 5] w [of 6]
    by (simp add: command_at_def eval_nat_numeral)
qed

lemma store_commands_below: "x < a \<Longrightarrow> store_commands a cs m x = m x"
  by (induction cs arbitrary: a m) (simp_all add: sizeof_RobotCommandMsg_def)

lemma command_at_cong: "(\<And>x. p \<le> x \<Longrightarrow> x < p + 28 \<Longrightarrow> m x = m' x) \<Longrightarrow> command_at m p = command_at m' p"
  unfolding command_at_def load_u32_def
  by (simp add: load_bytes_cong [of _ _ m m'])

lemma command_at_commands: "i < length cs \<Longrightarrow> command_at (store_commands a cs m) (command_addr a i) = cs ! i"
proof (induction cs arbitrary: a m i)
  case (Cons c cs)
  show ?case
  proof (cases i)
    case 0
    have "command_at (store_commands (a + 28) cs (store_bytes m a (command_bytes c))) a =
        command_at (store_bytes m a (command_bytes c)) a"
      by (rule command_at_cong) (simp add: store_commands_below)
    then show ?thesis by (simp add: 0 command_addr_def sizeof_RobotCommandMsg_def command_at_store)
  next
    case (Suc j)
    with Cons.IH [of j "a + sizeof_RobotCommandMsg" "store_bytes m a (command_bytes c)"] Cons.prems
    show ?thesis by (simp add: command_addr_def add.assoc)
  qed
qed simp

section \<open>The camera\<close>

text \<open>The frames in which the position of the robot comes from the camera.\<close>

definition follows_camera :: "Game \<Rightarrow> bool" where
  "follows_camera g \<longleftrightarrow>
     game_state g = GAME_ACTIVE \<and> (keys g KEY_P \<or> passive_mode g \<and> \<not> keys g KEY_O)"

lemma set_player_state [simp]:
  "game_state (set_player a p g) = game_state g" "keys (set_player a p g) = keys g"
  "passive_mode (set_player a p g) = passive_mode g"
  by (cases a; simp)+

lemma debug_keys_state:
  "game_state (ProcessDebugKeys g) = game_state g \<and> keys (ProcessDebugKeys g) = keys g
    \<and> passive_mode (ProcessDebugKeys g) = passive_mode g"
  by (simp add: ProcessDebugKeys_def Let_def mark_processed_def ResetPositions_def)

lemma click_state:
  assumes "ProcessMouseClickMovement lc cursor g = Some (Inr g')"
  shows "game_state g' = game_state g \<and> keys g' = keys g \<and> passive_mode g' = passive_mode g"
  using assms
  by (auto simp: ProcessMouseClickMovement_def Let_def simp del: set_player.simps get_player.simps
      split: if_splits option.splits sum.splits)

text \<open>The players that are locked leave the robot and the mode alone.\<close>

lemma locked_input:
  assumes "locked (get_player g a)" and "a \<noteq> Team1 0"
  shows "get_player (ProcessPlayerInput dt x y th a g) (Team1 0) = get_player g (Team1 0)
    \<and> follows_camera (ProcessPlayerInput dt x y th a g) = follows_camera g
    \<and> passive_mode (ProcessPlayerInput dt x y th a g) = passive_mode g"
proof -
  obtain g1 p b where k: "player_keys dt x y th a g = (g1, p, b)" by (metis prod.exhaust)
  have "g1 = g" using k assms(1) unfolding player_keys_def Let_def
    by (auto simp del: get_player.simps split: if_splits prod.splits)
  then show ?thesis
    using get_set_player [of a "Team1 0"] assms(2)
    by (simp add: ProcessPlayerInput_def k follows_camera_def del: get_player.simps set_player.simps)
qed

lemma locked_inputs:
  "game_inv g \<Longrightarrow> set as \<subseteq> set six_ids - {Team1 0} \<Longrightarrow>
    get_player (fold (ProcessPlayerInput dt x y th) as g) (Team1 0) = get_player g (Team1 0)
    \<and> follows_camera (fold (ProcessPlayerInput dt x y th) as g) = follows_camera g"
proof (induction as arbitrary: g)
  case (Cons a as)
  then have a: "a \<in> set (all_players g)" "a \<noteq> Team1 0" by (auto simp: game_inv_players)
  with game_inv_lock(3) [OF Cons.prems(1)] have l: "locked (get_player g a)" by blast
  have "game_inv (ProcessPlayerInput dt x y th a g)" by (rule ProcessPlayerInput_inv [OF Cons.prems(1) a(1)])
  from Cons.IH [OF this] locked_input [OF l a(2)] Cons.prems(2) show ?case by simp
qed simp

definition camera_position :: "real \<Rightarrow> real \<Rightarrow> vec2" where
  "camera_position x y = (50 + (x + 1785) * 850 / 3570, 30 + (1190 - y) * 520 / 2380)"

definition stands_at :: "Game \<Rightarrow> vec2 \<Rightarrow> real \<Rightarrow> bool" where
  "stands_at g pos rot \<longleftrightarrow> position (get_player g (Team1 0)) = pos \<and> rotation (get_player g (Team1 0)) = rot"

lemma actuator_keys_place [simp]:
  "position (actuator_keys ks a p) = position p" "rotation (actuator_keys ks a p) = rotation p"
  by (simp_all add: actuator_keys_def Let_def)

lemma record_velocity_place [simp]:
  "position (record_velocity dt q r p) = position p" "rotation (record_velocity dt q r p) = rotation p"
  by (simp_all add: record_velocity_def Let_def)

lemma robot_follows:
  assumes g: "game_inv g" and f: "follows_camera g"
  shows "follows_camera (ProcessPlayerInput dt x y th (Team1 0) g)
    \<and> stands_at (ProcessPlayerInput dt x y th (Team1 0) g) (camera_position x y) (th * 180 / 3.14)"
proof -
  have me: "Team1 0 \<in> set (all_players g)" using game_inv_players [OF g] by (simp add: six_ids_def)
  then have "\<not> locked (get_player g (Team1 0))" using game_inv_lock(3) [OF g] by blast
  define g1 where "g1 = (if keys g KEY_P then g\<lparr>passive_mode := True\<rparr> else g)"
  define p where "p = actuator_keys (keys g) False
    (get_player g (Team1 0)\<lparr>position := camera_position x y, rotation := th * 180 / 3.14\<rparr>)"
  have p: "position p = camera_position x y" "rotation p = th * 180 / 3.14" by (simp_all add: p_def)
  have g1: "game_state g1 = game_state g" "keys g1 = keys g" "passive_mode g1"
    "length (team1_players g1) = length (team1_players g)"
    using f by (auto simp: g1_def follows_camera_def)
  have k: "player_keys dt x y th (Team1 0) g = (g1, p, ball g)"
    using f \<open>\<not> locked (get_player g (Team1 0))\<close>
    by (cases "keys g KEY_P") (simp_all add: player_keys_def Let_def follows_camera_def p_def g1_def camera_position_def
      del: get_player.simps)
  have "0 < length (team1_players g1)" using game_inv_lock(1) [OF g] g1(4) by simp
  then have "get_player (set_player (Team1 0) q (g1\<lparr>ball := b\<rparr>)) (Team1 0) = q" for q b by simp
  with g1 p f show ?thesis
    by (auto simp: ProcessPlayerInput_def k follows_camera_def stands_at_def simp del: get_player.simps set_player.simps)
qed

lemma input_follows:
  assumes g: "game_inv g" and f: "follows_camera g"
    and i: "ProcessInput lc cursor dt x y th g = Some (Inr g')"
  shows "game_inv g' \<and> follows_camera g' \<and> stands_at g' (camera_position x y) (th * 180 / 3.14)"
proof -
  obtain h where h: "ProcessMouseClickMovement lc cursor (ProcessDebugKeys g) = Some (Inr h)"
    and g': "g' = fold (ProcessPlayerInput dt x y th) (all_players h) h"
    using i by (auto simp: ProcessInput_def split: option.splits sum.splits)
  have hi: "game_inv h" by (rule ProcessMouseClickMovement_inv [OF ProcessDebugKeys_inv [OF g] h])
  have hf: "follows_camera h" using f debug_keys_state [of g] click_state [OF h] by (simp add: follows_camera_def)
  let ?h1 = "ProcessPlayerInput dt x y th (Team1 0) h"
  have h1: "game_inv ?h1"
    by (rule ProcessPlayerInput_inv [OF hi]) (simp add: game_inv_players [OF hi] six_ids_def)
  have "all_players h = Team1 0 # tl six_ids" using game_inv_players [OF hi] by (simp add: six_ids_def)
  then have "g' = fold (ProcessPlayerInput dt x y th) (tl six_ids) ?h1" by (simp add: g')
  with locked_inputs [OF h1, of "tl six_ids"] robot_follows [OF hi hf] ProcessInput_inv [OF g i] show ?thesis
    by (auto simp: six_ids_def stands_at_def)
qed

text \<open>The events that leave the mode as it is.\<close>

fun leaves_mode :: "window_event \<Rightarrow> bool" where
  "leaves_mode (Key k act) \<longleftrightarrow> k \<noteq> int KEY_P \<and> k \<noteq> int KEY_O"
| "leaves_mode Close \<longleftrightarrow> True"

lemma deliver_follows: "leaves_mode e \<Longrightarrow> follows_camera g \<Longrightarrow> follows_camera (deliver e g)"
  by (cases e) (auto simp: follows_camera_def KeyCallback_def Let_def split: key_action.split)

lemma poll_follows: "list_all leaves_mode es \<Longrightarrow> follows_camera g \<Longrightarrow> follows_camera (poll_events es g)"
  by (induction es arbitrary: g) (auto simp: poll_events_def deliver_follows)

section \<open>Properties\<close>

text \<open>
  One round of the loop, from every state the simulator can reach and with every
  input, completes without an exception, in a reachable state, as soon as one clock reading of the
  planner reaches its limit. The commands it hands over are numbered 1 to 3 and carry the scaled
  velocity, rotation, charge, kick and dribbler of the three players of team 1; the other entries,
  which are sent to robots 4 to 6, are whatever the memory of the array held.
\<close>

theorem loop_step_commands:
  assumes "reachable g" and "\<exists>r\<in>set (in_readings inp). 10 \<le> fst r" and "length mem = 7"
  shows "\<exists>g' cmds. LoopStep to_float mem inp g = Some (Inr (g', cmds)) \<and> reachable g' \<and> length cmds = 7
    \<and> (\<forall>i \<in> {1..3}. cmds ! i =
          \<lparr>cmd_id = of_nat i,
           cmd_vx = to_float (fst (velocity (team1_players g' ! (i - 1))) * 3570 / 820),
           cmd_vy = to_float (snd (velocity (team1_players g' ! (i - 1))) * 2380 / 490),
           cmd_w = to_float (angular_velocity (team1_players g' ! (i - 1))),
           cmd_chargeVal = to_float (charge (team1_players g' ! (i - 1))),
           cmd_kickVal = to_float (kick (team1_players g' ! (i - 1))),
           cmd_dribbler = to_float (dribbler (team1_players g' ! (i - 1)))\<rparr>)
    \<and> (\<forall>i \<in> {0, 4, 5, 6}. cmds ! i = mem ! i)"
proof -
  obtain g' where g': "LoopStep to_float mem inp g = Some (Inr (g', PrepareRobotCommands to_float mem g'))" "reachable g'"
    using LoopStep_returns [OF assms(1,2)] by blast
  let ?cmds = "PrepareRobotCommands to_float mem g'"
  note nth = prepared_command [OF g'(2) assms(3)]
  have len: "length ?cmds = 7" using assms(3) by (simp add: PrepareRobotCommands_def)
  have rest: "\<forall>i \<in> {0, 4, 5, 6}. ?cmds ! i = mem ! i" using nth by simp
  have set: "?cmds ! i = \<lparr>cmd_id = of_nat i,
           cmd_vx = to_float (fst (velocity (team1_players g' ! (i - 1))) * 3570 / 820),
           cmd_vy = to_float (snd (velocity (team1_players g' ! (i - 1))) * 2380 / 490),
           cmd_w = to_float (angular_velocity (team1_players g' ! (i - 1))),
           cmd_chargeVal = to_float (charge (team1_players g' ! (i - 1))),
           cmd_kickVal = to_float (kick (team1_players g' ! (i - 1))),
           cmd_dribbler = to_float (dribbler (team1_players g' ! (i - 1)))\<rparr>" if "i \<in> {1..3}" for i
    using nth [of i] that by (simp add: player_command_eq)
  show ?thesis
    by (intro exI [of _ g'] exI [of _ ?cmds] conjI g' len rest ballI set)
qed

theorem loop_step_commands_witness:
  "\<exists>g' cmds. LoopStep (\<lambda>_. 1) (replicate 7 (command_at (\<lambda>_. 255) 0))
      \<lparr>in_dt = 1 / 100, in_events1 = [], in_mouse1 = (False, (0, 0)), in_events2 = [], in_mouse2 = (False, (0, 0)), in_camera = [],
       in_readings = [(11, 0, 0, 0)]\<rparr> demo_game = Some (Inr (g', cmds))
    \<and> cmd_id (cmds ! 2) = 2 \<and> cmds ! 4 = command_at (\<lambda>_. 255) 0"
proof -
  let ?mem = "replicate 7 (command_at (\<lambda>_. 255) 0)"
    and ?inp = "\<lparr>in_dt = 1 / 100, in_events1 = [], in_mouse1 = (False, (0, 0)), in_events2 = [], in_mouse2 = (False, (0, 0)), in_camera = [],
       in_readings = [(11, 0, 0, 0)]\<rparr>"
  obtain g' cmds where "LoopStep (\<lambda>_. 1) ?mem ?inp demo_game = Some (Inr (g', cmds))"
    "\<forall>i \<in> {1..3}. cmd_id (cmds ! i) = of_nat i" "\<forall>i \<in> {0, 4, 5, 6}. cmds ! i = ?mem ! i"
    using loop_step_commands [OF demo_reachable, of ?inp ?mem "\<lambda>_. 1"] by fastforce
  then show ?thesis by (intro exI [of _ g'] exI [of _ cmds]) auto
qed

text \<open>
  From the simulator to the robots. If a round of the loop has prepared the commands
  \<open>cmds\<close>, and they lie in memory as the array \<open>robot_cmd_msg\<close>, then the string that \<open>SetRobotCommands\<close> stores is
  sent as one datagram in a run of the threads with one \<open>ready\<close>; it splits into six payloads; and
  robot \<open>i\<close> of the first three, deserialising payload \<open>i\<close> into a message of its own, gets its number
  and the scaled velocity, rotation, charge, kick and dribbler of player \<open>i\<close> of team 1.
\<close>

theorem commands_reach_robots:
  assumes "reachable g" and "LoopStep to_float mem inp g = Some (Inr (g', cmds))" and "length mem = 7"
    and "robot_descriptors E" and "robot_cmd_msg \<noteq> 0" and "dest \<noteq> 0"
    and "apart buffer 256 robot_cmd_msg (7 * sizeof_RobotCommandMsg)"
    and "m = store_commands robot_cmd_msg cmds m0"
  shows "\<exists>pieces m1 ws s. command_pieces E buffer robot_cmd_msg m = Some (pieces, m1)
    \<and> host_reachable E buffer s \<and> readies s = 1 \<and> sent s = [concat pieces]
    \<and> split_commands (unat num_robots) (concat pieces) = Some ws
    \<and> (\<forall>i \<in> {1..3}. \<forall>m2 payload.
        load_bytes m2 payload (length (ws ! (i - 1))) = ws ! (i - 1)
        \<and> apart payload (length (ws ! (i - 1))) dest sizeof_RobotCommandMsg \<longrightarrow>
        (\<exists>m3. DeserializeRobotCommandMsg E payload (of_nat (length (ws ! (i - 1)))) dest m2 = Some (True, m3)
          \<and> command_at m3 dest =
             \<lparr>cmd_id = of_nat i,
              cmd_vx = to_float (fst (velocity (team1_players g' ! (i - 1))) * 3570 / 820),
              cmd_vy = to_float (snd (velocity (team1_players g' ! (i - 1))) * 2380 / 490),
              cmd_w = to_float (angular_velocity (team1_players g' ! (i - 1))),
              cmd_chargeVal = to_float (charge (team1_players g' ! (i - 1))),
              cmd_kickVal = to_float (kick (team1_players g' ! (i - 1))),
              cmd_dribbler = to_float (dribbler (team1_players g' ! (i - 1)))\<rparr>))"
proof -
  obtain g2 where g2: "ProcessInputs inp g = Some (Inr g2)" "reachable g2" by (rule ProcessInputs_returns [OF assms(1)])
  with assms(2) have sim: "UpdateSimulation (in_readings inp) (in_dt inp) g2 = Some (Inr g')"
    and cmds: "cmds = PrepareRobotCommands to_float mem g'"
    by (auto simp: LoopStep_def split: option.splits sum.splits)
  have g': "reachable g'" by (rule reachable.step [OF g2(2) game_step.simulate [OF sim]])
  have cmd: "command_at m (command_addr robot_cmd_msg i) = player_command to_float i (team1_players g' ! (i - 1)) (mem ! i)"
    if "i \<in> {1..3}" for i
    using command_at_commands [of i cmds robot_cmd_msg m0] prepared_command [OF g' assms(3), of i] that assms(3)
    by (simp add: assms(8) cmds PrepareRobotCommands_def)
  obtain pieces m1 ws where p: "command_pieces E buffer robot_cmd_msg m = Some (pieces, m1)"
    and ws: "split_commands (unat num_robots) (concat pieces) = Some ws"
    and dec: "\<forall>i \<in> {1..unat num_robots}. \<forall>m2 payload.
        load_bytes m2 payload (length (ws ! (i - 1))) = ws ! (i - 1)
        \<and> apart payload (length (ws ! (i - 1))) dest sizeof_RobotCommandMsg \<longrightarrow>
        (\<exists>m3. DeserializeRobotCommandMsg E payload (of_nat (length (ws ! (i - 1)))) dest m2 = Some (True, m3)
          \<and> command_at m3 dest = command_at m (command_addr robot_cmd_msg i))"
    using commands_split_and_decode [OF assms(4-7)] by blast
  obtain s where s: "host_reachable E buffer s" "readies s = 1" "sent s = [concat pieces]"
    using string_is_sent [OF p] by blast
  have six: "i \<in> {1..unat num_robots}" if "i \<in> {1..3}" for i using that by (simp add: num_robots_def)
  show ?thesis
    by (rule exI [of _ pieces], rule exI [of _ m1], rule exI [of _ ws], rule exI [of _ s], intro conjI p s ws ballI)
      (subst cmd [unfolded player_command_eq, symmetric], assumption, rule bspec [OF dec six], assumption)
qed

theorem commands_reach_robots_witness:
  "\<exists>g' cmds pieces s. LoopStep (\<lambda>_. 1) (replicate 7 (command_at (\<lambda>_. 255) 0))
      \<lparr>in_dt = 1 / 100, in_events1 = [], in_mouse1 = (False, (0, 0)), in_events2 = [], in_mouse2 = (False, (0, 0)), in_camera = [],
       in_readings = [(11, 0, 0, 0)]\<rparr> demo_game = Some (Inr (g', cmds))
    \<and> host_reachable (no_user_code robot_descs) 1000 s \<and> sent s = [concat pieces]
    \<and> fst (the (command_pieces (no_user_code robot_descs) 1000 2000 (store_commands 2000 cmds (\<lambda>_. 0)))) = pieces"
proof -
  let ?mem = "replicate 7 (command_at (\<lambda>_. 255) 0)"
    and ?inp = "\<lparr>in_dt = 1 / 100, in_events1 = [], in_mouse1 = (False, (0, 0)), in_events2 = [], in_mouse2 = (False, (0, 0)), in_camera = [],
       in_readings = [(11, 0, 0, 0)]\<rparr>"
  obtain g' where l: "LoopStep (\<lambda>_. 1) ?mem ?inp demo_game = Some (Inr (g', PrepareRobotCommands (\<lambda>_. 1) ?mem g'))"
    using LoopStep_returns [OF demo_reachable, of ?inp "\<lambda>_. 1" ?mem] by auto
  have "apart 1000 256 2000 (7 * sizeof_RobotCommandMsg)" by (simp add: apart_def)
  from commands_reach_robots [OF demo_reachable l _ robot_descs_ok(1) _ _ this refl, of 3000 "\<lambda>_. 0"] l
  show ?thesis by fastforce
qed

text \<open>
  Property C16. The camera has no say over where the robot stands: also in the mode in which the
  robot takes its position from the camera, after the two calls of \<open>ProcessInput\<close> in a round it
  stands at the same point with the same orientation, whatever the camera, the mouse and the keys
  other than the two that change the mode report, because the second call passes constants.
\<close>

theorem camera_is_overwritten:
  assumes "reachable g" and "follows_camera g" and "list_all leaves_mode (in_events1 inp @ in_events2 inp)"
  shows "\<exists>g'. ProcessInputs inp g = Some (Inr g')
    \<and> position (get_player g' (Team1 0)) = (50 + (50 + 1785) * 850 / 3570, 30 + (1190 - 30) * 520 / 2380)
    \<and> rotation (get_player g' (Team1 0)) = 20 * 180 / 3.14"
proof -
  obtain x y w where p: "ProcessInputs inp g =
    (case ProcessInput (fst (in_mouse1 inp)) (snd (in_mouse1 inp)) (in_dt inp) x y w (poll_events (in_events1 inp) g) of
       None \<Rightarrow> None | Some (Inl e) \<Rightarrow> Some (Inl e)
     | Some (Inr g) \<Rightarrow> ProcessInput (fst (in_mouse2 inp)) (snd (in_mouse2 inp)) (in_dt inp) 50 30 20 (poll_events (in_events2 inp) g))"
    by (rule ProcessInputs_split)
  obtain g1 where g1: "ProcessInput (fst (in_mouse1 inp)) (snd (in_mouse1 inp)) (in_dt inp) x y w (poll_events (in_events1 inp) g) = Some (Inr g1)"
    using ProcessInput_total by blast
  obtain g2 where g2: "ProcessInput (fst (in_mouse2 inp)) (snd (in_mouse2 inp)) (in_dt inp) 50 30 20 (poll_events (in_events2 inp) g1) = Some (Inr g2)"
    using ProcessInput_total by blast
  have e: "list_all leaves_mode (in_events1 inp)" "list_all leaves_mode (in_events2 inp)" using assms(3) by simp_all
  from input_follows [OF poll_inv [OF reachable_inv [OF assms(1)]] poll_follows [OF e(1) assms(2)] g1]
  have "game_inv g1" "follows_camera g1" by simp_all
  from input_follows [OF poll_inv [OF this(1)] poll_follows [OF e(2) this(2)] g2] show ?thesis
    by (simp add: p g1 g2 stands_at_def camera_position_def)
qed

definition camera_round :: "real \<Rightarrow> round_input" where
  "camera_round x =
     \<lparr>in_dt = 1 / 100, in_events1 = [], in_mouse1 = (False, (0, 0)), in_events2 = [], in_mouse2 = (False, (0, 0)),
      in_camera = [\<lparr>cam_id = 1, cam_x = x, cam_y = x, cam_orientation = x\<rparr>], in_readings = []\<rparr>"

theorem camera_is_overwritten_witness:
  "\<exists>g1 g2. ProcessInputs (camera_round 0) (KeyCallback (int KEY_P) PRESS demo_game) = Some (Inr g1)
    \<and> ProcessInputs (camera_round 1000) (KeyCallback (int KEY_P) PRESS demo_game) = Some (Inr g2)
    \<and> position (get_player g1 (Team1 0)) = position (get_player g2 (Team1 0))"
proof -
  let ?g = "KeyCallback (int KEY_P) PRESS demo_game"
  have r: "reachable ?g" by (rule reachable.step [OF demo_reachable game_step.key])
  have f: "follows_camera ?g" by (simp add: follows_camera_def KeyCallback_def demo_game_def ObjectPosInit_def Let_def)
  from camera_is_overwritten [OF r f, of "camera_round 0"] camera_is_overwritten [OF r f, of "camera_round 1000"]
  show ?thesis by (auto simp: camera_round_def)
qed

end
