(* ===== verification/Logger.thy ===== *)
theory Logger
  imports PbTypes Complex_Main
begin

text \<open>
  The logger of the firmware (\<open>libs/debug\<close>): the buffer in RAM that collects a line
  (\<open>UartBuffer\<close>), the stream operators that fill it (\<open>UartStream\<close>), and the ring of buffers behind
  \<open>uart_printf\<close>. Characters are bytes. The transmit function the firmware registers is represented
  by the list of the messages it was given. \<open>vsnprintf\<close> is modelled by the formatted text: it
  writes as much of it as fits and a final zero, and returns its whole length; a call that fails is
  taken to write nothing.
\<close>

section \<open>The serial line\<close>

definition BUFFER_SIZE :: nat where "BUFFER_SIZE = 256"
definition QUEUE_SIZE :: nat where "QUEUE_SIZE = 9"

definition newline :: pb_byte where "newline = 10"

record uart =
  uart_msg :: "pb_byte list list"
  msg_index :: "8 word"
  transmit_registered :: bool
  transmitted :: "pb_byte list list"

definition uart_init :: uart where
  "uart_init =
     \<lparr>uart_msg = replicate QUEUE_SIZE (replicate BUFFER_SIZE 0), msg_index = 0,
      transmit_registered = False, transmitted = []\<rparr>"

definition RegisterUartTransmitFunction :: "uart \<Rightarrow> uart" where
  "RegisterUartTransmitFunction u = u\<lparr>transmit_registered := True\<rparr>"

definition uart_print_bytes :: "pb_byte list \<Rightarrow> uart \<Rightarrow> uart" where
  "uart_print_bytes bytes u =
     (if transmit_registered u then u\<lparr>transmitted := transmitted u @ [bytes]\<rparr> else u)"

text \<open>A C string: the bytes before the first zero.\<close>

definition c_string :: "pb_byte list \<Rightarrow> pb_byte list" where
  "c_string bs = takeWhile (\<lambda>b. b \<noteq> 0) bs"

definition uart_print :: "pb_byte list \<Rightarrow> uart \<Rightarrow> uart" where
  "uart_print str u = uart_print_bytes (c_string str) u"

text \<open>\<open>vsnprintf\<close> into \<open>buf\<close> from index \<open>p\<close> with room for \<open>n\<close> bytes.\<close>

definition overwrite :: "pb_byte list \<Rightarrow> nat \<Rightarrow> pb_byte list \<Rightarrow> pb_byte list" where
  "overwrite buf p new = take p buf @ new @ drop (p + length new) buf"

definition vsnprintf :: "pb_byte list \<Rightarrow> nat \<Rightarrow> nat \<Rightarrow> pb_byte list \<Rightarrow> pb_byte list" where
  "vsnprintf buf p n formatted =
     (if n = 0 then buf else overwrite buf p (take (n - 1) formatted @ [0]))"

text \<open>\<open>uart_printf\<close>: the formatted text, or \<^term>\<open>None\<close> if \<open>vsnprintf\<close> reports an error.\<close>

definition uart_printf :: "pb_byte list option \<Rightarrow> uart \<Rightarrow> uart" where
  "uart_printf formatted u =
     (let slot = unat (msg_index u);
          i = msg_index u + 1;
          i = (if unat i \<ge> QUEUE_SIZE then 0 else i)
      in case formatted of
           None \<Rightarrow> u\<lparr>msg_index := (if i = 0 then of_nat (QUEUE_SIZE - 1) else i - 1)\<rparr>
         | Some t \<Rightarrow>
             let buffer = vsnprintf (uart_msg u ! slot) 0 BUFFER_SIZE t;
                 len = (if length t \<ge> BUFFER_SIZE then BUFFER_SIZE - 1 else length t)
             in uart_print_bytes (take len buffer)
                  (u\<lparr>uart_msg := (uart_msg u)[slot := buffer], msg_index := i\<rparr>))"

section \<open>The buffer\<close>

record uart_buffer =
  buffer :: "pb_byte list"
  position :: nat
  serial :: uart

definition buffer_init :: "uart \<Rightarrow> uart_buffer" where
  "buffer_init u = \<lparr>buffer = replicate BUFFER_SIZE 0, position = 0, serial = u\<rparr>"

definition flush :: "uart_buffer \<Rightarrow> uart_buffer" where
  "flush b =
     (if position b > 0
      then b\<lparr>serial := uart_print (buffer b) (serial b), position := 0, buffer := (buffer b)[0 := 0]\<rparr>
      else b)"

definition append_text :: "pb_byte list \<Rightarrow> uart_buffer \<Rightarrow> uart_buffer" where
  "append_text formatted b =
     (let remaining = int BUFFER_SIZE - int (position b) - 1
      in if remaining > 0
         then
           let buf = vsnprintf (buffer b) (position b) (nat remaining) formatted;
               written = length formatted;
               step = (if written > 0 then if int written < remaining then written else nat remaining else 0)
           in b\<lparr>buffer := buf, position := position b + step\<rparr>
         else b)"

definition clear :: "uart_buffer \<Rightarrow> uart_buffer" where
  "clear b = b\<lparr>position := 0, buffer := (buffer b)[0 := 0]\<rparr>"

section \<open>The stream operators\<close>

text \<open>The conversions \<open>%u\<close>, \<open>%d\<close> and \<open>%03d\<close>.\<close>

definition digit :: "nat \<Rightarrow> pb_byte" where "digit n = 48 + of_nat n"

fun format_u :: "nat \<Rightarrow> pb_byte list" where
  "format_u n = (if n < 10 then [digit n] else format_u (n div 10) @ [digit (n mod 10)])"

declare format_u.simps [simp del]

definition format_d :: "int \<Rightarrow> pb_byte list" where
  "format_d n = (if n < 0 then 45 # format_u (nat (- n)) else format_u (nat n))"

definition format_03d :: "int \<Rightarrow> pb_byte list" where
  "format_03d n =
     (let t = (if n < 0 then format_u (nat (- n)) else format_u (nat n));
          w = (if n < 0 then 2 else 3)
      in (if n < 0 then [45] else []) @ replicate (w - length t) 48 @ t)"

text \<open>The conversion of a \<open>float\<close> to \<open>int\<close> drops the fraction.\<close>

definition to_int :: "real \<Rightarrow> int" where "to_int x = (if x < 0 then \<lceil>x\<rceil> else \<lfloor>x\<rfloor>)"

definition format_real :: "real \<Rightarrow> pb_byte list" where
  "format_real val =
     (let whole = to_int val;
          frac = to_int ((val - of_int whole) * 1000)
      in if val < 0 then 45 # format_d (- whole) @ 46 # format_03d \<bar>frac\<bar>
         else format_d whole @ 46 # format_03d frac)"

text \<open>What can be sent to the stream, and \<open>operator<<\<close> for each.\<close>

datatype log_item =
    Manipulator
  | C_string_item "pb_byte list"
  | Char_item pb_byte
  | Int_item int
  | Unsigned_item nat
  | Long_item int
  | Unsigned_long_item nat
  | Float_item real
  | Double_item real
  | Std_string_item "pb_byte list"

fun put :: "log_item \<Rightarrow> uart_buffer \<Rightarrow> uart_buffer" where
  "put Manipulator b = b"
| "put (C_string_item str) b =
     (let b = append_text (c_string str) b in if newline \<in> set (c_string str) then flush b else b)"
| "put (Char_item c) b = (let b = append_text [c] b in if c = newline then flush b else b)"
| "put (Int_item val) b = flush (append_text (format_d val) b)"
| "put (Unsigned_item val) b = append_text (format_u val) b"
| "put (Long_item val) b = append_text (format_d val) b"
| "put (Unsigned_long_item val) b = append_text (format_u val) b"
| "put (Float_item val) b = append_text (format_real val) b"
| "put (Double_item val) b = append_text (format_real val) b"
| "put (Std_string_item str) b =
     (let b = append_text (c_string str) b in if newline \<in> set str then flush b else b)"

text \<open>\<open>Log()\<close> flushes and returns the stream; then the items of one statement are inserted.\<close>

definition Log :: "uart_buffer \<Rightarrow> uart_buffer" where "Log b = flush b"

definition log_statement :: "log_item list \<Rightarrow> uart_buffer \<Rightarrow> uart_buffer" where
  "log_statement items b = fold put items (Log b)"

section \<open>What the logger promises\<close>

text \<open>
  The pending text, at most 254 characters of it, and the messages sent, as long as a transmit
  function is registered.
\<close>

record logger =
  pending_text :: "pb_byte list"
  sent_messages :: "pb_byte list list"

definition spec_append :: "pb_byte list \<Rightarrow> logger \<Rightarrow> logger" where
  "spec_append t a = a\<lparr>pending_text := take 254 (pending_text a @ t)\<rparr>"

definition spec_flush :: "logger \<Rightarrow> logger" where
  "spec_flush a =
     (if pending_text a = [] then a
      else \<lparr>pending_text = [], sent_messages = sent_messages a @ [c_string (pending_text a)]\<rparr>)"

definition item_text :: "log_item \<Rightarrow> pb_byte list" where
  "item_text it =
     (case it of
        Manipulator \<Rightarrow> [] | C_string_item s \<Rightarrow> c_string s | Char_item c \<Rightarrow> [c] | Int_item i \<Rightarrow> format_d i
      | Unsigned_item n \<Rightarrow> format_u n | Long_item i \<Rightarrow> format_d i | Unsigned_long_item n \<Rightarrow> format_u n
      | Float_item x \<Rightarrow> format_real x | Double_item x \<Rightarrow> format_real x | Std_string_item s \<Rightarrow> c_string s)"

definition item_flushes :: "log_item \<Rightarrow> bool" where
  "item_flushes it =
     (case it of
        C_string_item s \<Rightarrow> newline \<in> set (c_string s) | Char_item c \<Rightarrow> c = newline | Int_item i \<Rightarrow> True
      | Std_string_item s \<Rightarrow> newline \<in> set s | _ \<Rightarrow> False)"

definition spec_put :: "log_item \<Rightarrow> logger \<Rightarrow> logger" where
  "spec_put it a = (let a = spec_append (item_text it) a in if item_flushes it then spec_flush a else a)"

definition spec_statement :: "log_item list \<Rightarrow> logger \<Rightarrow> logger" where
  "spec_statement items a = fold spec_put items (spec_flush a)"

text \<open>The abstraction, and the invariant of the buffer.\<close>

definition text_length :: "uart_buffer \<Rightarrow> nat" where "text_length b = min (position b) 254"

definition logger_of :: "uart_buffer \<Rightarrow> logger" where
  "logger_of b = \<lparr>pending_text = take (text_length b) (buffer b), sent_messages = transmitted (serial b)\<rparr>"

definition buffer_ok :: "uart_buffer \<Rightarrow> bool" where
  "buffer_ok b \<longleftrightarrow> length (buffer b) = BUFFER_SIZE \<and> position b \<le> 255 \<and> buffer b ! text_length b = 0
     \<and> transmit_registered (serial b)"

section \<open>Refinement\<close>

lemma overwrite_length: "p + length new \<le> length buf \<Longrightarrow> length (overwrite buf p new) = length buf"
  by (simp add: overwrite_def)

lemma vsnprintf_length: "p + n \<le> length buf \<Longrightarrow> length (vsnprintf buf p n t) = length buf"
  by (auto simp: vsnprintf_def intro!: overwrite_length)

text \<open>The text before position \<open>p\<close> stays, the new text follows, then a zero.\<close>

lemma vsnprintf_text:
  assumes "0 < n" and "p + n \<le> length buf"
  shows "take (p + length (take (n - 1) t)) (vsnprintf buf p n t) = take p buf @ take (n - 1) t"
    and "vsnprintf buf p n t ! (p + length (take (n - 1) t)) = 0"
proof -
  define new where "new = take (n - 1) t"
  have v: "vsnprintf buf p n t = take p buf @ new @ 0 # drop (p + length (new @ [0])) buf"
    using assms(1) by (simp add: vsnprintf_def overwrite_def new_def)
  have p: "length (take p buf) = p" using assms by simp
  show "take (p + length (take (n - 1) t)) (vsnprintf buf p n t) = take p buf @ take (n - 1) t"
    unfolding new_def [symmetric] v using p by simp
  show "vsnprintf buf p n t ! (p + length (take (n - 1) t)) = 0"
    unfolding new_def [symmetric] v using p by (simp add: nth_append)
qed

lemma append_text_refines:
  assumes "buffer_ok b"
  shows "logger_of (append_text t b) = spec_append t (logger_of b)" and "buffer_ok (append_text t b)"
proof -
  let ?p = "position b" and ?n = "255 - position b"
  have b: "length (buffer b) = 256" "?p \<le> 255" "buffer b ! min ?p 254 = 0" "transmit_registered (serial b)"
    using assms by (simp_all add: buffer_ok_def BUFFER_SIZE_def text_length_def)
  have "logger_of (append_text t b) = spec_append t (logger_of b) \<and> buffer_ok (append_text t b)"
  proof (cases "?p = 255")
    case True
    then show ?thesis
      using assms b by (simp add: append_text_def BUFFER_SIZE_def logger_of_def spec_append_def text_length_def)
  next
    case False
    with b have n: "0 < ?n" "?p + ?n \<le> length (buffer b)" "?p \<le> 254" by simp_all
    have step: "append_text t b = b\<lparr>buffer := vsnprintf (buffer b) ?p ?n t,
        position := ?p + min (length t) ?n\<rparr>"
      using n b(2) by (auto simp: append_text_def BUFFER_SIZE_def Let_def min_def nat_diff_distrib)
    have len: "text_length (append_text t b) = ?p + length (take (?n - 1) t)"
      using n by (auto simp: step text_length_def)
    have tl: "text_length b = ?p" using n by (simp add: text_length_def)
    have "take (text_length (append_text t b)) (buffer (append_text t b)) = take ?p (buffer b) @ take (?n - 1) t"
      unfolding len using vsnprintf_text(1) [OF n(1,2)] by (simp add: step)
    also have "\<dots> = take 254 (take ?p (buffer b) @ t)" using n b(1) by simp
    finally have "logger_of (append_text t b) = spec_append t (logger_of b)"
      by (simp add: logger_of_def spec_append_def tl) (simp add: step)
    moreover have "buffer (append_text t b) ! text_length (append_text t b) = 0"
      unfolding len using vsnprintf_text(2) [OF n(1,2)] by (simp add: step)
    then have "buffer_ok (append_text t b)"
      using n b vsnprintf_length [OF n(2)] by (auto simp: buffer_ok_def BUFFER_SIZE_def step)
    ultimately show ?thesis by simp
  qed
  then show "logger_of (append_text t b) = spec_append t (logger_of b)" "buffer_ok (append_text t b)" by simp_all
qed

lemma c_string_take:
  assumes "n < length bs" and "bs ! n = 0"
  shows "c_string bs = c_string (take n bs)"
proof -
  have "bs = take n bs @ 0 # drop (Suc n) bs" using id_take_nth_drop [OF assms(1)] assms(2) by simp
  then have "c_string bs = takeWhile (\<lambda>b. b \<noteq> 0) (take n bs @ 0 # drop (Suc n) bs)" by (simp add: c_string_def)
  then show ?thesis by (simp add: c_string_def takeWhile_tail)
qed

lemma flush_refines:
  assumes "buffer_ok b"
  shows "logger_of (flush b) = spec_flush (logger_of b)" and "buffer_ok (flush b)"
proof -
  have b: "length (buffer b) = 256" "position b \<le> 255" "buffer b ! text_length b = 0" "transmit_registered (serial b)"
    using assms by (simp_all add: buffer_ok_def BUFFER_SIZE_def)
  have "text_length b < length (buffer b)" using b(1) by (simp add: text_length_def)
  from c_string_take [OF this b(3)] have c: "c_string (buffer b) = c_string (take (text_length b) (buffer b))" .
  have e: "take (text_length b) (buffer b) = [] \<longleftrightarrow> position b = 0"
    using b(1) by (auto simp: text_length_def)
  show "logger_of (flush b) = spec_flush (logger_of b)"
    using e c b(4) by (auto simp: flush_def logger_of_def spec_flush_def uart_print_def uart_print_bytes_def text_length_def)
  show "buffer_ok (flush b)"
    using assms b by (auto simp: flush_def buffer_ok_def text_length_def uart_print_def uart_print_bytes_def)
qed

lemma put_eq: "put it b = (if it = Manipulator then b
    else let b = append_text (item_text it) b in if item_flushes it then flush b else b)"
  by (cases it) (auto simp: item_text_def item_flushes_def Let_def)

lemma put_refines:
  assumes "buffer_ok b"
  shows "logger_of (put it b) = spec_put it (logger_of b)" and "buffer_ok (put it b)"
proof -
  have m: "spec_put Manipulator a = a" if "length (pending_text a) \<le> 254" for a
    using that by (simp add: spec_put_def spec_append_def item_text_def item_flushes_def)
  have "length (pending_text (logger_of b)) \<le> 254" by (simp add: logger_of_def text_length_def)
  note m = m [OF this]
  show "logger_of (put it b) = spec_put it (logger_of b)"
    using append_text_refines [OF assms] flush_refines m by (auto simp: put_eq spec_put_def Let_def)
  show "buffer_ok (put it b)"
    using append_text_refines [OF assms] flush_refines assms by (auto simp: put_eq Let_def)
qed

lemma statement_refines:
  assumes "buffer_ok b"
  shows "logger_of (log_statement items b) = spec_statement items (logger_of b) \<and> buffer_ok (log_statement items b)"
proof -
  have "logger_of (fold put items b) = fold spec_put items (logger_of b) \<and> buffer_ok (fold put items b)"
    if "buffer_ok b" for b
    using that by (induction items arbitrary: b) (auto simp: put_refines)
  from this [OF flush_refines(2) [OF assms]] flush_refines(1) [OF assms] show ?thesis
    by (simp add: log_statement_def spec_statement_def Log_def)
qed

lemma buffer_init_ok: "transmit_registered u \<Longrightarrow> buffer_ok (buffer_init u)"
  by (simp add: buffer_ok_def buffer_init_def text_length_def BUFFER_SIZE_def)

lemma statements_refine:
  "buffer_ok b \<Longrightarrow> logger_of (fold log_statement stmts b) = fold spec_statement stmts (logger_of b)
    \<and> buffer_ok (fold log_statement stmts b)"
proof (induction stmts arbitrary: b)
  case (Cons st stmts)
  from statement_refines [OF Cons.prems, of st] Cons.IH [of "log_statement st b"] show ?case by simp
qed simp

section \<open>The ring of buffers\<close>

definition uart_ok :: "uart \<Rightarrow> bool" where
  "uart_ok u \<longleftrightarrow> length (uart_msg u) = QUEUE_SIZE \<and> list_all (\<lambda>b. length b = BUFFER_SIZE) (uart_msg u)
     \<and> unat (msg_index u) < QUEUE_SIZE"

lemma next_index:
  assumes "unat (i :: 8 word) < 9"
  shows "unat (if unat (i + 1) \<ge> 9 then 0 else i + 1) = (unat i + 1) mod 9"
proof -
  have "unat (i + 1) = unat i + 1" using assms by (simp add: unat_word_ariths)
  then show ?thesis using assms by (cases "unat i = 8") simp_all
qed

lemma printf_error: "uart_ok u \<Longrightarrow> uart_printf None u = u"
proof -
  assume ok: "uart_ok u"
  have "unat (msg_index u + 1) = unat (msg_index u) + 1"
    using ok by (simp add: uart_ok_def QUEUE_SIZE_def unat_word_ariths)
  moreover have "msg_index u = 8" if "unat (msg_index u) = 8" using that by (simp add: word_unat_eq_iff)
  moreover have "msg_index u + 1 \<noteq> 0" if "unat (msg_index u + 1) = unat (msg_index u) + 1"
    using that by (auto simp: unat_eq_0 dest: arg_cong [of _ _ unat])
  ultimately show ?thesis
    using ok by (cases u) (auto simp: uart_printf_def Let_def QUEUE_SIZE_def uart_ok_def)
qed

lemma printf_ok:
  assumes "uart_ok u"
  shows "unat (msg_index (uart_printf (Some t) u)) = (unat (msg_index u) + 1) mod 9"
    and "uart_msg (uart_printf (Some t) u) =
      (uart_msg u)[unat (msg_index u) := vsnprintf (uart_msg u ! unat (msg_index u)) 0 BUFFER_SIZE t]"
    and "uart_ok (uart_printf (Some t) u)"
proof -
  have i: "unat (msg_index u) < 9" using assms by (simp add: uart_ok_def QUEUE_SIZE_def)
  show 1: "unat (msg_index (uart_printf (Some t) u)) = (unat (msg_index u) + 1) mod 9"
    using next_index [OF i] by (simp add: uart_printf_def Let_def uart_print_bytes_def QUEUE_SIZE_def)
  show 2: "uart_msg (uart_printf (Some t) u) =
      (uart_msg u)[unat (msg_index u) := vsnprintf (uart_msg u ! unat (msg_index u)) 0 BUFFER_SIZE t]"
    by (simp add: uart_printf_def Let_def uart_print_bytes_def)
  have "length (uart_msg u ! unat (msg_index u)) = BUFFER_SIZE"
    using assms by (simp add: uart_ok_def list_all_length)
  then show "uart_ok (uart_printf (Some t) u)"
    using assms vsnprintf_length [of 0 BUFFER_SIZE "uart_msg u ! unat (msg_index u)" t]
    by (auto simp: uart_ok_def 1 2 QUEUE_SIZE_def list_all_length nth_list_update)
qed

text \<open>After \<open>n\<close> more calls the ring has moved on by at most \<open>n\<close> slots.\<close>

lemma ring_moves:
  "uart_ok u \<Longrightarrow> unat (msg_index u) = (slot + 1 + s) mod 9 \<Longrightarrow> slot < 9 \<Longrightarrow> s + length later \<le> 8
    \<Longrightarrow> uart_msg (fold uart_printf later u) ! slot = uart_msg u ! slot"
proof (induction later arbitrary: u s)
  case (Cons x later)
  have away: "(slot + 1 + s) mod 9 \<noteq> slot"
  proof -
    have "s \<le> 7" using Cons.prems(4) by simp
    then show ?thesis using Cons.prems(3) by (cases "slot + 1 + s < 9") (auto simp: mod_if)
  qed
  show ?case
  proof (cases x)
    case None
    with Cons.IH [of u s] Cons.prems show ?thesis by (simp add: printf_error)
  next
    case (Some t)
    note p = printf_ok [OF Cons.prems(1), of t]
    have "unat (msg_index (uart_printf (Some t) u)) = (slot + 1 + Suc s) mod 9"
      unfolding p(1) Cons.prems(2) by (simp add: mod_Suc_eq)
    from Cons.IH [OF p(3) this Cons.prems(3)] Cons.prems(2,4) away Some show ?thesis
      by (simp add: p(2))
  qed
qed simp

section \<open>Properties\<close>

text \<open>
  Property C34. The logger refines a simple specification: whatever statements are logged from the
  start, with strings of any length, the text held in the buffer and the messages handed to the
  serial line are those of a logger that appends, keeps the first 254 characters and sends on a
  flush, and the write position never leaves the array.
\<close>

theorem logger_refines_spec:
  "logger_of (fold log_statement stmts (buffer_init (RegisterUartTransmitFunction uart_init)))
     = fold spec_statement stmts \<lparr>pending_text = [], sent_messages = []\<rparr>
   \<and> position (fold log_statement stmts (buffer_init (RegisterUartTransmitFunction uart_init))) \<le> 255
   \<and> length (buffer (fold log_statement stmts (buffer_init (RegisterUartTransmitFunction uart_init)))) = BUFFER_SIZE"
proof -
  let ?b = "buffer_init (RegisterUartTransmitFunction uart_init)"
  have ok: "buffer_ok ?b" by (rule buffer_init_ok) (simp add: RegisterUartTransmitFunction_def)
  have "logger_of ?b = \<lparr>pending_text = [], sent_messages = []\<rparr>"
    by (simp add: logger_of_def buffer_init_def text_length_def RegisterUartTransmitFunction_def uart_init_def)
  with statements_refine [OF ok, of stmts] show ?thesis by (simp add: buffer_ok_def)
qed

text \<open>
  Property C35. A message printed with \<open>uart_printf\<close>, cut to 255 characters, is handed to the transmit
  function, and the eight calls that follow, failed ones included, leave its buffer alone, so a
  transfer that is still running reads what was printed.
\<close>

theorem printf_survives_eight_calls:
  assumes "uart_ok u" and "transmit_registered u" and "length later \<le> 8"
  shows "last (transmitted (uart_printf (Some t) u)) = take 255 t
    \<and> take (length (take 255 t)) (uart_msg (fold uart_printf later (uart_printf (Some t) u)) ! unat (msg_index u))
        = take 255 t"
proof -
  let ?slot = "unat (msg_index u)" and ?u = "uart_printf (Some t) u"
  let ?v = "vsnprintf (uart_msg u ! ?slot) 0 BUFFER_SIZE t"
  have slot: "?slot < 9" using assms(1) by (simp add: uart_ok_def QUEUE_SIZE_def)
  note p = printf_ok [OF assms(1), of t]
  have len: "length (uart_msg u ! ?slot) = BUFFER_SIZE" using assms(1) by (simp add: uart_ok_def list_all_length)
  have v: "take (length (take 255 t)) ?v = take 255 t"
    using vsnprintf_text(1) [of BUFFER_SIZE 0 "uart_msg u ! ?slot" t] len by (simp add: BUFFER_SIZE_def)
  have "uart_msg (fold uart_printf later ?u) ! ?slot = uart_msg ?u ! ?slot"
    by (rule ring_moves [OF p(3) _ slot, of 0]) (use p(1) assms(3) in simp_all)
  also have "\<dots> = ?v" using slot assms(1) by (simp add: p(2) uart_ok_def QUEUE_SIZE_def)
  finally have ring: "take (length (take 255 t)) (uart_msg (fold uart_printf later ?u) ! ?slot) = take 255 t"
    using v by simp
  have "last (transmitted ?u) = take (length (take 255 t)) ?v"
    using assms(2) by (simp add: uart_printf_def Let_def uart_print_bytes_def BUFFER_SIZE_def min_def)
  with v ring show ?thesis by simp
qed

theorem printf_survives_eight_calls_witness:
  "take 2 (uart_msg (fold uart_printf [Some [1], None, Some [2]]
      (uart_printf (Some [72, 105]) (RegisterUartTransmitFunction uart_init))) ! 0) = [72, 105]"
proof -
  have "uart_ok (RegisterUartTransmitFunction uart_init)"
    by (simp add: uart_ok_def RegisterUartTransmitFunction_def uart_init_def QUEUE_SIZE_def BUFFER_SIZE_def list_all_iff)
  from printf_survives_eight_calls [OF this, of "[Some [1], None, Some [2]]" "[72, 105]"]
  show ?thesis by (simp add: RegisterUartTransmitFunction_def uart_init_def numeral_2_eq_2)
qed

end
