(* ===== verification/CameraParse.thy ===== *)
theory CameraParse
  imports Camera
begin

text \<open>
  What the receiver makes of a datagram: of one that lists robots in the format of the camera, and
  of arbitrary bytes.
\<close>

section \<open>The outcome of highest priority\<close>

definition first :: "regex \<Rightarrow> string \<Rightarrow> string \<Rightarrow> string \<Rightarrow> captures \<Rightarrow> bool" where
  "first r s u t cs \<longleftrightarrow> (\<exists>more. runs r s = (u, t, cs) # more)"

text \<open>Strings that do not begin with a character of a class.\<close>

definition stops :: "(char \<Rightarrow> bool) \<Rightarrow> string \<Rightarrow> bool" where
  "stops p t \<longleftrightarrow> (case t of [] \<Rightarrow> True | c # _ \<Rightarrow> \<not> p c)"

lemma stops_simps [simp]: "stops p []" "stops p (c # t) \<longleftrightarrow> \<not> p c"
  by (simp_all add: stops_def)

lemma stops_append: "stops p (u @ t) \<longleftrightarrow> (if u = [] then stops p t else stops p u)"
  by (cases u) simp_all

lemma first_Empty: "first Empty s [] s []"
  by (simp add: first_def)

lemma first_One: "p c \<Longrightarrow> first (One p) (c # t) [c] t []"
  by (simp add: first_def)

lemma greedy_first: "list_all p u \<Longrightarrow> stops p t \<Longrightarrow> \<exists>more. greedy p (u @ t) = (u, t) # more"
proof (induction u)
  case Nil
  then show ?case by (cases t) simp_all
next
  case (Cons c u)
  then show ?case by auto
qed

lemma first_Many: "list_all p u \<Longrightarrow> stops p t \<Longrightarrow> first (Many p) (u @ t) u t []"
  using greedy_first [of p u t] by (auto simp: first_def)

lemma first_Seq:
  assumes "first q s u t cs" and "first r t u' t' cs'"
  shows "first (Seq q r) s (u @ u') t' (cs @ cs')"
  using assms by (auto simp: first_def)

lemma first_Group: "first r s u t cs \<Longrightarrow> first (Group n r) s u t ((n, u) # cs)"
  by (auto simp: first_def)

lemma first_Opt: "first r s u t cs \<Longrightarrow> first (Opt r) s u t cs"
  by (auto simp: first_def)

lemma first_Opt_none: "runs r s = [] \<Longrightarrow> first (Opt r) s [] s []"
  by (auto simp: first_def)

text \<open>The same for a sequence, part by part.\<close>

inductive firsts :: "regex list \<Rightarrow> string \<Rightarrow> string \<Rightarrow> string \<Rightarrow> captures \<Rightarrow> bool" where
  firsts_Nil: "firsts [] t [] t []"
| firsts_Cons: "first r s u t cs \<Longrightarrow> firsts rs t u' t' cs' \<Longrightarrow> firsts (r # rs) s (u @ u') t' (cs @ cs')"

lemma firsts_first: "firsts rs s u t cs \<Longrightarrow> first (seqs rs) s u t cs"
  by (induction rule: firsts.induct) (auto intro: first_Empty first_Seq)

lemma firsts_append:
  "firsts qs s u t cs \<Longrightarrow> firsts rs t u' t' cs' \<Longrightarrow> firsts (qs @ rs) s (u @ u') t' (cs @ cs')"
  by (induction rule: firsts.induct) (auto dest: firsts_Cons)

lemma firsts_single: "first r s u t cs \<Longrightarrow> firsts [r] s u t cs"
  using firsts_Cons [OF _ firsts_Nil] by fastforce

lemma firsts_chars: "firsts (chars w) (w @ t) w t []"
proof (induction w)
  case Nil
  show ?case by (simp add: chars_def firsts_Nil)
next
  case (Cons c w)
  then show ?case using firsts_Cons [OF first_One [of "(=) c" c "w @ t"]] by (fastforce simp: chars_def)
qed

lemma first_digits:
  assumes "u \<noteq> []" and "list_all is_digit u" and "stops is_digit t"
  shows "first digits (u @ t) u t []"
proof -
  obtain c v where u: "u = c # v" using assms(1) by (cases u) auto
  show ?thesis
    using first_Seq [OF first_One first_Many, of is_digit c is_digit v t] assms by (simp add: u digits_def)
qed

section \<open>Decimal numbers\<close>

text \<open>A sign, digits and a point (if there are any), and digits.\<close>

datatype decimal = Decimal string "string option" string

fun decimal_text :: "decimal \<Rightarrow> string" where
  "decimal_text (Decimal sg w fr) = sg @ (case w of None \<Rightarrow> [] | Some ds \<Rightarrow> ds @ ''.'') @ fr"

fun decimal_ok :: "decimal \<Rightarrow> bool" where
  "decimal_ok (Decimal sg w fr) \<longleftrightarrow>
     sg \<in> {[], ''+'', ''-''} \<and> (case w of None \<Rightarrow> True | Some ds \<Rightarrow> list_all is_digit ds)
     \<and> fr \<noteq> [] \<and> list_all is_digit fr"

fun decimal_real :: "decimal \<Rightarrow> real" where
  "decimal_real (Decimal sg w fr) =
     (let x = (case w of
                 None \<Rightarrow> real (digits_value fr)
               | Some ds \<Rightarrow> real (digits_value ds) + real (digits_value fr) / 10 ^ length fr)
      in if sg = ''-'' then - x else x)"

lemma class_disjoint:
  "is_digit c \<Longrightarrow> \<not> is_space c" "is_digit c \<Longrightarrow> \<not> is_sign c" "is_sign c \<Longrightarrow> \<not> is_space c"
  "is_digit c \<Longrightarrow> c \<noteq> CHR ''.''" "is_digit c \<Longrightarrow> c \<noteq> CHR ''+''" "is_digit c \<Longrightarrow> c \<noteq> CHR ''-''"
  by (auto simp: is_digit_def is_space_def is_sign_def)

lemma point [simp]: "\<not> is_digit CHR ''.''" "\<not> is_sign CHR ''.''" "\<not> is_space CHR ''.''"
  by (simp_all add: is_digit_def is_space_def is_sign_def)

lemma stops_digits:
  assumes "u \<noteq> []" and "list_all is_digit u"
  shows "stops is_sign (u @ t)" and "stops is_space (u @ t)" and "stops ((=) CHR ''.'') (u @ t)"
  using assms by (cases u; auto simp: class_disjoint)+

lemma whole_stops:
  assumes "\<And>ds. w = Some ds \<Longrightarrow> list_all is_digit ds" and "fr \<noteq> []" and "list_all is_digit fr"
  shows "stops is_sign ((case w of None \<Rightarrow> [] | Some ds \<Rightarrow> ds @ ''.'') @ fr @ t)"
    and "stops is_space ((case w of None \<Rightarrow> [] | Some ds \<Rightarrow> ds @ ''.'') @ fr @ t)"
proof -
  have "stops is_sign (u @ CHR ''.'' # v)" "stops is_space (u @ CHR ''.'' # v)" if "list_all is_digit u" for u v
    using that by (cases u; simp add: class_disjoint)+
  then show "stops is_sign ((case w of None \<Rightarrow> [] | Some ds \<Rightarrow> ds @ ''.'') @ fr @ t)"
    and "stops is_space ((case w of None \<Rightarrow> [] | Some ds \<Rightarrow> ds @ ''.'') @ fr @ t)"
    using assms(1) stops_digits [OF assms(2,3), of t] by (cases w; simp)+
qed

text \<open>No point, no whole part.\<close>

lemma no_whole_part:
  assumes "list_all is_digit u" and "stops is_digit t" and "stops ((=) CHR ''.'') t"
  shows "runs (Seq (Many is_digit) (One ((=) CHR ''.''))) (u @ t) = []"
proof -
  have "stops ((=) CHR ''.'') v" if "(a, v) \<in> set (greedy is_digit (u @ t))" for a v
    using that assms
  proof (induction u arbitrary: a v)
    case Nil
    then show ?case by (cases t) auto
  next
    case (Cons c u)
    then show ?case by (auto simp: class_disjoint)
  qed
  then show ?thesis by (fastforce simp: stops_def split: list.splits)
qed

lemma first_number:
  assumes "decimal_ok d" and t: "stops is_digit t" "stops ((=) CHR ''.'') t"
  shows "\<exists>cs. first (number n) (decimal_text d @ t) (decimal_text d) t cs \<and> fst ` set cs \<subseteq> {n + 1}"
proof (cases d)
  case (Decimal sg w fr)
  let ?whole = "Group (n + 1) (Seq (Many is_digit) (One ((=) CHR ''.'')))"
  let ?w = "case w of None \<Rightarrow> [] | Some ds \<Rightarrow> ds @ ''.''"
  from assms(1) have sg: "sg \<in> {[], ''+'', ''-''}" and fr: "fr \<noteq> []" "list_all is_digit fr"
    and ds: "\<And>ds. w = Some ds \<Longrightarrow> list_all is_digit ds" by (auto simp: Decimal)
  have frac: "firsts [digits] (fr @ t) fr t []" by (rule firsts_single [OF first_digits [OF fr t(1)]])
  obtain cs where whole: "first (Opt ?whole) (?w @ fr @ t) ?w (fr @ t) cs" "fst ` set cs \<subseteq> {n + 1}"
  proof (cases w)
    case None
    have "runs ?whole (fr @ t) = []" using no_whole_part [OF fr(2) t] by simp
    from first_Opt_none [OF this] None show ?thesis by (intro that [of "[]"]) simp_all
  next
    case (Some u)
    have "first (Seq (Many is_digit) (One ((=) CHR ''.''))) (u @ ''.'' @ fr @ t) (u @ ''.'') (fr @ t) ([] @ [])"
      using ds [OF Some] by (intro first_Seq [OF first_Many]) (auto intro: first_One)
    from first_Opt [OF first_Group [OF this]] Some show ?thesis
      by (intro that [of "[(n + 1, u @ ''.'')]"]) simp_all
  qed
  have sign: "first (Opt (One is_sign)) (sg @ v) sg v []" if "stops is_sign v" for v
  proof (cases "sg = []")
    case True
    have "runs (One is_sign) v = []" using that by (auto simp: stops_def split: list.splits)
    from first_Opt_none [OF this] True show ?thesis by simp
  next
    case False
    with sg obtain c where "sg = [c]" "is_sign c" by (auto simp: is_sign_def)
    then show ?thesis using first_Opt [OF first_One] by simp
  qed
  from sign [OF whole_stops(1) [OF ds fr]]
  have "first (Opt (One is_sign)) (sg @ ?w @ fr @ t) sg (?w @ fr @ t) []" by simp
  from firsts_first [OF firsts_Cons [OF this firsts_Cons [OF whole(1) frac]]] whole(2)
  show ?thesis by (auto simp: number_def Decimal)
qed

lemma takeWhile_digits: "list_all is_digit u \<Longrightarrow> takeWhile is_digit (u @ t) = u @ takeWhile is_digit t"
  by (induction u) auto

lemma dropWhile_digits: "list_all is_digit u \<Longrightarrow> dropWhile is_digit (u @ t) = dropWhile is_digit t"
  by (induction u) auto

lemma all_digits:
  assumes "list_all is_digit u"
  shows "takeWhile is_digit u = u" and "dropWhile is_digit u = []"
  using takeWhile_digits [OF assms, of "[]"] dropWhile_digits [OF assms, of "[]"] by simp_all

lemma split_sign_digits:
  assumes "sg \<in> {[], ''+'', ''-''}" and "stops is_space t" and "stops is_sign t"
  shows "split_sign (dropWhile is_space (sg @ t)) = (sg = ''-'', t)"
  using assms by (cases t) (auto simp: split_sign_def is_space_def is_sign_def)

lemma decimal_value_text:
  assumes "decimal_ok d"
  shows "decimal_value (decimal_text d) = Some (decimal_real d)"
proof (cases d)
  case (Decimal sg w fr)
  from assms have sg: "sg \<in> {[], ''+'', ''-''}" and fr: "fr \<noteq> []" "list_all is_digit fr"
    and ds: "\<And>ds. w = Some ds \<Longrightarrow> list_all is_digit ds" by (auto simp: Decimal)
  let ?t = "(case w of None \<Rightarrow> [] | Some ds \<Rightarrow> ds @ ''.'') @ fr"
  have "stops is_space ?t" "stops is_sign ?t" using whole_stops [OF ds fr, of w "[]"] by simp_all
  from split_sign_digits [OF sg this]
  have split: "split_sign (dropWhile is_space (decimal_text d)) = (sg = ''-'', ?t)" by (simp add: Decimal)
  show ?thesis
  proof (cases w)
    case None
    then show ?thesis
      using fr by (simp add: decimal_value_def split Let_def all_digits) (simp add: Decimal digits_value_def)
  next
    case (Some u)
    have "takeWhile is_digit ?t = u" "dropWhile is_digit ?t = CHR ''.'' # fr"
      using ds [OF Some] by (simp_all add: Some takeWhile_digits dropWhile_digits)
    then show ?thesis
      using Some fr by (simp add: decimal_value_def split Let_def all_digits) (simp add: Decimal)
  qed
qed

lemma stof_text: "decimal_ok d \<Longrightarrow> stof rnd (decimal_text d) =
    (case rnd (decimal_real d) of None \<Rightarrow> Inl Out_of_range | Some y \<Rightarrow> Inr y)"
  by (simp add: stof_def decimal_value_text)

lemma stoi_digits:
  assumes "u \<noteq> []" and "list_all is_digit u"
  shows "stoi u = (if digits_value u < 2 ^ 31 then Inr (int (digits_value u)) else Inl Out_of_range)"
proof -
  have "split_sign (dropWhile is_space u) = (False, u)"
    using split_sign_digits [of "[]" u] stops_digits(1,2) [OF assms, of "[]"] by simp
  with assms show ?thesis by (simp add: stoi_def Let_def all_digits)
qed

section \<open>The text of a datagram\<close>

text \<open>
  A robot as the camera prints it: digits for its number, three decimal numbers, and blanks of any
  kind wherever the format allows them.
\<close>

record camera_entry =
  e_id :: string
  e_x :: decimal
  e_y :: decimal
  e_orientation :: decimal
  e_pad :: "nat \<Rightarrow> string"

definition label_text :: "string \<Rightarrow> string \<Rightarrow> string \<Rightarrow> string" where
  "label_text nm w w' = (CHR 0x22 # nm @ [CHR 0x22]) @ w @ '':'' @ w'"

definition comma_text :: "string \<Rightarrow> string \<Rightarrow> string" where "comma_text w w' = w @ '','' @ w'"

definition entry_text :: "camera_entry \<Rightarrow> string" where
  "entry_text e =
     label_text ''id'' (e_pad e 0) (e_pad e 1) @ e_id e @ comma_text (e_pad e 2) (e_pad e 3)
     @ label_text ''x'' (e_pad e 4) (e_pad e 5) @ decimal_text (e_x e) @ comma_text (e_pad e 6) (e_pad e 7)
     @ label_text ''y'' (e_pad e 8) (e_pad e 9) @ decimal_text (e_y e) @ comma_text (e_pad e 10) (e_pad e 11)
     @ label_text ''orientation'' (e_pad e 12) (e_pad e 13) @ decimal_text (e_orientation e)"

definition entry_ok :: "camera_entry \<Rightarrow> bool" where
  "entry_ok e \<longleftrightarrow>
     e_id e \<noteq> [] \<and> list_all is_digit (e_id e) \<and> decimal_ok (e_x e) \<and> decimal_ok (e_y e)
     \<and> decimal_ok (e_orientation e) \<and> (\<forall>k. list_all is_space (e_pad e k))"

text \<open>
  The text between the robots may be anything without a quotation mark, as long as it does not
  continue the last number.
\<close>

definition gap_ok :: "string \<Rightarrow> bool" where
  "gap_ok g \<longleftrightarrow> CHR 0x22 \<notin> set g \<and> stops is_digit g \<and> stops ((=) CHR ''.'') g"

fun datagram_text :: "string \<Rightarrow> (camera_entry \<times> string) list \<Rightarrow> string" where
  "datagram_text g [] = g"
| "datagram_text g ((e, g') # es) = g @ entry_text e @ datagram_text g' es"

definition entry_in_range :: "(real \<Rightarrow> real option) \<Rightarrow> camera_entry \<Rightarrow> bool" where
  "entry_in_range rnd e \<longleftrightarrow>
     digits_value (e_id e) < 2 ^ 31 \<and> rnd (decimal_real (e_x e)) \<noteq> None
     \<and> rnd (decimal_real (e_y e)) \<noteq> None \<and> rnd (decimal_real (e_orientation e)) \<noteq> None"

definition entry_values :: "(real \<Rightarrow> real option) \<Rightarrow> camera_entry \<Rightarrow> CameraValues" where
  "entry_values rnd e =
     \<lparr>cam_id = int (digits_value (e_id e)), cam_x = the (rnd (decimal_real (e_x e))),
      cam_y = the (rnd (decimal_real (e_y e))), cam_orientation = the (rnd (decimal_real (e_orientation e)))\<rparr>"

section \<open>Matching an entry\<close>

lemma not_space [simp]:
  "\<not> is_space CHR '':''" "\<not> is_space CHR '',''" "\<not> is_space CHR 0x22" "\<not> is_digit CHR '',''"
  by (simp_all add: is_space_def is_digit_def)

lemma firsts_between:
  assumes "list_all is_space w" and "list_all is_space w'" and "stops is_space t" and "\<not> is_space c"
  shows "firsts [spaces, One ((=) c), spaces] (w @ [c] @ w' @ t) (w @ [c] @ w') t []"
proof -
  have 1: "first spaces (w @ [c] @ w' @ t) w ([c] @ w' @ t) []"
    unfolding spaces_def by (rule first_Many) (use assms in simp_all)
  have 2: "first (One ((=) c)) ([c] @ w' @ t) [c] (w' @ t) []" using first_One [of "(=) c" c] by simp
  have 3: "first spaces (w' @ t) w' t []" unfolding spaces_def by (rule first_Many) (use assms in simp_all)
  from firsts_Cons [OF 1 firsts_Cons [OF 2 firsts_single [OF 3]]] show ?thesis by simp
qed

lemma firsts_label:
  assumes "list_all is_space w" and "list_all is_space w'" and "stops is_space t"
  shows "firsts (label nm) (label_text nm w w' @ t) (label_text nm w w') t []"
proof -
  let ?q = "CHR 0x22 # nm @ [CHR 0x22]"
  have "firsts (chars ?q @ [spaces, One ((=) CHR '':''), spaces]) (?q @ w @ '':'' @ w' @ t) (?q @ w @ '':'' @ w') t ([] @ [])"
    by (rule firsts_append [OF firsts_chars firsts_between [OF assms]]) simp
  then show ?thesis by (simp add: label_def label_text_def)
qed

lemma firsts_comma:
  assumes "list_all is_space w" and "list_all is_space w'" and "stops is_space t"
  shows "firsts comma (comma_text w w' @ t) (comma_text w w') t []"
  using firsts_between [OF assms, of "CHR '',''"] by (simp add: comma_def comma_text_def)

lemma comma_stops:
  assumes "list_all is_space w"
  shows "stops is_digit (comma_text w w' @ t)" and "stops ((=) CHR ''.'') (comma_text w w' @ t)"
proof -
  have sp: "\<not> is_digit c" "c \<noteq> CHR ''.''" if "is_space c" for c using that class_disjoint(1) point(3) by blast+
  show "stops is_digit (comma_text w w' @ t)" "stops ((=) CHR ''.'') (comma_text w w' @ t)"
    using assms sp by (cases w; force simp: comma_text_def)+
qed

lemma label_stops [simp]: "stops is_space (label_text nm w w' @ t)"
  by (simp add: label_text_def)

lemma decimal_stops: "decimal_ok d \<Longrightarrow> stops is_space (decimal_text d @ t)"
proof (cases d)
  case (Decimal sg w fr)
  assume "decimal_ok d"
  then have "sg = [] \<or> (\<exists>c. sg = [c] \<and> is_sign c)" and fr: "fr \<noteq> []" "list_all is_digit fr"
    and ds: "\<And>ds. w = Some ds \<Longrightarrow> list_all is_digit ds" by (auto simp: Decimal is_sign_def)
  with whole_stops(2) [OF ds fr, of w t] show ?thesis by (auto simp: Decimal class_disjoint)
qed

text \<open>A comma, a name and its number, in front of what matches the rest.\<close>

lemma firsts_number_field:
  assumes "decimal_ok d" and w: "\<And>k. list_all is_space (w k)"
    and rest: "firsts rs v u t cs" and v: "stops is_digit v" "stops ((=) CHR ''.'') v"
  obtains c where "firsts (comma @ label nm @ [Group n (number n)] @ rs)
      (comma_text (w i) (w j) @ label_text nm (w k) (w l) @ decimal_text d @ v)
      (comma_text (w i) (w j) @ label_text nm (w k) (w l) @ decimal_text d @ u) t ((n, decimal_text d) # c @ cs)"
    and "fst ` set c \<subseteq> {n + 1}"
proof -
  obtain c where c: "first (number n) (decimal_text d @ v) (decimal_text d) v c" "fst ` set c \<subseteq> {n + 1}"
    using first_number [OF assms(1) v] by blast
  note g = firsts_append [OF firsts_single [OF first_Group [OF c(1)]] rest]
  note g = firsts_append [OF firsts_label [OF w [of k] w [of l] decimal_stops [OF assms(1)], of nm] g]
  note g = firsts_append [OF firsts_comma [OF w [of i] w [of j] label_stops] g]
  show ?thesis by (rule that [OF _ c(2)]) (use g [of n] in simp)
qed

lemma map_of_apart: "fst ` set cs \<subseteq> {k} \<Longrightarrow> n \<noteq> k \<Longrightarrow> map_of (cs @ ds) n = map_of ds n"
  by (induction cs) auto

lemma str_groups:
  assumes "fst ` set c2 \<subseteq> {2 + 1}" and "fst ` set c4 \<subseteq> {4 + 1}"
    and cs: "cs = (1, i) # (2, x) # c2 @ (4, y) # c4 @ (6, th) # c6"
  shows "str cs 1 = i" and "str cs 2 = x" and "str cs 4 = y" and "str cs 6 = th"
  using map_of_apart [OF assms(1)] map_of_apart [OF assms(2)]
  by (simp_all add: str_def cs del: map_of_append)

lemma first_entry:
  assumes e: "entry_ok e" and t: "stops is_digit t" "stops ((=) CHR ''.'') t"
  shows "\<exists>cs. first camera_re (entry_text e @ t) (entry_text e) t cs
    \<and> str cs 1 = e_id e \<and> str cs 2 = decimal_text (e_x e) \<and> str cs 4 = decimal_text (e_y e)
    \<and> str cs 6 = decimal_text (e_orientation e)"
proof -
  have pad: "list_all is_space (e_pad e k)" for k using e by (simp add: entry_ok_def)
  have dec: "decimal_ok (e_x e)" "decimal_ok (e_y e)" "decimal_ok (e_orientation e)"
    and i: "e_id e \<noteq> []" "list_all is_digit (e_id e)" using e by (simp_all add: entry_ok_def)
  note ends = comma_stops [OF pad]
  from firsts_number_field [OF dec(3) pad firsts_Nil t, where nm = "''orientation''" and n = 6 and i = 10 and j = 11 and k = 12 and l = 13]
  obtain c6 where c6: "firsts (comma @ label ''orientation'' @ [Group 6 (number 6)] @ [])
      (comma_text (e_pad e 10) (e_pad e 11) @ label_text ''orientation'' (e_pad e 12) (e_pad e 13)
        @ decimal_text (e_orientation e) @ t)
      (comma_text (e_pad e 10) (e_pad e 11) @ label_text ''orientation'' (e_pad e 12) (e_pad e 13)
        @ decimal_text (e_orientation e) @ []) t ((6, decimal_text (e_orientation e)) # c6 @ [])" .
  from firsts_number_field [OF dec(2) pad c6 ends, where nm = "''y''" and n = 4 and i = 6 and j = 7 and k = 8 and l = 9]
  obtain c4 where c4: "firsts (comma @ label ''y'' @ [Group 4 (number 4)] @ comma @ label ''orientation'' @ [Group 6 (number 6)] @ [])
      (comma_text (e_pad e 6) (e_pad e 7) @ label_text ''y'' (e_pad e 8) (e_pad e 9) @ decimal_text (e_y e)
        @ comma_text (e_pad e 10) (e_pad e 11) @ label_text ''orientation'' (e_pad e 12) (e_pad e 13)
        @ decimal_text (e_orientation e) @ t)
      (comma_text (e_pad e 6) (e_pad e 7) @ label_text ''y'' (e_pad e 8) (e_pad e 9) @ decimal_text (e_y e)
        @ comma_text (e_pad e 10) (e_pad e 11) @ label_text ''orientation'' (e_pad e 12) (e_pad e 13)
        @ decimal_text (e_orientation e) @ []) t
      ((4, decimal_text (e_y e)) # c4 @ (6, decimal_text (e_orientation e)) # c6 @ [])" "fst ` set c4 \<subseteq> {4 + 1}" .
  from firsts_number_field [OF dec(1) pad c4(1) ends, where nm = "''x''" and n = 2 and i = 2 and j = 3 and k = 4 and l = 5]
  obtain c2 where c2: "firsts (comma @ label ''x'' @ [Group 2 (number 2)] @ comma @ label ''y'' @ [Group 4 (number 4)]
        @ comma @ label ''orientation'' @ [Group 6 (number 6)] @ [])
      (comma_text (e_pad e 2) (e_pad e 3) @ label_text ''x'' (e_pad e 4) (e_pad e 5) @ decimal_text (e_x e)
        @ comma_text (e_pad e 6) (e_pad e 7) @ label_text ''y'' (e_pad e 8) (e_pad e 9) @ decimal_text (e_y e)
        @ comma_text (e_pad e 10) (e_pad e 11) @ label_text ''orientation'' (e_pad e 12) (e_pad e 13)
        @ decimal_text (e_orientation e) @ t)
      (comma_text (e_pad e 2) (e_pad e 3) @ label_text ''x'' (e_pad e 4) (e_pad e 5) @ decimal_text (e_x e)
        @ comma_text (e_pad e 6) (e_pad e 7) @ label_text ''y'' (e_pad e 8) (e_pad e 9) @ decimal_text (e_y e)
        @ comma_text (e_pad e 10) (e_pad e 11) @ label_text ''orientation'' (e_pad e 12) (e_pad e 13)
        @ decimal_text (e_orientation e) @ []) t
      ((2, decimal_text (e_x e)) # c2 @ (4, decimal_text (e_y e)) # c4 @ (6, decimal_text (e_orientation e)) # c6 @ [])"
    "fst ` set c2 \<subseteq> {2 + 1}" .
  note g = firsts_append [OF firsts_single [OF first_Group [OF first_digits [OF i ends(1)]]] c2(1), of 1]
  note g = firsts_append [OF firsts_label [OF pad [of 0] pad [of 1] stops_digits(2) [OF i], of "''id''"] g]
  from firsts_first [OF g]
  have f: "first camera_re (entry_text e @ t) (entry_text e) t
      ((1, e_id e) # (2, decimal_text (e_x e)) # c2 @ (4, decimal_text (e_y e)) # c4 @ (6, decimal_text (e_orientation e)) # c6)"
    by (simp add: camera_re_def entry_text_def)
  show ?thesis by (intro exI conjI, rule f, (rule str_groups [OF c2(2) c4(2) refl])+)
qed

section \<open>All the entries of a datagram\<close>

lemma search_skip:
  assumes "CHR 0x22 \<notin> set g"
  shows "search camera_re (g @ s) = search camera_re s"
  using assms
proof (induction g)
  case (Cons c g)
  obtain r where r: "camera_re = Seq (One ((=) CHR 0x22)) r" using camera_re_quote by blast
  from Cons.prems have "runs camera_re (c # g @ s) = []" unfolding r by simp
  with Cons show ?case by simp
qed simp

lemma search_first: "first r s u t cs \<Longrightarrow> search r s = Some (t, cs)"
  by (cases s) (auto simp: first_def)

lemma camera_matches_gap: "CHR 0x22 \<notin> set g \<Longrightarrow> camera_matches g = []"
proof -
  assume "CHR 0x22 \<notin> set g"
  from search_skip [OF this, of "[]"] have "search camera_re g = search camera_re []" by simp
  moreover obtain r where r: "camera_re = Seq (One ((=) CHR 0x22)) r" using camera_re_quote by blast
  have "search camera_re [] = None" unfolding r by simp
  ultimately show ?thesis by (simp add: camera_matches.simps [of g])
qed

lemma gap_stops: "gap_ok g \<Longrightarrow> stops is_digit (datagram_text g es) \<and> stops ((=) CHR ''.'') (datagram_text g es)"
proof -
  assume g: "gap_ok g"
  have "stops p (entry_text e @ t)" if "\<not> p CHR 0x22" for p e t
    using that by (simp add: entry_text_def label_text_def)
  moreover have "\<not> is_digit CHR 0x22" by (simp add: is_digit_def)
  ultimately show ?thesis using g by (cases es) (auto simp: gap_ok_def stops_append)
qed

definition captures_of :: "captures \<Rightarrow> camera_entry \<Rightarrow> bool" where
  "captures_of cs e \<longleftrightarrow> str cs 1 = e_id e \<and> str cs 2 = decimal_text (e_x e)
     \<and> str cs 4 = decimal_text (e_y e) \<and> str cs 6 = decimal_text (e_orientation e)"

lemma camera_matches_text:
  "CHR 0x22 \<notin> set g \<Longrightarrow> list_all (\<lambda>(e, g). entry_ok e \<and> gap_ok g) es \<Longrightarrow>
    list_all2 captures_of (camera_matches (datagram_text g es)) (map fst es)"
proof (induction es arbitrary: g)
  case Nil
  then show ?case by (simp add: camera_matches_gap)
next
  case (Cons eg es)
  obtain e g' where eg: "eg = (e, g')" by fastforce
  with Cons.prems have e: "entry_ok e" "gap_ok g'" by simp_all
  then obtain cs where "first camera_re (entry_text e @ datagram_text g' es) (entry_text e) (datagram_text g' es) cs"
    and cs: "captures_of cs e"
    using first_entry [OF e(1), of "datagram_text g' es"] gap_stops [OF e(2)] by (auto simp: captures_of_def)
  from search_first [OF this(1)] search_skip [OF Cons.prems(1)]
  have "camera_matches (datagram_text g (eg # es)) = cs # camera_matches (datagram_text g' es)"
    by (simp add: eg camera_matches.simps [of "g @ entry_text e @ datagram_text g' es"])
  with cs Cons.IH [of g'] Cons.prems e(2) show ?case by (simp add: eg gap_ok_def)
qed

lemma read_match_entry:
  assumes "captures_of cs e" and "entry_ok e"
  shows "read_match rnd cs = (if entry_in_range rnd e then Inr (entry_values rnd e) else Inl Out_of_range)"
  using assms stoi_digits [of "e_id e"] stof_text [of _ rnd]
  by (auto simp: captures_of_def entry_ok_def read_match_def attempt_def entry_in_range_def entry_values_def
      split: option.splits)

lemma read_matches_entries:
  "list_all2 captures_of css es \<Longrightarrow> list_all entry_ok es \<Longrightarrow> read_matches rnd css =
    (if list_all (entry_in_range rnd) es then Inr (map (entry_values rnd) es) else Inl Out_of_range)"
proof (induction rule: list_all2_induct)
  case (Cons cs css e es)
  then show ?case by (simp add: read_match_entry attempt_def)
qed simp

section \<open>Arbitrary bytes\<close>

text \<open>What an outcome of a sequence captured, part by part.\<close>

lemma runs_Seq:
  assumes "(u, t, cs) \<in> set (runs (Seq q r) s)"
  obtains u1 t1 cs1 u2 cs2 where "(u1, t1, cs1) \<in> set (runs q s)" and "(u2, t, cs2) \<in> set (runs r t1)"
    and "u = u1 @ u2" and "cs = cs1 @ cs2"
  using assms by auto

lemma runs_append:
  "(u, t, cs) \<in> set (runs (seqs (qs @ rs)) s) \<Longrightarrow>
    \<exists>u1 t1 cs1 u2 cs2. (u1, t1, cs1) \<in> set (runs (seqs qs) s) \<and> (u2, t, cs2) \<in> set (runs (seqs rs) t1)
      \<and> u = u1 @ u2 \<and> cs = cs1 @ cs2"
proof (induction qs arbitrary: s u cs)
  case (Cons q qs)
  then obtain v t1 c1 v' c2 where 1: "(v, t1, c1) \<in> set (runs q s)" "(v', t, c2) \<in> set (runs (seqs (qs @ rs)) t1)"
    and e: "u = v @ v'" "cs = c1 @ c2" by auto
  from Cons.IH [OF 1(2)] obtain u1 t2 d1 u2 d2 where 2: "(u1, t2, d1) \<in> set (runs (seqs qs) t1)"
    "(u2, t, d2) \<in> set (runs (seqs rs) t2)" "v' = u1 @ u2" "c2 = d1 @ d2" by blast
  have "(v @ u1, t2, c1 @ d1) \<in> set (runs (seqs (q # qs)) s)" using 1(1) 2(1) by force
  with 2 e show ?case by (metis append_assoc)
qed auto

lemma runs_no_groups:
  "list_all (\<lambda>r. (\<exists>p. r = One p) \<or> (\<exists>p. r = Many p)) rs \<Longrightarrow> (u, t, cs) \<in> set (runs (seqs rs) s) \<Longrightarrow> cs = []"
proof (induction rs arbitrary: s u cs)
  case (Cons r rs)
  then obtain v t1 c1 v' c2 where "(v, t1, c1) \<in> set (runs r s)" "(v', t, c2) \<in> set (runs (seqs rs) t1)" "cs = c1 @ c2"
    by auto
  with Cons show ?case by (auto split: list.splits if_splits)
qed auto

lemma no_groups:
  "list_all (\<lambda>r. (\<exists>p. r = One p) \<or> (\<exists>p. r = Many p)) (label nm)"
  "list_all (\<lambda>r. (\<exists>p. r = One p) \<or> (\<exists>p. r = Many p)) comma"
  by (auto simp: label_def comma_def chars_def spaces_def list_all_iff)

lemma runs_digits: "(u, t, cs) \<in> set (runs digits s) \<Longrightarrow> u \<noteq> [] \<and> list_all is_digit u \<and> cs = []"
  by (auto simp: digits_def dest: greedy_split split: list.splits if_splits)

lemma runs_number:
  assumes "(u, t, cs) \<in> set (runs (number n) s)"
  shows "\<exists>d. decimal_ok d \<and> u = decimal_text d" and "fst ` set cs \<subseteq> {n + 1}"
proof -
  from assms [unfolded number_def seqs.simps] obtain sg t1 c1 v c' where
    1: "(sg, t1, c1) \<in> set (runs (Opt (One is_sign)) s)" and e1: "u = sg @ v" "cs = c1 @ c'"
    and r: "(v, t, c') \<in> set (runs (Seq (Opt (Group (n + 1) (Seq (Many is_digit) (One ((=) CHR ''.'')))))
      (Seq digits Empty)) t1)" by (rule runs_Seq)
  from r obtain w t2 c2 fr c3 where
    2: "(w, t2, c2) \<in> set (runs (Opt (Group (n + 1) (Seq (Many is_digit) (One ((=) CHR ''.''))))) t1)"
    and r: "(fr, t, c3) \<in> set (runs (Seq digits Empty) t2)" and e2: "v = w @ fr" "c' = c2 @ c3" by (rule runs_Seq)
  have 3: "(fr, t, c3) \<in> set (runs digits t2)" using r by (rule runs_Seq) simp
  note e = e1 [unfolded e2]
  have sg: "sg \<in> {[], ''+'', ''-''} \<and> c1 = []" using 1 by (auto simp: is_sign_def split: list.splits if_splits)
  have w: "(w = [] \<or> (\<exists>ds. w = ds @ ''.'' \<and> list_all is_digit ds)) \<and> fst ` set c2 \<subseteq> {n + 1}"
    using 2 by (auto dest: greedy_split split: list.splits if_splits)
  note fr = runs_digits [OF 3]
  show "fst ` set cs \<subseteq> {n + 1}" using sg w fr by (simp add: e)
  from w show "\<exists>d. decimal_ok d \<and> u = decimal_text d"
  proof (elim conjE disjE exE)
    assume "w = []"
    with sg fr show ?thesis by (intro exI [of _ "Decimal sg None fr"]) (simp add: e)
  next
    fix ds assume "w = ds @ ''.''" "list_all is_digit ds"
    with sg fr show ?thesis by (intro exI [of _ "Decimal sg (Some ds) fr"]) (simp add: e)
  qed
qed

lemma runs_label:
  assumes "(u, t, cs) \<in> set (runs (seqs (label nm @ rs)) s)"
  obtains u' t' where "(u', t, cs) \<in> set (runs (seqs rs) t')"
proof -
  from runs_append [OF assms] obtain u1 t1 cs1 u2 cs2 where "(u1, t1, cs1) \<in> set (runs (seqs (label nm)) s)"
    and r: "(u2, t, cs2) \<in> set (runs (seqs rs) t1)" "cs = cs1 @ cs2" by blast
  with runs_no_groups [OF no_groups(1)] have "cs1 = []" by blast
  with r that show ?thesis by simp
qed

lemma runs_comma_label:
  assumes "(u, t, cs) \<in> set (runs (seqs (comma @ label nm @ rs)) s)"
  obtains u' t' where "(u', t, cs) \<in> set (runs (seqs rs) t')"
proof -
  from runs_append [OF assms] obtain u1 t1 cs1 u2 cs2 where "(u1, t1, cs1) \<in> set (runs (seqs comma) s)"
    and r: "(u2, t, cs2) \<in> set (runs (seqs (label nm @ rs)) t1)" "cs = cs1 @ cs2" by blast
  with runs_no_groups [OF no_groups(2)] have "cs1 = []" by blast
  then show ?thesis using runs_label [OF r(1)] r(2) that by auto
qed

lemma runs_number_group:
  assumes "(u, t, cs) \<in> set (runs (seqs ([Group n (number n)] @ rs)) s)"
  obtains d c cs' u' t' where "decimal_ok d" and "cs = (n, decimal_text d) # c @ cs'" and "fst ` set c \<subseteq> {n + 1}"
    and "(u', t, cs') \<in> set (runs (seqs rs) t')"
proof -
  from assms obtain v t1 c u' cs' where "(v, t1, c) \<in> set (runs (number n) s)"
    and r: "(u', t, cs') \<in> set (runs (seqs rs) t1)" "cs = (n, v) # c @ cs'" by auto
  with runs_number [OF this(1)] that show ?thesis by blast
qed

lemma runs_camera_re:
  assumes "(u, t, cs) \<in> set (runs camera_re s)"
  shows "str cs 1 \<noteq> []" and "list_all is_digit (str cs 1)"
    and "k \<in> {2, 4, 6} \<Longrightarrow> \<exists>d. decimal_ok d \<and> str cs k = decimal_text d"
proof -
  from runs_label [OF assms [unfolded camera_re_def]] obtain u1 s1
    where 1: "(u1, t, cs) \<in> set (runs (seqs ([Group 1 digits] @ comma @ label ''x'' @ [Group 2 (number 2)] @ comma
       @ label ''y'' @ [Group 4 (number 4)] @ comma @ label ''orientation'' @ [Group 6 (number 6)])) s1)" .
  then have "(u1, t, cs) \<in> set (runs (Seq (Group 1 digits) (seqs (comma @ label ''x'' @ [Group 2 (number 2)] @ comma
       @ label ''y'' @ [Group 4 (number 4)] @ comma @ label ''orientation'' @ [Group 6 (number 6)]))) s1)"
    by (simp only: append_Cons append_Nil seqs.simps)
  then obtain i t1 c1 u2 cs1 where i: "(i, t1, c1) \<in> set (runs digits s1)" "cs = (1, i) # c1 @ cs1"
    and 2: "(u2, t, cs1) \<in> set (runs (seqs (comma @ label ''x'' @ [Group 2 (number 2)] @ comma
       @ label ''y'' @ [Group 4 (number 4)] @ comma @ label ''orientation'' @ [Group 6 (number 6)])) t1)"
    by (rule runs_Seq) auto
  from runs_comma_label [OF 2] obtain u3 s3 where
    "(u3, t, cs1) \<in> set (runs (seqs ([Group 2 (number 2)] @ comma
       @ label ''y'' @ [Group 4 (number 4)] @ comma @ label ''orientation'' @ [Group 6 (number 6)])) s3)" .
  then obtain dx c2 cs2 u4 s4 where x: "decimal_ok dx" "cs1 = (2, decimal_text dx) # c2 @ cs2" "fst ` set c2 \<subseteq> {2 + 1}"
    and 4: "(u4, t, cs2) \<in> set (runs (seqs (comma @ label ''y'' @ [Group 4 (number 4)] @ comma
       @ label ''orientation'' @ [Group 6 (number 6)])) s4)" by (rule runs_number_group)
  from runs_comma_label [OF 4] obtain u5 s5 where
    "(u5, t, cs2) \<in> set (runs (seqs ([Group 4 (number 4)] @ comma
       @ label ''orientation'' @ [Group 6 (number 6)])) s5)" .
  then obtain dy c4 cs4 u6 s6 where y: "decimal_ok dy" "cs2 = (4, decimal_text dy) # c4 @ cs4" "fst ` set c4 \<subseteq> {4 + 1}"
    and 6: "(u6, t, cs4) \<in> set (runs (seqs (comma @ label ''orientation'' @ [Group 6 (number 6)])) s6)"
    by (rule runs_number_group)
  from runs_comma_label [OF 6] obtain u7 s7 where
    "(u7, t, cs4) \<in> set (runs (seqs [Group 6 (number 6)]) s7)" .
  then have "(u7, t, cs4) \<in> set (runs (seqs ([Group 6 (number 6)] @ [])) s7)" by (simp only: append_Nil2)
  then obtain dth c6 cs6 where th: "decimal_ok dth" "cs4 = (6, decimal_text dth) # c6 @ cs6" by (rule runs_number_group)
  note d = runs_digits [OF i(1)]
  have cs: "cs = (1, i) # (2, decimal_text dx) # c2 @ (4, decimal_text dy) # c4 @ (6, decimal_text dth) # c6 @ cs6"
    using d by (simp add: i x y th)
  note g = str_groups [OF x(3) y(3) cs]
  show "str cs 1 \<noteq> []" "list_all is_digit (str cs 1)" using d g(1) by simp_all
  show "\<exists>d. decimal_ok d \<and> str cs k = decimal_text d" if "k \<in> {2, 4, 6}"
    using that g x(1) y(1) th(1) by auto
qed

lemma camera_matches_captured:
  "cs \<in> set (camera_matches s) \<Longrightarrow> \<exists>u t s'. (u, t, cs) \<in> set (runs camera_re s')"
proof (induction s rule: camera_matches.induct)
  case (1 s)
  show ?case
  proof (cases "search camera_re s")
    case None
    with 1(2) show ?thesis by (simp add: camera_matches.simps [of s])
  next
    case (Some m)
    obtain t cs' where m: "m = (t, cs')" by fastforce
    have "camera_matches s = cs' # camera_matches t" by (subst camera_matches.simps) (simp add: Some m)
    with 1(2) have "cs = cs' \<or> cs \<in> set (camera_matches t)" by simp
    then show ?thesis
    proof
      assume "cs = cs'"
      with Some m have "search camera_re s = Some (t, cs)" by simp
      then obtain a u where "(u, t, cs) \<in> set (runs camera_re (u @ t))" by (rule search_Some)
      then show ?thesis by blast
    next
      assume "cs \<in> set (camera_matches t)"
      from 1(1) [OF Some m [symmetric] this] show ?thesis .
    qed
  qed
qed

lemma read_match_captured:
  assumes "(u, t, cs) \<in> set (runs camera_re s)"
  shows "read_match rnd cs = Inl Out_of_range \<or> (\<exists>v. read_match rnd cs = Inr v \<and> 0 \<le> cam_id v \<and> cam_id v < 2 ^ 31)"
proof -
  note c = runs_camera_re [OF assms]
  have f: "stof rnd (str cs k) = Inl Out_of_range \<or> (\<exists>y. stof rnd (str cs k) = Inr y)" if "k \<in> {2, 4, 6}" for k
    using c(3) [OF that] stof_text by (force split: option.splits)
  from f [of 2] f [of 4] f [of 6] stoi_digits [OF c(1,2)] show ?thesis
    by (auto simp: read_match_def attempt_def)
qed

lemma read_matches_captured:
  "list_all (\<lambda>cs. \<exists>u t s. (u, t, cs) \<in> set (runs camera_re s)) css \<Longrightarrow>
    read_matches rnd css = Inl Out_of_range
    \<or> (\<exists>vs. read_matches rnd css = Inr vs \<and> list_all (\<lambda>v. 0 \<le> cam_id v \<and> cam_id v < 2 ^ 31) vs)"
proof (induction css)
  case (Cons cs css)
  then obtain u t s where "(u, t, cs) \<in> set (runs camera_re s)" by auto
  from read_match_captured [OF this, of rnd] Cons show ?case by (auto simp: attempt_def)
qed simp

section \<open>Properties\<close>

text \<open>
  Property C14. The receiver reads what the camera prints. If a datagram lists robots in the format
  of the regular expression, with any blanks, any signs and fractions, and any text without
  quotation marks between them, then afterwards the latest values are exactly these robots, in
  order, provided that every number is in range; if one of them is not, the conversion throws,
  and as nothing catches the exception the thread ends, and the program with it.
\<close>

theorem camera_datagram_read:
  assumes "CHR 0x22 \<notin> set g" and "list_all (\<lambda>(e, g). entry_ok e \<and> gap_ok g) es"
    and "length (datagram_text g es) \<le> CAMERA_BUFFER_SIZE" and "0 \<le> sock_fd c" and "cam_running c" and "es \<noteq> []"
  shows "ReceiveLoop rnd [Datagram (datagram_text g es)] c =
    (if list_all (entry_in_range rnd) (map fst es)
     then Inr (c\<lparr>latest_values := map (entry_values rnd) (map fst es)\<rparr>) else Inl Out_of_range)"
proof -
  have "list_all entry_ok (map fst es)" using assms(2) by (auto simp: list_all_iff)
  from read_matches_entries [OF camera_matches_text [OF assms(1,2)] this]
  show ?thesis using assms(3-)
    by (simp add: receive_round_def discovered_robots_def attempt_def)
qed

text \<open>
  A robot at $(-12.5, 40)$ whose orientation the camera prints as \<open>1e-05\<close>: the exponent is taken for
  text behind the number, so the orientation is read as 1.
\<close>

definition demo_entry :: camera_entry where
  "demo_entry =
     \<lparr>e_id = ''3'', e_x = Decimal ''-'' (Some ''12'') ''5'', e_y = Decimal [] None ''40'',
      e_orientation = Decimal [] None ''1'', e_pad = (\<lambda>k. if k = 1 then '' '' else [])\<rparr>"

theorem camera_datagram_read_witness:
  "ReceiveLoop Some [Datagram (datagram_text ''[{'' [(demo_entry, ''e-05}]'')])] (CameraComm_new 7 True)
     = Inr \<lparr>sock_fd = 7, cam_running = True,
            latest_values = [\<lparr>cam_id = 3, cam_x = -25 / 2, cam_y = 40, cam_orientation = 1\<rparr>]\<rparr>"
proof -
  have "entry_ok demo_entry" by (simp add: entry_ok_def demo_entry_def is_digit_def is_space_def)
  moreover have "gap_ok ''e-05}]''" by (simp add: gap_ok_def is_digit_def)
  moreover have "length (datagram_text ''[{'' [(demo_entry, ''e-05}]'')]) \<le> CAMERA_BUFFER_SIZE"
    by (simp add: entry_text_def label_text_def comma_text_def demo_entry_def CAMERA_BUFFER_SIZE_def)
  moreover have "entry_in_range Some demo_entry"
    by (simp add: entry_in_range_def demo_entry_def digits_value_def digit_value_def)
  moreover have "entry_values Some demo_entry = \<lparr>cam_id = 3, cam_x = -25 / 2, cam_y = 40, cam_orientation = 1\<rparr>"
    by (simp add: entry_values_def demo_entry_def digits_value_def digit_value_def)
  ultimately show ?thesis
    using camera_datagram_read [of "''[{''" "[(demo_entry, ''e-05}]'')]" "CameraComm_new 7 True" Some]
    by (simp add: CameraComm_new_def)
qed

text \<open>
  Property C15. Whatever bytes arrive, in whatever number of datagrams: the conversions never meet a
  string that is not a number, so the only exception is the one for a number out of range; and the
  values the loop stores all have an \<open>int\<close> for their number that is not negative.
\<close>

theorem camera_values_typed:
  assumes "list_all (\<lambda>v. 0 \<le> cam_id v \<and> cam_id v < 2 ^ 31) (latest_values c)"
  shows "case ReceiveLoop rnd evs c of
      Inl e \<Rightarrow> e = Out_of_range
    | Inr c' \<Rightarrow> list_all (\<lambda>v. 0 \<le> cam_id v \<and> cam_id v < 2 ^ 31) (GetCameraValues c')"
  using assms
proof (induction evs arbitrary: c)
  case (Cons ev evs)
  have round: "receive_round rnd ev c = Inl Out_of_range
    \<or> (\<exists>c'. receive_round rnd ev c = Inr c' \<and> list_all (\<lambda>v. 0 \<le> cam_id v \<and> cam_id v < 2 ^ 31) (latest_values c'))"
  proof (cases ev)
    case (Datagram s)
    have "list_all (\<lambda>cs. \<exists>u t s. (u, t, cs) \<in> set (runs camera_re s)) (camera_matches (take CAMERA_BUFFER_SIZE s))"
      using camera_matches_captured by (auto simp: list_all_iff)
    from read_matches_captured [OF this, of rnd] Cons.prems show ?thesis
      by (auto simp: Datagram receive_round_def discovered_robots_def attempt_def)
  qed (use Cons.prems in \<open>simp_all add: receive_round_def\<close>)
  with Cons show ?case by (auto simp: attempt_def GetCameraValues_def)
qed (simp add: GetCameraValues_def)

theorem camera_values_typed_witness:
  "case ReceiveLoop Some [Datagram ''abc'', Would_block, Datagram (replicate 70000 CHR ''9'')] (CameraComm_new 7 True) of
      Inl e \<Rightarrow> e = Out_of_range
    | Inr c' \<Rightarrow> list_all (\<lambda>v. 0 \<le> cam_id v \<and> cam_id v < 2 ^ 31) (GetCameraValues c')"
  by (rule camera_values_typed) (simp add: CameraComm_new_def)

end
