(* ===== verification/PbFlatItems.thy ===== *)
theory PbFlatItems
  imports PbFlatSafe
begin

text \<open>
  The decoder on any sequence of records: the fields of the message in any order and number, mixed
  with fields the descriptor does not know, which a later version of the protocol might send. The
  unknown ones are skipped whatever their wire type, and of a repeated field the last value counts.
\<close>

section \<open>Records on the wire\<close>

datatype wire_item =
    Known nat "32 word"
  | Unknown_varint "32 word" "64 word"
  | Unknown_64bit "32 word" "pb_byte list"
  | Unknown_string "32 word" "pb_byte list"
  | Unknown_32bit "32 word" "pb_byte list"

definition wire_key :: "32 word \<Rightarrow> wire_type \<Rightarrow> 32 word" where
  "wire_key tg wt = push_bit 3 tg OR wt"

fun item_tag :: "pb_bind_field list \<Rightarrow> wire_item \<Rightarrow> 32 word" where
  "item_tag fs (Known j v) = bf_tag (fs ! j)"
| "item_tag fs (Unknown_varint tg v) = tg"
| "item_tag fs (Unknown_64bit tg bs) = tg"
| "item_tag fs (Unknown_string tg bs) = tg"
| "item_tag fs (Unknown_32bit tg bs) = tg"

fun item_wt :: "pb_bind_field list \<Rightarrow> wire_item \<Rightarrow> wire_type" where
  "item_wt fs (Known j v) = flat_wt (fs ! j)"
| "item_wt fs (Unknown_varint tg v) = PB_WT_VARINT"
| "item_wt fs (Unknown_64bit tg bs) = PB_WT_64BIT"
| "item_wt fs (Unknown_string tg bs) = PB_WT_STRING"
| "item_wt fs (Unknown_32bit tg bs) = PB_WT_32BIT"

fun item_payload :: "pb_bind_field list \<Rightarrow> wire_item \<Rightarrow> pb_byte list" where
  "item_payload fs (Known j v) = flat_payload (fs ! j) v"
| "item_payload fs (Unknown_varint tg v) = leb128 v"
| "item_payload fs (Unknown_64bit tg bs) = bs"
| "item_payload fs (Unknown_string tg bs) = leb128 (of_nat (length bs)) @ bs"
| "item_payload fs (Unknown_32bit tg bs) = bs"

definition item_bytes :: "pb_bind_field list \<Rightarrow> wire_item \<Rightarrow> pb_byte list" where
  "item_bytes fs it = leb128 (ucast (wire_key (item_tag fs it) (item_wt fs it))) @ item_payload fs it"

definition unknown_tag :: "pb_bind_field list \<Rightarrow> 32 word \<Rightarrow> bool" where
  "unknown_tag fs tg \<longleftrightarrow> tg \<noteq> 0 \<and> PB_FITS tg 29 \<and> tg \<notin> bf_tag ` set fs"

fun item_ok :: "pb_bind_field list \<Rightarrow> wire_item \<Rightarrow> bool" where
  "item_ok fs (Known j v) \<longleftrightarrow> j < length fs"
| "item_ok fs (Unknown_varint tg v) \<longleftrightarrow> unknown_tag fs tg"
| "item_ok fs (Unknown_64bit tg bs) \<longleftrightarrow> unknown_tag fs tg \<and> length bs = 8"
| "item_ok fs (Unknown_string tg bs) \<longleftrightarrow> unknown_tag fs tg \<and> length bs < 2 ^ 32"
| "item_ok fs (Unknown_32bit tg bs) \<longleftrightarrow> unknown_tag fs tg \<and> length bs = 4"

text \<open>The value of field \<open>x\<close> behind a sequence of records.\<close>

fun last_value :: "wire_item list \<Rightarrow> nat \<Rightarrow> 32 word \<Rightarrow> 32 word" where
  "last_value [] x v = v"
| "last_value (Known j w # items) x v = last_value items x (if j = x then w else v)"
| "last_value (_ # items) x v = last_value items x v"

section \<open>Keys\<close>

lemma item_wt_bit: "bit (item_wt fs it) n \<Longrightarrow> n < 3"
proof (rule PB_FITS_bit)
  show "PB_FITS (item_wt fs it) 3" by (cases it) (simp_all add: PB_FITS_def pb_wire_values flat_wt_def)
qed

lemma wire_key_split:
  assumes "PB_FITS tg 29" and "\<And>n. bit wt n \<Longrightarrow> n < 3"
  shows "wire_key tg wt AND 7 = wt" and "drop_bit 3 (wire_key tg wt) = tg"
proof -
  note b = PB_FITS_bit [OF assms(1)]
  have m7: "(w :: 32 word) AND 7 = take_bit 3 w" for w by (simp add: take_bit_eq_mask mask_eq_exp_minus_1)
  show "wire_key tg wt AND 7 = wt"
    unfolding m7 wire_key_def by (rule bit_word_eqI) (simp only: info_bits, auto dest: assms(2))
  show "drop_bit 3 (wire_key tg wt) = tg"
    unfolding wire_key_def by (rule bit_word_eqI) (simp only: info_bits, auto dest: assms(2) b)
qed

lemma item_key_at:
  assumes "PB_FITS (item_tag fs it) 29" and "at_bytes s m (item_bytes fs it)"
  shows "\<exists>s'. pb_decode_tag E s m = (True, s', item_wt fs it, item_tag fs it, False)
    \<and> at_bytes s' m (item_payload fs it)
    \<and> skip_ahead (length (item_payload fs it)) s' = skip_ahead (length (item_bytes fs it)) s"
proof -
  let ?k = "wire_key (item_tag fs it) (item_wt fs it)"
  note at = at_bytes_append [OF assms(2) [unfolded item_bytes_def]]
  have "bytes_left s \<noteq> 0"
    using at(1) by (cases "leb128 (ucast ?k)") (auto simp: at_bytes_def leb128_nonempty)
  then show ?thesis
    using decode_varint32_at [OF at(1), of E] at(2) wire_key_split [OF assms(1) item_wt_bit]
    by (simp add: pb_decode_tag_def item_bytes_def add.commute)
qed

section \<open>Skipping\<close>

lemma skip_varint_at:
  "at_bytes s m (leb128 v) \<Longrightarrow> pb_skip_varint E s m = Some (True, skip_ahead (length (leb128 v)) s)"
proof (induction v arbitrary: s rule: leb128.induct)
  case (1 v)
  obtain b bs where l: "leb128 v = b # bs" by (cases "leb128 v") auto
  with "1.prems" have at: "at_bytes s m ([b] @ bs)" by simp
  have r: "pb_read_bytes E s 1 m = (True, skip_ahead 1 s, [b])"
    using read_bytes_at [OF at_bytes_append(1) [OF at], of 1 E] by simp
  show ?case
  proof (cases "v \<le> 0x7F")
    case True
    then have "b = ucast v" "bs = []" using l by (simp_all add: leb128.simps [of v])
    moreover have "ucast v AND (0x80 :: pb_byte) = 0"
    proof (rule bit_word_eqI)
      fix n assume "n < LENGTH(8)"
      have "drop_bit 7 v = 0" using True by (simp add: le_seven)
      then have "\<not> bit (drop_bit 7 v) 0" by simp
      then have "\<not> bit v 7" by (simp only: bit_drop_bit_eq comp_def add_0_right not_False_eq_True)
      then show "bit (ucast v AND (0x80 :: pb_byte)) n = bit 0 n" unfolding bit_and_iff bit_0x80 by (auto simp: bit_ucast_iff)
    qed
    ultimately show ?thesis
      using l by (subst pb_skip_varint.simps) (simp add: r first_byte_def)
  next
    case False
    then have b: "b = ucast (v AND 0x7F) OR 0x80" "bs = leb128 (drop_bit 7 v)" using l by (simp_all add: leb128.simps [of v])
    have "b AND 0x80 \<noteq> 0"
    proof
      assume "b AND 0x80 = 0"
      then have "\<not> bit (b AND 0x80) 7" by simp
      then show False by (simp add: b bit_and_iff bit_or_iff bit_0x80)
    qed
    moreover have "pb_skip_varint E (skip_ahead 1 s) m = Some (True, skip_ahead (length bs) (skip_ahead 1 s))"
      using "1.IH" [OF False, of "skip_ahead 1 s"] at_bytes_append(2) [OF at] b by simp
    ultimately show ?thesis
      using l by (subst pb_skip_varint.simps) (simp add: r first_byte_def)
  qed
qed

lemma skip_at:
  assumes "at_bytes s m bs" and "n = of_nat (length bs)" and "length bs < 2 ^ 64"
  shows "pb_skip E s n m = (True, skip_ahead (length bs) s)"
proof (cases "n = 0")
  case True
  then have "length bs = 0" using assms(2,3) unat_of_size [OF assms(3)] by simp
  with True show ?thesis by (simp add: pb_skip_def)
next
  case False
  with read_bytes_at [OF assms, of E] assms(1) show ?thesis
    by (simp add: pb_skip_def pb_read_bytes_def at_bytes_def split: prod.splits)
qed

lemma ucast_of_nat_length: "n < 2 ^ 32 \<Longrightarrow> (ucast (of_nat n :: 32 word) :: 64 word) = of_nat n"
  by (simp add: word_unat_eq_iff unsigned_ucast_eq unsigned_of_nat take_bit_nat_eq_self)

lemma skip_string_at:
  assumes at: "at_bytes s m (leb128 (of_nat (length bs)) @ bs)" and n: "length bs < 2 ^ 32"
  shows "pb_skip_string E s m = (True, skip_ahead (length (leb128 (of_nat (length bs)) @ bs)) s)"
proof -
  note ats = at_bytes_append [OF at]
  have "pb_decode_varint32 E s m = (True, skip_ahead (length (leb128 (of_nat (length bs)))) s, of_nat (length bs))"
    using decode_varint32_at [of s m "of_nat (length bs)" E] ats(1) by (simp add: ucast_of_nat_length [OF n])
  with skip_at [OF ats(2), of "of_nat (length bs)" E] n show ?thesis
    by (simp add: pb_skip_string_def ucast_of_nat_length [OF n] add.commute)
qed

lemma skip_item_at:
  assumes "item_ok fs it" and "\<nexists>j v. it = Known j v" and "at_bytes s m (item_payload fs it)"
  shows "pb_skip_field E s (item_wt fs it) m = Some (True, skip_ahead (length (item_payload fs it)) s)"
proof (cases it)
  case (Unknown_varint tg v)
  with assms skip_varint_at show ?thesis by (simp add: pb_skip_field_def)
next
  case (Unknown_64bit tg bs)
  with assms skip_at [of s m bs 8 E] show ?thesis by (simp add: pb_skip_field_def pb_wire_values)
next
  case (Unknown_string tg bs)
  with assms skip_string_at [of s m bs E] show ?thesis by (simp add: pb_skip_field_def pb_wire_values)
next
  case (Unknown_32bit tg bs)
  with assms skip_at [of s m bs 4 E] show ?thesis by (simp add: pb_skip_field_def pb_wire_values)
qed (use assms in simp)

section \<open>Rounds\<close>

lemma item_round:
  assumes d: "flat_message E desc width sz fs" and dest: "dest \<noteq> 0" and i: "i < length fs"
    and it: "item_ok fs it" and at: "at_bytes s m (item_bytes fs it)" and L: "flat_locals L"
  shows "\<exists>i' m' L'. i' < length fs \<and> flat_locals L' \<and> same_outside dest sz m m'
    \<and> (\<forall>x < length fs. flat_value m' dest (fs ! x) = last_value [it] x (flat_value m dest (fs ! x)))
    \<and> decode_loop sub defs E flags s (flat_it width desc dest fs i) m L =
       decode_loop sub defs E flags (skip_ahead (length (item_bytes fs it)) s) (flat_it width desc dest fs i') m' L'"
proof (cases "\<exists>j v. it = Known j v")
  case True
  then obtain j v where k: "it = Known j v" "j < length fs" using it by auto
  then have b: "item_bytes fs it = leb128 (flat_key (fs ! j)) @ flat_payload (fs ! j) v"
  proof -
    have "PB_GEN_FIELD_INFO_ASSERT width (fs ! j)"
      using describesD(1) [OF flatD(1) [OF d]] k(2) by (simp add: bind_ok_def list_all_length)
    from flat_key32_split(1) [OF tag_fits_16 [OF this]] k show ?thesis
      by (simp add: item_bytes_def wire_key_def flat_key32_def)
  qed
  let ?m = "store_word 4 m (dest + off (fs ! j)) v"
  have "same_outside dest sz m ?m" using same_outside_field [OF flatD(5) [OF d]] k by simp
  moreover have "\<forall>x < length fs. flat_value ?m dest (fs ! x) = last_value [it] x (flat_value m dest (fs ! x))"
    using flat_value_store [OF flatD(5) [OF d] k(2)] k by simp
  ultimately show ?thesis
    using decode_flat_round [OF d dest i k(2), of s m v] at k(2) L by (intro exI [of _ j] exI [of _ ?m] exI [of _ L]) (simp add: b)
next
  case False
  then have u: "unknown_tag fs (item_tag fs it)" using it by (cases it) auto
  then have tg: "item_tag fs it \<noteq> 0" "PB_FITS (item_tag fs it) 29" "\<forall>j < length fs. bf_tag (fs ! j) \<noteq> item_tag fs it"
    by (auto simp: unknown_tag_def) (metis imageI nth_mem)
  obtain s' where s': "pb_decode_tag E s m = (True, s', item_wt fs it, item_tag fs it, False)"
    "at_bytes s' m (item_payload fs it)"
    "skip_ahead (length (item_payload fs it)) s' = skip_ahead (length (item_bytes fs it)) s"
    using item_key_at [OF tg(2) at] by blast
  obtain L' where L': "find_extensions E (flat_it width desc dest fs i) m L = Some (flat_it width desc dest fs i, L')"
    "flat_locals L'"
    using find_extensions_flat [OF d dest i L] by blast
  have "decode_extension sub defs E (bytes_left s') s' (item_tag fs it) (item_wt fs it) 0 m = Some (True, s', m)"
    by (subst decode_extension.simps) simp
  then have "decode_round sub defs E s' (item_wt fs it) (item_tag fs it) (flat_it width desc dest fs i) m L =
      Some (True, skip_ahead (length (item_bytes fs it)) s, flat_it width desc dest fs i, m, L')"
    using flat_find(2) [OF d i dest tg(3), of m] L' skip_item_at [OF it False s'(2), of E] s'(3)
    by (simp add: decode_round_def decode_unknown_def skip_unknown_def flat_locals_def)
  then have "decode_loop sub defs E flags s (flat_it width desc dest fs i) m L =
      decode_loop sub defs E flags (skip_ahead (length (item_bytes fs it)) s) (flat_it width desc dest fs i) m L'"
    by (subst decode_loop.simps) (simp add: s'(1) tg(1))
  moreover have "last_value [it] x v = v" for x v using False by (cases it) auto
  ultimately show ?thesis using L'(2) i by (intro exI [of _ i] exI [of _ m] exI [of _ L']) simp
qed

definition items_wire :: "pb_bind_field list \<Rightarrow> wire_item list \<Rightarrow> pb_byte list" where
  "items_wire fs items = concat (map (item_bytes fs) items)"

lemma last_value_Cons: "last_value (it # items) x v = last_value items x (last_value [it] x v)"
  by (cases it) auto

lemma items_loop:
  assumes d: "flat_message E desc width sz fs" and dest: "dest \<noteq> 0"
  shows "list_all (item_ok fs) items \<Longrightarrow> i < length fs \<Longrightarrow> flat_locals L
    \<Longrightarrow> at_bytes s m (items_wire fs items) \<Longrightarrow> bytes_left s = of_nat (length (items_wire fs items))
    \<Longrightarrow> is_state s + length (items_wire fs items) \<le> dest \<or> dest + sz \<le> is_state s
    \<Longrightarrow> \<exists>s' i' m' L'.
      decode_loop sub defs E flags s (flat_it width desc dest fs i) m L =
        Some (True, True, s', flat_it width desc dest fs i', m', L')
      \<and> i' < length fs \<and> flat_locals L' \<and> bytes_left s' = 0 \<and> same_outside dest sz m m'
      \<and> (\<forall>x < length fs. flat_value m' dest (fs ! x) = last_value items x (flat_value m dest (fs ! x)))"
proof (induction items arbitrary: i L s m)
  case Nil
  then show ?case
    by (intro exI [of _ s] exI [of _ i] exI [of _ m] exI [of _ L])
      (subst decode_loop.simps, simp add: pb_decode_tag_def items_wire_def)
next
  case (Cons it items)
  let ?w = "item_bytes fs it" and ?v = "items_wire fs items"
  have w: "items_wire fs (it # items) = ?w @ ?v" by (simp add: items_wire_def)
  note at = at_bytes_append [OF Cons.prems(4) [unfolded w]]
  from Cons.prems(1) have ok: "item_ok fs it" "list_all (item_ok fs) items" by simp_all
  obtain i1 m1 L1 where r: "i1 < length fs" "flat_locals L1" "same_outside dest sz m m1"
    "\<forall>x < length fs. flat_value m1 dest (fs ! x) = last_value [it] x (flat_value m dest (fs ! x))"
    "decode_loop sub defs E flags s (flat_it width desc dest fs i) m L =
       decode_loop sub defs E flags (skip_ahead (length ?w) s) (flat_it width desc dest fs i1) m1 L1"
    using item_round [OF d dest Cons.prems(2) ok(1) at(1) Cons.prems(3)] by blast
  let ?s = "skip_ahead (length ?w) s"
  have ap: "is_state ?s + length ?v \<le> dest \<or> dest + sz \<le> is_state ?s"
    using Cons.prems(6) by (auto simp: w skip_ahead_def)
  have left: "bytes_left ?s = of_nat (length ?v)" using Cons.prems(5) by (simp add: skip_ahead_def w)
  from Cons.IH [OF ok(2) r(1,2) at_bytes_outside [OF at(2) r(3) ap] left ap] obtain s' i' m' L' where
    rest: "decode_loop sub defs E flags ?s (flat_it width desc dest fs i1) m1 L1 =
        Some (True, True, s', flat_it width desc dest fs i', m', L')"
    "i' < length fs" "flat_locals L'" "bytes_left s' = 0" "same_outside dest sz m1 m'"
    "\<forall>x < length fs. flat_value m' dest (fs ! x) = last_value items x (flat_value m1 dest (fs ! x))" by blast
  have "\<forall>x < length fs. flat_value m' dest (fs ! x) = last_value (it # items) x (flat_value m dest (fs ! x))"
    using rest(6) r(4) by (subst last_value_Cons) simp
  with rest r(5) same_outside_trans [OF r(3) rest(5)] show ?case by auto
qed

lemma decode_items:
  assumes d: "flat_message E desc width sz fs" and dest: "dest \<noteq> 0" and ok: "list_all (item_ok fs) items"
    and at: "at_bytes s m (items_wire fs items)" and left: "bytes_left s = of_nat (length (items_wire fs items))"
    and apart: "is_state s + length (items_wire fs items) \<le> dest \<or> dest + sz \<le> is_state s"
  shows "\<exists>s' m'. pb_decode (Suc n) E s desc dest m = Some (True, s', m')
    \<and> bytes_left s' = 0 \<and> same_outside dest sz m m'
    \<and> (\<forall>x < length fs. flat_value m' dest (fs ! x) = last_value items x 0)"
proof -
  let ?m = "zero_fields dest fs m"
  have so: "same_outside dest sz m ?m" by (rule same_outside_zero [OF flatD(5) [OF d]]) simp
  have fs: "0 < length fs" using flatD(3) [OF d] by simp
  have L: "flat_locals decode_locals_init" by (simp add: flat_locals_def decode_locals_init_def)
  obtain s' k' m' L' where
    loop: "decode_loop (pb_decode_inner n E) (pb_message_set_to_defaults n E) E 0 s (flat_it width desc dest fs 0) ?m
        decode_locals_init = Some (True, True, s', flat_it width desc dest fs k', m', L')"
    and k: "flat_locals L'" "bytes_left s' = 0" and so': "same_outside dest sz ?m m'"
    and vals: "\<forall>x < length fs. flat_value m' dest (fs ! x) = last_value items x (flat_value ?m dest (fs ! x))"
    using items_loop [OF d dest ok fs L at_bytes_outside [OF at so apart] left apart] by blast
  have v: "flat_value m' dest (fs ! x) = last_value items x 0" if "x < length fs" for x
    using that vals flat_value_zero [OF flatD(5) [OF d] that, of dest 0 m] by simp
  have "pb_decode (Suc n) E s desc dest m = Some (True, s', m')"
    using decode_flat_finish [OF d dest loop k(1)] by simp
  then show ?thesis using k so' v same_outside_trans [OF so so'] by blast
qed

end
