(* ===== verification/RobotRecords.thy ===== *)
theory RobotRecords
  imports RobotMessages PbFlatItems
begin

text \<open>
  What the robots make of commands that another version of the program has written: records in
  another order, repeated, or of members that this version does not have.
\<close>

lemma decode_items_after_reset:
  assumes d: "flat_message E desc width sz fs" and dest: "dest \<noteq> 0" and ok: "list_all (item_ok fs) items"
    and at: "load_bytes m payload (length (items_wire fs items)) = items_wire fs items"
    and len: "length (items_wire fs items) < 2 ^ 64" and ap: "apart payload (length (items_wire fs items)) dest sz"
  shows "\<exists>s' m'. pb_decode (Suc 0) E (pb_istream_from_buffer payload (of_nat (length (items_wire fs items)))) desc dest
      (memset0 m dest sz) = Some (True, s', m') \<and> same_outside dest sz m m'
    \<and> (\<forall>x < length fs. flat_value m' dest (fs ! x) = last_value items x 0)"
proof -
  let ?w = "items_wire fs items"
  let ?s = "pb_istream_from_buffer payload (of_nat (length ?w))" and ?m = "memset0 m dest sz"
  have ap': "is_state ?s + length ?w \<le> dest \<or> dest + sz \<le> is_state ?s"
    using ap by (simp add: pb_istream_from_buffer_def apart_def)
  have "at_bytes ?s m ?w"
    using at len by (simp add: at_bytes_def pb_istream_from_buffer_def unat_of_size)
  from at_bytes_outside [OF this memset_outside ap'] have "at_bytes ?s ?m ?w" .
  from decode_items [OF d dest ok this _ ap', of 0] obtain s' m' where
    "pb_decode (Suc 0) E ?s desc dest ?m = Some (True, s', m')" "same_outside dest sz ?m m'"
    "\<forall>x < length fs. flat_value m' dest (fs ! x) = last_value items x 0"
    by (auto simp: pb_istream_from_buffer_def)
  with same_outside_trans [OF memset_outside] show ?thesis by blast
qed

text \<open>
  Property C10. Robots understand the commands of another version of the program. Let the datagram be
  any sequence of records: members of the message in any order, left out or repeated, and between
  them members with other numbers, of any wire type (varint, 64 bit, length-delimited, 32 bit).
  Then deserialising returns true, every member has the value of its last record, or zero if there
  is none, and no byte outside the message is changed.
\<close>

theorem deserialize_record_sequence:
  assumes "robot_descriptors E" and "dest \<noteq> 0" and "list_all (item_ok RobotCommandMsg_FIELDLIST) items"
    and "w = items_wire RobotCommandMsg_FIELDLIST items" and "load_bytes m payload (length w) = w"
    and "length w < 2 ^ 64" and "apart payload (length w) dest sizeof_RobotCommandMsg"
  shows "\<exists>m'. DeserializeRobotCommandMsg E payload (of_nat (length w)) dest m = Some (True, m')
    \<and> same_outside dest sizeof_RobotCommandMsg m m'
    \<and> command_at m' dest =
       \<lparr>cmd_id = last_value items 0 0, cmd_vx = last_value items 1 0, cmd_vy = last_value items 2 0,
        cmd_w = last_value items 3 0, cmd_chargeVal = last_value items 4 0, cmd_kickVal = last_value items 5 0,
        cmd_dribbler = last_value items 6 0\<rparr>"
proof -
  from decode_items_after_reset [OF command_flat [OF assms(1)] assms(2,3) assms(5-7) [unfolded assms(4)]]
  obtain s' m' where m': "pb_decode 1 E (pb_istream_from_buffer payload (of_nat (length w))) RobotCommandMsg_fields dest
      (memset0 m dest sizeof_RobotCommandMsg) = Some (True, s', m')"
    "same_outside dest sizeof_RobotCommandMsg m m'"
    "\<forall>x < length RobotCommandMsg_FIELDLIST. flat_value m' dest (RobotCommandMsg_FIELDLIST ! x) = last_value items x 0"
    unfolding assms(4) by auto
  have "length RobotCommandMsg_FIELDLIST = 7" by (simp add: RobotCommandMsg_FIELDLIST_def)
  with m'(3) have v: "flat_value m' dest (RobotCommandMsg_FIELDLIST ! x) = last_value items x 0" if "x < 7" for x
    using that by simp
  have "command_at m' dest =
       \<lparr>cmd_id = last_value items 0 0, cmd_vx = last_value items 1 0, cmd_vy = last_value items 2 0,
        cmd_w = last_value items 3 0, cmd_chargeVal = last_value items 4 0, cmd_kickVal = last_value items 5 0,
        cmd_dribbler = last_value items 6 0\<rparr>"
    using v [of 0] v [of 1] v [of 2] v [of 3] v [of 4] v [of 5] v [of 6]
    by (simp add: command_at_def RobotCommandMsg_FIELDLIST_def flat_value_def)
  with m'(1,2) show ?thesis by (auto simp: DeserializeRobotCommandMsg_def)
qed

text \<open>A string for member 9, member 3, member 1 twice, a number for member 20.\<close>

definition newer_command :: "wire_item list" where
  "newer_command =
     [Unknown_string 9 [1, 2, 3], Known 2 0x40000000, Known 0 4, Known 0 5, Unknown_varint 20 300]"

lemma newer_command_ok: "list_all (item_ok RobotCommandMsg_FIELDLIST) newer_command"
  by (simp add: newer_command_def unknown_tag_def RobotCommandMsg_FIELDLIST_def PB_FITS_def)

lemma newer_command_length: "length (items_wire RobotCommandMsg_FIELDLIST newer_command) < 2 ^ 64"
  by (simp add: newer_command_def items_wire_def item_bytes_def wire_key_def pb_wire_values leb128.simps
      RobotCommandMsg_FIELDLIST_def flat_payload_def flat_wt_def)

theorem deserialize_record_sequence_witness:
  "\<exists>m'. DeserializeRobotCommandMsg (no_user_code robot_descs) 5000
      (of_nat (length (items_wire RobotCommandMsg_FIELDLIST newer_command))) 3000
      (store_bytes (\<lambda>_. 255) 5000 (items_wire RobotCommandMsg_FIELDLIST newer_command)) = Some (True, m')
    \<and> command_at m' 3000 =
       \<lparr>cmd_id = 5, cmd_vx = 0, cmd_vy = 0x40000000, cmd_w = 0, cmd_chargeVal = 0, cmd_kickVal = 0, cmd_dribbler = 0\<rparr>"
proof -
  let ?w = "items_wire RobotCommandMsg_FIELDLIST newer_command"
  note newer_command_ok
  moreover have "load_bytes (store_bytes (\<lambda>_. 255) 5000 ?w) 5000 (length ?w) = ?w" by simp
  moreover note newer_command_length
  moreover have "apart 5000 (length ?w) 3000 sizeof_RobotCommandMsg"
    by (simp add: apart_def sizeof_RobotCommandMsg_def)
  ultimately show ?thesis
    using deserialize_record_sequence [OF robot_descs_ok(1), of 3000 newer_command ?w "store_bytes (\<lambda>_. 255) 5000 ?w" 5000]
    by (auto simp: newer_command_def)
qed

theorem decode_within_input_witness:
  "\<exists>s' m'. pb_decode 1 (payload_env robot_descs)
      (pb_istream_from_buffer 5000 (of_nat (length (items_wire RobotCommandMsg_FIELDLIST newer_command))))
      RobotCommandMsg_fields 3000 (store_bytes (\<lambda>_. 255) 5000 (items_wire RobotCommandMsg_FIELDLIST newer_command))
      = Some (True, s', m')
    \<and> is_state s' = 5000 + length (items_wire RobotCommandMsg_FIELDLIST newer_command)"
proof -
  let ?w = "items_wire RobotCommandMsg_FIELDLIST newer_command"
  let ?s = "pb_istream_from_buffer 5000 (of_nat (length ?w))" and ?m = "store_bytes (\<lambda>_. 255) 5000 ?w"
  have "at_bytes ?s ?m ?w"
    using newer_command_length by (simp add: at_bytes_def pb_istream_from_buffer_def unat_of_size)
  moreover have "bytes_left ?s = of_nat (length ?w)"
    "is_state ?s + length ?w \<le> 3000 \<or> 3000 + sizeof_RobotCommandMsg \<le> is_state ?s"
    by (simp_all add: pb_istream_from_buffer_def sizeof_RobotCommandMsg_def)
  ultimately obtain s' m' where r: "pb_decode (Suc 0) (payload_env robot_descs) ?s RobotCommandMsg_fields 3000 ?m =
      Some (True, s', m')"
    using decode_items [OF command_flat [OF robot_descs_ok(2)] _ newer_command_ok, of 3000 ?s ?m 0] by auto
  from decode_within_input [OF r] newer_command_length r show ?thesis by (auto simp: unat_of_size)
qed

end
