(* ===== verification/PbNested.thy ===== *)
theory PbNested
  imports MessageInterface
begin

text \<open>
  A run of the encoder with all it needs for the payload callback: a message with one nested message,
  whose one field is a string that the callback writes. The nested message is sized, then written.
\<close>

definition nested_descs :: "addr \<Rightarrow> pb_msgdesc" where
  "nested_descs a =
     (if a = 10
      then \<lparr>field_info = PB_FIELDINFO_2 1 0x08 0 16 0 1, submsg_info = [20, 0], default_value = 0, field_callback = None,
            field_count = 1, required_field_count = 1, largest_tag = 1\<rparr>
      else \<lparr>field_info = PB_FIELDINFO_2 1 0x57 0 16 0 1, submsg_info = [0], default_value = 0,
            field_callback = Some Default_field_callback, field_count = 1, required_field_count = 0, largest_tag = 1\<rparr>)"

text \<open>
  The structure, at 2000, holds the callback and the address of a \<open>StringPayload\<close>, at 3000: two
  bytes, at 4000.
\<close>

definition nested_mem :: mem where
  "nested_mem a =
     (if a = 2000 then 1 else if a = 2008 then 0xB8 else if a = 2009 then 0x0B else if a = 3000 then 0xA0
      else if a = 3001 then 0x0F else if a = 3008 then 2 else if a = 4000 then 65 else if a = 4001 then 66 else 0)"

abbreviation nested_env :: pb_env where
  "nested_env \<equiv> payload_env nested_descs"

definition nested_data :: "mem \<Rightarrow> bool" where
  "nested_data m \<longleftrightarrow> (\<forall>a \<ge> 2000. m a = nested_mem a)"

lemma nested_loads:
  assumes "nested_data m"
  shows "load_ptr m 2000 = 1" "load_ptr m 2008 = 3000" "load_ptr m 3000 = 4000" "load_u64 m 3008 = 2"
    "load_bytes m 4000 2 = [65, 66]"
  using assms by (simp_all add: nested_data_def load_ptr_def load_u64_def load_bytes_def upt_rec nested_mem_def)

definition outer_it :: pb_field_iter where
  "outer_it =
     \<lparr>descriptor = 10, message = 2000, it_index = 0, field_info_index = 0, required_field_index = 0,
      submessage_index = 0, tag = 1, data_size = 16, array_size = 1, ftype = 8, pField = 2000, pData = 2000,
      pSize = Size_null, submsg_desc = 20\<rparr>"

definition inner_it :: pb_field_iter where
  "inner_it =
     \<lparr>descriptor = 20, message = 2000, it_index = 0, field_info_index = 0, required_field_index = 0,
      submessage_index = 0, tag = 1, data_size = 16, array_size = 1, ftype = 0x57, pField = 2000, pData = 2000,
      pSize = Size_null, submsg_desc = 0\<rparr>"

lemmas ftype_values = pb_type_values PB_LTYPE_IS_SUBMSG_def PB_LTYPE_def PB_HTYPE_def PB_ATYPE_def

lemma begin_nested:
  "pb_field_iter_begin nested_env 10 2000 m = (True, outer_it)"
  "pb_field_iter_begin nested_env 20 2000 m = (True, inner_it)"
  by (simp_all add: outer_it_def inner_it_def pb_field_iter_begin_def load_descriptor_values_def unpack_field_info_def
      set_pointers_def Let_def nested_descs_def PB_FIELDINFO_2_def zero_iter_def ftype_values)

lemma next_nested:
  "\<not> fst (pb_field_iter_next nested_env m outer_it)" "\<not> fst (pb_field_iter_next nested_env m inner_it)"
  by (auto simp: outer_it_def inner_it_def pb_field_iter_next_def advance_iterator_def load_descriptor_values_def
      Let_def nested_descs_def set_pointers_def split: prod.split)

lemma encode_single_field:
  assumes "pb_field_iter_begin E d src m = (True, it)" and "PB_LTYPE (ftype it) \<noteq> PB_LTYPE_EXTENSION"
    and "\<And>m. \<not> fst (pb_field_iter_next E m it)"
  shows "encode_message chk sub E s d src m = encode_field chk sub E s it m"
proof (cases "encode_field chk sub E s it m")
  case None
  then show ?thesis using assms(1,2) by (simp add: encode_message_def encode_fields.simps)
next
  case (Some r)
  obtain ok s' m' where r: "r = (ok, s', m')" by (cases r) auto
  obtain it' where "pb_field_iter_next E m' it = (False, it')"
    using assms(3) [of m'] by (cases "pb_field_iter_next E m' it") auto
  then show ?thesis using assms(1,2) Some by (simp add: encode_message_def encode_fields.simps r)
qed

lemma encode_inner:
  assumes "nested_data m"
  shows "encode_message chk sub nested_env s 20 2000 m =
    Some (case PayloadEncodeCallback (no_user_code nested_descs) s inner_it 2008 m of
            (ok, s, m) \<Rightarrow> if ok then (True, s, m) else (False, os_error ''callback error'' s, m))"
proof -
  have "encode_message chk sub nested_env s 20 2000 m = encode_field chk sub nested_env s inner_it m"
    by (rule encode_single_field [OF begin_nested(2) _ next_nested(2)]) (simp add: inner_it_def ftype_values)
  also have "\<dots> = Some (encode_callback_field nested_env s inner_it m)"
    by (simp add: encode_field_def field_absent_def inner_it_def ftype_values)
  also have "encode_callback_field nested_env s inner_it m =
      (case callback_encode nested_env 1 s inner_it 2008 m of
         (ok, s, m) \<Rightarrow> if ok then (True, s, m) else (False, os_error ''callback error'' s, m))"
    using nested_loads(1) [OF assms]
    by (simp add: encode_callback_field_def call_field_encode_def default_field_encode_def nested_descs_def inner_it_def
        cb_func_def cb_arg_def sizeof_pb_callback_def)
  finally show ?thesis by (simp add: payload_env_def)
qed

lemma leb128_small: "v \<le> 127 \<Longrightarrow> leb128 v = [ucast v]"
  by (subst leb128.simps) simp

lemma payload_sizing:
  assumes "nested_data m"
  shows "PayloadEncodeCallback E PB_OSTREAM_SIZING inner_it 2008 m = (True, PB_OSTREAM_SIZING\<lparr>bytes_written := 4\<rparr>, m)"
  using nested_loads [OF assms]
  by (simp add: PayloadEncodeCallback_def payload_data_def payload_size_def pb_encode_tag_for_field_def wire_type_of_def
      inner_it_def ftype_values pb_encode_tag_def pb_wire_values encode_varint_eq leb128_small pb_write_def
      PB_OSTREAM_SIZING_def enc_then_def pb_encode_string_def)

text \<open>The key of a field of number 1 and the wire type of strings is one byte.\<close>

lemma encode_key:
  assumes "has_room s 1" and "it = inner_it \<or> it = outer_it"
  shows "pb_encode_tag_for_field E s it m = (True, wrote 1 s, m(os_state s := 0x0A))"
proof -
  have "wire_type_of (ftype it) = Some 2" "tag it = 1"
    using assms(2) by (elim disjE; simp add: wire_type_of_def inner_it_def outer_it_def ftype_values pb_wire_values)+
  then have "pb_encode_tag_for_field E s it m = pb_encode_varint E s 10 m"
    by (simp add: pb_encode_tag_for_field_def pb_encode_tag_def)
  then show ?thesis using encode_varint_room [of s 10 E m] assms(1) by (simp add: leb128_small)
qed

lemma payload_buffer:
  assumes "nested_data m" "has_room s 4" "os_state s + 4 \<le> 2000"
  obtains m' where "PayloadEncodeCallback E s inner_it 2008 m = (True, wrote 4 s, m')"
proof -
  have r: "has_room s 1" "has_room (wrote 1 s) 1" "has_room (wrote 2 s) 2"
    using assms(2) has_room_wrote [of s 1 1] has_room_wrote [of s 2 2] by (simp_all add: has_room_def)
  let ?m1 = "m(os_state s := 0x0A)" and ?m2 = "m(os_state s := 0x0A, os_state s + 1 := 2)"
  have d: "nested_data ?m1" "nested_data ?m2" using assms(1,3) by (simp_all add: nested_data_def)
  let ?m3 = "store_bytes ?m2 (os_state (wrote 2 s)) [65, 66]"
  have size: "pb_encode_varint E (wrote 1 s) 2 ?m1 = (True, wrote 2 s, ?m2)"
    using encode_varint_room [of "wrote 1 s" 2 E ?m1] r(2) by (simp add: leb128_small wrote_def)
  have four: "wrote (length [65, 66 :: 8 word]) (wrote 2 s) = wrote 4 s" by (simp add: numeral_eq_Suc)
  have "has_room (wrote 2 s) (length [65, 66 :: 8 word])" using r(3) by (simp add: numeral_2_eq_2)
  then have put: "pb_write E (wrote 2 s) [65, 66] 2 ?m2 = (True, wrote 4 s, ?m3)"
    using pb_write_room [of "wrote 2 s" "[65, 66]" 2 E ?m2] unfolding four by simp
  have bytes: "load_bytes ?m2 4000 (unat (2 :: size_t)) = [65, 66]" using nested_loads(5) [OF d(2)] by simp
  have "pb_encode_string E (wrote 1 s) 4000 2 ?m1 = (True, wrote 4 s, ?m3)"
    by (simp only: pb_encode_string_def enc_then_def size bytes put prod.case if_True)
  moreover have "payload_data ?m1 3000 = 4000" "payload_size ?m1 3000 = 2"
    using nested_loads(3,4) [OF d(1)] by (simp_all add: payload_data_def payload_size_def)
  ultimately have "PayloadEncodeCallback E s inner_it 2008 m = (True, wrote 4 s, ?m3)"
    by (simp only: PayloadEncodeCallback_def Let_def nested_loads(2) [OF assms(1)] encode_key [OF r(1) disjI1 [OF refl]]
        enc_then_def prod.case if_True)
  then show thesis by (rule that)
qed

text \<open>The streams and memories of the run: after the key, after the length, and for the nested message.\<close>

abbreviation buffer_stream :: pb_ostream where
  "buffer_stream \<equiv> pb_ostream_from_buffer 1000 256"

definition key_mem :: mem where "key_mem = nested_mem(1000 := 0x0A)"

definition length_mem :: mem where "length_mem = nested_mem(1000 := 0x0A, 1001 := 4)"

definition part_stream :: pb_ostream where
  "part_stream = (wrote 2 buffer_stream)\<lparr>max_size := 4, bytes_written := 0, os_errmsg := None\<rparr>"

lemma nested_run_data: "nested_data key_mem" "nested_data length_mem"
  by (simp_all add: nested_data_def key_mem_def length_mem_def)

lemma part_stream_room: "has_room part_stream 4" "os_state part_stream + 4 \<le> 2000"
  by (simp_all add: part_stream_def has_room_def pb_ostream_from_buffer_def)

lemma buffer_stream_room: "has_room buffer_stream 1" "has_room (wrote 1 buffer_stream) 1"
  using has_room_wrote [of buffer_stream 1 1] by (simp_all add: has_room_def pb_ostream_from_buffer_def)

lemma key_step: "pb_encode_tag_for_field nested_env buffer_stream outer_it nested_mem = (True, wrote 1 buffer_stream, key_mem)"
  using encode_key [OF buffer_stream_room(1), of outer_it nested_env nested_mem]
  by (simp add: key_mem_def pb_ostream_from_buffer_def)

lemma length_step: "pb_encode_varint nested_env (wrote 1 buffer_stream) 4 key_mem = (True, wrote 2 buffer_stream, length_mem)"
  using encode_varint_room [of "wrote 1 buffer_stream" 4 nested_env key_mem] buffer_stream_room(2)
  by (simp add: leb128_small key_mem_def length_mem_def pb_ostream_from_buffer_def) (simp only: numeral_2_eq_2)

text \<open>The whole message, for any encoder that treats the nested message so: six bytes.\<close>

definition nested_sub :: "msg_encoder \<Rightarrow> mem \<Rightarrow> bool" where
  "nested_sub sub m' \<longleftrightarrow>
     sub PB_OSTREAM_SIZING 20 2000 key_mem = Some (True, PB_OSTREAM_SIZING\<lparr>bytes_written := 4\<rparr>, key_mem)
     \<and> sub part_stream 20 2000 length_mem = Some (True, wrote 4 part_stream, m')"

definition whole_stream :: pb_ostream where
  "whole_stream = (wrote 4 part_stream)\<lparr>max_size := 256, bytes_written := 6\<rparr>"

lemma nested_submessage:
  assumes "nested_sub sub m'"
  shows "pb_encode_submessage sub nested_env (wrote 1 buffer_stream) 20 2000 key_mem = Some (True, whole_stream, m')"
proof -
  have "(wrote 2 buffer_stream)\<lparr>max_size := 4, bytes_written := 0, os_errmsg := None\<rparr> = part_stream"
    by (simp add: part_stream_def)
  then show ?thesis
    using assms
    by (simp add: pb_encode_submessage_def nested_sub_def enc_bind_def length_step del: One_nat_def)
      (simp add: part_stream_def whole_stream_def pb_ostream_from_buffer_def wrote_def)
qed

lemma encode_nested:
  assumes "nested_sub sub m'"
  shows "encode_message chk sub nested_env buffer_stream 10 2000 nested_mem = Some (True, whole_stream, m')"
proof -
  have "encode_message chk sub nested_env buffer_stream 10 2000 nested_mem
      = encode_field chk sub nested_env buffer_stream outer_it nested_mem"
    by (rule encode_single_field [OF begin_nested(1) _ next_nested(1)]) (simp add: outer_it_def ftype_values)
  also have "\<dots> = encode_basic_field sub nested_env buffer_stream outer_it nested_mem"
    by (simp add: encode_field_def field_absent_def outer_it_def ftype_values)
  also have "\<dots> = enc_bind (Some (True, wrote 1 buffer_stream, key_mem)) (\<lambda>s m. pb_enc_submessage sub nested_env s outer_it m)"
    by (simp add: encode_basic_field_def key_step Let_def del: One_nat_def) (simp add: outer_it_def ftype_values enc_bind_def)
  also have "\<dots> = pb_encode_submessage sub nested_env (wrote 1 buffer_stream) 20 2000 key_mem"
    by (simp add: enc_bind_def pb_enc_submessage_def outer_it_def msg_callback_def ftype_values del: One_nat_def split: option.splits)
  also have "\<dots> = Some (True, whole_stream, m')" by (rule nested_submessage [OF assms])
  finally show ?thesis .
qed

lemma nested_subs:
  obtains m' where "nested_sub (encode_message chk sub nested_env) m'"
    and "nested_sub (\<lambda>s d src m. below_half (encode_message chk sub nested_env s d src m)) m'"
proof -
  obtain m' where "PayloadEncodeCallback (no_user_code nested_descs) part_stream inner_it 2008 length_mem
      = (True, wrote 4 part_stream, m')"
    using payload_buffer [OF nested_run_data(2) part_stream_room] .
  then have *: "nested_sub (encode_message chk sub nested_env) m'"
    by (simp add: nested_sub_def encode_inner nested_run_data payload_sizing)
  moreover have "os_callback (wrote 4 part_stream) \<noteq> No_callback"
    by (simp add: part_stream_def pb_ostream_from_buffer_def)
  with * have "nested_sub (\<lambda>s d src m. below_half (encode_message chk sub nested_env s d src m)) m'"
    by (simp add: nested_sub_def below_half_def)
  ultimately show thesis by (rule that)
qed

lemma nested_run:
  obtains m' where "pb_encode 2 nested_env buffer_stream 10 2000 nested_mem = Some (True, whole_stream, m')"
    and "sizes_fit 2 nested_env buffer_stream 10 2000 nested_mem"
proof -
  have two: "(2 :: nat) = Suc (Suc 0)" by simp
  obtain m' where m': "nested_sub (pb_encode (Suc 0) nested_env) m'"
    using nested_subs [of "pb_check_proto3_default_value (Suc 0) nested_env" "pb_encode 0 nested_env"] by auto
  obtain m'' where m'': "nested_sub (\<lambda>s d src m. below_half (pb_encode_sized (Suc 0) nested_env s d src m)) m''"
    by (rule nested_subs [of "pb_check_proto3_default_value (Suc 0) nested_env"
          "\<lambda>s d src m. below_half (pb_encode_sized 0 nested_env s d src m)"]) auto
  have "pb_encode 2 nested_env buffer_stream 10 2000 nested_mem = Some (True, whole_stream, m')"
    unfolding two pb_encode.simps(2) [of "Suc 0"] by (rule encode_nested [OF m'])
  moreover have "sizes_fit 2 nested_env buffer_stream 10 2000 nested_mem"
    unfolding two sizes_fit_def pb_encode_sized.simps(2) [of "Suc 0"] by (subst encode_nested [OF m'']) simp
  ultimately show thesis by (rule that)
qed

theorem encode_within_buffer_witness:
  "\<exists>s' m'. pb_encode 2 nested_env buffer_stream 10 2000 nested_mem = Some (True, s', m')
     \<and> bytes_written s' = 6 \<and> os_state s' = 1006 \<and> (\<forall>a. a < 1000 \<or> 1006 \<le> a \<longrightarrow> m' a = nested_mem a)"
proof -
  obtain m' where r: "pb_encode 2 nested_env buffer_stream 10 2000 nested_mem = Some (True, whole_stream, m')"
    and f: "sizes_fit 2 nested_env buffer_stream 10 2000 nested_mem" by (rule nested_run)
  have "bytes_written whole_stream = 6" by (simp add: whole_stream_def)
  with encode_within_buffer [OF r _ f] r show ?thesis by (intro exI [of _ whole_stream] exI [of _ m']) simp
qed

end
