(* ===== verification/Udp.thy ===== *)
theory Udp
  imports PbTypes
begin

text \<open>
  The UDP wrapper (\<open>libs/comm/src/UdpSocket.cpp\<close>), the echo server (\<open>AsyncUdpServer.cpp\<close>), the client
  (\<open>AsyncUdpClient.cpp\<close>) and the telemetry transmitter (\<open>libs/handler\<close>), which are built on it.

  The library asio is not part of the program. What the program relies on is its documented
  contract: an operation that was started completes once, by a call of its handler; on a socket that
  is not open it completes with an error; and it keeps a reference to the buffer it was given, which
  the caller has to keep alive until it completes. So vectors live at addresses, a send operation
  holds an address, and what is sent is what is there when the operation is performed: at once,
  within the call that starts it, or later. Which of the two, and what arrives, is up to the
  environment.
\<close>

section \<open>Memory and network\<close>

datatype endpoint = Endpoint (ip_address: "8 word list") (port: "16 word")

text \<open>\<open>'c\<close> is the type of the completion functions; \<open>on_sent_calls\<close> are the calls made to them.\<close>

record 'c net =
  vectors :: "nat \<Rightarrow> 8 word list option"
  next_vector :: nat
  outgoing :: "(endpoint \<times> nat \<times> 'c option) list"
  on_wire :: "(endpoint \<times> 8 word list option) list"
  on_sent_calls :: "('c \<times> bool) list"

definition empty_net :: "'c net" where
  "empty_net = \<lparr>vectors = (\<lambda>_. None), next_vector = 0, outgoing = [], on_wire = [], on_sent_calls = []\<rparr>"

definition new_vector :: "8 word list \<Rightarrow> 'c net \<Rightarrow> nat \<times> 'c net" where
  "new_vector bs n =
     (next_vector n, n\<lparr>vectors := (vectors n)(next_vector n := Some bs), next_vector := next_vector n + 1\<rparr>)"

definition delete_vector :: "nat \<Rightarrow> 'c net \<Rightarrow> 'c net" where
  "delete_vector v n = n\<lparr>vectors := (vectors n)(v := None)\<rparr>"

section \<open>The socket\<close>

definition RECV_BUF_SIZE :: nat where "RECV_BUF_SIZE = 1400"

text \<open>
  \<open>socket_open\<close>, \<open>socket_broadcast\<close> and \<open>receiving\<close> are the state of asio's socket: whether it is open,
  its option, and whether a receive operation is pending. Its constructor does not open it.
\<close>

record 'h UdpSocket =
  socket_open :: bool
  socket_broadcast :: bool
  receiving :: bool
  recv_buf :: "8 word list"
  remote_ep :: endpoint
  user_handler :: "'h option"

definition UdpSocket_new :: "8 word list \<Rightarrow> 'h UdpSocket" where
  "UdpSocket_new garbage =
     \<lparr>socket_open = False, socket_broadcast = False, receiving = False, recv_buf = garbage,
      remote_ep = Endpoint [0, 0, 0, 0] 0, user_handler = None\<rparr>"

definition UdpSocket_close :: "'h UdpSocket \<Rightarrow> 'h UdpSocket" where
  "UdpSocket_close s = s\<lparr>socket_open := False\<rparr>"

definition Bind :: "endpoint \<Rightarrow> 'h UdpSocket \<Rightarrow> 'h UdpSocket" where
  "Bind ep s = s"

definition start_receive :: "'h \<Rightarrow> 'h UdpSocket \<Rightarrow> 'h UdpSocket" where
  "start_receive handler s = s\<lparr>user_handler := Some handler, receiving := True\<rparr>"

text \<open>The lambda that completes a send.\<close>

definition send_completed :: "'c option \<Rightarrow> bool \<Rightarrow> 'c net \<Rightarrow> 'c net" where
  "send_completed on_sent ok n =
     (case on_sent of None \<Rightarrow> n | Some f \<Rightarrow> n\<lparr>on_sent_calls := on_sent_calls n @ [(f, ok)]\<rparr>)"

definition perform_send :: "'h UdpSocket \<Rightarrow> endpoint \<times> nat \<times> 'c option \<Rightarrow> 'c net \<Rightarrow> 'c net" where
  "perform_send s op n =
     (case op of (peer, v, on_sent) \<Rightarrow>
        if socket_open s then send_completed on_sent True (n\<lparr>on_wire := on_wire n @ [(peer, vectors n v)]\<rparr>)
        else send_completed on_sent False n)"

definition async_send_to ::
  "bool \<Rightarrow> endpoint \<Rightarrow> nat \<Rightarrow> 'c option \<Rightarrow> 'h UdpSocket \<Rightarrow> 'c net \<Rightarrow> 'c net" where
  "async_send_to at_once peer data on_sent s n =
     (if at_once then perform_send s (peer, data, on_sent) n
      else n\<lparr>outgoing := outgoing n @ [(peer, data, on_sent)]\<rparr>)"

definition set_broadcast :: "bool \<Rightarrow> 'h UdpSocket \<Rightarrow> 'h UdpSocket" where
  "set_broadcast enable s =
     (let s = (if \<not> socket_open s then s\<lparr>socket_open := True\<rparr> else s) in s\<lparr>socket_broadcast := enable\<rparr>)"

text \<open>
  The lambda that completes a receive operation. On success asio has put the datagram, or what fits
  of it, into \<open>recv_buf_\<close>, and its sender into \<open>remote_ep_\<close>. \<open>call\<close> says what calling a handler does.
\<close>

definition receive_completed ::
  "('h \<Rightarrow> endpoint \<Rightarrow> nat \<Rightarrow> 'h UdpSocket \<Rightarrow> 'c net \<Rightarrow> 'c net) \<Rightarrow> (endpoint \<times> 8 word list) option
   \<Rightarrow> 'h UdpSocket \<Rightarrow> 'c net \<Rightarrow> 'h UdpSocket \<times> 'c net" where
  "receive_completed call result s n =
     (let s = s\<lparr>receiving := False\<rparr>
      in case result of
           None \<Rightarrow> (s, n)
         | Some (peer, datagram) \<Rightarrow>
             (let data = take RECV_BUF_SIZE datagram;
                  s = s\<lparr>recv_buf := data @ drop (length data) (recv_buf s), remote_ep := peer\<rparr>
              in case user_handler s of
                   None \<Rightarrow> (s, n)
                 | Some h \<Rightarrow>
                     (case new_vector (take (length data) (recv_buf s)) n of (v, n) \<Rightarrow>
                        (start_receive h s, delete_vector v (call h (remote_ep s) v s n)))))"

section \<open>The echo server\<close>

datatype server_handler = Weak_self

record AsyncUdpServer =
  local_ep :: endpoint
  owned :: bool
  sock :: "server_handler UdpSocket"

definition AsyncUdpServer_new :: "endpoint \<Rightarrow> 8 word list \<Rightarrow> AsyncUdpServer" where
  "AsyncUdpServer_new ep garbage = \<lparr>local_ep = ep, owned = True, sock = UdpSocket_new garbage\<rparr>"

definition server_start :: "AsyncUdpServer \<Rightarrow> AsyncUdpServer" where
  "server_start srv =
     (let s = Bind (local_ep srv) (sock srv) in srv\<lparr>sock := start_receive Weak_self s\<rparr>)"

definition on_receive :: "bool \<Rightarrow> endpoint \<Rightarrow> nat \<Rightarrow> server_handler UdpSocket \<Rightarrow> unit net \<Rightarrow> unit net" where
  "on_receive at_once peer data s n = async_send_to at_once peer data None s n"

text \<open>The lambda: the weak pointer can be locked as long as somebody owns the server.\<close>

definition call_server ::
  "bool \<Rightarrow> bool \<Rightarrow> server_handler \<Rightarrow> endpoint \<Rightarrow> nat \<Rightarrow> server_handler UdpSocket \<Rightarrow> unit net \<Rightarrow> unit net" where
  "call_server alive at_once h peer data s n =
     (case h of Weak_self \<Rightarrow> if alive then on_receive at_once peer data s n else n)"

text \<open>
  The events asio may report. A receive operation can only succeed on an open socket; it fails at
  any time. If the last owner goes, the socket is closed and the pending operation fails later.
\<close>

datatype udp_event =
    Received bool endpoint "8 word list"
  | Receive_failed
  | Send_performed
  | Released

fun asio_reports :: "udp_event \<Rightarrow> AsyncUdpServer \<times> unit net \<Rightarrow> (AsyncUdpServer \<times> unit net) option" where
  "asio_reports (Received at_once peer datagram) (srv, n) =
     (if receiving (sock srv) \<and> socket_open (sock srv)
      then
        (case receive_completed (call_server (owned srv) at_once) (Some (peer, datagram)) (sock srv) n of
           (s, n) \<Rightarrow> Some (srv\<lparr>sock := s\<rparr>, n))
      else None)"
| "asio_reports Receive_failed (srv, n) =
     (if receiving (sock srv)
      then
        (case receive_completed (call_server (owned srv) True) None (sock srv) n of (s, n) \<Rightarrow> Some (srv\<lparr>sock := s\<rparr>, n))
      else None)"
| "asio_reports Send_performed (srv, n) =
     (case outgoing n of
        [] \<Rightarrow> None
      | op # ops \<Rightarrow> Some (srv, perform_send (sock srv) op (n\<lparr>outgoing := ops\<rparr>)))"
| "asio_reports Released (srv, n) = Some (srv\<lparr>owned := False, sock := UdpSocket_close (sock srv)\<rparr>, n)"

fun udp_run :: "udp_event list \<Rightarrow> AsyncUdpServer \<times> unit net \<Rightarrow> (AsyncUdpServer \<times> unit net) option" where
  "udp_run [] st = Some st"
| "udp_run (e # es) st = (case asio_reports e st of None \<Rightarrow> None | Some st \<Rightarrow> udp_run es st)"

section \<open>The client\<close>

text \<open>
  What the operating system does with the client's temporary socket: whether it can be created and
  bound, whether the request can be sent, and the completions of the one receive operation that may
  happen, with the millisecond at which they do and \<^term>\<open>None\<close> for an error. The loop runs until the
  operation has completed or the time is over.
\<close>

record client_env =
  can_open :: bool
  can_bind :: bool
  send_ok :: bool
  arrivals :: "(int \<times> (endpoint \<times> 8 word list) option) list"

definition is_loopback :: "endpoint \<Rightarrow> bool" where
  "is_loopback ep =
     (if length (ip_address ep) = 4 then hd (ip_address ep) = 127 else ip_address ep = replicate 15 0 @ [1])"

definition request_response ::
  "client_env \<Rightarrow> endpoint \<Rightarrow> 8 word list \<Rightarrow> 8 word list \<Rightarrow> int \<Rightarrow> bool \<times> 8 word list" where
  "request_response W peer req resp timeout_ms =
     (if \<not> can_open W then (False, resp)
      else if is_loopback peer \<and> \<not> can_bind W then (False, resp)
      else if \<not> send_ok W then (False, resp)
      else
        case find (\<lambda>(t, _). t < timeout_ms) (arrivals W) of
          Some (_, Some (sender, datagram)) \<Rightarrow>
            (let bytes = take RECV_BUF_SIZE datagram
             in if 0 < length bytes then (True, bytes) else (False, resp))
        | _ \<Rightarrow> (False, resp))"

section \<open>Telemetry\<close>

text \<open>The packed structure; the floats are bit patterns.\<close>

record RobotTelemetryPacket =
  pkt_robot_id :: "32 word"
  pkt_pos :: "32 word \<times> 32 word \<times> 32 word"
  pkt_vel :: "32 word \<times> 32 word \<times> 32 word"
  wheel_speeds :: "32 word list"

definition packet_bytes :: "RobotTelemetryPacket \<Rightarrow> 8 word list" where
  "packet_bytes p =
     (case (pkt_pos p, pkt_vel p) of ((x, y, th), (vx, vy, w)) \<Rightarrow>
        le_bytes 4 (pkt_robot_id p) @ le_bytes 4 x @ le_bytes 4 y @ le_bytes 4 th
        @ le_bytes 4 vx @ le_bytes 4 vy @ le_bytes 4 w @ concat (map (le_bytes 4) (wheel_speeds p)))"

record Transmitter =
  tx_socket :: "unit UdpSocket"
  peer_endpoint :: endpoint

definition Transmitter_new :: "endpoint \<Rightarrow> 8 word list \<Rightarrow> Transmitter" where
  "Transmitter_new peer garbage =
     \<lparr>tx_socket = Bind (Endpoint [0, 0, 0, 0] 0) (UdpSocket_new garbage), peer_endpoint = peer\<rparr>"

definition transmit ::
  "(real \<Rightarrow> 32 word) \<Rightarrow> bool \<Rightarrow> 32 word \<Rightarrow> real \<times> real \<times> real \<Rightarrow> real \<times> real \<times> real \<Rightarrow> real list
   \<Rightarrow> Transmitter \<Rightarrow> unit net \<Rightarrow> unit net" where
  "transmit to_float at_once robot_id pos vel wheels t n =
     (let packet = \<lparr>pkt_robot_id = robot_id,
                    pkt_pos = (to_float (fst pos), to_float (fst (snd pos)), to_float (snd (snd pos))),
                    pkt_vel = (to_float (fst vel), to_float (fst (snd vel)), to_float (snd (snd vel))),
                    wheel_speeds = map to_float (take 4 wheels)\<rparr>
      in case new_vector (packet_bytes packet) n of
           (data, n) \<Rightarrow> delete_vector data (async_send_to at_once (peer_endpoint t) data None (tx_socket t) n))"

section \<open>The server in every run\<close>

text \<open>The answers that leave the server as they should, in order; the others are sent too late.\<close>

fun echoes :: "udp_event list \<Rightarrow> (endpoint \<times> 8 word list option) list" where
  "echoes [] = []"
| "echoes (Received True peer datagram # es) = (peer, Some (take RECV_BUF_SIZE datagram)) # echoes es"
| "echoes (_ # es) = echoes es"

definition intact :: "unit net \<Rightarrow> (endpoint \<times> 8 word list option) list" where
  "intact n = filter (\<lambda>(_, bs). bs \<noteq> None) (on_wire n)"

lemma perform_send_keeps [simp]:
  "vectors (perform_send s op n) = vectors n" "outgoing (perform_send s op n) = outgoing n"
  "next_vector (perform_send s op n) = next_vector n"
  by (auto simp: perform_send_def send_completed_def split: prod.splits option.splits)

lemma async_send_keeps [simp]:
  "vectors (async_send_to at_once peer v cb s n) = vectors n"
  by (simp add: async_send_to_def)

lemma closed_sends_nothing: "\<not> socket_open s \<Longrightarrow> on_wire (perform_send s op n) = on_wire n"
  by (auto simp: perform_send_def send_completed_def split: prod.splits option.splits)

lemma closed_run:
  assumes "\<not> socket_open (sock srv)" and "udp_run evs (srv, n) = Some (srv', n')"
  shows "on_wire n' = on_wire n \<and> (\<forall>at_once peer d. Received at_once peer d \<notin> set evs)"
  using assms
proof (induction evs arbitrary: srv n)
  case (Cons e evs)
  show ?case
  proof (cases e)
    case (Received a p d)
    with Cons.prems show ?thesis by simp
  next
    case Receive_failed
    with Cons.prems Cons.IH [of "srv\<lparr>sock := (sock srv)\<lparr>receiving := False\<rparr>\<rparr>" n] show ?thesis
      by (simp add: receive_completed_def split: if_splits)
  next
    case Send_performed
    with Cons.prems obtain op ops where o: "outgoing n = op # ops" by (auto split: list.splits)
    with Send_performed Cons.prems Cons.IH [of srv "perform_send (sock srv) op (n\<lparr>outgoing := ops\<rparr>)"] show ?thesis
      by (simp add: closed_sends_nothing)
  next
    case Released
    with Cons.prems Cons.IH [of "srv\<lparr>owned := False, sock := UdpSocket_close (sock srv)\<rparr>" n] show ?thesis
      by (simp add: UdpSocket_close_def)
  qed
qed simp

text \<open>What holds between two events: no vector is alive, and late answers belong to late events.\<close>

definition echo_inv :: "(endpoint \<Rightarrow> bool) \<Rightarrow> AsyncUdpServer \<Rightarrow> unit net \<Rightarrow> bool" where
  "echo_inv late srv n \<longleftrightarrow>
     vectors n = (\<lambda>_. None) \<and> user_handler (sock srv) = Some Weak_self \<and> owned srv = socket_open (sock srv)
     \<and> (\<forall>(p, v, cb) \<in> set (outgoing n). late p) \<and> (\<forall>p. (p, None) \<in> set (on_wire n) \<longrightarrow> late p)"

lemma echo_inv_mono: "echo_inv late srv n \<Longrightarrow> (\<And>p. late p \<Longrightarrow> late' p) \<Longrightarrow> echo_inv late' srv n"
  by (auto simp: echo_inv_def)

lemma take_min_length: "take (min (length xs) k) xs = take k xs"
  by (simp add: min_def)

lemma receive_echo:
  assumes "echo_inv late srv n" and "socket_open (sock srv)" and "\<not> at_once \<Longrightarrow> late peer"
    and "receive_completed (call_server (owned srv) at_once) (Some (peer, d)) (sock srv) n = (s, n')"
  shows "echo_inv late (srv\<lparr>sock := s\<rparr>) n' \<and> receiving s
    \<and> intact n' = intact n @ (if at_once then [(peer, Some (take RECV_BUF_SIZE d))] else [])"
  using assms
  by (cases at_once)
    (auto simp: echo_inv_def receive_completed_def new_vector_def call_server_def on_receive_def async_send_to_def
      perform_send_def send_completed_def start_receive_def delete_vector_def intact_def Let_def fun_eq_iff take_min_length)

lemma send_echo:
  assumes "echo_inv late srv n" and "outgoing n = op # ops"
  shows "echo_inv late srv (perform_send (sock srv) op (n\<lparr>outgoing := ops\<rparr>))
    \<and> intact (perform_send (sock srv) op (n\<lparr>outgoing := ops\<rparr>)) = intact n"
  using assms by (cases op) (auto simp: echo_inv_def perform_send_def send_completed_def intact_def split: option.splits)

lemma echo_run:
  assumes "echo_inv late srv n" and "udp_run evs (srv, n) = Some (srv', n')"
    and "\<And>p d. Received False p d \<in> set evs \<Longrightarrow> late p"
  shows "echo_inv late srv' n' \<and> intact n' = intact n @ echoes evs
    \<and> (receiving (sock srv') \<longleftrightarrow> receiving (sock srv) \<and> Receive_failed \<notin> set evs)"
  using assms
proof (induction evs arbitrary: srv n)
  case (Cons e evs)
  have late: "Received False p d \<in> set evs \<Longrightarrow> late p" for p d using Cons.prems(3) by auto
  show ?case
  proof (cases e)
    case (Received a p d)
    obtain s1 n1 where r: "receive_completed (call_server (owned srv) a) (Some (p, d)) (sock srv) n = (s1, n1)"
      by (cases "receive_completed (call_server (owned srv) a) (Some (p, d)) (sock srv) n")
    with Received Cons.prems(2) have o: "receiving (sock srv)" "socket_open (sock srv)"
      and rest: "udp_run evs (srv\<lparr>sock := s1\<rparr>, n1) = Some (srv', n')"
      by (simp_all split: if_splits)
    have "\<not> a \<Longrightarrow> late p" using Cons.prems(3) [of p d] Received by auto
    from receive_echo [OF Cons.prems(1) o(2) this r] Cons.IH [OF _ rest late] o(1) Received show ?thesis
      by (cases a) auto
  next
    case Receive_failed
    have "echo_inv late (srv\<lparr>sock := (sock srv)\<lparr>receiving := False\<rparr>\<rparr>) n"
      using Cons.prems(1) by (simp add: echo_inv_def)
    from Cons.IH [OF this _ late] Receive_failed Cons.prems(2) show ?thesis
      by (auto simp: receive_completed_def split: if_splits)
  next
    case Send_performed
    with Cons.prems(2) obtain op ops where o: "outgoing n = op # ops" by (auto split: list.splits)
    note s = send_echo [OF Cons.prems(1) o]
    from Cons.IH [OF conjunct1 [OF s] _ late] s Send_performed Cons.prems(2) o show ?thesis by simp
  next
    case Released
    have "echo_inv late (srv\<lparr>owned := False, sock := UdpSocket_close (sock srv)\<rparr>) n"
      using Cons.prems(1) by (simp add: echo_inv_def UdpSocket_close_def)
    from Cons.IH [OF this _ late] Released Cons.prems(2) show ?thesis by (simp add: UdpSocket_close_def)
  qed
qed simp

text \<open>
  Property C23. When the echo server echoes. As it is written, never: \<open>Bind\<close> does nothing, so the socket
  is never opened, in no run does a datagram arrive or leave, and after the first completion, which
  is an error, no receive operation is pending any more. If \<open>Bind\<close> opened the socket, then in every
  run the answers sent at once would be the datagrams received, cut to 1400 bytes, in order; every
  answer that asio sends later than that comes from a vector that is already destroyed; and a single
  receive error would end the service for good, since the handler starts the next operation only
  after a success.
\<close>

theorem udp_echo:
  fixes ep :: endpoint and garbage :: "8 word list"
  defines "srv0 \<equiv> server_start (AsyncUdpServer_new ep garbage)"
  shows "(udp_run evs (srv0, empty_net) = Some (srv, n) \<longrightarrow>
      on_wire n = [] \<and> (\<forall>at_once peer d. Received at_once peer d \<notin> set evs))
    \<and> (udp_run evs (srv0\<lparr>sock := (sock srv0)\<lparr>socket_open := True\<rparr>\<rparr>, empty_net) = Some (srv, n) \<longrightarrow>
      filter (\<lambda>(_, bs). bs \<noteq> None) (on_wire n) = echoes evs
      \<and> (\<forall>peer. (peer, None) \<in> set (on_wire n) \<longrightarrow> (\<exists>d. Received False peer d \<in> set evs))
      \<and> (receiving (sock srv) \<longleftrightarrow> Receive_failed \<notin> set evs))"
proof -
  have closed: "\<not> socket_open (sock srv0)"
    by (simp add: srv0_def server_start_def AsyncUdpServer_new_def UdpSocket_new_def Bind_def start_receive_def)
  let ?late = "\<lambda>p. \<exists>d. Received False p d \<in> set evs"
  have "echo_inv ?late (srv0\<lparr>sock := (sock srv0)\<lparr>socket_open := True\<rparr>\<rparr>) empty_net" and "receiving (sock srv0)"
    by (simp_all add: echo_inv_def empty_net_def srv0_def server_start_def AsyncUdpServer_new_def UdpSocket_new_def
        Bind_def start_receive_def)
  from echo_run [OF this(1), of evs srv n] this(2) closed_run [OF closed, of evs empty_net srv n] show ?thesis
    by (auto simp: intact_def echo_inv_def empty_net_def)
qed

theorem udp_echo_witness:
  "\<exists>srv n. udp_run [Received True (Endpoint [10, 0, 0, 7] 5000) [1, 2], Received False (Endpoint [10, 0, 0, 8] 5000) [3],
        Send_performed, Receive_failed]
      ((server_start (AsyncUdpServer_new (Endpoint [0, 0, 0, 0] 9000) []))\<lparr>sock :=
          (sock (server_start (AsyncUdpServer_new (Endpoint [0, 0, 0, 0] 9000) [])))\<lparr>socket_open := True\<rparr>\<rparr>, empty_net)
      = Some (srv, n)
    \<and> on_wire n = [(Endpoint [10, 0, 0, 7] 5000, Some [1, 2]), (Endpoint [10, 0, 0, 8] 5000, None)]
    \<and> \<not> receiving (sock srv)"
proof -
  let ?evs = "[Received True (Endpoint [10, 0, 0, 7] 5000) [1, 2], Received False (Endpoint [10, 0, 0, 8] 5000) [3],
        Send_performed, Receive_failed]"
    and ?s0 = "(server_start (AsyncUdpServer_new (Endpoint [0, 0, 0, 0] 9000) []))"
  obtain srv n where r: "udp_run ?evs (?s0\<lparr>sock := (sock ?s0)\<lparr>socket_open := True\<rparr>\<rparr>, empty_net) = Some (srv, n)"
    and w: "on_wire n = [(Endpoint [10, 0, 0, 7] 5000, Some [1, 2]), (Endpoint [10, 0, 0, 8] 5000, None)]"
    by (simp add: server_start_def AsyncUdpServer_new_def UdpSocket_new_def Bind_def start_receive_def empty_net_def
        receive_completed_def new_vector_def call_server_def on_receive_def async_send_to_def perform_send_def
        send_completed_def delete_vector_def RECV_BUF_SIZE_def)
  from udp_echo [of ?evs "Endpoint [0, 0, 0, 0] 9000" "[]" srv n] r w show ?thesis by auto
qed

section \<open>Telemetry never leaves\<close>

lemma transmit_closed:
  assumes "t = Transmitter_new peer garbage"
  shows "on_wire (transmit to_float at_once robot_id pos vel wheels t n) = on_wire n"
  using assms
  by (simp add: transmit_def Transmitter_new_def UdpSocket_new_def Bind_def new_vector_def delete_vector_def
      async_send_to_def perform_send_def send_completed_def Let_def)

lemma packet_bytes_length: "length (packet_bytes p) = 28 + 4 * length (wheel_speeds p)"
proof -
  have "length (concat (map (le_bytes 4) ws)) = 4 * length ws" for ws :: "32 word list" by (induction ws) auto
  then show ?thesis by (simp add: packet_bytes_def split: prod.splits)
qed

definition packet_words :: "RobotTelemetryPacket \<Rightarrow> 32 word list" where
  "packet_words p =
     (case (pkt_pos p, pkt_vel p) of ((x, y, th), (vx, vy, w)) \<Rightarrow>
        [pkt_robot_id p, x, y, th, vx, vy, w] @ wheel_speeds p)"

lemma packet_roundtrip:
  assumes "k < length (packet_words p)"
  shows "le_word (take 4 (drop (4 * k) (packet_bytes p))) = packet_words p ! k"
proof -
  have w: "le_word (take 4 (drop (4 * k) (concat (map (le_bytes 4) ws)))) = ws ! k" if "k < length ws"
    for k and ws :: "32 word list"
    using that
  proof (induction ws arbitrary: k)
    case (Cons x ws)
    then show ?case by (cases k) (simp_all add: le_word_le_bytes take_bit_word_eq_self)
  qed simp
  have "packet_bytes p = concat (map (le_bytes 4) (packet_words p))"
    by (simp add: packet_bytes_def packet_words_def split: prod.splits)
  with w [OF assms] show ?thesis by simp
qed

end
