(* ===== verification/Broadcast.thy ===== *)
theory Broadcast
  imports CameraParse Udp
begin

text \<open>
  The protocol between \<open>libs/comm/examples/BroadcastSender.cpp\<close> and \<open>BroadcastReceiver.cpp\<close>: the
  sender broadcasts numbered messages, repeats each every 200 ms until it is acknowledged, and then
  waits 500 ms before the next; the receiver acknowledges whatever it gets and counts the messages
  that come in order. Both stop after ten. The two event loops and a network that may lose,
  duplicate and reorder datagrams take steps in any order.

  The sockets are those of \<open>Udp\<close>: a receive operation succeeds on an open socket only, it may fail at
  any time, and after an error no other is started. What \<open>Bind\<close> does is the parameter \<open>bind\<close>: with
  the program's own, which is empty, the receiver's socket is never opened; the protocol can only be
  judged with one that opens it.

  A wait on a timer is pending until the timer expires or is cancelled or set anew; once it has
  expired its handler is due and can no longer be cancelled. A send is taken to be performed at once
  (\<open>Udp\<close> shows what happens otherwise), and the network to carry the two programs' datagrams only.
\<close>

section \<open>Numbers as strings\<close>

definition digit :: "nat \<Rightarrow> char" where "digit n = ''0123456789'' ! n"

fun decimal :: "nat \<Rightarrow> string" where
  "decimal n = (if n < 10 then [digit n] else decimal (n div 10) @ [digit (n mod 10)])"

declare decimal.simps [simp del]

definition to_string :: "int \<Rightarrow> string" where
  "to_string i = (if i < 0 then CHR ''-'' # decimal (nat (- i)) else decimal (nat i))"

section \<open>The sender\<close>

definition max_count :: int where "max_count = 10"

text \<open>What a send puts on the network: nothing if the socket is closed.\<close>

definition sent :: "unit UdpSocket \<Rightarrow> string \<Rightarrow> string list" where
  "sent s d = (if socket_open s then [d] else [])"

record sender =
  sender_socket :: "unit UdpSocket"
  count :: int
  send_stopped :: bool
  retry_waiting :: bool
  retry_due :: nat
  delay_waiting :: bool
  delay_due :: nat

type_synonym bind_function = "endpoint \<Rightarrow> unit UdpSocket \<Rightarrow> unit UdpSocket"

definition sender_init :: "bind_function \<Rightarrow> 8 word list \<Rightarrow> sender" where
  "sender_init bind garbage =
     (let sock = UdpSocket_new garbage;
          sock = bind (Endpoint [0, 0, 0, 0] 0) sock;
          sock = set_broadcast True sock;
          sock = start_receive () sock
      in \<lparr>sender_socket = sock, count = 0, send_stopped = False, retry_waiting = False, retry_due = 0,
          delay_waiting = False, delay_due = 0\<rparr>)"

text \<open>The datagrams it sends, and the new state.\<close>

definition send_current :: "sender \<Rightarrow> string list \<times> sender" where
  "send_current s =
     (if count s \<ge> max_count then ([], s)
      else (sent (sender_socket s) (''broadcast:'' @ to_string (count s)), s\<lparr>retry_waiting := True\<rparr>))"

definition on_ack :: "string \<Rightarrow> sender \<Rightarrow> sender" where
  "on_ack d s =
     (if d = ''ACK:'' @ to_string (count s)
      then
        let s = s\<lparr>retry_waiting := False, count := count s + 1\<rparr>
        in if count s \<ge> max_count then s\<lparr>send_stopped := True\<rparr> else s\<lparr>delay_waiting := True\<rparr>
      else s)"

text \<open>The lambda of \<open>start_receive\<close>: an acknowledgement has arrived, or the operation has failed.\<close>

definition ack_received :: "string \<Rightarrow> sender \<Rightarrow> sender" where
  "ack_received d s =
     (let s = s\<lparr>sender_socket := (sender_socket s)\<lparr>receiving := False\<rparr>\<rparr>;
          s = on_ack d s
      in s\<lparr>sender_socket := start_receive () (sender_socket s)\<rparr>)"

definition sender_failed :: "sender \<Rightarrow> sender" where
  "sender_failed s = s\<lparr>sender_socket := (sender_socket s)\<lparr>receiving := False\<rparr>\<rparr>"

section \<open>The receiver\<close>

definition max_recv :: int where "max_recv = 10"

text \<open>\<open>ended\<close>: its loop was stopped, has nothing left to wait for, or an exception has left it.\<close>

record receiver =
  receiver_socket :: "unit UdpSocket"
  recv_count :: int
  ended :: bool

definition receiver_init :: "bind_function \<Rightarrow> 8 word list \<Rightarrow> receiver" where
  "receiver_init bind garbage =
     (let sock = UdpSocket_new garbage;
          sock = bind (Endpoint [0, 0, 0, 0] 9005) sock;
          sock = start_receive () sock
      in \<lparr>receiver_socket = sock, recv_count = 0, ended = False\<rparr>)"

text \<open>The handler: what it sends, and the new state or the exception of \<open>stoi\<close>.\<close>

definition on_broadcast :: "string \<Rightarrow> receiver \<Rightarrow> string list \<times> (conversion_error + receiver)" where
  "on_broadcast d r =
     (if take 10 d = ''broadcast:''
      then
        let acks = sent (receiver_socket r) (''ACK:'' @ drop 10 d)
        in case stoi (drop 10 d) of
             Inl e \<Rightarrow> (acks, Inl e)
           | Inr seq \<Rightarrow>
               (let r = (if seq = recv_count r then r\<lparr>recv_count := recv_count r + 1\<rparr> else r);
                    r = (if recv_count r \<ge> max_recv then r\<lparr>ended := True\<rparr> else r)
                in (acks, Inr r))
      else ([], Inr r))"

text \<open>
  The lambda of \<open>start_receive\<close>. An exception leaves it before the next operation is started; if the
  operation fails, none is, and the loop has no work left.
\<close>

definition broadcast_received :: "string \<Rightarrow> receiver \<Rightarrow> string list \<times> receiver" where
  "broadcast_received d r =
     (let r = r\<lparr>receiver_socket := (receiver_socket r)\<lparr>receiving := False\<rparr>\<rparr>
      in case on_broadcast d r of
           (acks, Inl e) \<Rightarrow> (acks, r\<lparr>ended := True\<rparr>)
         | (acks, Inr r) \<Rightarrow> (acks, r\<lparr>receiver_socket := start_receive () (receiver_socket r)\<rparr>))"

definition receiver_failed :: "receiver \<Rightarrow> receiver" where
  "receiver_failed r = r\<lparr>receiver_socket := (receiver_socket r)\<lparr>receiving := False\<rparr>, ended := True\<rparr>"

section \<open>Both and the network\<close>

text \<open>A datagram in flight may be delivered any number of times, or lost.\<close>

record broadcast_system =
  the_sender :: sender
  the_receiver :: receiver
  messages :: "string set"
  acks :: "string set"

definition system_init :: "bind_function \<Rightarrow> 8 word list \<Rightarrow> 8 word list \<Rightarrow> broadcast_system" where
  "system_init bind garbage garbage' =
     (case send_current (sender_init bind garbage) of
        (ms, s) \<Rightarrow> \<lparr>the_sender = s, the_receiver = receiver_init bind garbage', messages = set ms, acks = {}\<rparr>)"

text \<open>What the sender's loop runs, until it is stopped.\<close>

inductive sender_step :: "broadcast_system \<Rightarrow> broadcast_system \<Rightarrow> bool" where
  retry_expires: "the_sender c = s \<Longrightarrow> retry_waiting s \<Longrightarrow>
    sender_step c (c\<lparr>the_sender := s\<lparr>retry_waiting := False, retry_due := retry_due s + 1\<rparr>\<rparr>)"
| retry_runs: "the_sender c = s \<Longrightarrow> 0 < retry_due s \<Longrightarrow> \<not> send_stopped s \<Longrightarrow>
    send_current (s\<lparr>retry_due := retry_due s - 1\<rparr>) = (ms, s') \<Longrightarrow>
    sender_step c (c\<lparr>the_sender := s', messages := messages c \<union> set ms\<rparr>)"
| delay_expires: "the_sender c = s \<Longrightarrow> delay_waiting s \<Longrightarrow>
    sender_step c (c\<lparr>the_sender := s\<lparr>delay_waiting := False, delay_due := delay_due s + 1\<rparr>\<rparr>)"
| delay_runs: "the_sender c = s \<Longrightarrow> 0 < delay_due s \<Longrightarrow> \<not> send_stopped s \<Longrightarrow>
    send_current (s\<lparr>delay_due := delay_due s - 1\<rparr>) = (ms, s') \<Longrightarrow>
    sender_step c (c\<lparr>the_sender := s', messages := messages c \<union> set ms\<rparr>)"
| ack_arrives: "the_sender c = s \<Longrightarrow> receiving (sender_socket s) \<Longrightarrow> socket_open (sender_socket s) \<Longrightarrow>
    d \<in> acks c \<Longrightarrow> \<not> send_stopped s \<Longrightarrow>
    sender_step c (c\<lparr>the_sender := ack_received d s\<rparr>)"
| ack_fails: "the_sender c = s \<Longrightarrow> receiving (sender_socket s) \<Longrightarrow> \<not> send_stopped s \<Longrightarrow>
    sender_step c (c\<lparr>the_sender := sender_failed s\<rparr>)"

text \<open>What the receiver's loop runs, until it ends.\<close>

inductive receiver_step :: "broadcast_system \<Rightarrow> broadcast_system \<Rightarrow> bool" where
  message_arrives: "the_receiver c = r \<Longrightarrow> receiving (receiver_socket r) \<Longrightarrow> socket_open (receiver_socket r) \<Longrightarrow>
    d \<in> messages c \<Longrightarrow> \<not> ended r \<Longrightarrow> broadcast_received d r = (as, r') \<Longrightarrow>
    receiver_step c (c\<lparr>the_receiver := r', acks := acks c \<union> set as\<rparr>)"
| message_fails: "the_receiver c = r \<Longrightarrow> receiving (receiver_socket r) \<Longrightarrow> \<not> ended r \<Longrightarrow>
    receiver_step c (c\<lparr>the_receiver := receiver_failed r\<rparr>)"

inductive bc_step :: "broadcast_system \<Rightarrow> broadcast_system \<Rightarrow> bool" where
  by_sender: "sender_step c c' \<Longrightarrow> bc_step c c'"
| by_receiver: "receiver_step c c' \<Longrightarrow> bc_step c c'"
| loss: "ms \<subseteq> messages c \<Longrightarrow> as \<subseteq> acks c \<Longrightarrow> bc_step c (c\<lparr>messages := ms, acks := as\<rparr>)"

inductive_cases sender_stepE: "sender_step c c'"
inductive_cases receiver_stepE: "receiver_step c c'"
inductive_cases bc_stepE: "bc_step c c'"

definition bc_reachable :: "bind_function \<Rightarrow> broadcast_system \<Rightarrow> bool" where
  "bc_reachable bind c \<longleftrightarrow> (\<exists>garbage garbage'. bc_step\<^sup>*\<^sup>* (system_init bind garbage garbage') c)"

section \<open>Strings and numbers\<close>

lemma digit_props:
  assumes "n < 10"
  shows "is_digit (digit n)" and "digit_value (digit n) = n"
proof -
  show "is_digit (digit n)" unfolding is_digit_def digit_def using assms by (intro nth_mem) simp
  have "list_all (\<lambda>n. digit_value (digit n) = n) [0..<10]"
    by (simp add: upt_rec digit_def digit_value_def)
  then show "digit_value (digit n) = n" using assms unfolding list_all_iff by simp
qed

lemma decimal_props: "list_all is_digit (decimal n) \<and> decimal n \<noteq> [] \<and> digits_value (decimal n) = n"
proof (induction n rule: decimal.induct)
  case (1 n)
  show ?case
  proof (cases "n < 10")
    case True
    then show ?thesis by (simp add: decimal.simps [of n] digit_props digits_value_def)
  next
    case False
    then show ?thesis
      using "1.IH" [OF False] by (simp add: decimal.simps [of n] digit_props digits_value_def)
  qed
qed

lemma to_string_inject: "0 \<le> i \<Longrightarrow> 0 \<le> j \<Longrightarrow> to_string i = to_string j \<longleftrightarrow> i = j"
proof -
  assume "0 \<le> i" "0 \<le> j"
  then have "digits_value (to_string i) = nat i" "digits_value (to_string j) = nat j"
    by (simp_all add: to_string_def decimal_props)
  with \<open>0 \<le> i\<close> \<open>0 \<le> j\<close> show ?thesis by (metis eq_nat_nat_iff)
qed

lemma stoi_to_string: "0 \<le> i \<Longrightarrow> i < 2 ^ 31 \<Longrightarrow> stoi (to_string i) = Inr i"
proof -
  assume i: "0 \<le> i" "i < 2 ^ 31"
  then have "nat i < 2 ^ 31" by (simp add: nat_less_iff)
  then have "digits_value (decimal (nat i)) < 2 ^ 31" by (simp only: decimal_props)
  then have "stoi (decimal (nat i)) = Inr (int (digits_value (decimal (nat i))))"
    using decimal_props [of "nat i"] by (subst stoi_digits) simp_all
  then show ?thesis using i(1) by (simp add: to_string_def decimal_props)
qed

section \<open>The invariant\<close>

definition sends_pending :: "sender \<Rightarrow> bool" where
  "sends_pending s \<longleftrightarrow> retry_waiting s \<or> 0 < retry_due s \<or> delay_waiting s \<or> 0 < delay_due s"

definition bc_inv :: "broadcast_system \<Rightarrow> bool" where
  "bc_inv c \<longleftrightarrow>
     (let s = the_sender c; r = the_receiver c
      in 0 \<le> count s \<and> count s \<le> recv_count r \<and> recv_count r \<le> count s + 1 \<and> recv_count r \<le> max_recv
         \<and> (ended r \<longleftrightarrow> recv_count r = max_recv \<or> \<not> receiving (receiver_socket r))
         \<and> (send_stopped s \<longleftrightarrow> count s = max_count)
         \<and> (\<not> send_stopped s \<longrightarrow> sends_pending s)
         \<and> socket_open (sender_socket s) \<and> (recv_count r = 0 \<or> socket_open (receiver_socket r))
         \<and> messages c \<subseteq> (\<lambda>k. ''broadcast:'' @ to_string k) ` {k. 0 \<le> k \<and> k \<le> count s \<and> k < max_count}
         \<and> acks c \<subseteq> (\<lambda>k. ''ACK:'' @ to_string k) ` {k. 0 \<le> k \<and> k < recv_count r})"

lemmas bc_defs = bc_inv_def sends_pending_def Let_def max_count_def max_recv_def

lemma init_simps [simp]:
  "socket_open (receiver_socket (the_receiver (system_init bind g g'))) =
    socket_open (bind (Endpoint [0, 0, 0, 0] 9005) (UdpSocket_new g'))"
  "count (the_sender (system_init bind g g')) = 0" "recv_count (the_receiver (system_init bind g g')) = 0"
  "receiving (sender_socket (the_sender (system_init bind g g')))"
  "\<not> ended (the_receiver (system_init bind g g'))" "\<not> send_stopped (the_sender (system_init bind g g'))"
  by (simp_all add: system_init_def send_current_def sender_init_def receiver_init_def start_receive_def Let_def max_count_def)

lemma inv_init: "bc_inv (system_init bind g g')"
  by (auto simp: bc_defs system_init_def send_current_def sender_init_def receiver_init_def start_receive_def
      set_broadcast_def sent_def)

lemma on_broadcast_number:
  assumes "0 \<le> k" and "k < max_count" and "socket_open (receiver_socket r)"
  shows "broadcast_received (''broadcast:'' @ to_string k) r =
    (let n = (if k = recv_count r then recv_count r + 1 else recv_count r)
     in ([''ACK:'' @ to_string k],
         r\<lparr>receiver_socket := start_receive () (receiver_socket r), recv_count := n, ended := ended r \<or> n \<ge> max_recv\<rparr>))"
  using assms stoi_to_string [of k]
  by (simp add: broadcast_received_def on_broadcast_def start_receive_def sent_def max_count_def Let_def)

lemma inv_receiver: "receiver_step c c' \<Longrightarrow> bc_inv c \<Longrightarrow> bc_inv c'"
proof (induction rule: receiver_step.induct)
  case (message_arrives c r d as r')
  then obtain k where k: "d = ''broadcast:'' @ to_string k" "0 \<le> k" "k \<le> count (the_sender c)" "k < max_count"
    by (auto simp: bc_inv_def Let_def)
  have "r' = r\<lparr>receiver_socket := start_receive () (receiver_socket r),
      recv_count := (if k = recv_count r then recv_count r + 1 else recv_count r),
      ended := (if k = recv_count r then recv_count r + 1 else recv_count r) \<ge> max_recv\<rparr>"
    and "as = [''ACK:'' @ to_string k]"
    using message_arrives.hyps(5,6) on_broadcast_number [OF k(2,4) message_arrives.hyps(3)] by (auto simp: k(1) Let_def)
  with message_arrives k show ?case by (auto simp: bc_defs start_receive_def)
next
  case (message_fails c r)
  then show ?case by (auto simp: bc_inv_def Let_def receiver_failed_def)
qed

lemma inv_sender: "sender_step c c' \<Longrightarrow> bc_inv c \<Longrightarrow> bc_inv c'"
proof (induction rule: sender_step.induct)
  case (ack_arrives c s d)
  then obtain k where k: "d = ''ACK:'' @ to_string k" "0 \<le> k" "k < recv_count (the_receiver c)"
    by (auto simp: bc_inv_def Let_def)
  have "d = ''ACK:'' @ to_string (count s) \<longleftrightarrow> k = count s"
    using ack_arrives k by (auto simp: bc_inv_def Let_def to_string_inject)
  with ack_arrives k show ?case by (auto simp: bc_defs on_ack_def ack_received_def start_receive_def)
qed (auto simp: bc_defs send_current_def sender_failed_def sent_def split: if_splits)

lemma inv_step: "bc_step c c' \<Longrightarrow> bc_inv c \<Longrightarrow> bc_inv c'"
proof (induction rule: bc_step.induct)
  case (loss ms c as)
  then show ?case by (auto simp: bc_inv_def Let_def)
qed (simp_all add: inv_sender inv_receiver)

lemma inv_steps: "bc_step\<^sup>*\<^sup>* c c' \<Longrightarrow> bc_inv c \<Longrightarrow> bc_inv c'"
  by (induction rule: rtranclp_induct) (auto intro: inv_step)

lemma reachable_bc_inv: "bc_reachable bind c \<Longrightarrow> bc_inv c"
  unfolding bc_reachable_def using inv_steps inv_init by blast

text \<open>Nobody opens or closes the receiver's socket once it is bound.\<close>

lemma receiver_socket_fixed:
  "bc_step c c' \<Longrightarrow> socket_open (receiver_socket (the_receiver c')) = socket_open (receiver_socket (the_receiver c))"
  by (elim bc_stepE sender_stepE receiver_stepE)
    (auto simp: receiver_failed_def broadcast_received_def on_broadcast_def start_receive_def Let_def
      split: if_splits sum.splits)

lemma receiver_closed:
  assumes "bc_reachable Bind c"
  shows "\<not> socket_open (receiver_socket (the_receiver c))"
proof -
  obtain g g' where "bc_step\<^sup>*\<^sup>* (system_init Bind g g') c" using assms by (auto simp: bc_reachable_def)
  then show ?thesis
    by (induction rule: rtranclp_induct) (simp_all add: receiver_socket_fixed, simp add: Bind_def UdpSocket_new_def)
qed

section \<open>Progress\<close>

lemma reachable_steps: "bc_reachable bind c \<Longrightarrow> bc_step\<^sup>*\<^sup>* c c' \<Longrightarrow> bc_reachable bind c'"
  unfolding bc_reachable_def by (meson rtranclp_trans)

lemma sender_steps: "sender_step\<^sup>*\<^sup>* c c' \<Longrightarrow> bc_step\<^sup>*\<^sup>* c c'"
  by (rule mono_rtranclp [rule_format]) (rule bc_step.by_sender)

lemma expired:
  assumes "retry_waiting (the_sender c) \<or> delay_waiting (the_sender c)"
  obtains c1 where "sender_step c c1" "count (the_sender c1) = count (the_sender c)"
    "send_stopped (the_sender c1) = send_stopped (the_sender c)" "sender_socket (the_sender c1) = sender_socket (the_sender c)"
    "0 < retry_due (the_sender c1) \<or> 0 < delay_due (the_sender c1)" "the_receiver c1 = the_receiver c"
  using assms
proof
  assume w: "retry_waiting (the_sender c)"
  show ?thesis by (rule that [OF sender_step.retry_expires [OF refl w]]) simp_all
next
  assume w: "delay_waiting (the_sender c)"
  show ?thesis by (rule that [OF sender_step.delay_expires [OF refl w]]) simp_all
qed

text \<open>Whatever it is waiting for, the sender comes to send its current message again.\<close>

definition again :: "broadcast_system \<Rightarrow> broadcast_system \<Rightarrow> bool" where
  "again c c' \<longleftrightarrow>
     ''broadcast:'' @ to_string (count (the_sender c)) \<in> messages c' \<and> count (the_sender c') = count (the_sender c)
     \<and> send_stopped (the_sender c') = send_stopped (the_sender c)
     \<and> sender_socket (the_sender c') = sender_socket (the_sender c) \<and> the_receiver c' = the_receiver c"

lemma send_due:
  assumes "0 < retry_due (the_sender c) \<or> 0 < delay_due (the_sender c)" and "\<not> send_stopped (the_sender c)"
    and "count (the_sender c) < max_count" and "socket_open (sender_socket (the_sender c))"
  shows "\<exists>c'. sender_step c c' \<and> again c c'"
  using assms(1)
proof
  let ?s = "the_sender c"
  assume w: "0 < retry_due ?s"
  have "send_current (?s\<lparr>retry_due := retry_due ?s - 1\<rparr>) = ([''broadcast:'' @ to_string (count ?s)],
      ?s\<lparr>retry_due := retry_due ?s - 1, retry_waiting := True\<rparr>)"
    using assms by (simp add: send_current_def sent_def)
  note step = sender_step.retry_runs [OF refl w assms(2) this]
  show ?thesis by (rule exI, rule conjI, rule step) (simp add: again_def)
next
  let ?s = "the_sender c"
  assume w: "0 < delay_due ?s"
  have "send_current (?s\<lparr>delay_due := delay_due ?s - 1\<rparr>) = ([''broadcast:'' @ to_string (count ?s)],
      ?s\<lparr>delay_due := delay_due ?s - 1, retry_waiting := True\<rparr>)"
    using assms by (simp add: send_current_def sent_def)
  note step = sender_step.delay_runs [OF refl w assms(2) this]
  show ?thesis by (rule exI, rule conjI, rule step) (simp add: again_def)
qed

lemma resend:
  assumes inv: "bc_inv c" and run: "\<not> send_stopped (the_sender c)"
  shows "\<exists>c'. sender_step\<^sup>*\<^sup>* c c' \<and> again c c'"
proof -
  have c: "count (the_sender c) < max_count" "socket_open (sender_socket (the_sender c))"
    using assms by (auto simp: bc_defs)
  show ?thesis
  proof (cases "0 < retry_due (the_sender c) \<or> 0 < delay_due (the_sender c)")
    case True
    from send_due [OF this run c] show ?thesis by blast
  next
    case False
    with assms have "retry_waiting (the_sender c) \<or> delay_waiting (the_sender c)"
      by (auto simp: bc_inv_def sends_pending_def Let_def)
    then obtain c1 where c1: "sender_step c c1" "count (the_sender c1) = count (the_sender c)"
      "send_stopped (the_sender c1) = send_stopped (the_sender c)"
      "sender_socket (the_sender c1) = sender_socket (the_sender c)"
      "0 < retry_due (the_sender c1) \<or> 0 < delay_due (the_sender c1)" "the_receiver c1 = the_receiver c"
      by (rule expired)
    with send_due [of c1] run c obtain c2 where c2: "sender_step c1 c2" "again c1 c2" by auto
    from c1(1) c2(1) have "sender_step\<^sup>*\<^sup>* c c2" by (meson r_into_rtranclp rtranclp.rtrancl_into_rtrancl)
    moreover have "again c c2" using c2(2) c1 by (simp add: again_def)
    ultimately show ?thesis by blast
  qed
qed

text \<open>The states in which both sides listen.\<close>

definition listening :: "broadcast_system \<Rightarrow> bool" where
  "listening c \<longleftrightarrow>
     receiving (sender_socket (the_sender c)) \<and> socket_open (receiver_socket (the_receiver c))"

lemma one_round:
  assumes inv: "bc_inv c" and on: "listening c" and run: "\<not> ended (the_receiver c)"
  shows "\<exists>c'. bc_step\<^sup>*\<^sup>* c c' \<and> bc_inv c' \<and> listening c' \<and> count (the_sender c') = count (the_sender c) + 1
    \<and> (ended (the_receiver c') \<longleftrightarrow> count (the_sender c') = max_count)"
proof -
  let ?k = "count (the_sender c)" and ?r = "the_receiver c"
  have k: "0 \<le> ?k" "?k < max_count" "\<not> send_stopped (the_sender c)" using inv run by (auto simp: bc_defs)
  have o: "receiving (receiver_socket ?r)" "socket_open (receiver_socket ?r)" "socket_open (sender_socket (the_sender c))"
    "receiving (sender_socket (the_sender c))"
    using inv run on by (auto simp: bc_inv_def Let_def listening_def)
  from resend [OF inv k(3)] obtain c1 where c1: "bc_step\<^sup>*\<^sup>* c c1" "again c c1" by (blast dest: sender_steps)
  note a = c1(2) [unfolded again_def]
  obtain r2 where r2: "broadcast_received (''broadcast:'' @ to_string ?k) ?r = ([''ACK:'' @ to_string ?k], r2)"
    and r2s: "receiver_socket r2 = start_receive () (receiver_socket ?r)"
    using on_broadcast_number [OF k(1,2) o(2)] by (simp add: Let_def)
  define c2 where "c2 = c1\<lparr>the_receiver := r2, acks := acks c1 \<union> {''ACK:'' @ to_string ?k}\<rparr>"
  have "receiver_step c1 c2"
    using receiver_step.message_arrives [of c1 ?r "''broadcast:'' @ to_string ?k"] a o run r2 by (simp add: c2_def)
  then have s2: "bc_step c1 c2" by (rule bc_step.by_receiver)
  define c3 where "c3 = c2\<lparr>the_sender := ack_received (''ACK:'' @ to_string ?k) (the_sender c1)\<rparr>"
  have "sender_step c2 c3"
    unfolding c3_def by (rule sender_step.ack_arrives) (use a o k(3) in \<open>simp_all add: c2_def\<close>)
  with c1(1) s2 have st: "bc_step\<^sup>*\<^sup>* c c3" by (meson bc_step.by_sender rtranclp.rtrancl_into_rtrancl)
  have cnt: "count (the_sender c3) = ?k + 1" and on3: "listening c3"
    using a o(2) r2s by (simp_all add: c3_def c2_def ack_received_def on_ack_def listening_def start_receive_def Let_def)
  have "recv_count ?r = ?k \<or> recv_count ?r = ?k + 1" using inv by (auto simp: bc_inv_def Let_def)
  then have "recv_count r2 = ?k + 1"
    using r2 on_broadcast_number [OF k(1,2) o(2)] by (auto simp: Let_def)
  then have "ended (the_receiver c3) \<longleftrightarrow> ?k + 1 = max_count"
    using inv_steps [OF st inv] r2s
    by (simp add: bc_inv_def Let_def c3_def c2_def max_count_def max_recv_def start_receive_def)
  with st inv_steps [OF st inv] cnt on3 show ?thesis by (intro exI [of _ c3]) simp
qed

lemma can_finish:
  "bc_inv c \<Longrightarrow> listening c \<Longrightarrow> \<not> ended (the_receiver c) \<Longrightarrow>
    \<exists>c'. bc_step\<^sup>*\<^sup>* c c' \<and> send_stopped (the_sender c')"
proof (induction "nat (max_count - count (the_sender c))" arbitrary: c rule: less_induct)
  case less
  obtain c1 where c1: "bc_step\<^sup>*\<^sup>* c c1" "bc_inv c1" "listening c1" "count (the_sender c1) = count (the_sender c) + 1"
    "ended (the_receiver c1) \<longleftrightarrow> count (the_sender c1) = max_count"
    using one_round [OF less.prems] by blast
  show ?case
  proof (cases "count (the_sender c1) = max_count")
    case True
    with c1 show ?thesis by (auto simp: bc_inv_def Let_def)
  next
    case False
    have "count (the_sender c) < max_count" using less.prems by (auto simp: bc_defs)
    with c1(4) have "nat (max_count - count (the_sender c1)) < nat (max_count - count (the_sender c))" by simp
    from less.hyps [OF this c1(2,3)] False c1 show ?thesis by (meson rtranclp_trans)
  qed
qed

text \<open>The last acknowledgement.\<close>

lemma to_string_9: "to_string 9 = ''9''"
  by (simp add: to_string_def decimal.simps digit_def)

lemma last_ack:
  assumes inv: "bc_inv c" and "''ACK:9'' \<in> acks c" and "receiving (sender_socket (the_sender c))"
  shows "\<exists>c'. bc_step\<^sup>*\<^sup>* c c' \<and> send_stopped (the_sender c')"
proof (cases "send_stopped (the_sender c)")
  case False
  have "9 < recv_count (the_receiver c)"
  proof -
    obtain k where "''ACK:9'' = ''ACK:'' @ to_string k" "0 \<le> k" "k < recv_count (the_receiver c)"
      using inv assms(2) by (auto simp: bc_inv_def Let_def)
    moreover from this have "k = 9" using to_string_inject [of k 9] by (simp add: to_string_9)
    ultimately show ?thesis by simp
  qed
  then have n: "count (the_sender c) = 9" using inv False by (auto simp: bc_defs)
  have "sender_step c (c\<lparr>the_sender := ack_received ''ACK:9'' (the_sender c)\<rparr>)"
    using assms False by (intro sender_step.ack_arrives) (auto simp: bc_inv_def Let_def)
  moreover have "send_stopped (ack_received ''ACK:9'' (the_sender c))"
    by (simp add: ack_received_def on_ack_def n to_string_9 max_count_def Let_def)
  ultimately show ?thesis by (intro exI conjI r_into_rtranclp) (erule bc_step.by_sender, simp)
qed blast

text \<open>A sender that is deaf, or that nobody will answer, never stops.\<close>

definition stuck :: "broadcast_system \<Rightarrow> bool" where
  "stuck c \<longleftrightarrow>
     \<not> send_stopped (the_sender c)
     \<and> (receiving (sender_socket (the_sender c)) \<longrightarrow>
          ''ACK:9'' \<notin> acks c \<and> (ended (the_receiver c) \<or> \<not> socket_open (receiver_socket (the_receiver c))))"

lemma stuck_sender: "sender_step c c' \<Longrightarrow> bc_inv c \<Longrightarrow> stuck c \<Longrightarrow> stuck c'"
proof (induction rule: sender_step.induct)
  case (ack_arrives c s d)
  have "\<not> (d = ''ACK:'' @ to_string (count s) \<and> count s + 1 \<ge> max_count)"
  proof
    assume *: "d = ''ACK:'' @ to_string (count s) \<and> count s + 1 \<ge> max_count"
    then have "count s = 9" using ack_arrives by (auto simp: bc_defs)
    with * ack_arrives show False by (auto simp: stuck_def to_string_9)
  qed
  with ack_arrives show ?case by (auto simp: stuck_def ack_received_def on_ack_def start_receive_def Let_def)
qed (auto simp: stuck_def send_current_def sender_failed_def split: if_splits)

lemma stuck_step: "bc_step c c' \<Longrightarrow> bc_inv c \<Longrightarrow> stuck c \<Longrightarrow> stuck c'"
proof (induction rule: bc_step.induct)
  case (by_receiver c c')
  then show ?case by (cases rule: receiver_step.cases) (auto simp: stuck_def receiver_failed_def)
qed (auto simp: stuck_sender, auto simp: stuck_def)

lemma stuck_steps: "bc_step\<^sup>*\<^sup>* c c' \<Longrightarrow> bc_inv c \<Longrightarrow> stuck c \<Longrightarrow> stuck c'"
proof (induction rule: rtranclp_induct)
  case (step y z)
  then show ?case using inv_steps stuck_step by blast
qed

text \<open>With a bind function that opens the socket.\<close>

definition opening_bind :: bind_function where
  "opening_bind ep s = s\<lparr>socket_open := True\<rparr>"

lemma init_listening: "listening (system_init opening_bind g g')"
  by (simp add: listening_def opening_bind_def)

lemma reach_count: "k < 10 \<Longrightarrow>
  \<exists>c. bc_reachable opening_bind c \<and> listening c \<and> count (the_sender c) = int k \<and> \<not> ended (the_receiver c)"
proof (induction k)
  case 0
  have "bc_reachable opening_bind (system_init opening_bind [] [])" by (auto simp: bc_reachable_def)
  then show ?case using init_listening by (intro exI [of _ "system_init opening_bind [] []"]) simp
next
  case (Suc k)
  then obtain c where c: "bc_reachable opening_bind c" "listening c" "count (the_sender c) = int k" "\<not> ended (the_receiver c)"
    by auto
  obtain c' where "bc_step\<^sup>*\<^sup>* c c'" "listening c'" "count (the_sender c') = count (the_sender c) + 1"
    "ended (the_receiver c') \<longleftrightarrow> count (the_sender c') = max_count"
    using one_round [OF reachable_bc_inv [OF c(1)] c(2,4)] by blast
  with reachable_steps [OF c(1)] c(3) Suc.prems show ?case
    by (intro exI [of _ c']) (simp add: max_count_def)
qed

text \<open>The receiver may count its tenth message and its acknowledgement be lost.\<close>

lemma last_ack_lost:
  "\<exists>c. bc_reachable opening_bind c \<and> recv_count (the_receiver c) = 10 \<and> acks c = {} \<and> \<not> send_stopped (the_sender c)"
proof -
  obtain c where c: "bc_reachable opening_bind c" "listening c" "count (the_sender c) = 9" "\<not> ended (the_receiver c)"
    using reach_count [of 9] by auto
  note inv = reachable_bc_inv [OF c(1)]
  let ?r = "the_receiver c"
  have k: "\<not> send_stopped (the_sender c)" "recv_count ?r = 9" "receiving (receiver_socket ?r)" "socket_open (receiver_socket ?r)"
    using inv c(2-4) by (auto simp: bc_defs listening_def)
  from resend [OF inv k(1)] obtain c1 where c1: "bc_step\<^sup>*\<^sup>* c c1" "again c c1" by (blast dest: sender_steps)
  have b: "''broadcast:'' @ to_string 9 \<in> messages c1" "the_receiver c1 = ?r" "\<not> send_stopped (the_sender c1)"
    using c1(2) c(3) k(1) by (simp_all add: again_def)
  obtain r2 where r2: "broadcast_received (''broadcast:'' @ to_string 9) ?r = ([''ACK:'' @ to_string 9], r2)"
    "recv_count r2 = 10"
    using on_broadcast_number [of 9 ?r] k by (simp add: max_count_def Let_def)
  let ?c2 = "c1\<lparr>the_receiver := r2, acks := acks c1 \<union> {''ACK:'' @ to_string 9}\<rparr>"
  have "bc_step c1 ?c2"
    using bc_step.by_receiver [OF receiver_step.message_arrives [OF b(2) k(3,4) b(1) c(4) r2(1)]] by simp
  moreover have "bc_step ?c2 (?c2\<lparr>messages := {}, acks := {}\<rparr>)" by (rule bc_step.loss) simp_all
  ultimately have "bc_step\<^sup>*\<^sup>* c (?c2\<lparr>messages := {}, acks := {}\<rparr>)"
    using c1(1) by (meson rtranclp.rtrancl_into_rtrancl)
  from reachable_steps [OF c(1) this] b(3) r2(2) show ?thesis by fastforce
qed

section \<open>Properties\<close>

text \<open>
  Property C21. What the broadcast protocol delivers, on any network that loses, duplicates and
  reorders datagrams, with receive operations that may fail, and whatever the timers do. For every
  function in the place of \<open>Bind\<close>: the receiver is never behind the sender and at most one message
  ahead; the sender stops exactly after ten acknowledged messages, and then the receiver has seen all
  ten in order; and the conversion of the number never throws, the receiver's loop ends exactly when
  it has counted ten or its receive operation has failed. With the program's own \<open>Bind\<close>, which is
  empty, the receiver's socket is never open: nothing is ever counted or acknowledged.
\<close>

theorem broadcast_in_order:
  assumes "bc_reachable bind c"
  shows "0 \<le> count (the_sender c)
    \<and> count (the_sender c) \<le> recv_count (the_receiver c)
    \<and> recv_count (the_receiver c) \<le> count (the_sender c) + 1
    \<and> recv_count (the_receiver c) \<le> 10
    \<and> (send_stopped (the_sender c) \<longleftrightarrow> count (the_sender c) = 10)
    \<and> (ended (the_receiver c) \<longleftrightarrow>
         recv_count (the_receiver c) = 10 \<or> \<not> receiving (receiver_socket (the_receiver c)))
    \<and> (bind = Bind \<longrightarrow> recv_count (the_receiver c) = 0 \<and> count (the_sender c) = 0 \<and> acks c = {})"
proof -
  note inv = reachable_bc_inv [OF assms]
  have "recv_count (the_receiver c) = 0 \<and> count (the_sender c) = 0 \<and> acks c = {}" if "bind = Bind"
    using receiver_closed [of c] assms inv that by (auto simp: bc_inv_def Let_def)
  with inv show ?thesis by (auto simp: bc_inv_def Let_def max_count_def max_recv_def)
qed

text \<open>
  Property C22. When the sender can still come to its end: exactly if it has stopped, or its receive
  operation is pending and either the last acknowledgement is on its way or the receiver is still
  listening on an open socket, whatever was lost before. So it cannot as the program is written,
  nor after one receive error on its side, nor once the receiver has counted ten, or has had a
  receive error, and its acknowledgements are lost. Until it has stopped, the sender comes to repeat its message
  by itself, for ever.
\<close>

theorem broadcast_completion:
  assumes "bc_reachable bind c"
  shows "((\<exists>c'. bc_step\<^sup>*\<^sup>* c c' \<and> send_stopped (the_sender c')) \<longleftrightarrow>
      send_stopped (the_sender c)
      \<or> receiving (sender_socket (the_sender c))
        \<and> (''ACK:9'' \<in> acks c
           \<or> \<not> ended (the_receiver c) \<and> socket_open (receiver_socket (the_receiver c))))
    \<and> (send_stopped (the_sender c)
       \<or> (\<exists>c'. sender_step\<^sup>*\<^sup>* (c\<lparr>messages := {}\<rparr>) c'
            \<and> ''broadcast:'' @ to_string (count (the_sender c)) \<in> messages c'))"
    (is "((\<exists>c'. ?ends c') \<longleftrightarrow> ?can) \<and> (?done \<or> ?repeats)")
proof
  note inv = reachable_bc_inv [OF assms]
  show "(\<exists>c'. ?ends c') \<longleftrightarrow> ?can"
  proof
    assume "\<exists>c'. ?ends c'"
    then obtain c' where c': "bc_step\<^sup>*\<^sup>* c c'" "send_stopped (the_sender c')" by blast
    then have "\<not> stuck c'" by (simp add: stuck_def)
    then have "\<not> stuck c" using stuck_steps [OF c'(1) inv] by blast
    then show ?can unfolding stuck_def by blast
  next
    assume ?can
    then show "\<exists>c'. ?ends c'"
      using last_ack [OF inv] can_finish [OF inv] unfolding listening_def by blast
  qed
  have "bc_step c (c\<lparr>messages := {}, acks := acks c\<rparr>)" by (rule bc_step.loss) simp_all
  with inv have "bc_inv (c\<lparr>messages := {}\<rparr>)" using inv_step by fastforce
  from resend [OF this] show "?done \<or> ?repeats" by (auto simp: again_def)
qed

theorem broadcast_in_order_witness:
  "(\<exists>c. bc_reachable opening_bind c \<and> send_stopped (the_sender c) \<and> recv_count (the_receiver c) = 10)
   \<and> recv_count (the_receiver (system_init Bind [] [])) = 0"
proof
  have i: "bc_reachable opening_bind (system_init opening_bind [] [])" by (auto simp: bc_reachable_def)
  obtain c where "bc_step\<^sup>*\<^sup>* (system_init opening_bind [] []) c" "send_stopped (the_sender c)"
    using can_finish [OF inv_init init_listening] by fastforce
  with reachable_steps [OF i] broadcast_in_order [of opening_bind c]
  show "\<exists>c. bc_reachable opening_bind c \<and> send_stopped (the_sender c) \<and> recv_count (the_receiver c) = 10"
    by (intro exI [of _ c]) auto
next
  have "bc_reachable Bind (system_init Bind [] [])" by (auto simp: bc_reachable_def)
  from broadcast_in_order [OF this] show "recv_count (the_receiver (system_init Bind [] [])) = 0" by simp
qed

theorem broadcast_completion_witness:
  "(\<exists>c. bc_step\<^sup>*\<^sup>* (system_init opening_bind [] []) c \<and> send_stopped (the_sender c))
   \<and> \<not> (\<exists>c. bc_step\<^sup>*\<^sup>* (system_init Bind [] []) c \<and> send_stopped (the_sender c))
   \<and> (\<exists>c. bc_reachable opening_bind c \<and> recv_count (the_receiver c) = 10
        \<and> \<not> (\<exists>c'. bc_step\<^sup>*\<^sup>* c c' \<and> send_stopped (the_sender c')))"
proof (intro conjI)
  have "bc_reachable opening_bind (system_init opening_bind [] [])" by (auto simp: bc_reachable_def)
  from broadcast_completion [OF this]
  show "\<exists>c. bc_step\<^sup>*\<^sup>* (system_init opening_bind [] []) c \<and> send_stopped (the_sender c)"
    by (simp add: opening_bind_def)
next
  have b: "bc_reachable Bind (system_init Bind [] [])" by (auto simp: bc_reachable_def)
  have "acks (system_init Bind [] []) = {}"
    by (simp add: system_init_def send_current_def sender_init_def sent_def max_count_def set_broadcast_def start_receive_def Let_def)
  with broadcast_completion [OF b] receiver_closed [OF b]
  show "\<not> (\<exists>c. bc_step\<^sup>*\<^sup>* (system_init Bind [] []) c \<and> send_stopped (the_sender c))" by simp
next
  obtain c where c: "bc_reachable opening_bind c" "recv_count (the_receiver c) = 10" "acks c = {}" "\<not> send_stopped (the_sender c)"
    using last_ack_lost by blast
  moreover have "ended (the_receiver c)"
    using reachable_bc_inv [OF c(1)] c(2) by (simp add: bc_inv_def Let_def max_recv_def)
  ultimately show "\<exists>c. bc_reachable opening_bind c \<and> recv_count (the_receiver c) = 10
      \<and> \<not> (\<exists>c'. bc_step\<^sup>*\<^sup>* c c' \<and> send_stopped (the_sender c'))"
    using broadcast_completion [OF c(1)] by blast
qed

end
