(* ===== verification/GameShape.thy ===== *)
theory GameShape
  imports GameInvariant
begin

text \<open>
  What no operation of the simulator changes: the size and the radius of the objects, which in every
  reachable state are the ones \<open>ObjectPosInit\<close> gave, the state of the game, and, but for the events
  of the window, whether it is to close.
\<close>

definition shape :: "GameObject \<Rightarrow> vec2 \<times> real" where
  "shape ob = (obj_size ob, obj_radius ob)"

definition shapes :: "Game \<Rightarrow> (vec2 \<times> real) list \<times> (vec2 \<times> real) list \<times> (vec2 \<times> real)" where
  "shapes g = (map shape (team1_players g), map shape (team2_players g), shape (ball g))"

text \<open>With it, what only key events change (whether the window is to close) and what nothing changes.\<close>

definition kept :: "Game \<Rightarrow> ((vec2 \<times> real) list \<times> (vec2 \<times> real) list \<times> (vec2 \<times> real)) \<times> bool \<times> GameState" where
  "kept g = (shapes g, window_should_close g, game_state g)"

lemmas kept_unfold = kept_def shapes_def

section \<open>The operations on objects\<close>

lemma shape_update [simp]:
  "shape (ob\<lparr>position := q\<rparr>) = shape ob" "shape (ob\<lparr>velocity := v\<rparr>) = shape ob"
  "shape (ob\<lparr>rotation := r\<rparr>) = shape ob" "shape (ob\<lparr>angular_velocity := r\<rparr>) = shape ob"
  "shape (ob\<lparr>locked := l\<rparr>) = shape ob" "shape (ob\<lparr>charge := r\<rparr>) = shape ob"
  "shape (ob\<lparr>kick := r\<rparr>) = shape ob" "shape (ob\<lparr>dribbler := r\<rparr>) = shape ob"
  "shape (ob\<lparr>obj_owner := o'\<rparr>) = shape ob" "shape (ob\<lparr>currentProfile := pr\<rparr>) = shape ob"
  "shape (ob\<lparr>current_segment_time := r\<rparr>) = shape ob" "shape (ob\<lparr>current_target := q\<rparr>) = shape ob"
  "shape (ob\<lparr>current_velocities := w\<rparr>) = shape ob"
  by (simp_all add: shape_def)

lemma shape_operations [simp]:
  "shape (Move dt w h ob) = shape ob" "shape (Reset q v ob) = shape ob"
  "shape (reset_player r q ob) = shape ob" "shape (turn_ball p d ob) = shape ob"
  "shape (clamp_player ob) = shape ob" "shape (forget_target ob) = shape ob"
  "shape (actuator_keys ks a ob) = shape ob" "shape (record_velocity dt q r ob) = shape ob"
  by (simp_all add: Move_def Reset_def reset_player_def turn_ball_def clamp_player_def forget_target_def
      actuator_keys_def record_velocity_def Let_def split: prod.split)

lemma shape_GameObject_new [simp]: "shape (GameObject_new mem q r v l) = ((r * 2, r * 2), r)"
  by (simp add: shape_def GameObject_new_def)

lemma shape_HandleBallCollision [simp]: "shape (HandleBallCollision b a p) = shape b"
  by (auto simp: HandleBallCollision_def CheckCollision_def Let_def split: option.splits prod.splits if_splits)

lemma shape_HandleBotCollision:
  "HandleBotCollision p1 p2 = (q1, q2) \<Longrightarrow> shape q1 = shape p1 \<and> shape q2 = shape p2"
  by (auto simp: HandleBotCollision_def Let_def split: if_splits)

lemma shape_reset_team [simp]: "map shape (reset_team r ss ps) = map shape ps"
  by (induction r ss ps rule: reset_team.induct) simp_all

lemma shape_follow_profile:
  "follow_profile dt hb p b = (p', b') \<Longrightarrow> shape p' = shape p \<and> shape b' = shape b"
  by (auto simp: follow_profile_def Let_def split: if_splits)

lemma shape_retarget: "retarget target p = Some (Inr p') \<Longrightarrow> shape p' = shape p"
  by (auto simp: retarget_def split: if_splits option.splits sum.splits)

lemma shape_shift_by_key:
  "shift_by_key held inside d stuck (p, b) = (p', b') \<Longrightarrow> shape p' = shape p \<and> shape b' = shape b"
  by (auto simp: shift_by_key_def split: if_splits)

lemma shape_move_by_keys:
  "move_by_keys l r u d vel stuck (p, b) = (p', b') \<Longrightarrow> shape p' = shape p \<and> shape b' = shape b"
  unfolding move_by_keys_def Let_def by (metis shape_shift_by_key prod.exhaust)

lemma shape_turn_by_keys:
  "turn_by_keys ks dt stuck (p, b) = (p', b') \<Longrightarrow> shape p' = shape p \<and> shape b' = shape b"
  by (auto simp: turn_by_keys_def Let_def split: if_splits)

section \<open>The operations on the game\<close>

lemma kept_set_player:
  "shape p = shape (get_player g a) \<Longrightarrow> kept (set_player a p g) = kept g"
  by (cases a) (auto simp: kept_unfold map_list_update_id)

lemma kept_ball: "shape b = shape (ball g) \<Longrightarrow> kept (g\<lparr>ball := b\<rparr>) = kept g"
  by (simp add: kept_unfold)

lemma kept_neutral [simp]:
  "kept (g\<lparr>keys := a\<rparr>) = kept g" "kept (g\<lparr>keys_processed := a\<rparr>) = kept g"
  "kept (g\<lparr>is_debug_mode := d\<rparr>) = kept g" "kept (g\<lparr>is_motion_debug_mode := d\<rparr>) = kept g"
  "kept (g\<lparr>is_strat_debug_mode := d\<rparr>) = kept g" "kept (g\<lparr>motion_debug := d\<rparr>) = kept g"
  "kept (g\<lparr>is_auto_mode := d\<rparr>) = kept g" "kept (g\<lparr>passive_mode := d\<rparr>) = kept g"
  "kept (g\<lparr>prevLeftClick := d\<rparr>) = kept g"
  "kept (g\<lparr>reset_timer := r\<rparr>) = kept g" "kept (g\<lparr>current_algo := al\<rparr>) = kept g"
  "kept (g\<lparr>m_strategy := st\<rparr>) = kept g" "kept (g\<lparr>rrtx_planner := pl\<rparr>) = kept g"
  by (simp_all add: kept_unfold)

lemma kept_collide_bots: "kept (collide_bots (a, b) g) = kept g"
proof (cases "a = b")
  case False
  obtain q1 q2 where h: "HandleBotCollision (get_player g a) (get_player g b) = (q1, q2)" by fastforce
  have "kept (set_player b q2 (set_player a q1 g)) = kept (set_player a q1 g)"
    using shape_HandleBotCollision [OF h] by (intro kept_set_player) (simp add: get_set_player [OF False])
  also have "\<dots> = kept g" using shape_HandleBotCollision [OF h] by (intro kept_set_player) simp
  finally show ?thesis using False by (simp add: collide_bots_def h)
qed (simp add: collide_bots_def)

lemma fold_kept: "(\<And>x h. kept (f x h) = kept h) \<Longrightarrow> kept (fold f xs g) = kept g"
  by (induction xs arbitrary: g) simp_all

lemma kept_DoCollisions [simp]: "kept (DoCollisions g) = kept g"
proof -
  have "kept (collide_bots x h) = kept h" for x h by (cases x) (simp add: kept_collide_bots)
  moreover have "kept (collide_ball a h) = kept h" for a h
    unfolding collide_ball_def by (rule kept_ball) simp
  ultimately show ?thesis by (simp add: DoCollisions_def fold_kept)
qed

lemma kept_operations [simp]:
  "kept (ResetPositions g) = kept g" "kept (kick_ball rot g) = kept g"
  "kept (mark_processed k g) = kept g" "kept (SetCurrentAlgo a g) = kept g"
  by (simp_all add: kept_unfold ResetPositions_def kick_ball_def mark_processed_def SetCurrentAlgo_def)

lemma kept_before_motion [simp]:
  "kept (tick_reset dt g) = kept g" "kept (HandleManualKick g) = kept g"
  by (simp_all add: tick_reset_def HandleManualKick_def Let_def split: option.split)

lemma kept_UpdateManualMotion [simp]: "kept (UpdateManualMotion a dt g) = kept g"
  by (auto simp: UpdateManualMotion_def Let_def intro: kept_set_player)

lemma kept_drive_to:
  assumes "drive_to dt a target g = Some (Inr g')"
  shows "kept g' = kept g"
proof (cases "vlength (vsub target (position (get_player g a))) > 1")
  case False
  then show ?thesis using assms by (simp add: drive_to_def Let_def)
next
  case True
  then obtain p p' b where p: "retarget target (get_player g a) = Some (Inr p)"
    and f: "follow_profile dt (obj_owner (ball g) = Some a) p (ball g) = (p', b)"
    and g': "g' = set_player a p' (g\<lparr>ball := b\<rparr>)"
    using assms by (auto simp: drive_to_def Let_def split: option.splits sum.splits prod.splits)
  have "kept g' = kept (g\<lparr>ball := b\<rparr>)"
    unfolding g' using shape_retarget [OF p] shape_follow_profile [OF f] by (intro kept_set_player) simp
  then show ?thesis using shape_follow_profile [OF f] by (simp add: kept_ball)
qed

lemma kept_Plan: "Plan start goal obs readings g = Some (g', path) \<Longrightarrow> kept g' = kept g"
  by (auto simp: Plan_def split: AlgoName.splits option.splits)

lemma kept_UpdateAutoStrategy:
  assumes u: "UpdateAutoStrategy readings a dt g = Some (Inr g')"
  shows "kept g' = kept g"
proof -
  show ?thesis
    using u unfolding UpdateAutoStrategy_def Let_def
    by (auto split: if_splits option.splits prod.splits simp del: get_player.simps
        dest!: kept_Plan kept_drive_to)
qed

lemma kept_UpdateSimulation:
  assumes "UpdateSimulation readings dt g = Some (Inr g')"
  shows "kept g' = kept g"
  using assms unfolding UpdateSimulation_def Let_def
  by (auto split: if_splits option.splits sum.splits dest!: kept_UpdateAutoStrategy simp: kept_ball)

lemma kept_let: "kept x = s \<Longrightarrow> (\<And>y. kept y = s \<Longrightarrow> kept (f y) = s) \<Longrightarrow> kept (let y = x in f y) = s"
  by (simp add: Let_def)

lemma kept_forget:
  "team1_players g = t1 \<Longrightarrow> team2_players g = t2 \<Longrightarrow>
   kept (g\<lparr>team1_players := map forget_target t1, team2_players := map forget_target t2\<rparr>) = kept g"
  by (auto simp: kept_unfold)

lemma kept_ProcessDebugKeys [simp]: "kept (ProcessDebugKeys g) = kept g"
  unfolding ProcessDebugKeys_def
proof (intro kept_let, goal_cases)
  case (5 y)
  then show ?case by (simp add: Let_def kept_forget)
qed (simp_all add: Let_def)

lemma shape_player_keys:
  assumes "player_keys dt x y th a g = (g', p, b)"
  shows "shape p = shape (get_player g a) \<and> shape b = shape (ball g)"
proof -
  obtain p1 b1 where m1: "move_by_keys (keys g KEY_A) (keys g KEY_D) (keys g KEY_W) (keys g KEY_S)
      (player_velocity * dt) (obj_owner (ball g) = Some a) (get_player g a, ball g) = (p1, b1)" by fastforce
  obtain p2 b2 where m2: "move_by_keys (keys g KEY_LEFT) (keys g KEY_RIGHT) (keys g KEY_UP) (keys g KEY_DOWN)
      (player_velocity * dt) (obj_owner (ball g) = Some a) (get_player g a, ball g) = (p2, b2)" by fastforce
  obtain p3 b3 where t: "turn_by_keys (keys g) dt (obj_owner (ball g) = Some a)
      (actuator_keys (keys g) True p1, b1) = (p3, b3)" by fastforce
  note k = shape_move_by_keys [OF m1] shape_move_by_keys [OF m2] shape_turn_by_keys [OF t]
  show ?thesis
    using assms k unfolding player_keys_def Let_def
    by (auto simp: m1 m2 t split: if_splits simp del: get_player.simps dest: shape_move_by_keys)
qed

lemma kept_ProcessPlayerInput [simp]: "kept (ProcessPlayerInput dt x y th a g) = kept g"
proof -
  obtain g' p b where r: "player_keys dt x y th a g = (g', p, b)" by (metis prod.exhaust)
  note k = shape_player_keys [OF r] player_keys_keeps(4) [OF r]
  have g': "kept g' = kept g" "ball g' = ball g" "get_player g' = get_player g" using k(2) by auto
  have "kept (set_player a (record_velocity dt q w p) (g'\<lparr>ball := b\<rparr>)) = kept (g'\<lparr>ball := b\<rparr>)" for q w
    using k(1) g'(3) by (intro kept_set_player) simp
  also have "\<dots> = kept g" using k(1) g' by (simp add: kept_ball)
  finally show ?thesis by (simp add: ProcessPlayerInput_def r Let_def)
qed

lemma kept_ProcessMouseClickMovement:
  "ProcessMouseClickMovement lc cursor g = Some (Inr g') \<Longrightarrow> kept g' = kept g"
  unfolding ProcessMouseClickMovement_def Let_def
  by (auto split: if_splits option.splits sum.splits simp del: get_player.simps set_player.simps
      intro!: kept_set_player)

lemma kept_ProcessInput:
  "ProcessInput lc cursor dt x y th g = Some (Inr g') \<Longrightarrow> kept g' = kept g"
  by (auto simp: ProcessInput_def fold_kept split: option.splits sum.splits
      dest!: kept_ProcessMouseClickMovement)

section \<open>Reachable states\<close>

lemma shapes_ObjectPosInit:
  "shapes (ObjectPosInit mem g) =
     (replicate 3 ((37, 37), 37 / 2), replicate 3 ((37, 37), 37 / 2), (ball_radius * 2, ball_radius * 2), ball_radius)"
  by (simp add: shapes_def ObjectPosInit_def Let_def upt_rec player_radius_def numeral_3_eq_3)

lemma kept_shapes: "kept g' = kept g \<Longrightarrow> shapes g' = shapes g \<and> game_state g' = game_state g"
  by (simp add: kept_def)

lemma shapes_KeyCallback [simp]:
  "shapes (KeyCallback k act g) = shapes g" "game_state (KeyCallback k act g) = game_state g"
  by (simp_all add: KeyCallback_def shapes_def Let_def split: key_action.split)

lemma shapes_game_step: "game_step g g' \<Longrightarrow> shapes g' = shapes g \<and> game_state g' = game_state g"
proof (induction rule: game_step.induct)
  case (input lc cursor dt x y th g g')
  then show ?case by (intro kept_shapes kept_ProcessInput)
next
  case (simulate readings dt g g')
  then show ?case by (intro kept_shapes kept_UpdateSimulation)
next
  case (algo g a)
  then show ?case by (simp add: SetCurrentAlgo_def shapes_def)
next
  case (close g)
  then show ?case by (simp add: shapes_def)
qed simp

lemma reachable_shapes:
  "reachable g \<Longrightarrow> shapes g =
     (replicate 3 ((37, 37), 37 / 2), replicate 3 ((37, 37), 37 / 2), (ball_radius * 2, ball_radius * 2), ball_radius)"
  by (induction rule: reachable.induct) (simp_all add: shapes_ObjectPosInit shapes_game_step)

end
