(* ===== verification/Graphics.thy ===== *)
theory Graphics
  imports GameShape
begin

text \<open>
  What the simulator shows: the transformations of the vendored library glm that the program uses
  (\<open>libs/external/glm/glm\<close>), the shader setters and sprites of \<open>libs/graphics\<close>, and the frame of
  \<open>Game::Render\<close>. OpenGL is not part of the program: a function that draws is the list of the calls
  it makes, and \<open>gl_run\<close> executes them on the part of OpenGL's state that decides what is drawn.
\<close>

section \<open>Matrices\<close>

type_synonym vec3 = "real \<times> real \<times> real"
type_synonym vec4 = "real \<times> real \<times> real \<times> real"

text \<open>Four columns, as in glm.\<close>

type_synonym mat4 = "vec4 \<times> vec4 \<times> vec4 \<times> vec4"

fun add4 :: "vec4 \<Rightarrow> vec4 \<Rightarrow> vec4" where
  "add4 (a, b, c, d) (a', b', c', d') = (a + a', b + b', c + c', d + d')"

fun scale4 :: "vec4 \<Rightarrow> real \<Rightarrow> vec4" where
  "scale4 (a, b, c, d) k = (a * k, b * k, c * k, d * k)"

definition mat4_one :: mat4 where
  "mat4_one = ((1, 0, 0, 0), (0, 1, 0, 0), (0, 0, 1, 0), (0, 0, 0, 1))"

fun mat4_apply :: "mat4 \<Rightarrow> vec4 \<Rightarrow> vec4" where
  "mat4_apply (m0, m1, m2, m3) (x, y, z, w) =
     add4 (add4 (scale4 m0 x) (scale4 m1 y)) (add4 (scale4 m2 z) (scale4 m3 w))"

text \<open>The code adds the four columns of the product from left to right, which differs in rounding only.\<close>

fun mat4_mult :: "mat4 \<Rightarrow> mat4 \<Rightarrow> mat4" where
  "mat4_mult m (n0, n1, n2, n3) = (mat4_apply m n0, mat4_apply m n1, mat4_apply m n2, mat4_apply m n3)"

fun translate :: "mat4 \<Rightarrow> vec3 \<Rightarrow> mat4" where
  "translate (m0, m1, m2, m3) (x, y, z) =
     (m0, m1, m2, add4 (add4 (add4 (scale4 m0 x) (scale4 m1 y)) (scale4 m2 z)) m3)"

fun normalize3 :: "vec3 \<Rightarrow> vec3" where
  "normalize3 (x, y, z) = (let k = 1 / sqrt (x * x + y * y + z * z) in (x * k, y * k, z * k))"

fun rotate_mat :: "mat4 \<Rightarrow> real \<Rightarrow> vec3 \<Rightarrow> mat4" where
  "rotate_mat (m0, m1, m2, m3) angle v =
     (let c = cos angle; s = sin angle;
          (ax, ay, az) = normalize3 v;
          (tx, ty, tz) = ((1 - c) * ax, (1 - c) * ay, (1 - c) * az);
          col = (\<lambda>r0 r1 r2. add4 (add4 (scale4 m0 r0) (scale4 m1 r1)) (scale4 m2 r2))
      in (col (c + tx * ax) (tx * ay + s * az) (tx * az - s * ay),
          col (ty * ax - s * az) (c + ty * ay) (ty * az + s * ax),
          col (tz * ax + s * ay) (tz * ay - s * ax) (c + tz * az),
          m3))"

fun scale_mat :: "mat4 \<Rightarrow> vec3 \<Rightarrow> mat4" where
  "scale_mat (m0, m1, m2, m3) (x, y, z) = (scale4 m0 x, scale4 m1 y, scale4 m2 z, m3)"

definition ortho :: "real \<Rightarrow> real \<Rightarrow> real \<Rightarrow> real \<Rightarrow> real \<Rightarrow> real \<Rightarrow> mat4" where
  "ortho l r b t zNear zFar =
     ((2 / (r - l), 0, 0, 0), (0, 2 / (t - b), 0, 0), (0, 0, - 2 / (zFar - zNear), 0),
      (- (r + l) / (r - l), - (t + b) / (t - b), - (zFar + zNear) / (zFar - zNear), 1))"

section \<open>Programs and sprites\<close>

datatype uniform_value =
    UFloat real
  | UInteger int
  | UVector2 "real \<times> real"
  | UVector3 vec3
  | UVector4 vec4
  | UMatrix4 mat4

text \<open>The calls of OpenGL that draw. Sizes, strides and offsets of attributes count floats.\<close>

datatype gl_call =
    UseProgram nat
  | Uniform nat string uniform_value
  | ActiveTexture nat
  | BindTexture nat
  | BindVertexArray nat
  | BindArrayBuffer nat
  | BufferData "real list"
  | EnableVertexAttribArray nat
  | VertexAttribPointer nat nat nat nat
  | DrawTriangles nat nat

definition Use :: "nat \<Rightarrow> gl_call list" where "Use shader = [UseProgram shader]"

definition SetFloat :: "nat \<Rightarrow> string \<Rightarrow> real \<Rightarrow> bool \<Rightarrow> gl_call list" where
  "SetFloat shader name v useShader = (if useShader then Use shader else []) @ [Uniform shader name (UFloat v)]"

definition SetInteger :: "nat \<Rightarrow> string \<Rightarrow> int \<Rightarrow> bool \<Rightarrow> gl_call list" where
  "SetInteger shader name v useShader = (if useShader then Use shader else []) @ [Uniform shader name (UInteger v)]"

definition SetVector2f :: "nat \<Rightarrow> string \<Rightarrow> real \<times> real \<Rightarrow> bool \<Rightarrow> gl_call list" where
  "SetVector2f shader name v useShader = (if useShader then Use shader else []) @ [Uniform shader name (UVector2 v)]"

definition SetVector3f :: "nat \<Rightarrow> string \<Rightarrow> vec3 \<Rightarrow> bool \<Rightarrow> gl_call list" where
  "SetVector3f shader name v useShader = (if useShader then Use shader else []) @ [Uniform shader name (UVector3 v)]"

definition SetVector4f :: "nat \<Rightarrow> string \<Rightarrow> vec4 \<Rightarrow> bool \<Rightarrow> gl_call list" where
  "SetVector4f shader name v useShader = (if useShader then Use shader else []) @ [Uniform shader name (UVector4 v)]"

definition SetMatrix4 :: "nat \<Rightarrow> string \<Rightarrow> mat4 \<Rightarrow> bool \<Rightarrow> gl_call list" where
  "SetMatrix4 shader name m useShader = (if useShader then Use shader else []) @ [Uniform shader name (UMatrix4 m)]"

record SpriteRenderer =
  sprite_shader :: nat
  quadVAO :: nat

text \<open>Two triangles: position and texture coordinates of each corner.\<close>

definition vertices :: "real list" where
  "vertices =
     [0, 1, 0, 1,  1, 0, 1, 0,  0, 0, 0, 0,
      0, 1, 0, 1,  1, 1, 1, 1,  1, 0, 1, 0]"

text \<open>\<open>vao\<close> and \<open>vbo\<close> are the names OpenGL returns for the vertex array and the buffer.\<close>

definition initRenderData :: "nat \<Rightarrow> nat \<Rightarrow> gl_call list" where
  "initRenderData vao vbo =
     [BindArrayBuffer vbo, BufferData vertices, BindVertexArray vao, EnableVertexAttribArray 0,
      VertexAttribPointer 0 4 4 0, BindArrayBuffer 0, BindVertexArray 0]"

definition SpriteRenderer_new :: "nat \<Rightarrow> nat \<Rightarrow> nat \<Rightarrow> SpriteRenderer \<times> gl_call list" where
  "SpriteRenderer_new shader vao vbo = (\<lparr>sprite_shader = shader, quadVAO = vao\<rparr>, initRenderData vao vbo)"

definition sprite_model :: "vec2 \<Rightarrow> vec2 \<Rightarrow> real \<Rightarrow> mat4" where
  "sprite_model pos sz rot =
     (let model = mat4_one;
          model = translate model (fst pos, snd pos, 0);
          model = translate model (1 / 2 * fst sz, 1 / 2 * snd sz, 0);
          model = rotate_mat model (rot * pi / 180) (0, 0, 1);
          model = translate model (- (1 / 2) * fst sz, - (1 / 2) * snd sz, 0)
      in scale_mat model (fst sz, snd sz, 1))"

definition DrawSprite :: "SpriteRenderer \<Rightarrow> nat \<Rightarrow> vec2 \<Rightarrow> vec2 \<Rightarrow> real \<Rightarrow> vec3 \<Rightarrow> gl_call list" where
  "DrawSprite r texture pos sz rot color =
     Use (sprite_shader r) @ SetMatrix4 (sprite_shader r) ''model'' (sprite_model pos sz rot) False
     @ SetVector3f (sprite_shader r) ''spriteColor'' color False
     @ [ActiveTexture 0, BindTexture texture, BindVertexArray (quadVAO r), DrawTriangles 0 6, BindVertexArray 0]"

section \<open>The frame\<close>

text \<open>
  The texture and the colour of an object are set when it is made and read here only, so they are
  arguments; every object of the game is white.
\<close>

definition Draw :: "SpriteRenderer \<Rightarrow> nat \<Rightarrow> vec3 \<Rightarrow> GameObject \<Rightarrow> gl_call list" where
  "Draw r sprite color ob = DrawSprite r sprite (position ob) (obj_size ob) (rotation ob) color"

definition white :: vec3 where "white = (1, 1, 1)"

record sprites =
  background :: nat
  robot :: nat
  robot2 :: nat
  face :: nat

definition Render :: "SpriteRenderer \<Rightarrow> sprites \<Rightarrow> Game \<Rightarrow> gl_call list" where
  "Render r t g =
     (if game_state g = GAME_ACTIVE
      then DrawSprite r (background t) (0, 0) (screen_width, screen_height) 0 white
           @ concat (map (Draw r (robot t) white) (team1_players g))
           @ concat (map (Draw r (robot2 t) white) (team2_players g))
           @ Draw r (face t) white (ball g)
      else [])"

definition projection :: mat4 where "projection = ortho 0 screen_width screen_height 0 (- 1) 1"

text \<open>The drawing set-up of \<open>Game::Init\<close>, with the shader program it has loaded.\<close>

definition Init_graphics :: "nat \<Rightarrow> nat \<Rightarrow> nat \<Rightarrow> SpriteRenderer \<times> gl_call list" where
  "Init_graphics shader vao vbo =
     (let (r, calls) = SpriteRenderer_new shader vao vbo
      in (r, Use shader @ SetInteger shader ''image'' 0 False
             @ SetMatrix4 shader ''projection'' projection False @ calls))"

text \<open>The vertex shader \<open>sprite.vs\<close>: texture coordinates and position of a vertex.\<close>

fun sprite_vs :: "mat4 \<Rightarrow> mat4 \<Rightarrow> vec4 \<Rightarrow> (real \<times> real) \<times> vec4" where
  "sprite_vs proj model (x, y, z, w) = ((z, w), mat4_apply (mat4_mult proj model) (x, y, 0, 1))"

section \<open>What is drawn\<close>

text \<open>
  The part of the state of OpenGL these calls depend on. A uniform belongs to the program in use; a
  vertex array remembers whether attribute 0 is enabled, and buffer, size, stride and offset.
\<close>

record gl_state =
  program :: nat
  uniforms :: "nat \<Rightarrow> string \<Rightarrow> uniform_value option"
  bound_texture :: nat
  bound_vao :: nat
  array_buffer :: nat
  buffers :: "nat \<Rightarrow> real list"
  enabled :: "nat \<Rightarrow> bool"
  attribute :: "nat \<Rightarrow> (nat \<times> nat \<times> nat \<times> nat) option"

text \<open>A draw call: the vertices fetched, the program, its uniforms, the texture.\<close>

type_synonym drawing = "real list list \<times> nat \<times> (string \<Rightarrow> uniform_value option) \<times> nat"

definition fetch :: "gl_state \<Rightarrow> nat \<Rightarrow> nat \<Rightarrow> real list list" where
  "fetch G first count =
     (case attribute G (bound_vao G) of
        Some (buf, sz, stride, offset) \<Rightarrow>
          if enabled G (bound_vao G)
          then map (\<lambda>i. take sz (drop (offset + i * stride) (buffers G buf))) [first..<first + count]
          else []
      | None \<Rightarrow> [])"

fun gl_step :: "gl_call \<Rightarrow> gl_state \<Rightarrow> gl_state \<times> drawing list" where
  "gl_step (UseProgram p) G = (G\<lparr>program := p\<rparr>, [])"
| "gl_step (Uniform p name v) G =
     (if program G = p
      then G\<lparr>uniforms := (uniforms G)(p := (uniforms G p)(name := Some v))\<rparr> else G, [])"
| "gl_step (ActiveTexture n) G = (G, [])"
| "gl_step (BindTexture t) G = (G\<lparr>bound_texture := t\<rparr>, [])"
| "gl_step (BindVertexArray a) G = (G\<lparr>bound_vao := a\<rparr>, [])"
| "gl_step (BindArrayBuffer b) G = (G\<lparr>array_buffer := b\<rparr>, [])"
| "gl_step (BufferData xs) G = (G\<lparr>buffers := (buffers G)(array_buffer G := xs)\<rparr>, [])"
| "gl_step (EnableVertexAttribArray i) G =
     (if i = 0 then G\<lparr>enabled := (enabled G)(bound_vao G := True)\<rparr> else G, [])"
| "gl_step (VertexAttribPointer i sz stride offset) G =
     (if i = 0 then G\<lparr>attribute := (attribute G)(bound_vao G := Some (array_buffer G, sz, stride, offset))\<rparr>
      else G, [])"
| "gl_step (DrawTriangles first count) G =
     (G, [(fetch G first count, program G, uniforms G (program G), bound_texture G)])"

fun gl_run :: "gl_call list \<Rightarrow> gl_state \<Rightarrow> gl_state \<times> drawing list" where
  "gl_run [] G = (G, [])"
| "gl_run (c # cs) G = (let (G, ds) = gl_step c G; (G, es) = gl_run cs G in (G, ds @ es))"

text \<open>
  Where a drawing of the sprite program appears: its texture and the corners in pixels, counted from
  the left and the top, in a viewport as large as the window of the program.
\<close>

fun pixel :: "vec4 \<Rightarrow> vec2" where
  "pixel (x, y, z, w) = ((x / w + 1) / 2 * screen_width, (1 - y / w) / 2 * screen_height)"

fun as_vec4 :: "real list \<Rightarrow> vec4 option" where
  "as_vec4 [x, y, z, w] = Some (x, y, z, w)"
| "as_vec4 _ = None"

fun appears :: "drawing \<Rightarrow> (nat \<times> vec2 list) option" where
  "appears (vs, p, u, t) =
     (case (u ''projection'', u ''model'') of
        (Some (UMatrix4 P), Some (UMatrix4 M)) \<Rightarrow>
          Some (t, map (\<lambda>v. pixel (snd (sprite_vs P M v))) (List.map_filter as_vec4 vs))
      | _ \<Rightarrow> None)"

section \<open>Where a sprite is\<close>

definition uv_corners :: "(real \<times> real) list" where
  "uv_corners = [(0, 1), (1, 0), (0, 0), (0, 1), (1, 1), (1, 0)]"

text \<open>The point of a sprite at texture coordinates \<open>u\<close>, \<open>v\<close>: its box turned about the middle.\<close>

definition sprite_point :: "vec2 \<Rightarrow> vec2 \<Rightarrow> real \<Rightarrow> real \<times> real \<Rightarrow> vec2" where
  "sprite_point pos sz rot uv =
     vadd (vadd pos (vscale (1 / 2) sz))
       (vadd (vscale ((fst uv - 1 / 2) * fst sz) (facing rot))
             (vscale ((snd uv - 1 / 2) * snd sz) (facing (rot + 90))))"

lemma facing_quarter: "facing (rot + 90) = (- snd (facing rot), fst (facing rot))"
proof -
  have "(rot + 90) * pi / 180 = rot * pi / 180 + pi / 2" by (simp add: field_simps)
  then show ?thesis unfolding facing_def by (simp only: cos_add sin_add) simp
qed

lemma sprite_model_at:
  "mat4_apply (sprite_model pos sz rot) (u, v, 0, 1) =
     (fst (sprite_point pos sz rot (u, v)), snd (sprite_point pos sz rot (u, v)), 0, 1)"
  unfolding sprite_point_def facing_quarter
  by (simp add: sprite_model_def mat4_one_def Let_def facing_def vec_defs algebra_simps)

lemma scale4_linear:
  "scale4 v (x + y) = add4 (scale4 v x) (scale4 v y)" "scale4 v (x * y) = scale4 (scale4 v x) y"
  "scale4 (add4 a b) k = add4 (scale4 a k) (scale4 b k)"
  by (cases v; cases a; cases b; simp add: algebra_simps)+

lemma add4_ac: "add4 (add4 a b) c = add4 a (add4 b c)" "add4 a b = add4 b a" "add4 a (add4 b c) = add4 b (add4 a c)"
  by (cases a; cases b; cases c; simp)+

lemma mat4_apply_add: "mat4_apply m (add4 a b) = add4 (mat4_apply m a) (mat4_apply m b)"
proof -
  obtain m0 m1 m2 m3 where m: "m = (m0, m1, m2, m3)" by (metis prod.exhaust)
  obtain x y z w x' y' z' w' where ab: "a = (x, y, z, w)" "b = (x', y', z', w')" by (metis prod.exhaust)
  show ?thesis unfolding m ab add4.simps(1) [of x y z w] mat4_apply.simps scale4_linear by (simp only: add4_ac)
qed

lemma mat4_apply_scale: "mat4_apply m (scale4 a k) = scale4 (mat4_apply m a) k"
proof -
  obtain m0 m1 m2 m3 where m: "m = (m0, m1, m2, m3)" by (metis prod.exhaust)
  obtain x y z w where a: "a = (x, y, z, w)" by (metis prod.exhaust)
  show ?thesis unfolding m a scale4.simps mat4_apply.simps scale4_linear ..
qed

lemma mat4_mult_apply: "mat4_apply (mat4_mult m n) v = mat4_apply m (mat4_apply n v)"
proof -
  obtain n0 n1 n2 n3 where n: "n = (n0, n1, n2, n3)" by (metis prod.exhaust)
  obtain x y z w where v: "v = (x, y, z, w)" by (metis prod.exhaust)
  show ?thesis unfolding n v mat4_mult.simps mat4_apply.simps mat4_apply_add mat4_apply_scale ..
qed

lemma projection_at:
  "pixel (mat4_apply projection (x, y, 0, 1)) = (x, y)"
  by (simp add: projection_def ortho_def screen_width_def screen_height_def field_simps)

lemma sprite_vs_pixel:
  "pixel (snd (sprite_vs projection (sprite_model pos sz rot) (u, v, z, w))) = sprite_point pos sz rot (u, v)"
  by (simp add: mat4_mult_apply sprite_model_at projection_at)

section \<open>What a list of calls paints\<close>

definition ready :: "SpriteRenderer \<Rightarrow> gl_state \<Rightarrow> bool" where
  "ready r G \<longleftrightarrow>
     (\<exists>buf. attribute G (quadVAO r) = Some (buf, 4, 4, 0) \<and> buffers G buf = vertices)
     \<and> enabled G (quadVAO r)
     \<and> uniforms G (sprite_shader r) ''projection'' = Some (UMatrix4 projection)"

definition paints :: "SpriteRenderer \<Rightarrow> gl_call list \<Rightarrow> (nat \<times> vec2 list) list \<Rightarrow> bool" where
  "paints r cs ps \<longleftrightarrow>
     (\<forall>G. ready r G \<longrightarrow> ready r (fst (gl_run cs G)) \<and> map appears (snd (gl_run cs G)) = map Some ps)"

lemma gl_run_append:
  "gl_run (cs @ ds) G =
     (fst (gl_run ds (fst (gl_run cs G))), snd (gl_run cs G) @ snd (gl_run ds (fst (gl_run cs G))))"
  by (induction cs arbitrary: G) (simp_all add: Let_def split: prod.split)

lemma paints_nil: "paints r [] []"
  by (simp add: paints_def)

lemma paints_append: "paints r cs ps \<Longrightarrow> paints r ds qs \<Longrightarrow> paints r (cs @ ds) (ps @ qs)"
  by (simp add: paints_def gl_run_append)

lemma paints_concat: "(\<And>x. x \<in> set xs \<Longrightarrow> paints r (f x) (h x)) \<Longrightarrow> paints r (concat (map f xs)) (concat (map h xs))"
  by (induction xs) (auto intro: paints_nil paints_append)

lemma fetch_vertices:
  assumes "attribute G (bound_vao G) = Some (buf, 4, 4, 0)" "buffers G buf = vertices" "enabled G (bound_vao G)"
  shows "List.map_filter as_vec4 (fetch G 0 6) = map (\<lambda>(u, v). (u, v, u, v)) uv_corners"
  by (simp add: fetch_def assms upt_rec vertices_def uv_corners_def map_filter_simps)

lemma paints_sprite:
  "paints r (DrawSprite r t pos sz rot color) [(t, map (sprite_point pos sz rot) uv_corners)]"
  unfolding paints_def
proof (intro allI impI)
  fix G assume G: "ready r G"
  define u where "u = (uniforms G (sprite_shader r))
    (''model'' \<mapsto> UMatrix4 (sprite_model pos sz rot), ''spriteColor'' \<mapsto> UVector3 color)"
  define G1 where "G1 = G\<lparr>program := sprite_shader r, uniforms := (uniforms G)(sprite_shader r := u),
    bound_texture := t, bound_vao := quadVAO r\<rparr>"
  have run: "gl_run (DrawSprite r t pos sz rot color) G = (G1\<lparr>bound_vao := 0\<rparr>, [(fetch G1 0 6, sprite_shader r, u, t)])"
    by (simp add: DrawSprite_def Use_def SetMatrix4_def SetVector3f_def G1_def u_def Let_def)
  have u: "u ''projection'' = Some (UMatrix4 projection)" "u ''model'' = Some (UMatrix4 (sprite_model pos sz rot))"
    using G by (simp_all add: u_def ready_def)
  have "List.map_filter as_vec4 (fetch G1 0 6) = map (\<lambda>(u, v). (u, v, u, v)) uv_corners"
    using G by (auto simp: ready_def G1_def intro!: fetch_vertices)
  then have "appears (fetch G1 0 6, sprite_shader r, u, t) = Some (t, map (sprite_point pos sz rot) uv_corners)"
    by (simp only: appears.simps u) (auto simp: sprite_vs_pixel simp del: sprite_vs.simps)
  moreover have "ready r (G1\<lparr>bound_vao := 0\<rparr>)"
    using G u by (simp add: ready_def G1_def)
  ultimately show "ready r (fst (gl_run (DrawSprite r t pos sz rot color) G))
      \<and> map appears (snd (gl_run (DrawSprite r t pos sz rot color) G))
        = map Some [(t, map (sprite_point pos sz rot) uv_corners)]"
    by (simp add: run)
qed

lemma Init_graphics_ready:
  "ready (fst (Init_graphics p vao vbo)) (fst (gl_run (snd (Init_graphics p vao vbo)) G))"
  by (simp add: Init_graphics_def SpriteRenderer_new_def initRenderData_def Use_def SetInteger_def SetMatrix4_def
      ready_def Let_def)

lemma paints_objects:
  "paints r (concat (map (Draw r t color) obs))
     (map (\<lambda>ob. (t, map (sprite_point (position ob) (obj_size ob) (rotation ob)) uv_corners)) obs)"
  using paints_concat [of obs r "Draw r t color"
    "\<lambda>ob. [(t, map (sprite_point (position ob) (obj_size ob) (rotation ob)) uv_corners)]"]
  by (simp add: Draw_def paints_sprite concat_map_singleton)

definition frame :: "sprites \<Rightarrow> Game \<Rightarrow> (nat \<times> vec2 list) list" where
  "frame t g =
     (let box = (\<lambda>s ob. (s, map (sprite_point (position ob) (obj_size ob) (rotation ob)) uv_corners))
      in (background t, map (sprite_point (0, 0) (screen_width, screen_height) 0) uv_corners)
         # map (box (robot t)) (team1_players g) @ map (box (robot2 t)) (team2_players g)
         @ [box (face t) (ball g)])"

lemma paints_Render: "paints r (Render r t g) (if game_state g = GAME_ACTIVE then frame t g else [])"
proof (cases "game_state g = GAME_ACTIVE")
  case True
  have "paints r (Draw r (face t) white (ball g))
      [(face t, map (sprite_point (position (ball g)) (obj_size (ball g)) (rotation (ball g))) uv_corners)]"
    using paints_sprite by (simp add: Draw_def)
  from paints_append [OF paints_sprite paints_append [OF paints_objects paints_append [OF paints_objects this]],
      of "background t" "(0, 0)" "(screen_width, screen_height)" 0 white]
  show ?thesis by (simp add: Render_def frame_def Let_def True)
next
  case False
  then show ?thesis by (simp add: Render_def paints_nil)
qed

text \<open>
  Objects of the game are as wide and as high as twice their radius, so the box is turned about the
  centre that the collisions use, and texture and heading agree.
\<close>

definition object_point :: "GameObject \<Rightarrow> real \<times> real \<Rightarrow> vec2" where
  "object_point ob uv =
     vadd (center ob)
       (vadd (vscale ((2 * fst uv - 1) * obj_radius ob) (facing (rotation ob)))
             (vscale ((2 * snd uv - 1) * obj_radius ob) (facing (rotation ob + 90))))"

lemma sprite_point_object:
  "obj_size ob = (2 * obj_radius ob, 2 * obj_radius ob) \<Longrightarrow>
   sprite_point (position ob) (obj_size ob) (rotation ob) = object_point ob"
  by (rule ext) (simp add: sprite_point_def object_point_def center_def vec_defs algebra_simps)

lemma reachable_round:
  assumes "reachable g" "ob \<in> set (team1_players g) \<union> set (team2_players g) \<union> {ball g}"
  shows "obj_size ob = (2 * obj_radius ob, 2 * obj_radius ob)"
proof -
  have "shape ob \<in> {((37, 37), 37 / 2), ((ball_radius * 2, ball_radius * 2), ball_radius)}"
    using reachable_shapes [OF assms(1)] assms(2)
    by (auto simp: shapes_def dest!: arg_cong [where f = set and y = "replicate _ _"])
  then show ?thesis by (auto simp: shape_def)
qed

lemma ready_frames: "ready r G \<Longrightarrow> ready r (fst (gl_run (concat (map (Render r t) gs)) G))"
  using paints_concat [of gs r "Render r t"
    "\<lambda>g. if game_state g = GAME_ACTIVE then frame t g else []"] paints_Render
  by (auto simp: paints_def)

text \<open>
  Property C25. After the set-up of the drawing and any number of earlier frames, the frame of a
  reachable state shows the background over the whole window and then, in this order, the players of
  both teams and the ball, each with the picture of its kind on a square around the circle that the
  collisions use: its middle is the centre of the circle, its side is the diameter, and the right
  edge of the picture touches the circle where the object faces.
\<close>

theorem frame_shows_game:
  assumes "reachable g" "game_state g = GAME_ACTIVE" "Init_graphics shader vao vbo = (r, calls)"
  shows "map appears (snd (gl_run (Render r t g)
           (fst (gl_run (calls @ concat (map (Render r t) earlier)) G)))) =
    map Some ((background t, map (\<lambda>(u, v). (u * screen_width, v * screen_height)) uv_corners)
      # map (\<lambda>ob. (robot t, map (object_point ob) uv_corners)) (team1_players g)
      @ map (\<lambda>ob. (robot2 t, map (object_point ob) uv_corners)) (team2_players g)
      @ [(face t, map (object_point (ball g)) uv_corners)])"
proof -
  have "ready r (fst (gl_run calls G))"
    using Init_graphics_ready [of shader vao vbo G] by (simp add: assms(3))
  then have "ready r (fst (gl_run (calls @ concat (map (Render r t) earlier)) G))"
    by (simp add: gl_run_append ready_frames)
  then have f: "map appears (snd (gl_run (Render r t g) (fst (gl_run (calls @ concat (map (Render r t) earlier)) G))))
      = map Some (frame t g)"
    using paints_Render [of r t g] by (simp add: paints_def assms(2))
  have bg: "sprite_point (0, 0) (screen_width, screen_height) 0 = (\<lambda>(u, v). (u * screen_width, v * screen_height))"
    by (rule ext) (auto simp: sprite_point_def facing_quarter facing_def vec_defs algebra_simps)
  have "sprite_point (position ob) (obj_size ob) (rotation ob) = object_point ob"
    if "ob \<in> set (team1_players g) \<union> set (team2_players g) \<union> {ball g}" for ob
    by (intro sprite_point_object reachable_round [OF assms(1) that])
  then show ?thesis by (simp add: f frame_def Let_def bg)
qed

theorem frame_shows_game_witness:
  "\<exists>r calls. Init_graphics 3 1 2 = (r, calls) \<and> (\<forall>G.
     map appears (snd (gl_run (Render r \<lparr>background = 1, robot = 5, robot2 = 7, face = 3\<rparr> demo_game)
       (fst (gl_run (calls @ concat (map (Render r \<lparr>background = 1, robot = 5, robot2 = 7, face = 3\<rparr>) [demo_game])) G)))) ! 7 =
     Some (3, map (object_point (ball demo_game)) uv_corners))"
proof -
  obtain r calls where i: "Init_graphics 3 1 2 = (r, calls)" by fastforce
  have a: "game_state demo_game = GAME_ACTIVE" by (simp add: demo_game_def ObjectPosInit_def Let_def)
  have l: "length (team1_players demo_game) = 3" "length (team2_players demo_game) = 3"
    using game_inv_lock(1,2) [OF reachable_inv [OF demo_reachable]] by simp_all
  show ?thesis
    by (intro exI conjI allI, rule i) (simp add: frame_shows_game [OF demo_reachable a i] nth_append l del: concat.simps list.map)
qed

end
