(* ===== verification/Resources.thy ===== *)
theory Resources
  imports Prelude
begin

text \<open>
  Textures, shader programs and the resource manager that keeps them by name (\<open>Texture.cpp\<close>,
  \<open>Shaders.cpp\<close> and \<open>ResourceManager.cpp\<close> of \<open>libs/graphics/src\<close>). Of OpenGL the state keeps which
  names were generated and not deleted, and the images of the textures. Parameters: \<open>fresh\<close> gives the
  next name OpenGL generates, \<open>load\<close> is the image library, \<open>files\<close> the file system, \<open>accepts\<close> and
  \<open>links\<close> the shader compiler.
\<close>

section \<open>Textures\<close>

datatype format = GL_RGB | GL_RGBA

fun components :: "format \<Rightarrow> nat" where
  "components GL_RGB = 3"
| "components GL_RGBA = 4"

text \<open>The wrapping and filter members always have their first values.\<close>

record Texture2D =
  tex_ID :: nat
  Width :: nat
  Height :: nat
  Internal_Format :: format
  Image_Format :: format

record image =
  img_width :: nat
  img_height :: nat
  img_format :: format
  img_bytes :: "8 word list"

record gl_objects =
  live_textures :: "nat set"
  live_programs :: "nat set"
  images :: "nat \<Rightarrow> image option"

definition Texture2D_new :: "(nat set \<Rightarrow> nat) \<Rightarrow> gl_objects \<Rightarrow> Texture2D \<times> gl_objects" where
  "Texture2D_new fresh G =
     (let n = fresh (live_textures G)
      in (\<lparr>tex_ID = n, Width = 0, Height = 0, Internal_Format = GL_RGB, Image_Format = GL_RGB\<rparr>,
          G\<lparr>live_textures := insert n (live_textures G)\<rparr>))"

text \<open>
  The upload reads the bytes its format says, without padding between rows; \<^term>\<open>None\<close> if that is
  more than there are, where the code reads beyond its buffer.
\<close>

definition Generate :: "nat \<Rightarrow> nat \<Rightarrow> 8 word list \<Rightarrow> Texture2D \<Rightarrow> gl_objects \<Rightarrow> gl_objects option" where
  "Generate width height data t G =
     (let n = width * height * components (Image_Format t)
      in if length data < n then None
         else Some (G\<lparr>images := (images G)(tex_ID t := Some
                \<lparr>img_width = width, img_height = height, img_format = Internal_Format t,
                 img_bytes = take n data\<rparr>)\<rparr>))"

section \<open>Programs\<close>

datatype shader_kind = VERTEX | FRAGMENT | GEOMETRY | PROGRAM

text \<open>
  \<open>Compile\<close> with the errors it reports: the program is made and kept whatever the compiler says.
  The shader objects themselves are deleted before it returns.
\<close>

definition Compile ::
  "(nat set \<Rightarrow> nat) \<Rightarrow> (shader_kind \<Rightarrow> string \<Rightarrow> bool) \<Rightarrow> (string \<Rightarrow> string \<Rightarrow> string option \<Rightarrow> bool) \<Rightarrow>
   string \<Rightarrow> string \<Rightarrow> string option \<Rightarrow> gl_objects \<Rightarrow> nat \<times> shader_kind list \<times> gl_objects" where
  "Compile fresh accepts links vertexSource fragmentSource geometrySource G =
     (let errors = (if accepts VERTEX vertexSource then [] else [VERTEX])
            @ (if accepts FRAGMENT fragmentSource then [] else [FRAGMENT])
            @ (case geometrySource of
                 None \<Rightarrow> []
               | Some src \<Rightarrow> if accepts GEOMETRY src then [] else [GEOMETRY]);
          n = fresh (live_programs G);
          G = G\<lparr>live_programs := insert n (live_programs G)\<rparr>;
          errors = errors @ (if links vertexSource fragmentSource geometrySource then [] else [PROGRAM])
      in (n, errors, G))"

text \<open>
  A stream of a file that cannot be opened gives no characters and no exception, so the handler of
  \<open>LoadShaderFromFile\<close> never runs. OpenGL reads a source up to its first NUL.
\<close>

definition read_source :: "(string \<Rightarrow> string option) \<Rightarrow> string \<Rightarrow> string" where
  "read_source files f = takeWhile (\<lambda>c. c \<noteq> CHR 0x00) (case files f of None \<Rightarrow> [] | Some s \<Rightarrow> s)"

definition LoadShaderFromFile ::
  "(nat set \<Rightarrow> nat) \<Rightarrow> (shader_kind \<Rightarrow> string \<Rightarrow> bool) \<Rightarrow> (string \<Rightarrow> string \<Rightarrow> string option \<Rightarrow> bool) \<Rightarrow>
   (string \<Rightarrow> string option) \<Rightarrow> string \<Rightarrow> string \<Rightarrow> string option \<Rightarrow> gl_objects \<Rightarrow>
   nat \<times> shader_kind list \<times> gl_objects" where
  "LoadShaderFromFile fresh accepts links files v f g G =
     Compile fresh accepts links (read_source files v) (read_source files f)
       (map_option (read_source files) g) G"

section \<open>The resource manager\<close>

record ResourceManager =
  shaders :: "string \<Rightarrow> nat option"
  textures :: "string \<Rightarrow> Texture2D option"

definition ResourceManager_new :: ResourceManager where
  "ResourceManager_new = \<lparr>shaders = Map.empty, textures = Map.empty\<rparr>"

datatype message =
    LoadingShader string string
  | ShaderError shader_kind
  | LoadedTexture string nat nat nat
  | FailedTexture string

text \<open>What follows the last slash or backslash.\<close>

definition base_name :: "string \<Rightarrow> string" where
  "base_name file = rev (takeWhile (\<lambda>c. c \<noteq> CHR ''/'' \<and> c \<noteq> CHR 0x5C) (rev file))"

definition LoadTextureFromFile ::
  "(nat set \<Rightarrow> nat) \<Rightarrow> (string \<Rightarrow> (nat \<times> nat \<times> nat \<times> 8 word list) option) \<Rightarrow> string \<Rightarrow> bool \<Rightarrow>
   gl_objects \<Rightarrow> (Texture2D \<times> message \<times> gl_objects) option" where
  "LoadTextureFromFile fresh load file alpha G =
     (let (t, G) = Texture2D_new fresh G;
          t = (if alpha then t\<lparr>Internal_Format := GL_RGBA, Image_Format := GL_RGBA\<rparr> else t)
      in case load file of
           None \<Rightarrow> Some (t, FailedTexture (base_name file), G)
         | Some (width, height, nrChannels, data) \<Rightarrow>
             (case Generate width height data t G of
                None \<Rightarrow> None
              | Some G \<Rightarrow> Some (t, LoadedTexture (base_name file) width height nrChannels, G)))"

text \<open>
  The subscript of a map makes an element for a name it does not have: a texture with a new name of
  OpenGL, or a shader whose member \<open>ID\<close> holds what was in memory, the parameter \<open>mem\<close>.
\<close>

definition texture_at ::
  "(nat set \<Rightarrow> nat) \<Rightarrow> string \<Rightarrow> ResourceManager \<Rightarrow> gl_objects \<Rightarrow> Texture2D \<times> ResourceManager \<times> gl_objects" where
  "texture_at fresh name R G =
     (case textures R name of
        Some t \<Rightarrow> (t, R, G)
      | None \<Rightarrow> let (t, G) = Texture2D_new fresh G
                in (t, R\<lparr>textures := (textures R)(name \<mapsto> t)\<rparr>, G))"

definition shader_at :: "nat \<Rightarrow> string \<Rightarrow> ResourceManager \<Rightarrow> nat \<times> ResourceManager" where
  "shader_at mem name R =
     (case shaders R name of
        Some s \<Rightarrow> (s, R)
      | None \<Rightarrow> (mem, R\<lparr>shaders := (shaders R)(name \<mapsto> mem)\<rparr>))"

text \<open>In an assignment the right side comes first, then the subscript on the left.\<close>

definition LoadTexture ::
  "(nat set \<Rightarrow> nat) \<Rightarrow> (string \<Rightarrow> (nat \<times> nat \<times> nat \<times> 8 word list) option) \<Rightarrow> string \<Rightarrow> bool \<Rightarrow> string \<Rightarrow>
   ResourceManager \<Rightarrow> gl_objects \<Rightarrow> (Texture2D \<times> message \<times> ResourceManager \<times> gl_objects) option" where
  "LoadTexture fresh load file alpha name R G =
     (case LoadTextureFromFile fresh load file alpha G of
        None \<Rightarrow> None
      | Some (t, msg, G) \<Rightarrow>
          let (_, R, G) = texture_at fresh name R G
          in Some (t, msg, R\<lparr>textures := (textures R)(name \<mapsto> t)\<rparr>, G))"

definition GetTexture ::
  "(nat set \<Rightarrow> nat) \<Rightarrow> string \<Rightarrow> ResourceManager \<Rightarrow> gl_objects \<Rightarrow> Texture2D \<times> ResourceManager \<times> gl_objects" where
  "GetTexture fresh name R G = texture_at fresh name R G"

definition LoadShader ::
  "(nat set \<Rightarrow> nat) \<Rightarrow> (shader_kind \<Rightarrow> string \<Rightarrow> bool) \<Rightarrow> (string \<Rightarrow> string \<Rightarrow> string option \<Rightarrow> bool) \<Rightarrow>
   (string \<Rightarrow> string option) \<Rightarrow> string \<Rightarrow> string \<Rightarrow> string option \<Rightarrow> string \<Rightarrow>
   ResourceManager \<Rightarrow> gl_objects \<Rightarrow> nat \<times> message list \<times> ResourceManager \<times> gl_objects" where
  "LoadShader fresh accepts links files v f g name R G =
     (let (s, errors, G) = LoadShaderFromFile fresh accepts links files v f g G
      in (s, LoadingShader name (base_name v) # map ShaderError errors,
          R\<lparr>shaders := (shaders R)(name \<mapsto> s)\<rparr>, G))"

definition GetShader :: "nat \<Rightarrow> string \<Rightarrow> ResourceManager \<Rightarrow> nat \<times> ResourceManager" where
  "GetShader mem name R = shader_at mem name R"

definition Clear :: "ResourceManager \<Rightarrow> gl_objects \<Rightarrow> ResourceManager \<times> gl_objects" where
  "Clear R G =
     (R\<lparr>shaders := Map.empty, textures := Map.empty\<rparr>,
      G\<lparr>live_programs := live_programs G - ran (shaders R),
        live_textures := live_textures G - tex_ID ` ran (textures R)\<rparr>)"

section \<open>Sequences of calls\<close>

datatype resource_call =
    CallLoadTexture string bool string
  | CallGetTexture string
  | CallLoadShader string string "string option" string
  | CallGetShader string

record environment =
  fresh :: "nat set \<Rightarrow> nat"
  load :: "string \<Rightarrow> (nat \<times> nat \<times> nat \<times> 8 word list) option"
  files :: "string \<Rightarrow> string option"
  accepts :: "shader_kind \<Rightarrow> string \<Rightarrow> bool"
  links :: "string \<Rightarrow> string \<Rightarrow> string option \<Rightarrow> bool"
  mem :: nat

fun resource_step ::
  "environment \<Rightarrow> resource_call \<Rightarrow> ResourceManager \<times> gl_objects \<Rightarrow> (ResourceManager \<times> gl_objects) option" where
  "resource_step e (CallLoadTexture file alpha name) (R, G) =
     map_option (\<lambda>(t, msg, R, G). (R, G)) (LoadTexture (fresh e) (load e) file alpha name R G)"
| "resource_step e (CallGetTexture name) (R, G) = Some (snd (GetTexture (fresh e) name R G))"
| "resource_step e (CallLoadShader v f g name) (R, G) =
     Some (snd (snd (LoadShader (fresh e) (accepts e) (links e) (files e) v f g name R G)))"
| "resource_step e (CallGetShader name) (R, G) = Some (snd (GetShader (mem e) name R), G)"

fun resource_run ::
  "environment \<Rightarrow> resource_call list \<Rightarrow> ResourceManager \<times> gl_objects \<Rightarrow> (ResourceManager \<times> gl_objects) option" where
  "resource_run e [] S = Some S"
| "resource_run e (c # cs) S = (case resource_step e c S of None \<Rightarrow> None | Some S \<Rightarrow> resource_run e cs S)"

fun is_load :: "resource_call \<Rightarrow> bool" where
  "is_load (CallLoadTexture f a name) = True"
| "is_load _ = False"

text \<open>OpenGL generates a name that is not in use.\<close>

definition fresh_names :: "(nat set \<Rightarrow> nat) \<Rightarrow> bool" where
  "fresh_names f \<longleftrightarrow> (\<forall>S. finite S \<longrightarrow> f S \<notin> S)"

definition ids :: "ResourceManager \<Rightarrow> nat set" where
  "ids R = tex_ID ` ran (textures R)"

text \<open>
  The names of textures: those alive at the start, those the manager holds, each once, and \<open>n\<close> that
  nobody holds any more.
\<close>

definition texture_inv :: "nat set \<Rightarrow> nat \<Rightarrow> ResourceManager \<times> gl_objects \<Rightarrow> bool" where
  "texture_inv L n S \<longleftrightarrow>
     finite (live_textures (snd S)) \<and> L \<subseteq> live_textures (snd S) - ids (fst S)
     \<and> ids (fst S) \<subseteq> live_textures (snd S)
     \<and> inj_on (\<lambda>name. tex_ID (the (textures (fst S) name))) (dom (textures (fst S)))
     \<and> card (live_textures (snd S) - ids (fst S)) = card L + n"

lemma Texture2D_new_simps [simp]:
  "tex_ID (fst (Texture2D_new f G)) = f (live_textures G)"
  "live_textures (snd (Texture2D_new f G)) = insert (f (live_textures G)) (live_textures G)"
  by (simp_all add: Texture2D_new_def Let_def)

lemma LoadTextureFromFile_simps:
  assumes "LoadTextureFromFile f l file alpha G = Some (t, msg, G')"
  shows "tex_ID t = f (live_textures G)" "live_textures G' = insert (f (live_textures G)) (live_textures G)"
  using assms
  by (auto simp: LoadTextureFromFile_def Texture2D_new_def Generate_def Let_def split: option.splits if_splits)

lemma ids_alt: "ids R = (\<lambda>name. tex_ID (the (textures R name))) ` dom (textures R)"
  by (force simp: ids_def ran_def dom_def)

text \<open>A new texture is stored under its name: the one that was there is held no more.\<close>

lemma texture_inv_store:
  assumes inv: "texture_inv L n (R, G)" and n: "tex_ID t \<notin> live_textures G"
    and G': "live_textures G' = insert (tex_ID t) (live_textures G)"
  shows "texture_inv L (if textures R name = None then n else Suc n)
    (R\<lparr>textures := (textures R)(name \<mapsto> t)\<rparr>, G')"
proof -
  let ?f = "\<lambda>R name. tex_ID (the (textures R name))" and ?R = "R\<lparr>textures := (textures R)(name \<mapsto> t)\<rparr>"
  let ?old = "case textures R name of None \<Rightarrow> {} | Some t' \<Rightarrow> {tex_ID t'}"
  have i: "inj_on (?f R) (dom (textures R))" "ids R \<subseteq> live_textures G" "finite (live_textures G)"
    "L \<subseteq> live_textures G - ids R" "card (live_textures G - ids R) = card L + n"
    using inv by (simp_all add: texture_inv_def)
  have ids: "ids ?R = insert (tex_ID t) (ids R - ?old)"
  proof -
    have "dom (textures ?R) = insert name (dom (textures R) - {name})" by auto
    then have "ids ?R = insert (?f ?R name) (?f ?R ` (dom (textures R) - {name}))" by (simp only: ids_alt image_insert)
    also have "\<dots> = insert (tex_ID t) (?f R ` (dom (textures R) - {name}))" by simp
    also have "?f R ` (dom (textures R) - {name}) = ids R - ?old"
    proof (cases "textures R name")
      case None
      then have "dom (textures R) - {name} = dom (textures R)" by auto
      then show ?thesis by (simp add: None ids_alt)
    next
      case (Some t')
      then have "?f R ` (dom (textures R) - {name}) = ?f R ` dom (textures R) - ?f R ` {name}"
        by (intro inj_on_image_set_diff [OF i(1)]) auto
      then show ?thesis by (simp add: Some ids_alt)
    qed
    finally show ?thesis .
  qed
  have old: "?old \<subseteq> ids R" by (auto simp: ids_def ran_def split: option.splits)
  have diff: "live_textures G' - ids ?R = (live_textures G - ids R) \<union> ?old"
    unfolding ids G' using n old i(2) by auto
  have "(live_textures G - ids R) \<inter> ?old = {}" using old by blast
  then have "card (live_textures G' - ids ?R) = card L + n + card ?old"
    unfolding diff using i(3,5) by (subst card_Un_disjoint) (auto split: option.split)
  moreover have "inj_on (?f ?R) (dom (textures ?R))"
  proof -
    have "?f R ` dom (textures R) \<subseteq> live_textures G" using i(2) by (simp add: ids_alt)
    then have new: "?f R x \<noteq> tex_ID t" if "x \<in> dom (textures R)" for x
      using n imageI [OF that, of "?f R"] by (metis subsetD)
    show ?thesis
    proof (rule inj_onI)
      fix x y assume xy: "x \<in> dom (textures ?R)" "y \<in> dom (textures ?R)" "?f ?R x = ?f ?R y"
      then show "x = y"
        using new [of x] new [of y] inj_onD [OF i(1), of x y] by (cases "x = name"; cases "y = name") simp_all
    qed
  qed
  moreover have "L \<subseteq> live_textures G' - ids ?R" using i(4) unfolding diff by blast
  moreover have "ids ?R \<subseteq> live_textures G'" unfolding ids G' using i(2) by blast
  moreover have "finite (live_textures G')" using i(3) G' by simp
  moreover have "n + card ?old = (if textures R name = None then n else Suc n)" by (simp split: option.split)
  ultimately show ?thesis unfolding texture_inv_def fst_conv snd_conv by (simp only: add.assoc)
qed

lemma texture_inv_drop:
  assumes "texture_inv L n (R, G)" "m \<notin> live_textures G" "live_textures G' = insert m (live_textures G)"
  shows "texture_inv L (Suc n) (R, G')"
proof -
  have "live_textures G' - ids R = insert m (live_textures G - ids R)"
    using assms by (auto simp: texture_inv_def)
  then show ?thesis using assms by (auto simp: texture_inv_def)
qed

lemma texture_at_inv:
  assumes "texture_inv L n (R, G)" "fresh_names f"
  shows "texture_inv L n (snd (texture_at f name R G))"
proof (cases "textures R name")
  case None
  have "f (live_textures G) \<notin> live_textures G"
    using assms by (simp add: fresh_names_def texture_inv_def)
  then show ?thesis
    using texture_inv_store [OF assms(1), of "fst (Texture2D_new f G)" "snd (Texture2D_new f G)" name] None
    by (simp add: texture_at_def split_beta Let_def)
next
  case (Some t)
  then show ?thesis using assms(1) by (simp add: texture_at_def)
qed

lemma texture_at_known: "textures (fst (snd (texture_at f name R G))) name \<noteq> None"
  by (simp add: texture_at_def split: option.split prod.split)

lemma LoadTexture_inv:
  assumes inv: "texture_inv L n (R, G)" and f: "fresh_names f"
    and l: "LoadTexture f ld file alpha name R G = Some (t, msg, R', G')"
  shows "texture_inv L (Suc n) (R', G')"
proof -
  obtain G1 where t: "LoadTextureFromFile f ld file alpha G = Some (t, msg, G1)"
    and r: "(R', G') = (let (_, R, G) = texture_at f name R G1 in (R\<lparr>textures := (textures R)(name \<mapsto> t)\<rparr>, G))"
    using l by (auto simp: LoadTexture_def Let_def split: option.splits prod.splits)
  note t = LoadTextureFromFile_simps [OF t]
  have fin: "finite (live_textures G)" using inv by (simp add: texture_inv_def)
  have new: "tex_ID t \<notin> live_textures G" using f fin by (simp add: t fresh_names_def)
  show ?thesis
  proof (cases "textures R name")
    case (Some t')
    then show ?thesis
      using texture_inv_store [OF inv new, of G1 name] r by (simp add: texture_at_def t)
  next
    case None
    define u G2 where "u = fst (Texture2D_new f G1)" and "G2 = snd (Texture2D_new f G1)"
    have u: "tex_ID u \<notin> live_textures G1" "live_textures G2 = insert (tex_ID u) (live_textures G1)"
      using f [unfolded fresh_names_def, rule_format, of "live_textures G1"] fin t
      by (simp_all add: u_def G2_def)
    have r': "R' = R\<lparr>textures := (textures R)(name \<mapsto> t)\<rparr>" "G' = G2"
      using r None by (auto simp: texture_at_def G2_def split: prod.splits)
    have "texture_inv L n (R', G1)"
      using texture_inv_store [OF inv new, of G1 name] None t r' by simp
    from texture_inv_drop [OF this u] show ?thesis by (simp add: r')
  qed
qed

lemma resource_step_inv:
  assumes "texture_inv L n S" "fresh_names (fresh e)" "resource_step e c S = Some S'"
  shows "texture_inv L (n + (if is_load c then 1 else 0)) S'"
proof -
  obtain R G where S: "S = (R, G)" by fastforce
  have other: "texture_inv L n (R', G')"
    if "textures R' = textures R" "live_textures G' = live_textures G" for R' G'
    using assms(1) that by (simp add: S texture_inv_def ids_def)
  show ?thesis
  proof (cases c)
    case (CallLoadTexture fl al nm)
    then show ?thesis
      using assms LoadTexture_inv [of L n R G "fresh e"]
      by (auto simp: S)
  next
    case (CallGetTexture name)
    then show ?thesis
      using assms texture_at_inv [of L n R G "fresh e" name] by (auto simp: S GetTexture_def)
  next
    case (CallLoadShader v f g name)
    then show ?thesis
      using assms(3) other
      by (auto simp: S LoadShader_def LoadShaderFromFile_def Compile_def Let_def)
  next
    case (CallGetShader name)
    then show ?thesis
      using assms(3) other by (auto simp: S GetShader_def shader_at_def split: option.splits)
  qed
qed

lemma resource_run_inv:
  "texture_inv L n S \<Longrightarrow> fresh_names (fresh e) \<Longrightarrow> resource_run e cs S = Some S' \<Longrightarrow>
   texture_inv L (n + length (filter is_load cs)) S'"
proof (induction cs arbitrary: S n)
  case (Cons c cs)
  then obtain S1 where s: "resource_step e c S = Some S1" "resource_run e cs S1 = Some S'"
    by (auto split: option.splits)
  have "texture_inv L (n + (if is_load c then 1 else 0)) S1"
    by (rule resource_step_inv [OF Cons.prems(1,2) s(1)])
  from Cons.IH [OF this Cons.prems(2) s(2)] show ?case by (simp split: if_splits)
qed simp

text \<open>Pictures are only uploaded to new textures.\<close>

lemma Texture2D_new_images [simp]: "images (snd (Texture2D_new f G)) = images G"
  by (simp add: Texture2D_new_def Let_def)

lemma texture_at_images: "images (snd (snd (texture_at f name R G))) = images G"
  by (simp add: texture_at_def split_beta Let_def split: option.split)

lemma LoadTexture_images:
  assumes "LoadTexture f ld file alpha name R G = Some (t, msg, R', G')" and "x \<noteq> f (live_textures G)"
  shows "images G' x = images G x"
proof -
  obtain G1 where l: "LoadTextureFromFile f ld file alpha G = Some (t, msg, G1)" and "images G' = images G1"
    using assms(1) texture_at_images [of f name R]
    by (fastforce simp: LoadTexture_def Let_def split_beta split: option.splits)
  moreover have "images G1 x = images G x"
    using l assms(2)
    by (auto simp: LoadTextureFromFile_def Texture2D_new_def Generate_def Let_def split: option.splits if_splits)
  ultimately show ?thesis by simp
qed

lemma resource_step_images:
  assumes "texture_inv L n S" "fresh_names (fresh e)" "resource_step e c S = Some S'" "x \<in> L"
  shows "images (snd S') x = images (snd S) x"
proof -
  obtain R G where S: "S = (R, G)" by fastforce
  have "fresh e (live_textures G) \<notin> live_textures G" "x \<in> live_textures G"
    using assms(1,2,4) by (auto simp: S texture_inv_def fresh_names_def)
  then have x: "x \<noteq> fresh e (live_textures G)" by blast
  show ?thesis
  proof (cases c)
    case (CallLoadTexture fl al nm)
    with assms(3) x show ?thesis
      by (auto simp: S intro: LoadTexture_images [where f = "fresh e" and G = G])
  next
    case (CallGetTexture nm)
    with assms(3) texture_at_images [of "fresh e" nm R G] show ?thesis by (auto simp: S GetTexture_def)
  next
    case (CallLoadShader v f g name)
    with assms(3) show ?thesis by (auto simp: S LoadShader_def LoadShaderFromFile_def Compile_def Let_def)
  next
    case (CallGetShader name)
    with assms(3) show ?thesis by (auto simp: S)
  qed
qed

lemma resource_run_images:
  "texture_inv L n S \<Longrightarrow> fresh_names (fresh e) \<Longrightarrow> resource_run e cs S = Some S' \<Longrightarrow> x \<in> L \<Longrightarrow>
   images (snd S') x = images (snd S) x"
proof (induction cs arbitrary: S n)
  case (Cons c cs)
  then obtain S1 where s: "resource_step e c S = Some S1" "resource_run e cs S1 = Some S'"
    by (auto split: option.splits)
  from Cons.IH [OF resource_step_inv [OF Cons.prems(1,2) s(1)] Cons.prems(2) s(2) Cons.prems(4)]
    resource_step_images [OF Cons.prems(1,2) s(1) Cons.prems(4)]
  show ?case by simp
qed simp

lemma Clear_textures: "live_textures (snd (Clear R G)) = live_textures G - ids R"
  by (simp add: Clear_def ids_def)

lemma resources_keep_live:
  assumes "finite (live_textures G)" "fresh_names (fresh e)"
    and "resource_run e cs (ResourceManager_new, G) = Some (R, G')"
  shows "live_textures G \<subseteq> live_textures (snd (Clear R G'))
    \<and> (\<forall>t \<in> live_textures G. images (snd (Clear R G')) t = images G t)
    \<and> card (live_textures (snd (Clear R G'))) = card (live_textures G) + length (filter is_load cs)"
proof -
  have "texture_inv (live_textures G) 0 (ResourceManager_new, G)"
    using assms(1) by (simp add: texture_inv_def ResourceManager_new_def ids_def)
  from resource_run_inv [OF this assms(2,3)] resource_run_images [OF this assms(2,3)] show ?thesis
    by (simp add: texture_inv_def Clear_textures) (simp add: Clear_def)
qed

section \<open>What the manager promises\<close>

text \<open>A texture that was loaded is found under its name, with the picture of its file.\<close>

lemma loaded_texture_found:
  assumes "LoadTexture f ld file alpha name R G = Some (t, msg, R', G')"
    and "ld file = Some (w, h, c, data)"
  shows "GetTexture f name R' G'' = (t, R', G'')"
    and "images G' (tex_ID t) = Some \<lparr>img_width = w, img_height = h, img_format = (if alpha then GL_RGBA else GL_RGB),
      img_bytes = take (w * h * (if alpha then 4 else 3)) data\<rparr>"
  using assms
  by (auto simp: LoadTexture_def LoadTextureFromFile_def Texture2D_new_def Generate_def GetTexture_def
      texture_at_def Let_def split: option.splits if_splits)

text \<open>An upload is undefined exactly when the picture has fewer channels than the flag says.\<close>

lemma LoadTexture_undefined_iff:
  assumes "ld file = Some (w, h, c, data)" "length data = w * h * c" "0 < w * h"
  shows "LoadTexture f ld file alpha name R G = None \<longleftrightarrow> c < (if alpha then 4 else 3)"
  using assms mult_less_cancel1 [of "w * h" c]
  by (auto simp: LoadTexture_def LoadTextureFromFile_def Texture2D_new_def Generate_def Let_def
      split: option.splits if_splits prod.splits)

text \<open>
  Property C26. The resource manager loses one texture of OpenGL with every call of \<open>LoadTexture\<close>:
  after any calls of its operations, whose pictures have at least the channels the flag says, and
  \<open>Clear\<close>, exactly as many textures more are alive as pictures were loaded, and of the textures that
  were alive before none is deleted and each still has its image. The element the subscript of the map creates, or the texture a name had before, is
  overwritten and never deleted.
\<close>

theorem textures_leak:
  assumes "finite (live_textures G)" "fresh_names (fresh e)"
    and "\<And>file w h c data. load e file = Some (w, h, c, data) \<Longrightarrow> length data = w * h * c"
    and "\<And>file alpha name w h c data. CallLoadTexture file alpha name \<in> set cs \<Longrightarrow>
      load e file = Some (w, h, c, data) \<Longrightarrow> (if alpha then 4 else 3) \<le> c"
  shows "\<exists>R G'. resource_run e cs (ResourceManager_new, G) = Some (R, G')
    \<and> live_textures G \<subseteq> live_textures (snd (Clear R G'))
    \<and> (\<forall>t \<in> live_textures G. images (snd (Clear R G')) t = images G t)
    \<and> card (live_textures (snd (Clear R G'))) = card (live_textures G) + length (filter is_load cs)"
proof -
  have "\<exists>S'. resource_run e cs S = Some S'" for S
    using assms(4)
  proof (induction cs arbitrary: S)
    case (Cons c cs)
    have "\<exists>S1. resource_step e c S = Some S1"
    proof (cases c)
      case (CallLoadTexture fl al nm)
      have "LoadTextureFromFile (fresh e) (load e) fl al G1 \<noteq> None" for G1
        using assms(3) [of fl] Cons.prems [of fl al nm] CallLoadTexture
        by (auto simp: LoadTextureFromFile_def Texture2D_new_def Generate_def Let_def not_less
            split: option.splits if_splits)
      then show ?thesis
        by (cases S) (auto simp: CallLoadTexture LoadTexture_def Let_def split: option.splits prod.splits)
    qed (cases S; simp)+
    then show ?case using Cons.IH Cons.prems by (metis list.set_intros(2) option.simps(5) resource_run.simps(2))
  qed simp
  then obtain R G' where r: "resource_run e cs (ResourceManager_new, G) = Some (R, G')"
    by (metis surj_pair)
  from resources_keep_live [OF assms(1,2) r] show ?thesis using r by blast
qed

text \<open>The calls of \<open>Game::Init\<close> and \<open>Game::ObjectPosInit\<close>, on pictures of one point.\<close>

definition game_calls :: "resource_call list" where
  "game_calls =
     [CallLoadShader ''sprite.vs'' ''sprite.fs'' None ''sprite'', CallGetShader ''sprite'', CallGetShader ''sprite'',
      CallLoadTexture ''background.jpg'' False ''background'', CallLoadTexture ''awesomeface.png'' True ''face'',
      CallLoadTexture ''robot.png'' True ''robot'', CallLoadTexture ''robot2.png'' True ''robot2'',
      CallGetTexture ''robot'', CallGetTexture ''robot2'', CallGetTexture ''face'', CallGetShader ''sprite'']"

definition demo_environment :: environment where
  "demo_environment =
     \<lparr>fresh = (\<lambda>S. Suc (Max (insert 0 S))), load = (\<lambda>_. Some (1, 1, 4, [9, 9, 9, 255])),
      files = (\<lambda>_. Some ''void main() {}''), accepts = (\<lambda>_ _. True), links = (\<lambda>_ _ _. True), mem = 0\<rparr>"

lemma demo_fresh: "fresh_names (fresh demo_environment)"
  unfolding fresh_names_def
proof (intro allI impI notI)
  fix S :: "nat set" assume "finite S" "fresh demo_environment S \<in> S"
  then have "Suc (Max (insert 0 S)) \<le> Max (insert 0 S)"
    by (intro Max_ge) (simp_all add: demo_environment_def)
  then show False by simp
qed

text \<open>There is one texture, number 7, before the game starts.\<close>

definition demo_gl :: gl_objects where
  "demo_gl = \<lparr>live_textures = {7}, live_programs = {}, images = [7 \<mapsto> \<lparr>img_width = 1, img_height = 1, img_format = GL_RGB,
      img_bytes = [1, 2, 3]\<rparr>]\<rparr>"

theorem textures_leak_witness:
  "\<exists>R G'. resource_run demo_environment game_calls (ResourceManager_new, demo_gl) = Some (R, G')
     \<and> card (live_textures (snd (Clear R G'))) = 5 \<and> images (snd (Clear R G')) 7 = images demo_gl 7"
proof -
  have "\<exists>R G'. resource_run demo_environment game_calls (ResourceManager_new, demo_gl) = Some (R, G')
     \<and> live_textures demo_gl \<subseteq> live_textures (snd (Clear R G'))
     \<and> (\<forall>t \<in> live_textures demo_gl. images (snd (Clear R G')) t = images demo_gl t)
     \<and> card (live_textures (snd (Clear R G'))) = card (live_textures demo_gl) + length (filter is_load game_calls)"
    by (rule textures_leak [OF _ demo_fresh]) (auto simp: demo_environment_def demo_gl_def)
  moreover have "length (filter is_load game_calls) = 4" "live_textures demo_gl = {7}"
    by (simp_all add: game_calls_def demo_gl_def)
  ultimately show ?thesis by auto
qed

end
