(* ===== verification/PbUtf8.thy ===== *)
theory PbUtf8
  imports Prelude
begin

text \<open>
  The check of strings that nanopb makes when it is built with \<open>PB_VALIDATE_UTF8\<close>
  (\<open>pb_validate_utf8\<close> in \<open>pb_common.c\<close>), against the encoding of Unicode characters. The memory from
  the start of the string is a list of bytes; a read beyond it gives \<^term>\<open>None\<close>.
\<close>

unbundle bit_operations_syntax

section \<open>The check\<close>

text \<open>The tests of a condition run from left to right, and bytes are read when a test needs them.\<close>

fun pb_validate_utf8 :: "8 word list \<Rightarrow> bool option" where
  "pb_validate_utf8 [] = None"
| "pb_validate_utf8 (b0 # s1) =
     (if b0 = 0 then Some True
      else if b0 < 0x80 then pb_validate_utf8 s1
      else if b0 AND 0xe0 = 0xc0
      then (case s1 of
              [] \<Rightarrow> None
            | b1 # s2 \<Rightarrow>
                if b1 AND 0xc0 \<noteq> 0x80 \<or> b0 AND 0xfe = 0xc0 then Some False
                else pb_validate_utf8 s2)
      else if b0 AND 0xf0 = 0xe0
      then (case s1 of
              [] \<Rightarrow> None
            | b1 # s2 \<Rightarrow>
                if b1 AND 0xc0 \<noteq> 0x80 then Some False
                else (case s2 of
                        [] \<Rightarrow> None
                      | b2 # s3 \<Rightarrow>
                          if b2 AND 0xc0 \<noteq> 0x80
                             \<or> b0 = 0xe0 \<and> b1 AND 0xe0 = 0x80
                             \<or> b0 = 0xed \<and> b1 AND 0xe0 = 0xa0
                             \<or> b0 = 0xef \<and> b1 = 0xbf \<and> b2 AND 0xfe = 0xbe
                          then Some False
                          else pb_validate_utf8 s3))
      else if b0 AND 0xf8 = 0xf0
      then (case s1 of
              [] \<Rightarrow> None
            | b1 # s2 \<Rightarrow>
                if b1 AND 0xc0 \<noteq> 0x80 then Some False
                else (case s2 of
                        [] \<Rightarrow> None
                      | b2 # s3 \<Rightarrow>
                          if b2 AND 0xc0 \<noteq> 0x80 then Some False
                          else (case s3 of
                                  [] \<Rightarrow> None
                                | b3 # s4 \<Rightarrow>
                                    if b3 AND 0xc0 \<noteq> 0x80
                                       \<or> b0 = 0xf0 \<and> b1 AND 0xf0 = 0x80
                                       \<or> b0 = 0xf4 \<and> b1 > 0x8f \<or> b0 > 0xf4
                                    then Some False
                                    else pb_validate_utf8 s4)))
      else Some False)"

section \<open>The encoding\<close>

text \<open>Unicode scalar values, and the bytes of one in UTF-8.\<close>

definition scalar :: "nat \<Rightarrow> bool" where
  "scalar c \<longleftrightarrow> c < 0x110000 \<and> \<not> (0xd800 \<le> c \<and> c \<le> 0xdfff)"

definition utf8_nats :: "nat \<Rightarrow> nat list" where
  "utf8_nats c =
     (if c < 0x80 then [c]
      else if c < 0x800 then [0xc0 + c div 64, 0x80 + c mod 64]
      else if c < 0x10000 then [0xe0 + c div 4096, 0x80 + c div 64 mod 64, 0x80 + c mod 64]
      else [0xf0 + c div 262144, 0x80 + c div 4096 mod 64, 0x80 + c div 64 mod 64, 0x80 + c mod 64])"

definition utf8 :: "nat \<Rightarrow> 8 word list" where
  "utf8 c = map word_of_nat (utf8_nats c)"

section \<open>Bytes as numbers\<close>

lemma and_not_mask: "b AND NOT (mask k) = push_bit k (drop_bit k (b :: 8 word))"
  by (rule bit_eqI) (auto simp: bit_simps)

lemma high_bits: "b AND NOT (mask k) = w \<longleftrightarrow> unat b div 2 ^ k * 2 ^ k = unat (w :: 8 word)"
proof -
  have "unat b div 2 ^ k * 2 ^ k \<le> unat b" by simp
  also have "\<dots> < 2 ^ 8" using unsigned_less [of b] by simp
  finally have "take_bit 8 (push_bit k (drop_bit k (unat b))) = unat b div 2 ^ k * 2 ^ k"
    by (simp add: push_bit_eq_mult drop_bit_eq_div take_bit_eq_mod)
  moreover have "take_bit 8 (unat b) = unat b"
    using unsigned_less [of b, where 'a = nat] by (intro take_bit_nat_eq_self) simp
  ultimately have "unat (push_bit k (drop_bit k b)) = unat b div 2 ^ k * 2 ^ k"
    by (simp add: unsigned_push_bit_eq unsigned_drop_bit_eq)
  then show ?thesis by (simp add: and_not_mask word_unat_eq_iff)
qed

lemma byte_masks:
  fixes b :: "8 word"
  shows "b AND 0xc0 = 0x80 \<longleftrightarrow> 0x80 \<le> unat b \<and> unat b < 0xc0"
    and "b AND 0xe0 = 0xc0 \<longleftrightarrow> 0xc0 \<le> unat b \<and> unat b < 0xe0"
    and "b AND 0xfe = 0xc0 \<longleftrightarrow> 0xc0 \<le> unat b \<and> unat b < 0xc2"
    and "b AND 0xf0 = 0xe0 \<longleftrightarrow> 0xe0 \<le> unat b \<and> unat b < 0xf0"
    and "b AND 0xe0 = 0x80 \<longleftrightarrow> 0x80 \<le> unat b \<and> unat b < 0xa0"
    and "b AND 0xe0 = 0xa0 \<longleftrightarrow> 0xa0 \<le> unat b \<and> unat b < 0xc0"
    and "b AND 0xfe = 0xbe \<longleftrightarrow> 0xbe \<le> unat b \<and> unat b < 0xc0"
    and "b AND 0xf8 = 0xf0 \<longleftrightarrow> 0xf0 \<le> unat b \<and> unat b < 0xf8"
    and "b AND 0xf0 = 0x80 \<longleftrightarrow> 0x80 \<le> unat b \<and> unat b < 0x90"
proof -
  have masks: "(0xf0 :: 8 word) = NOT (mask 4)" "(0xc0 :: 8 word) = NOT (mask 6)" "(0xfe :: 8 word) = NOT (mask 1)"
    "(0xe0 :: 8 word) = NOT (mask 5)" "(0xf8 :: 8 word) = NOT (mask 3)"
    by (simp_all add: mask_eq_exp_minus_1)
  show "b AND 0xc0 = 0x80 \<longleftrightarrow> 0x80 \<le> unat b \<and> unat b < 0xc0" 
    using high_bits [where b = b and k = 6 and w = "0x80"] unfolding masks [symmetric] by simp arith
  show "b AND 0xe0 = 0xc0 \<longleftrightarrow> 0xc0 \<le> unat b \<and> unat b < 0xe0" 
    using high_bits [where b = b and k = 5 and w = "0xc0"] unfolding masks [symmetric] by simp arith
  show "b AND 0xfe = 0xc0 \<longleftrightarrow> 0xc0 \<le> unat b \<and> unat b < 0xc2" 
    using high_bits [where b = b and k = 1 and w = "0xc0"] unfolding masks [symmetric] by simp arith
  show "b AND 0xf0 = 0xe0 \<longleftrightarrow> 0xe0 \<le> unat b \<and> unat b < 0xf0" 
    using high_bits [where b = b and k = 4 and w = "0xe0"] unfolding masks [symmetric] by simp arith
  show "b AND 0xe0 = 0x80 \<longleftrightarrow> 0x80 \<le> unat b \<and> unat b < 0xa0" 
    using high_bits [where b = b and k = 5 and w = "0x80"] unfolding masks [symmetric] by simp arith
  show "b AND 0xe0 = 0xa0 \<longleftrightarrow> 0xa0 \<le> unat b \<and> unat b < 0xc0" 
    using high_bits [where b = b and k = 5 and w = "0xa0"] unfolding masks [symmetric] by simp arith
  show "b AND 0xfe = 0xbe \<longleftrightarrow> 0xbe \<le> unat b \<and> unat b < 0xc0" 
    using high_bits [where b = b and k = 1 and w = "0xbe"] unfolding masks [symmetric] by simp arith
  show "b AND 0xf8 = 0xf0 \<longleftrightarrow> 0xf0 \<le> unat b \<and> unat b < 0xf8" 
    using high_bits [where b = b and k = 3 and w = "0xf0"] unfolding masks [symmetric] by simp arith
  show "b AND 0xf0 = 0x80 \<longleftrightarrow> 0x80 \<le> unat b \<and> unat b < 0x90" 
    using high_bits [where b = b and k = 4 and w = "0x80"] unfolding masks [symmetric] by simp arith
qed

lemma byte_compare:
  fixes b :: "8 word"
  shows "b = 0 \<longleftrightarrow> unat b = 0" "b < 0x80 \<longleftrightarrow> unat b < 0x80" "b = 0xe0 \<longleftrightarrow> unat b = 0xe0"
    and "b = 0xed \<longleftrightarrow> unat b = 0xed" "b = 0xef \<longleftrightarrow> unat b = 0xef" "b = 0xbf \<longleftrightarrow> unat b = 0xbf"
    and "b = 0xf0 \<longleftrightarrow> unat b = 0xf0" "b = 0xf4 \<longleftrightarrow> unat b = 0xf4" "b > 0x8f \<longleftrightarrow> unat b > 0x8f"
    and "b > 0xf4 \<longleftrightarrow> unat b > 0xf4"
  by (simp_all add: word_unat_eq_iff word_less_nat_alt)

text \<open>The check over the numbers of the bytes.\<close>

definition trail :: "nat \<Rightarrow> bool" where
  "trail n \<longleftrightarrow> 0x80 \<le> n \<and> n < 0xc0"

fun check :: "nat list \<Rightarrow> bool option" where
  "check [] = None"
| "check (b0 # s1) =
     (if b0 = 0 then Some True
      else if b0 < 0x80 then check s1
      else if 0xc0 \<le> b0 \<and> b0 < 0xe0
      then (case s1 of
              [] \<Rightarrow> None
            | b1 # s2 \<Rightarrow> if \<not> trail b1 \<or> b0 < 0xc2 then Some False else check s2)
      else if 0xe0 \<le> b0 \<and> b0 < 0xf0
      then (case s1 of
              [] \<Rightarrow> None
            | b1 # s2 \<Rightarrow>
                if \<not> trail b1 then Some False
                else (case s2 of
                        [] \<Rightarrow> None
                      | b2 # s3 \<Rightarrow>
                          if \<not> trail b2 \<or> b0 = 0xe0 \<and> b1 < 0xa0 \<or> b0 = 0xed \<and> 0xa0 \<le> b1
                             \<or> b0 = 0xef \<and> b1 = 0xbf \<and> 0xbe \<le> b2
                          then Some False
                          else check s3))
      else if 0xf0 \<le> b0 \<and> b0 < 0xf8
      then (case s1 of
              [] \<Rightarrow> None
            | b1 # s2 \<Rightarrow>
                if \<not> trail b1 then Some False
                else (case s2 of
                        [] \<Rightarrow> None
                      | b2 # s3 \<Rightarrow>
                          if \<not> trail b2 then Some False
                          else (case s3 of
                                  [] \<Rightarrow> None
                                | b3 # s4 \<Rightarrow>
                                    if \<not> trail b3 \<or> b0 = 0xf0 \<and> b1 < 0x90 \<or> b0 = 0xf4 \<and> 0x90 \<le> b1 \<or> 0xf4 < b0
                                    then Some False
                                    else check s4)))
      else Some False)"

lemmas validate_nat = pb_validate_utf8.simps(2) [unfolded byte_masks, unfolded byte_compare]

lemma validate_check: "pb_validate_utf8 s = check (map unat s)"
proof (induction s rule: pb_validate_utf8.induct)
  case (2 b0 s1)
  note IH = 2 [unfolded byte_masks, unfolded byte_compare]
  show ?case
  proof (cases s1)
    case Nil
    then show ?thesis by (auto simp: validate_nat simp del: pb_validate_utf8.simps(2))
  next
    case (Cons b1 s2)
    note s1 = this
    show ?thesis
    proof (cases s2)
      case Nil
      then show ?thesis using IH s1
        by (auto simp: validate_nat trail_def simp del: pb_validate_utf8.simps(2))
    next
      case (Cons b2 s3)
      then show ?thesis using IH s1
        by (cases s3) (auto simp: validate_nat trail_def simp del: pb_validate_utf8.simps(2))
    qed
  qed
qed simp

section \<open>One character\<close>

text \<open>The check refuses two characters that may be encoded: U+FFFE and U+FFFF.\<close>

definition accepted :: "nat \<Rightarrow> bool" where
  "accepted c \<longleftrightarrow> scalar c \<and> c \<noteq> 0 \<and> c \<noteq> 0xfffe \<and> c \<noteq> 0xffff"

lemma digits:
  fixes x s :: nat
  shows "s < 64 \<Longrightarrow> (x * 64 + s) div 64 = x" "s < 64 \<Longrightarrow> (x * 64 + s) mod 64 = s"
  by simp_all

lemma div_64: "(c :: nat) div 4096 = c div 64 div 64" "(c :: nat) div 262144 = c div 64 div 64 div 64"
  using div_mult2_eq [of c 64 64] div_mult2_eq [of c 4096 64] by simp_all

lemma digits_of: "\<exists>q r. (c :: nat) = q * 64 + r \<and> r < 64"
  by (rule exI [of _ "c div 64"], rule exI [of _ "c mod 64"]) simp

lemma check_char: "accepted c \<Longrightarrow> check (utf8_nats c @ s) = check s"
proof -
  assume c: "accepted c"
  consider "c < 0x80" | "0x80 \<le> c" "c < 0x800" | "0x800 \<le> c" "c < 0x10000" | "0x10000 \<le> c" by linarith
  then show ?thesis
  proof cases
    case 1
    then show ?thesis using c by (simp add: utf8_nats_def accepted_def)
  next
    case 2
    have "2 \<le> c div 64" "c div 64 < 32" "c mod 64 < 64" using 2 by auto
    then show ?thesis using 2 by (simp add: utf8_nats_def trail_def)
  next
    case 3
    obtain x t where x: "c = x * 64 + t" "t < 64" using digits_of by blast
    obtain q r where q: "x = q * 64 + r" "r < 64" using digits_of by blast
    have e: "q < 16" "q = 0 \<longrightarrow> 32 \<le> r" using 3 x q by auto
    have "q = 13 \<longrightarrow> r < 32" "q = 15 \<and> r = 63 \<longrightarrow> t < 62"
      using c x q unfolding accepted_def scalar_def by auto
    moreover have "utf8_nats c = [0xe0 + q, 0x80 + r, 0x80 + t]"
      using 3 by (simp only: utf8_nats_def div_64 x(1) digits [OF x(2)] q(1) digits [OF q(2)]) simp
    ultimately show ?thesis using e x(2) q(2) by (auto simp: trail_def)
  next
    case 4
    obtain x t where x: "c = x * 64 + t" "t < 64" using digits_of by blast
    obtain y u where y: "x = y * 64 + u" "u < 64" using digits_of by blast
    obtain q r where q: "y = q * 64 + r" "r < 64" using digits_of by blast
    have "c < 0x110000" using c by (simp add: accepted_def scalar_def)
    then have "q < 5" "q = 0 \<longrightarrow> 16 \<le> r" "q = 4 \<longrightarrow> r < 16" using 4 x y q by auto
    moreover have "utf8_nats c = [0xf0 + q, 0x80 + r, 0x80 + u, 0x80 + t]"
      using 4 by (simp only: utf8_nats_def div_64 x(1) digits [OF x(2)] y(1) digits [OF y(2)] q(1) digits [OF q(2)]) simp
    ultimately show ?thesis using x(2) y(2) q(2) by (auto simp: trail_def)
  qed
qed

text \<open>Every sequence of bytes the check lets pass is the encoding of an accepted character.\<close>

lemma utf8_nats_2:
  assumes "0xc2 \<le> b0" "b0 < 0xe0" "trail b1"
  shows "\<exists>c. accepted c \<and> utf8_nats c = [b0, b1]"
proof (intro exI conjI)
  define q r where "q = b0 - 0xc0" and "r = b1 - 0x80"
  have b: "b0 = 0xc0 + q" "b1 = 0x80 + r" "2 \<le> q" "q < 32" "r < 64"
    using assms unfolding q_def r_def trail_def by auto
  let ?c = "q * 64 + r"
  have d: "0x80 \<le> ?c" "?c < 0x800" using b(3-5) by linarith+
  then have "utf8_nats ?c = [0xc0 + q, 0x80 + r]"
    by (simp only: utf8_nats_def digits [OF b(5)]) simp
  then show "utf8_nats ?c = [b0, b1]" using b by simp
  show "accepted ?c" using d by (auto simp: accepted_def scalar_def)
qed

lemma utf8_nats_3:
  assumes "0xe0 \<le> b0" "b0 < 0xf0" "trail b1" "trail b2" "\<not> (b0 = 0xe0 \<and> b1 < 0xa0)"
    and "\<not> (b0 = 0xed \<and> 0xa0 \<le> b1)" "\<not> (b0 = 0xef \<and> b1 = 0xbf \<and> 0xbe \<le> b2)"
  shows "\<exists>c. accepted c \<and> utf8_nats c = [b0, b1, b2]"
proof (intro exI conjI)
  define q r s where "q = b0 - 0xe0" and "r = b1 - 0x80" and "s = b2 - 0x80"
  have b: "b0 = 0xe0 + q" "b1 = 0x80 + r" "b2 = 0x80 + s" "q < 16" "r < 64" "s < 64"
    using assms unfolding q_def r_def s_def trail_def by auto
  let ?c = "(q * 64 + r) * 64 + s"
  have d: "?c < 0x10000" "0x800 \<le> ?c" using b assms(5) by auto
  have "utf8_nats ?c = [0xe0 + q, 0x80 + r, 0x80 + s]"
    using d by (simp only: utf8_nats_def div_64 digits [OF b(6)] digits [OF b(5)]) simp
  then show "utf8_nats ?c = [b0, b1, b2]" using b by simp
  have "\<not> (0xd800 \<le> ?c \<and> ?c \<le> 0xdfff)"
  proof
    assume c: "0xd800 \<le> ?c \<and> ?c \<le> 0xdfff"
    then have c': "0xd800 \<le> q * 4096 + r * 64 + s" "q * 4096 + r * 64 + s \<le> 0xdfff" by (simp_all add: algebra_simps)
    have "13 \<le> q" using c'(1) b(5,6) by linarith
    moreover have "q \<le> 13" using c'(2) by linarith
    ultimately have q: "q = 13" by simp
    then have "32 \<le> r" using c' b(6) by linarith
    then show False using assms(6) b(1,2) q by simp
  qed
  moreover have "?c < 0xfffe"
  proof (rule ccontr)
    assume c: "\<not> ?c < 0xfffe"
    then have "0xfffe \<le> q * 4096 + r * 64 + s" by (simp add: algebra_simps)
    then have "15 \<le> q" using b(5,6) by linarith
    then have q: "q = 15" using b(4) by simp
    then have "63 \<le> r" using c b(6) by simp
    then have r: "r = 63" using b(5) by simp
    then have "62 \<le> s" using c q by simp
    then show False using assms(7) b(1-3) q r by simp
  qed
  ultimately show "accepted ?c" using d by (auto simp: accepted_def scalar_def)
qed

lemma utf8_nats_4:
  assumes "0xf0 \<le> b0" "b0 \<le> 0xf4" "trail b1" "trail b2" "trail b3" "\<not> (b0 = 0xf0 \<and> b1 < 0x90)"
    and "\<not> (b0 = 0xf4 \<and> 0x90 \<le> b1)"
  shows "\<exists>c. accepted c \<and> utf8_nats c = [b0, b1, b2, b3]"
proof (intro exI conjI)
  define q r s t where "q = b0 - 0xf0" and "r = b1 - 0x80" and "s = b2 - 0x80" and "t = b3 - 0x80"
  have b: "b0 = 0xf0 + q" "b1 = 0x80 + r" "b2 = 0x80 + s" "b3 = 0x80 + t" "q < 5" "r < 64" "s < 64" "t < 64"
    using assms unfolding q_def r_def s_def t_def trail_def by auto
  let ?c = "((q * 64 + r) * 64 + s) * 64 + t"
  have d: "0x10000 \<le> ?c" "?c < 0x110000" using b assms(6,7) by auto
  have "utf8_nats ?c = [0xf0 + q, 0x80 + r, 0x80 + s, 0x80 + t]"
    using d by (simp only: utf8_nats_def div_64 digits [OF b(8)] digits [OF b(7)] digits [OF b(6)]) simp
  then show "utf8_nats ?c = [b0, b1, b2, b3]" using b by simp
  show "accepted ?c" using d unfolding accepted_def scalar_def by auto
qed

section \<open>Strings\<close>

lemma utf8_nats_nonempty [simp]: "utf8_nats c \<noteq> []"
  by (simp add: utf8_nats_def)

lemma check_chars: "list_all accepted cs \<Longrightarrow> check (concat (map utf8_nats cs) @ s) = check s"
  by (induction cs) (simp_all add: check_char)

text \<open>A string that is not refused is well formed, and nothing behind its end was read.\<close>

lemma check_sound:
  assumes "0 \<notin> set xs" "check (xs @ 0 # rest) \<noteq> Some False"
  shows "check (xs @ 0 # rest) = Some True \<and> (\<exists>cs. list_all accepted cs \<and> xs = concat (map utf8_nats cs))"
  using assms
proof (induction xs rule: length_induct)
  case (1 xs)
  show ?case
  proof (cases xs)
    case Nil
    then show ?thesis by (auto intro: exI [of _ "[]"])
  next
    case (Cons b0 s1)
    have step: ?thesis if "xs = bs @ xs'" "accepted c" "utf8_nats c = bs" "check (xs @ 0 # rest) = check (xs' @ 0 # rest)"
      for c bs xs'
    proof -
      have "length xs' < length xs" "0 \<notin> set xs'" "check (xs' @ 0 # rest) \<noteq> Some False"
        using that 1(2,3) utf8_nats_nonempty [of c] by auto
      then obtain cs where "check (xs' @ 0 # rest) = Some True" "list_all accepted cs" "xs' = concat (map utf8_nats cs)"
        using 1(1) by blast
      then show ?thesis using that by (auto intro!: exI [of _ "c # cs"])
    qed
    have b0: "0 < b0" and no0: "0 \<notin> set s1" using 1(2) Cons by auto
    note nz = 1(3) [unfolded Cons, simplified]
    consider "b0 < 0x80" | "0xc2 \<le> b0" "b0 < 0xe0" | "0xe0 \<le> b0" "b0 < 0xf0" | "0xf0 \<le> b0" "b0 \<le> 0xf4"
      | "0x80 \<le> b0" "b0 < 0xc0" | "0xc0 \<le> b0" "b0 < 0xc2" | "0xf4 < b0" by linarith
    then show ?thesis
    proof cases
      case 1
      then have "accepted b0" "utf8_nats b0 = [b0]" using b0 by (simp_all add: accepted_def scalar_def utf8_nats_def)
      then show ?thesis using step [of "[b0]" s1 b0] Cons 1 b0 by simp
    next
      case 2
      then obtain b1 s2 where s1: "s1 = b1 # s2" "trail b1"
        using nz b0 by (cases s1) (auto simp: trail_def split: if_splits)
      obtain c where "accepted c" "utf8_nats c = [b0, b1]" using utf8_nats_2 [OF 2 s1(2)] by blast
      then show ?thesis using step [of "[b0, b1]" s2 c] Cons s1 2 by simp
    next
      case 3
      then obtain b1 s2 where s1: "s1 = b1 # s2" "trail b1"
        using nz by (cases s1) (auto simp: trail_def split: if_splits)
      then obtain b2 s3 where s2: "s2 = b2 # s3" "trail b2"
        using nz 3 by (cases s2) (auto simp: trail_def split: if_splits)
      have e: "\<not> (b0 = 0xe0 \<and> b1 < 0xa0)" "\<not> (b0 = 0xed \<and> 0xa0 \<le> b1)" "\<not> (b0 = 0xef \<and> b1 = 0xbf \<and> 0xbe \<le> b2)"
        using nz 3 s1 s2 by (auto split: if_splits)
      obtain c where "accepted c" "utf8_nats c = [b0, b1, b2]" using utf8_nats_3 [OF 3 s1(2) s2(2) e] by blast
      then show ?thesis using step [of "[b0, b1, b2]" s3 c] Cons s1 s2 3 e by auto
    next
      case 4
      then obtain b1 s2 where s1: "s1 = b1 # s2" "trail b1"
        using nz by (cases s1) (auto simp: trail_def split: if_splits)
      then obtain b2 s3 where s2: "s2 = b2 # s3" "trail b2"
        using nz 4 by (cases s2) (auto simp: trail_def split: if_splits)
      then obtain b3 s4 where s3: "s3 = b3 # s4" "trail b3"
        using nz 4 s1 by (cases s3) (auto simp: trail_def split: if_splits)
      have e: "\<not> (b0 = 0xf0 \<and> b1 < 0x90)" "\<not> (b0 = 0xf4 \<and> 0x90 \<le> b1)"
        using nz 4 s1 s2 s3 by (auto split: if_splits)
      obtain c where "accepted c" "utf8_nats c = [b0, b1, b2, b3]"
        using utf8_nats_4 [OF 4 s1(2) s2(2) s3(2) e] by blast
      then show ?thesis using step [of "[b0, b1, b2, b3]" s4 c] Cons s1 s2 s3 4 e by auto
    next
      case 6
      then show ?thesis using nz by (cases s1) (auto simp: trail_def)
    next
      case 7
      have "check ((b0 # s1) @ 0 # rest) = Some False"
        using 7 by (cases s1; cases "tl s1"; cases "tl (tl s1)") (auto simp: trail_def neq_Nil_conv)
      then show ?thesis using nz by simp
    qed (use nz in auto)
  qed
qed

lemma unat_utf8: "scalar c \<Longrightarrow> map unat (utf8 c) = utf8_nats c"
proof -
  assume c: "scalar c"
  have "set (utf8_nats c) \<subseteq> {..<256}"
  proof -
    have "c div 262144 < 5" using c by (simp add: scalar_def less_mult_imp_div_less)
    moreover have "c div 4096 < 16" if "c < 0x10000" using that by (simp add: less_mult_imp_div_less)
    moreover have "c div 64 < 32" if "c < 0x800" using that by (simp add: less_mult_imp_div_less)
    moreover have "x mod 64 < 64" for x :: nat by simp
    ultimately show ?thesis by (auto simp: utf8_nats_def)
  qed
  then have "unat (word_of_nat n :: 8 word) = n" if "n \<in> set (utf8_nats c)" for n
    using that by (auto simp: unat_of_nat)
  then show ?thesis by (simp add: utf8_def map_idI)
qed

lemma unat_utf8_concat:
  "list_all scalar cs \<Longrightarrow> xs = concat (map utf8 cs) \<longleftrightarrow> map unat xs = concat (map utf8_nats cs)"
proof -
  assume cs: "list_all scalar cs"
  then have "concat (map utf8_nats cs) = map unat (concat (map utf8 cs))"
    by (induction cs) (simp_all add: unat_utf8)
  moreover have "inj (map (unat :: 8 word \<Rightarrow> nat))" by (simp add: inj_on_def word_unat_eq_iff)
  ultimately show ?thesis by (auto dest: injD)
qed

text \<open>
  Property C30. On every string that ends with a zero byte the check reads no byte behind that zero,
  and it lets the string pass exactly if it is the UTF-8 encoding of a sequence of Unicode scalar
  values without U+FFFE and U+FFFF: no overlong form, no surrogate, nothing above U+10FFFF, and no
  character cut off.
\<close>

theorem validate_utf8_correct:
  assumes "0 \<notin> set xs"
  shows "pb_validate_utf8 (xs @ 0 # rest) =
    Some (\<exists>cs. list_all accepted cs \<and> xs = concat (map utf8 cs))"
proof -
  let ?ns = "map unat xs" and ?r = "map unat rest"
  have e: "pb_validate_utf8 (xs @ 0 # rest) = check (?ns @ 0 # ?r)" by (simp add: validate_check)
  have no0: "0 \<notin> set ?ns" using assms by (auto simp: unat_eq_0)
  have eq: "(\<exists>cs. list_all accepted cs \<and> xs = concat (map utf8 cs))
      \<longleftrightarrow> (\<exists>cs. list_all accepted cs \<and> ?ns = concat (map utf8_nats cs))"
    using unat_utf8_concat by (metis (mono_tags, lifting) accepted_def list_all_cong list.pred_mono_strong)
  show ?thesis
  proof (cases "check (?ns @ 0 # ?r) = Some False")
    case True
    then have "\<not> (\<exists>cs. list_all accepted cs \<and> ?ns = concat (map utf8_nats cs))"
      using check_chars [of _ "0 # ?r"] by fastforce
    then show ?thesis unfolding e eq using True by simp
  next
    case False
    then show ?thesis unfolding e eq using check_sound [OF no0 False] by simp
  qed
qed

text \<open>An encoded word, an overlong slash, a surrogate.\<close>

theorem validate_utf8_correct_witness:
  "(\<exists>cs. list_all accepted cs \<and> [0x47, 0xc3, 0xa9] = concat (map utf8 cs))
   \<and> \<not> (\<exists>cs. list_all accepted cs \<and> [0xc0, 0xaf] = concat (map utf8 cs))
   \<and> \<not> (\<exists>cs. list_all accepted cs \<and> [0xed, 0xa0, 0x80] = concat (map utf8 cs))"
proof -
  have "pb_validate_utf8 ([0x47, 0xc3, 0xa9] @ 0 # []) = Some True"
    "pb_validate_utf8 ([0xc0, 0xaf] @ 0 # []) = Some False"
    "pb_validate_utf8 ([0xed, 0xa0, 0x80] @ 0 # []) = Some False"
    by simp_all
  then show ?thesis
    using validate_utf8_correct [of "[0x47, 0xc3, 0xa9]" "[]"] validate_utf8_correct [of "[0xc0, 0xaf]" "[]"]
      validate_utf8_correct [of "[0xed, 0xa0, 0x80]" "[]"] by simp
qed

end
