(* ===== verification/PbDouble.thy ===== *)
theory PbDouble
  imports PbEncode PbDecodeMessage
begin

text \<open>
  The conversions between \<open>float\<close> and \<open>double\<close> that nanopb makes for platforms without 64-bit numbers
  (\<open>PB_CONVERT_DOUBLE_FLOAT\<close>: \<open>pb_encode_float_as_double\<close>, \<open>pb_decode_double_as_float\<close>), on the bits of
  the numbers and against the values these bits stand for.
\<close>

section \<open>The conversions\<close>

text \<open>
  The loop that normalises a denormalised number; on a zero mantissa it would not end, hence the
  option.
\<close>

partial_function (option) normalise :: "64 word \<Rightarrow> int \<Rightarrow> (64 word \<times> int) option" where
  "normalise mantissa exponent =
     (if mantissa AND 0x800000 = 0 then normalise (push_bit 1 mantissa) (exponent - 1)
      else Some (mantissa, exponent))"

definition float_as_double :: "32 word \<Rightarrow> 64 word option" where
  "float_as_double i =
     (let sign = (ucast (drop_bit 31 i AND 1) :: 8 word);
          exponent = uint (drop_bit 23 i AND 0xFF) - 127;
          mantissa = (ucast (i AND 0x7FFFFF) :: 64 word)
      in case (if exponent = 128 then Some (mantissa, 1024)
               else if exponent = -127
               then (if mantissa = 0 then Some (mantissa, -1023)
                     else (case normalise (push_bit 1 mantissa) exponent of
                             None \<Rightarrow> None
                           | Some (mantissa, exponent) \<Rightarrow> Some (mantissa AND 0x7FFFFF, exponent)))
               else Some (mantissa, exponent)) of
           None \<Rightarrow> None
         | Some (mantissa, exponent) \<Rightarrow>
             Some (push_bit 29 mantissa OR push_bit 52 (word_of_int (exponent + 1023))
                   OR push_bit 63 (ucast sign)))"

definition double_as_float :: "64 word \<Rightarrow> 32 word" where
  "double_as_float value =
     (let sign = (ucast (drop_bit 63 value AND 1) :: 8 word);
          exponent = uint (drop_bit 52 value AND 0x7FF) - 1023;
          mantissa = (ucast (drop_bit 28 value AND 0xFFFFFF) :: 32 word);
          (mantissa, exponent) =
            (if exponent = 1024 then (drop_bit 1 mantissa, 128)
             else
               let (mantissa, exponent) =
                     (if exponent > 127 then (0, 128)
                      else if exponent < -150 then (0, -127)
                      else if exponent < -126
                      then (drop_bit (nat (-126 - exponent)) (mantissa OR 0x1000000), -127)
                      else (mantissa, exponent));
                   mantissa = drop_bit 1 (mantissa + 1)
               in if mantissa AND 0x800000 \<noteq> 0
                  then (drop_bit 1 (mantissa AND 0x7FFFFF), exponent + 1)
                  else (mantissa, exponent))
      in mantissa OR push_bit 23 (word_of_int (exponent + 127)) OR push_bit 31 (ucast sign))"

definition pb_encode_float_as_double :: "pb_env \<Rightarrow> pb_ostream \<Rightarrow> 32 word \<Rightarrow> mem \<Rightarrow> enc_result option" where
  "pb_encode_float_as_double E s value m =
     (case float_as_double value of
        None \<Rightarrow> None
      | Some mantissa \<Rightarrow> Some (pb_write E s (le_bytes 8 mantissa) 8 m))"

definition pb_decode_double_as_float :: "pb_env \<Rightarrow> pb_istream \<Rightarrow> addr \<Rightarrow> mem \<Rightarrow> dec_result" where
  "pb_decode_double_as_float E s dest m =
     (case pb_read_bytes E s 8 m of (ok, s, bs) \<Rightarrow>
        if ok then (True, s, store_bytes m dest (le_bytes 4 (double_as_float (le_word bs)))) else (False, s, m))"

section \<open>Fields of a number\<close>

lemma nat_or_push: "(m :: nat) < 2 ^ k \<Longrightarrow> m OR push_bit k x = m + x * 2 ^ k"
proof -
  assume "m < 2 ^ k"
  then have "take_bit k m = m" by (simp add: take_bit_nat_eq_self)
  then have "\<not> bit m n \<or> \<not> bit (push_bit k x) n" for n
    by (metis bit_take_bit_iff bit_push_bit_iff linorder_not_le)
  then have "m + push_bit k x = m OR push_bit k x" by (rule disjunctive_add)
  then show ?thesis by (simp add: push_bit_eq_mult)
qed

text \<open>Sign, exponent and fraction, and the bits that hold them.\<close>

definition float_bits :: "nat \<Rightarrow> nat \<Rightarrow> nat \<Rightarrow> 32 word" where
  "float_bits s e m = word_of_nat (s * 2 ^ 31 + e * 2 ^ 23 + m)"

definition double_bits :: "nat \<Rightarrow> nat \<Rightarrow> nat \<Rightarrow> 64 word" where
  "double_bits s e m = word_of_nat (s * 2 ^ 63 + e * 2 ^ 52 + m)"

lemma unat_float_bits:
  "s < 2 \<Longrightarrow> e < 256 \<Longrightarrow> m < 2 ^ 23 \<Longrightarrow> unat (float_bits s e m) = s * 2 ^ 31 + e * 2 ^ 23 + m"
  unfolding float_bits_def unat_of_nat by simp

lemma unat_double_bits:
  "s < 2 \<Longrightarrow> e < 2048 \<Longrightarrow> m < 2 ^ 52 \<Longrightarrow> unat (double_bits s e m) = s * 2 ^ 63 + e * 2 ^ 52 + m"
  unfolding double_bits_def unat_of_nat by simp

lemma three_fields: "(n :: nat) = n div (b * a) * (b * a) + n div b mod a * b + n mod b"
proof -
  have "n = (n div b div a * a + n div b mod a) * b + n mod b" by simp
  also have "\<dots> = n div (b * a) * (b * a) + n div b mod a * b + n mod b"
    by (simp only: div_mult2_eq distrib_right mult.assoc mult.commute [of a b])
  finally show ?thesis .
qed

lemma unat_eq: "word_of_nat (unat w) = w"
  by simp

lemma float_fields:
  obtains s e m where "f = float_bits s e m" "s < 2" "e < 256" "m < 2 ^ 23"
proof
  have "unat f < 2 ^ 32" using unsigned_less [of f] by simp
  then show "unat f div 2 ^ 31 < 2" "unat f div 2 ^ 23 mod 256 < 256" "unat f mod 2 ^ 23 < 2 ^ 23" by simp_all
  have "unat f = unat f div 2 ^ 31 * 2 ^ 31 + unat f div 2 ^ 23 mod 256 * 2 ^ 23 + unat f mod 2 ^ 23"
    using three_fields [of "unat f" "2 ^ 23" 256] by simp
  then show "f = float_bits (unat f div 2 ^ 31) (unat f div 2 ^ 23 mod 256) (unat f mod 2 ^ 23)"
    unfolding float_bits_def by (metis unat_eq)
qed

lemma double_fields:
  obtains s e m where "d = double_bits s e m" "s < 2" "e < 2048" "m < 2 ^ 52"
proof
  have "unat d < 2 ^ 64" using unsigned_less [of d] by simp
  then show "unat d div 2 ^ 63 < 2" "unat d div 2 ^ 52 mod 2048 < 2048" "unat d mod 2 ^ 52 < 2 ^ 52" by simp_all
  have "unat d = unat d div 2 ^ 63 * 2 ^ 63 + unat d div 2 ^ 52 mod 2048 * 2 ^ 52 + unat d mod 2 ^ 52"
    using three_fields [of "unat d" "2 ^ 52" 2048] by simp
  then show "d = double_bits (unat d div 2 ^ 63) (unat d div 2 ^ 52 mod 2048) (unat d mod 2 ^ 52)"
    unfolding double_bits_def by (metis unat_eq)
qed

section \<open>What the extractions and the combination do\<close>

lemma unat_and_mask: "unat (w AND mask k) = unat w mod 2 ^ k" for w :: "'a::len word"
  by (simp only: take_bit_eq_mask [symmetric] unsigned_take_bit_eq take_bit_eq_mod [of k "unat w"])

lemma unat_drop: "unat (drop_bit k w) = unat w div 2 ^ k" for w :: "'a::len word"
proof -
  have "take_bit LENGTH('a) (unat w) = unat w"
    by (rule take_bit_nat_eq_self) (rule unsigned_less)
  then show ?thesis by (simp only: unsigned_drop_bit_eq drop_bit_eq_div [of k "unat w"])
qed

lemma middle_field:
  assumes "m < b" "e < a"
  shows "(s * (b * a) + e * b + m) div b mod a = (e :: nat)"
proof -
  have "s * (b * a) + e * b + m = (s * a + e) * b + m" by (simp only: distrib_right mult.assoc mult.commute [of b a])
  moreover have "((s * a + e) * b + m) div b = s * a + e" using assms(1) by simp
  ultimately show ?thesis using assms(2) by simp
qed

lemma low_field: "m < b \<Longrightarrow> (s * (b * a) + e * b + m) mod b = (m :: nat)"
proof -
  have "s * (b * a) + e * b + m = (s * a + e) * b + m" by (simp only: distrib_right mult.assoc mult.commute [of b a])
  then show "m < b \<Longrightarrow> (s * (b * a) + e * b + m) mod b = m" by simp
qed

lemma float_extract:
  assumes "s < 2" "e < 256" "m < 2 ^ 23"
  shows "drop_bit 31 (float_bits s e m) AND 1 = word_of_nat s"
    and "drop_bit 23 (float_bits s e m) AND 0xFF = word_of_nat e"
    and "float_bits s e m AND 0x7FFFFF = word_of_nat m"
proof -
  note u = unat_float_bits [OF assms]
  have masks: "(1 :: 32 word) = mask 1" "(0xFF :: 32 word) = mask 8" "(0x7FFFFF :: 32 word) = mask 23"
    by (simp_all add: mask_eq_exp_minus_1)
  show "drop_bit 31 (float_bits s e m) AND 1 = word_of_nat s"
    unfolding masks word_unat_eq_iff unat_and_mask unat_drop u unat_of_nat using assms by simp
  show "drop_bit 23 (float_bits s e m) AND 0xFF = word_of_nat e"
    unfolding masks word_unat_eq_iff unat_and_mask unat_drop u unat_of_nat
    using assms middle_field [of m "2 ^ 23" e "2 ^ 8" s] by simp
  show "float_bits s e m AND 0x7FFFFF = word_of_nat m"
    unfolding masks word_unat_eq_iff unat_and_mask unat_drop u unat_of_nat
    using assms low_field [of m "2 ^ 23" s "2 ^ 8" e] by simp
qed

lemma double_extract:
  assumes "s < 2" "e < 2048" "m < 2 ^ 52"
  shows "drop_bit 63 (double_bits s e m) AND 1 = word_of_nat s"
    and "drop_bit 52 (double_bits s e m) AND 0x7FF = word_of_nat e"
    and "drop_bit 28 (double_bits s e m) AND 0xFFFFFF = word_of_nat (m div 2 ^ 28)"
proof -
  note u = unat_double_bits [OF assms]
  have masks: "(1 :: 64 word) = mask 1" "(0x7FF :: 64 word) = mask 11" "(0xFFFFFF :: 64 word) = mask 24"
    by (simp_all add: mask_eq_exp_minus_1)
  have d: "(s * 2 ^ 63 + e * 2 ^ 52 + m) div 2 ^ 28 mod 2 ^ 24 = m div 2 ^ 28"
  proof -
    have "(s * 2 ^ 63 + e * 2 ^ 52 + m) div 2 ^ 28 = (s * 2 ^ 11 + e) * 2 ^ 24 + m div 2 ^ 28"
      using div_mult_self3 [of "2 ^ 28" "(s * 2 ^ 11 + e) * 2 ^ 24" m] by (simp add: algebra_simps)
    moreover have "m div 2 ^ 28 < 2 ^ 24" using assms(3) by (simp add: less_mult_imp_div_less)
    ultimately show ?thesis by (simp only: mod_mult_self3 mod_less)
  qed
  show "drop_bit 63 (double_bits s e m) AND 1 = word_of_nat s"
    unfolding masks word_unat_eq_iff unat_and_mask unat_drop u unat_of_nat using assms by simp
  show "drop_bit 52 (double_bits s e m) AND 0x7FF = word_of_nat e"
    unfolding masks word_unat_eq_iff unat_and_mask unat_drop u unat_of_nat
    using assms middle_field [of m "2 ^ 52" e "2 ^ 11" s] by simp
  have "m div 2 ^ 28 < 2 ^ 24" using assms(3) by (simp add: less_mult_imp_div_less)
  then show "drop_bit 28 (double_bits s e m) AND 0xFFFFFF = word_of_nat (m div 2 ^ 28)"
    unfolding masks word_unat_eq_iff unat_and_mask unat_drop u unat_of_nat d by simp
qed

lemma float_combine:
  assumes "s < 2" "e < 256" "m < 2 ^ 23"
  shows "word_of_nat m OR push_bit 23 (word_of_nat e) OR push_bit 31 (word_of_nat s) = float_bits s e m"
proof -
  have "(m + e * 2 ^ 23) OR push_bit 31 s = m + e * 2 ^ 23 + s * 2 ^ 31"
    using assms by (intro nat_or_push) simp
  then have "m OR push_bit 23 e OR push_bit 31 s = s * 2 ^ 31 + e * 2 ^ 23 + m"
    using nat_or_push [OF assms(3), of e] by (simp add: or.assoc [symmetric])
  then have "word_of_nat (m OR push_bit 23 e OR push_bit 31 s) = float_bits s e m"
    by (simp only: float_bits_def)
  then show ?thesis by (simp add: of_nat_or_eq of_nat_push_bit)
qed

lemma double_combine:
  assumes "s < 2" "e < 2048" "m < 2 ^ 23"
  shows "push_bit 29 (word_of_nat m) OR push_bit 52 (word_of_nat e) OR push_bit 63 (word_of_nat s)
    = double_bits s e (m * 2 ^ 29)"
proof -
  have "(m * 2 ^ 29 + e * 2 ^ 52) OR push_bit 63 s = m * 2 ^ 29 + e * 2 ^ 52 + s * 2 ^ 63"
    using assms by (intro nat_or_push) simp
  moreover have "m * 2 ^ 29 OR push_bit 52 e = m * 2 ^ 29 + e * 2 ^ 52"
    using assms(3) by (intro nat_or_push) simp
  ultimately have "push_bit 29 m OR push_bit 52 e OR push_bit 63 s = s * 2 ^ 63 + e * 2 ^ 52 + m * 2 ^ 29"
    by (simp add: push_bit_eq_mult [of 29 m] or.assoc [symmetric])
  then have "word_of_nat (push_bit 29 m OR push_bit 52 e OR push_bit 63 s) = double_bits s e (m * 2 ^ 29)"
    by (simp only: double_bits_def)
  then show ?thesis by (simp add: of_nat_or_eq of_nat_push_bit)
qed

section \<open>The conversions on fields\<close>

lemma word_and_0x800000:
  assumes "m < 2 ^ 24"
  shows "(word_of_nat m :: 64 word) AND 0x800000 = 0 \<longleftrightarrow> m < 2 ^ 23"
    and "(word_of_nat m :: 32 word) AND 0x800000 = 0 \<longleftrightarrow> m < 2 ^ 23"
proof -
  have b: "bit m 23 \<longleftrightarrow> \<not> m < 2 ^ 23"
  proof -
    have "m div 2 ^ 23 < 2" using assms by (simp add: less_mult_imp_div_less)
    then have "odd (m div 2 ^ 23) \<longleftrightarrow> m div 2 ^ 23 \<noteq> 0" by (auto dest: less_2_cases)
    then show ?thesis by (simp add: bit_iff_odd div_eq_0_iff)
  qed
  have p: "(0x800000 :: 64 word) = 2 ^ 23" "(0x800000 :: 32 word) = 2 ^ 23" by simp_all
  show "(word_of_nat m :: 64 word) AND 0x800000 = 0 \<longleftrightarrow> m < 2 ^ 23"
    unfolding p and_exp_eq_0_iff_not_bit using b by (simp add: bit_simps)
  show "(word_of_nat m :: 32 word) AND 0x800000 = 0 \<longleftrightarrow> m < 2 ^ 23"
    unfolding p and_exp_eq_0_iff_not_bit using b by (simp add: bit_simps)
qed

lemma normalise_result:
  assumes "0 < m" "m < 2 ^ 23"
  shows "\<exists>k. 0 < k \<and> k \<le> 23 \<and> 2 ^ 23 \<le> m * 2 ^ k \<and> m * 2 ^ k < 2 ^ 24
    \<and> normalise (word_of_nat (m * 2)) e = Some (word_of_nat (m * 2 ^ k), e - int (k - 1))"
  using assms
proof (induction "2 ^ 23 - m" arbitrary: m e rule: less_induct)
  case less
  show ?case
  proof (cases "m * 2 < 2 ^ 23")
    case False
    then have "normalise (word_of_nat (m * 2)) e = Some (word_of_nat (m * 2), e)"
      using less.prems word_and_0x800000(1) [of "m * 2"] by (subst normalise.simps) (simp del: of_nat_mult)
    then show ?thesis using False less.prems by (intro exI [of _ 1]) simp
  next
    case True
    have "push_bit 1 (word_of_nat (m * 2) :: 64 word) = word_of_nat (m * 2 * 2)"
      by (simp add: push_bit_eq_mult)
    then have n: "normalise (word_of_nat (m * 2)) e = normalise (word_of_nat (m * 2 * 2)) (e - 1)"
      using less.prems True word_and_0x800000(1) [of "m * 2"] by (subst normalise.simps) (simp del: of_nat_mult)
    have "2 ^ 23 - m * 2 < 2 ^ 23 - m" using less.prems True by simp
    from less.hyps [OF this, of "e - 1"] less.prems True obtain k where
      k: "0 < k" "k \<le> 23" "2 ^ 23 \<le> m * 2 * 2 ^ k" "m * 2 * 2 ^ k < 2 ^ 24"
        "normalise (word_of_nat (m * 2 * 2)) (e - 1) = Some (word_of_nat (m * 2 * 2 ^ k), e - 1 - int (k - 1))"
      by auto
    have "k < 23"
    proof (rule ccontr)
      assume "\<not> k < 23"
      then have "k = 23" using k(2) by simp
      then show False using k(4) less.prems by simp
    qed
    then show ?thesis using k n by (intro exI [of _ "Suc k"]) (simp add: mult.assoc)
  qed
qed

lemma word_conversions:
  "n < 256 \<Longrightarrow> uint (word_of_nat n :: 32 word) = int n"
  "n < 2048 \<Longrightarrow> uint (word_of_nat n :: 64 word) = int n"
  "n < 2 ^ 32 \<Longrightarrow> (ucast (word_of_nat n :: 32 word) :: 64 word) = word_of_nat n"
  "n < 2 ^ 64 \<Longrightarrow> (ucast (word_of_nat n :: 64 word) :: 32 word) = word_of_nat n"
  by (simp_all add: unsigned_of_nat take_bit_nat_eq_self)

lemma sign_conversions:
  assumes "s < 2"
  shows "(ucast (ucast (word_of_nat s :: 32 word) :: 8 word) :: 64 word) = word_of_nat s"
    and "(ucast (ucast (word_of_nat s :: 64 word) :: 8 word) :: 32 word) = word_of_nat s"
  using less_2_cases [OF assms] by auto

lemma float_as_double_fields:
  assumes "s < 2" "e < 256" "m < 2 ^ 23"
  shows "e = 255 \<Longrightarrow> float_as_double (float_bits s e m) = Some (double_bits s 2047 (m * 2 ^ 29))"
    and "0 < e \<Longrightarrow> e < 255 \<Longrightarrow> float_as_double (float_bits s e m) = Some (double_bits s (e + 896) (m * 2 ^ 29))"
    and "e = 0 \<Longrightarrow> m = 0 \<Longrightarrow> float_as_double (float_bits s e m) = Some (double_bits s 0 0)"
    and "e = 0 \<Longrightarrow> 0 < m \<Longrightarrow> \<exists>k. 0 < k \<and> k \<le> 23 \<and> 2 ^ 23 \<le> m * 2 ^ k \<and> m * 2 ^ k < 2 ^ 24
      \<and> float_as_double (float_bits s e m) = Some (double_bits s (897 - k) ((m * 2 ^ k - 2 ^ 23) * 2 ^ 29))"
proof -
  have m0: "(word_of_nat m :: 64 word) = 0 \<longleftrightarrow> m = 0"
    using assms(3) by (simp add: word_unat_eq_iff unat_of_nat)
  have m32: "m < 2 ^ 32" using assms(3) by simp
  have eq: "float_as_double (float_bits s e m) =
      (case (if int e - 127 = 128 then Some (word_of_nat m, 1024)
             else if int e - 127 = -127
             then (if word_of_nat m = (0 :: 64 word) then Some (word_of_nat m, -1023)
                   else (case normalise (push_bit 1 (word_of_nat m)) (int e - 127) of
                           None \<Rightarrow> None
                         | Some (mantissa, exponent) \<Rightarrow> Some (mantissa AND 0x7FFFFF, exponent)))
             else Some (word_of_nat m, int e - 127)) of
         None \<Rightarrow> None
       | Some (mantissa, exponent) \<Rightarrow>
           Some (push_bit 29 mantissa OR push_bit 52 (word_of_int (exponent + 1023)) OR push_bit 63 (word_of_nat s)))"
    unfolding float_as_double_def Let_def float_extract [OF assms] word_conversions(1) [OF assms(2)]
      word_conversions(3) [OF m32] sign_conversions(1) [OF assms(1)] ..
  have c: "push_bit 29 (word_of_nat m) OR push_bit 52 (word_of_int (int n)) OR push_bit 63 (word_of_nat s)
      = double_bits s n (m * 2 ^ 29)" if "n < 2048" "m < 2 ^ 23" for n m
    using double_combine [OF assms(1) that] by (simp only: of_int_of_nat_eq)
  {
    assume "e = 255"
    then have "(int e - 127 = 128) = True" "1024 + 1023 = int 2047" by simp_all
    then show "float_as_double (float_bits s e m) = Some (double_bits s 2047 (m * 2 ^ 29))"
      using c [of 2047 m] assms(3) by (simp only: eq if_True option.case prod.case)
  next
    assume e: "0 < e" "e < 255"
    then have "(int e - 127 = 128) = False" "(int e - 127 = -127) = False" "int e - 127 + 1023 = int (e + 896)"
      by simp_all
    then show "float_as_double (float_bits s e m) = Some (double_bits s (e + 896) (m * 2 ^ 29))"
      using c [of "e + 896" m] e assms(3) by (simp only: eq if_False option.case prod.case)
  next
    assume e: "e = 0" "m = 0"
    then have "(int e - 127 = 128) = False" "(int e - 127 = -127) = True" "-1023 + 1023 = int 0"
      "(word_of_nat m = (0 :: 64 word)) = True"
      by simp_all
    then have "float_as_double (float_bits s e m) = Some (double_bits s 0 (m * 2 ^ 29))"
      using c [of 0 m] assms(3) by (simp only: eq if_False if_True option.case prod.case)
    then show "float_as_double (float_bits s e m) = Some (double_bits s 0 0)" using e by simp
  }
  assume e: "e = 0" "0 < m"
  obtain k where k: "0 < k" "k \<le> 23" "2 ^ 23 \<le> m * 2 ^ k" "m * 2 ^ k < 2 ^ 24"
    and n: "normalise (word_of_nat (m * 2)) (-127) = Some (word_of_nat (m * 2 ^ k), -127 - int (k - 1))"
    using normalise_result [OF e(2) assms(3), of "-127"] by blast
  have p: "push_bit 1 (word_of_nat m :: 64 word) = word_of_nat (m * 2)" by (simp add: push_bit_eq_mult)
  have m23: "(0x7FFFFF :: 64 word) = mask 23" by (simp add: mask_eq_exp_minus_1)
  have "m * 2 ^ k mod 2 ^ 23 = m * 2 ^ k - 2 ^ 23"
    using k(3,4) by (simp add: mod_if [of "m * 2 ^ k"])
  then have r: "(word_of_nat (m * 2 ^ k) :: 64 word) AND 0x7FFFFF = word_of_nat (m * 2 ^ k - 2 ^ 23)"
    unfolding m23 word_unat_eq_iff unat_and_mask unat_of_nat using k(4) by simp
  have x: "-127 - int (k - 1) + 1023 = int (897 - k)" using k(1,2) by simp
  have "float_as_double (float_bits s e m) = Some (double_bits s (897 - k) ((m * 2 ^ k - 2 ^ 23) * 2 ^ 29))"
  proof -
    have "(int e - 127 = 128) = False" "(int e - 127 = -127) = True" "int e - 127 = -127"
      "(word_of_nat m = (0 :: 64 word)) = False"
      using e m0 by simp_all
    moreover have "897 - k < 2048" "m * 2 ^ k - 2 ^ 23 < 2 ^ 23" using k by simp_all
    ultimately show ?thesis by (simp only: eq if_False if_True option.case prod.case p n r x c)
  qed
  then show "\<exists>k. 0 < k \<and> k \<le> 23 \<and> 2 ^ 23 \<le> m * 2 ^ k \<and> m * 2 ^ k < 2 ^ 24
      \<and> float_as_double (float_bits s e m) = Some (double_bits s (897 - k) ((m * 2 ^ k - 2 ^ 23) * 2 ^ 29))"
    using k by blast
qed

text \<open>
  The number \<open>n\<close> below 2 to the 31 holds exponent and fraction of a float; a carry out of the
  fraction is then a carry into the exponent.
\<close>

lemma float_bits_carry: "e < 255 \<Longrightarrow> float_bits s (Suc e) 0 = float_bits s e (2 ^ 23)"
  unfolding float_bits_def by (simp add: algebra_simps)

lemma shift_words:
  assumes "a < 2 ^ 32"
  shows "drop_bit k (word_of_nat a :: 32 word) = word_of_nat (a div 2 ^ k)"
proof -
  have "a div 2 ^ k < 2 ^ 32" using assms by (meson div_le_dividend le_less_trans)
  then show ?thesis using assms by (simp only: word_unat_eq_iff unat_drop unat_of_nat) simp
qed

text \<open>The second half of the decoder: rounding, and the carry into the exponent.\<close>

lemma round_off:
  assumes "a < 2 ^ 24" "s < 2" "0 \<le> x + 127" "x + 127 < 255"
  shows "(let mantissa = drop_bit 1 ((word_of_nat a :: 32 word) + 1);
              (mantissa, exponent) =
                (if mantissa AND 0x800000 \<noteq> 0 then (drop_bit 1 (mantissa AND 0x7FFFFF), x + 1) else (mantissa, x))
          in mantissa OR push_bit 23 (word_of_int (exponent + 127)) OR push_bit 31 (word_of_nat s))
    = float_bits s (nat (x + 127)) ((a + 1) div 2)"
proof -
  let ?r = "(a + 1) div 2"
  have "a + 1 < 2 ^ 32" using assms(1) by simp
  moreover have "(word_of_nat a :: 32 word) + 1 = word_of_nat (a + 1)" by simp
  ultimately have r: "drop_bit 1 ((word_of_nat a :: 32 word) + 1) = word_of_nat ?r"
    by (simp only: shift_words power_one_right)
  have "?r \<le> 2 ^ 23" using assms(1) by simp
  then consider "?r < 2 ^ 23" | "?r = 2 ^ 23" by linarith
  then show ?thesis
  proof cases
    case 1
    have "word_of_int (x + 127) = (word_of_nat (nat (x + 127)) :: 32 word)"
      using assms(3) by (metis int_nat_eq of_int_of_nat_eq)
    then show ?thesis
      using 1 word_and_0x800000(2) [of ?r] float_combine [OF assms(2), of "nat (x + 127)" ?r] assms(3,4)
      unfolding Let_def r by simp
  next
    case 2
    have "word_of_int (x + 1 + 127) = (word_of_nat (Suc (nat (x + 127))) :: 32 word)"
      using assms(3) by (metis Suc_nat_eq_nat_zadd1 add.commute add.left_commute int_nat_eq of_int_of_nat_eq
          le_add_same_cancel1 zero_le_one add_increasing2)
    moreover have "(word_of_nat ?r :: 32 word) AND 0x7FFFFF = 0" unfolding 2 by simp
    moreover have "\<not> (word_of_nat ?r :: 32 word) AND 0x800000 = 0" unfolding 2 by simp
    ultimately show ?thesis
      using float_combine [OF assms(2), of "Suc (nat (x + 127))" 0] float_bits_carry [of "nat (x + 127)" s] assms(3,4)
      unfolding Let_def r 2 by simp
  qed
qed

definition float_number :: "nat \<Rightarrow> nat \<Rightarrow> nat" where
  "float_number E M =
     (if E = 2047 then 255 * 2 ^ 23 + M div 2 ^ 29
      else if 1150 < E then 255 * 2 ^ 23
      else if E < 873 then 0
      else if E < 897 then ((2 ^ 24 + M div 2 ^ 28) div 2 ^ (897 - E) + 1) div 2
      else (E - 896) * 2 ^ 23 + (M div 2 ^ 28 + 1) div 2)"

lemma float_bits_number: "float_bits s e m = word_of_nat (s * 2 ^ 31 + (e * 2 ^ 23 + m))"
  by (simp only: float_bits_def add.assoc)

lemma double_as_float_fields:
  assumes "s < 2" "E < 2048" "M < 2 ^ 52"
  shows "double_as_float (double_bits s E M) = word_of_nat (s * 2 ^ 31 + float_number E M)"
proof -
  let ?q = "M div 2 ^ 28"
  have q: "?q < 2 ^ 24" using assms(3) by (simp add: less_mult_imp_div_less)
  have q64: "?q < 2 ^ 64" using q by simp
  define rnd where "rnd = (\<lambda>(mantissa :: 32 word, exponent).
    let mantissa = drop_bit 1 (mantissa + 1);
        (mantissa, exponent) = (if mantissa AND 0x800000 \<noteq> 0
          then (drop_bit 1 (mantissa AND 0x7FFFFF), exponent + 1) else (mantissa, exponent))
    in mantissa OR push_bit 23 (word_of_int (exponent + 127)) OR push_bit 31 (word_of_nat s :: 32 word))"
  have eq: "double_as_float (double_bits s E M) =
    (if int E - 1023 = 1024
     then drop_bit 1 (word_of_nat ?q) OR push_bit 23 (word_of_int (128 + 127)) OR push_bit 31 (word_of_nat s)
     else rnd (if int E - 1023 > 127 then (0, 128)
               else if int E - 1023 < -150 then (0, -127)
               else if int E - 1023 < -126
               then (drop_bit (nat (-126 - (int E - 1023))) (word_of_nat ?q OR 0x1000000), -127)
               else (word_of_nat ?q, int E - 1023)))"
    unfolding double_as_float_def Let_def double_extract [OF assms] word_conversions(2) [OF assms(2)]
      word_conversions(4) [OF q64] sign_conversions(2) [OF assms(1)] rnd_def
    by (simp split: prod.split)
  have round: "rnd (word_of_nat a, x) = float_bits s (nat (x + 127)) ((a + 1) div 2)"
    if "a < 2 ^ 24" "0 \<le> x + 127" "x + 127 < 255" for a x
    using round_off [OF that(1) assms(1) that(2,3)] by (simp add: rnd_def)
  consider "E = 2047" | "1150 < E" "E < 2047" | "E < 873" | "873 \<le> E" "E < 897" | "897 \<le> E" "E \<le> 1150"
    using assms(2) by linarith
  then show ?thesis
  proof cases
    case 1
    have "M div 2 ^ 29 < 2 ^ 23" using assms(3) by (simp add: less_mult_imp_div_less)
    moreover have "drop_bit 1 (word_of_nat ?q :: 32 word) = word_of_nat (M div 2 ^ 29)"
      using shift_words [of ?q 1] q by (simp add: div_mult2_eq [symmetric])
    moreover have "(int E - 1023 = 1024) = True" "128 + 127 = int 255" using 1 by simp_all
    ultimately have "double_as_float (double_bits s E M) = float_bits s 255 (M div 2 ^ 29)"
      using float_combine [OF assms(1), of 255 "M div 2 ^ 29"] by (simp only: eq if_True of_int_of_nat_eq)
    then show ?thesis using 1 by (simp add: float_number_def float_bits_number)
  next
    case 2
    have "rnd (0, 128) = float_bits s 255 0"
      using float_combine [OF assms(1), of 255 0] by (simp add: rnd_def Let_def)
    then show ?thesis using 2 by (simp add: eq float_number_def float_bits_number)
  next
    case 3
    then show ?thesis using round [of 0 "-127"] by (simp add: eq float_number_def float_bits_number)
  next
    case 4
    let ?k = "897 - E"
    have "(word_of_nat ?q OR 0x1000000 :: 32 word) = word_of_nat (?q OR push_bit 24 1)"
      by (simp add: of_nat_or_eq of_nat_push_bit)
    also have "?q OR push_bit 24 1 = 2 ^ 24 + ?q" using nat_or_push [OF q, of 1] by simp
    finally have "drop_bit ?k (word_of_nat ?q OR 0x1000000 :: 32 word) = word_of_nat ((2 ^ 24 + ?q) div 2 ^ ?k)"
      using shift_words [of "2 ^ 24 + ?q" ?k] q by simp
    moreover have "nat (-126 - (int E - 1023)) = ?k" using 4 by simp
    moreover have "(2 ^ 24 + ?q) div 2 ^ ?k < 2 ^ 24"
    proof -
      have "(2::nat) \<le> 2 ^ ?k" using 4 by (simp add: self_le_power)
      then have "(2 ^ 24 + ?q) div 2 ^ ?k \<le> (2 ^ 24 + ?q) div 2" by (rule div_le_mono2 [rotated]) simp
      then show ?thesis using q by simp
    qed
    ultimately show ?thesis
      using 4 round [of "(2 ^ 24 + ?q) div 2 ^ ?k" "-127"] by (simp add: eq float_number_def float_bits_number)
  next
    case 5
    then show ?thesis
      using round [OF q, of "int E - 1023"] by (simp add: eq float_number_def float_bits_number nat_diff_distrib')
  qed
qed

section \<open>The numbers the bits stand for\<close>

definition float_sign :: "32 word \<Rightarrow> nat" where "float_sign f = unat f div 2 ^ 31"
definition float_exponent :: "32 word \<Rightarrow> nat" where "float_exponent f = unat f div 2 ^ 23 mod 2 ^ 8"
definition float_fraction :: "32 word \<Rightarrow> nat" where "float_fraction f = unat f mod 2 ^ 23"

definition double_sign :: "64 word \<Rightarrow> nat" where "double_sign d = unat d div 2 ^ 63"
definition double_exponent :: "64 word \<Rightarrow> nat" where "double_exponent d = unat d div 2 ^ 52 mod 2 ^ 11"
definition double_fraction :: "64 word \<Rightarrow> nat" where "double_fraction d = unat d mod 2 ^ 52"

definition float_finite :: "32 word \<Rightarrow> bool" where "float_finite f \<longleftrightarrow> float_exponent f \<noteq> 255"
definition double_finite :: "64 word \<Rightarrow> bool" where "double_finite d \<longleftrightarrow> double_exponent d \<noteq> 2047"

definition float_value :: "32 word \<Rightarrow> real" where
  "float_value f =
     (-1) ^ float_sign f *
     (if float_exponent f = 0 then real (float_fraction f) * 2 powi -149
      else real (2 ^ 23 + float_fraction f) * 2 powi (int (float_exponent f) - 150))"

definition double_value :: "64 word \<Rightarrow> real" where
  "double_value d =
     (-1) ^ double_sign d *
     (if double_exponent d = 0 then real (double_fraction d) * 2 powi -1074
      else real (2 ^ 52 + double_fraction d) * 2 powi (int (double_exponent d) - 1075))"

lemma float_parts:
  assumes "s < 2" "e < 256" "m < 2 ^ 23"
  shows "float_sign (float_bits s e m) = s" "float_exponent (float_bits s e m) = e"
    and "float_fraction (float_bits s e m) = m"
  unfolding float_sign_def float_exponent_def float_fraction_def unat_float_bits [OF assms]
  using assms middle_field [of m "2 ^ 23" e "2 ^ 8" s] low_field [of m "2 ^ 23" s "2 ^ 8" e] by simp_all

lemma double_parts:
  assumes "s < 2" "e < 2048" "m < 2 ^ 52"
  shows "double_sign (double_bits s e m) = s" "double_exponent (double_bits s e m) = e"
    and "double_fraction (double_bits s e m) = m"
  unfolding double_sign_def double_exponent_def double_fraction_def unat_double_bits [OF assms]
  using assms middle_field [of m "2 ^ 52" e "2 ^ 11" s] low_field [of m "2 ^ 52" s "2 ^ 11" e] by simp_all

lemma double_value_normal:
  assumes "s < 2" "0 < e" "e < 2048" "m < 2 ^ 52"
  shows "double_value (double_bits s e m) = (-1) ^ s * (real (2 ^ 52 + m) * 2 powi (int e - 1075))"
  unfolding double_value_def double_parts [OF assms(1,3,4)] using assms(2) by simp

lemma pow_powi: "(2 :: real) ^ n * 2 powi x = 2 powi (int n + x)"
  by (simp add: power_int_add)

text \<open>The double \<open>d\<close> is the float \<open>f\<close>, and is read back as it.\<close>

definition same_number :: "32 word \<Rightarrow> 64 word \<Rightarrow> bool" where
  "same_number f d \<longleftrightarrow> double_as_float d = f
     \<and> (if float_finite f then double_finite d \<and> double_value d = float_value f
        else \<not> double_finite d \<and> double_sign d = float_sign f \<and> double_fraction d = float_fraction f * 2 ^ 29)"

lemma same_normal:
  assumes "s < 2" "0 < e" "e < 255" "m < 2 ^ 23"
  shows "same_number (float_bits s e m) (double_bits s (e + 896) (m * 2 ^ 29))"
proof -
  have m: "m * 2 ^ 29 < 2 ^ 52" and e: "e + 896 < 2048" "e < 256" using assms by simp_all
  have "real (2 ^ 52 + m * 2 ^ 29) = real (2 ^ 23 + m) * 2 ^ 29" by simp
  moreover have "(2::real) ^ 29 * 2 powi (int (e + 896) - 1075) = 2 powi (int e - 150)"
    unfolding pow_powi by simp
  ultimately have v: "double_value (double_bits s (e + 896) (m * 2 ^ 29)) = float_value (float_bits s e m)"
    using double_value_normal [OF assms(1) _ e(1) m] assms(2)
    by (simp only: float_value_def float_parts [OF assms(1) e(2) assms(4)] mult.assoc) simp
  have "(m * 2 ^ 29 div 2 ^ 28 + 1) div 2 = m" by simp
  then have "double_as_float (double_bits s (e + 896) (m * 2 ^ 29)) = float_bits s e m"
    using assms(2,3) unfolding double_as_float_fields [OF assms(1) e(1) m] float_number_def float_bits_number by simp
  then show ?thesis
    using assms v float_parts [OF assms(1) e(2) assms(4)] double_parts [OF assms(1) e(1) m]
    by (simp add: same_number_def float_finite_def double_finite_def)
qed

lemma same_denormal:
  assumes "s < 2" "m < 2 ^ 23" "0 < k" "k \<le> 23" "2 ^ 23 \<le> m * 2 ^ k" "m * 2 ^ k < 2 ^ 24"
  shows "same_number (float_bits s 0 m) (double_bits s (897 - k) ((m * 2 ^ k - 2 ^ 23) * 2 ^ 29))"
proof -
  let ?M = "(m * 2 ^ k - 2 ^ 23) * 2 ^ 29"
  have M: "?M < 2 ^ 52" and sum: "2 ^ 52 + ?M = m * 2 ^ (k + 29)"
    using assms(5,6) by (simp_all add: power_add algebra_simps)
  have e: "897 - k < 2048" "0 < 897 - k" using assms(4) by simp_all
  have "(2::real) ^ (k + 29) * 2 powi (int (897 - k) - 1075) = 2 powi -149"
    unfolding pow_powi using assms(4) by simp
  moreover have "real (2 ^ 52 + ?M) = real m * 2 ^ (k + 29)" unfolding sum by simp
  ultimately have v: "double_value (double_bits s (897 - k) ?M) = float_value (float_bits s 0 m)"
    using double_value_normal [OF assms(1) e(2,1) M]
    by (simp only: float_value_def float_parts [OF assms(1) _ assms(2), of 0, simplified] mult.assoc) simp
  have "2 ^ 24 + ?M div 2 ^ 28 = m * 2 * 2 ^ k" using assms(5) by simp
  then have "((2 ^ 24 + ?M div 2 ^ 28) div 2 ^ k + 1) div 2 = m" by simp
  moreover have k: "\<not> 897 - k < 873" "\<not> 1150 < 897 - k" "897 - k < 897" "897 - (897 - k) = k" "897 - k \<noteq> 2047"
    using assms(3,4) by linarith+
  ultimately have "double_as_float (double_bits s (897 - k) ?M) = float_bits s 0 m"
    unfolding double_as_float_fields [OF assms(1) e(1) M] float_number_def float_bits_number by simp
  then show ?thesis
    using k(5) v float_parts [OF assms(1) _ assms(2), of 0] double_parts [OF assms(1) e(1) M]
    by (simp add: same_number_def float_finite_def double_finite_def)
qed

text \<open>
  Property C32. Encoding a float as a double always ends and loses nothing: the double stands for the
  same real number, an infinity or a NaN stays one with its sign and fraction, and decoding the
  double as a float gives back the same 32 bits, for every float there is.
\<close>

theorem float_as_double_exact:
  "\<exists>d. float_as_double f = Some d \<and> double_as_float d = f
     \<and> (if float_finite f then double_finite d \<and> double_value d = float_value f
        else \<not> double_finite d \<and> double_sign d = float_sign f \<and> double_fraction d = float_fraction f * 2 ^ 29)"
proof -
  obtain s e m where f: "f = float_bits s e m" "s < 2" "e < 256" "m < 2 ^ 23" by (rule float_fields)
  note fields = float_as_double_fields [OF f(2-4)]
  have m29: "m * 2 ^ 29 < 2 ^ 52" using f(4) by simp
  have "\<exists>d. float_as_double f = Some d \<and> same_number f d"
  proof -
    consider "e = 255" | "0 < e" "e < 255" | "e = 0" "m = 0" | "e = 0" "0 < m" using f(3) by linarith
    then show ?thesis
    proof cases
      case 1
      then show ?thesis
        using fields(1) double_as_float_fields [OF f(2) _ m29, of 2047] float_parts [OF f(2-4)]
          double_parts [OF f(2) _ m29, of 2047]
        by (simp add: f(1) float_number_def float_bits_number float_finite_def double_finite_def same_number_def)
    next
      case 2
      then show ?thesis using fields(2) same_normal [OF f(2) _ _ f(4)] f(1) by auto
    next
      case 3
      then show ?thesis
        using fields(3) double_as_float_fields [OF f(2), of 0 0] float_parts [OF f(2-4)]
          double_parts [OF f(2), of 0 0]
        by (simp add: f(1) float_number_def float_bits_number float_finite_def double_finite_def
            float_value_def double_value_def same_number_def)
    next
      case 4
      then show ?thesis using fields(4) same_denormal [OF f(2,4)] f(1) by blast
    qed
  qed
  then show ?thesis unfolding same_number_def .
qed

section \<open>Rounding\<close>

text \<open>The unit in the last place of a float near a double, and the nearest multiple of it.\<close>

definition float_ulp :: "64 word \<Rightarrow> real" where
  "float_ulp d = 2 powi (max (int (double_exponent d) - 1023) (-126) - 23)"

definition rounded :: "64 word \<Rightarrow> real" where
  "rounded d = float_ulp d * real_of_int \<lfloor>\<bar>double_value d\<bar> / float_ulp d + 1 / 2\<rfloor>"

lemma floor_half: "\<lfloor>real n / 2 ^ Suc j + 1 / 2\<rfloor> = int ((n div 2 ^ j + 1) div 2)"
proof -
  have "real n / 2 ^ Suc j + 1 / 2 = real (n + 2 ^ j) / real (2 ^ Suc j)" by (simp add: field_simps)
  then have "\<lfloor>real n / 2 ^ Suc j + 1 / 2\<rfloor> = int ((n + 2 ^ j) div 2 ^ Suc j)"
    by (simp only: floor_divide_of_nat_eq)
  also have "(n + 2 ^ j) div 2 ^ Suc j = (n + 2 ^ j) div 2 ^ j div 2"
    by (simp only: power_Suc2 div_mult2_eq)
  finally show ?thesis by simp
qed

lemma div_powi: "(x :: real) * 2 powi a / 2 powi (a + int n) = x / 2 ^ n"
  by (simp add: power_int_add)

text \<open>The value of the float with the number \<open>n\<close>, where the fraction may be carried.\<close>

lemma number_small:
  assumes "s < 2" "n \<le> 2 ^ 23"
  shows "float_finite (float_bits s 0 n)" "float_sign (float_bits s 0 n) = s"
    and "float_value (float_bits s 0 n) = (-1) ^ s * (real n * 2 powi -149)"
proof -
  have "float_finite (float_bits s 0 n) \<and> float_sign (float_bits s 0 n) = s
    \<and> float_value (float_bits s 0 n) = (-1) ^ s * (real n * 2 powi -149)"
  proof (cases "n = 2 ^ 23")
    case True
    then show ?thesis
      using float_parts [OF assms(1), of 1 0] float_bits_carry [of 0 s]
      by (simp add: float_finite_def float_value_def)
  next
    case False
    then show ?thesis
      using assms float_parts [OF assms(1), of 0 n] by (simp add: float_finite_def float_value_def)
  qed
  then show "float_finite (float_bits s 0 n)" "float_sign (float_bits s 0 n) = s"
    "float_value (float_bits s 0 n) = (-1) ^ s * (real n * 2 powi -149)" by blast+
qed

lemma number_normal:
  assumes "s < 2" "0 < e" "e < 255" "n \<le> 2 ^ 23" "e = 254 \<Longrightarrow> n < 2 ^ 23"
  shows "float_finite (float_bits s e n)" "float_sign (float_bits s e n) = s"
    and "float_value (float_bits s e n) = (-1) ^ s * (real (2 ^ 23 + n) * 2 powi (int e - 150))"
proof -
  have "float_finite (float_bits s e n) \<and> float_sign (float_bits s e n) = s
    \<and> float_value (float_bits s e n) = (-1) ^ s * (real (2 ^ 23 + n) * 2 powi (int e - 150))"
  proof (cases "n = 2 ^ 23")
    case True
    then have "e < 254" using assms(3,5) by force
    moreover have "(2::real) powi (int (Suc e) - 150) = 2 * 2 powi (int e - 150)"
      using pow_powi [of 1 "int e - 150"] by (simp add: algebra_simps)
    ultimately show ?thesis
      using True float_parts [OF assms(1), of "Suc e" 0] float_bits_carry [of e s]
      by (simp add: float_finite_def float_value_def)
  next
    case False
    then show ?thesis
      using assms float_parts [OF assms(1), of e n] by (simp add: float_finite_def float_value_def)
  qed
  then show "float_finite (float_bits s e n)" "float_sign (float_bits s e n) = s"
    "float_value (float_bits s e n) = (-1) ^ s * (real (2 ^ 23 + n) * 2 powi (int e - 150))" by blast+
qed

lemma double_abs:
  assumes "s < 2" "E < 2048" "M < 2 ^ 52"
  shows "\<bar>double_value (double_bits s E M)\<bar> =
    (if E = 0 then real M * 2 powi -1074 else real (2 ^ 52 + M) * 2 powi (int E - 1075))"
  unfolding double_value_def double_parts [OF assms] by (simp add: abs_mult)

text \<open>What \<open>rounded\<close> is, for the four ranges of the exponent.\<close>

lemma rounded_tiny:
  assumes "s < 2" "E < 873" "M < 2 ^ 52"
  shows "rounded (double_bits s E M) = 0"
proof -
  have E: "E < 2048" using assms(2) by simp
  let ?x = "\<bar>double_value (double_bits s E M)\<bar>"
  have "?x < 2 powi -150"
  proof (cases "E = 0")
    case True
    have "real M * 2 powi -1074 < 2 ^ 52 * 2 powi -1074" using assms(3) by simp
    also have "\<dots> = 2 powi -1022" unfolding pow_powi by simp
    also have "\<dots> \<le> (2 :: real) powi -150" by (rule power_int_increasing) simp_all
    finally show ?thesis unfolding double_abs [OF assms(1) E assms(3)] if_P [OF True] .
  next
    case False
    have "real (2 ^ 52 + M) * 2 powi (int E - 1075) < 2 ^ 53 * 2 powi (int E - 1075)"
      using assms(3) by (intro mult_strict_right_mono) simp_all
    also have "\<dots> = 2 powi (int E - 1022)" unfolding pow_powi by simp
    also have "\<dots> \<le> (2 :: real) powi -150" using assms(2) by (intro power_int_increasing) simp_all
    finally show ?thesis unfolding double_abs [OF assms(1) E assms(3)] if_not_P [OF False] .
  qed
  moreover have u: "float_ulp (double_bits s E M) = 2 * 2 powi -150"
    using assms(2) pow_powi [of 1 "-150"] by (simp add: float_ulp_def double_parts [OF assms(1) E assms(3)])
  moreover have "(0 :: real) < 2 powi -150" by simp
  moreover have "x < h \<Longrightarrow> 0 < h \<Longrightarrow> x / (2 * h) < 1 / 2" for x h :: real by (simp add: field_simps)
  ultimately have "?x / float_ulp (double_bits s E M) < 1 / 2" unfolding u by blast
  moreover have "0 \<le> ?x / float_ulp (double_bits s E M)" unfolding u by simp
  ultimately have "\<lfloor>?x / float_ulp (double_bits s E M) + 1 / 2\<rfloor> = 0" by linarith
  then show ?thesis by (simp add: rounded_def)
qed

lemma rounded_by_shift:
  assumes "s < 2" "0 < E" "E < 2047" "M < 2 ^ 52"
    and "float_ulp (double_bits s E M) = 2 powi (int E - 1075 + int (Suc j))"
  shows "rounded (double_bits s E M) =
    real (((2 ^ 52 + M) div 2 ^ j + 1) div 2) * 2 powi (int E - 1075 + int (Suc j))"
proof -
  have E: "E < 2048" "E \<noteq> 0" using assms(2,3) by simp_all
  have "\<bar>double_value (double_bits s E M)\<bar> / float_ulp (double_bits s E M) = real (2 ^ 52 + M) / 2 ^ Suc j"
    by (simp only: double_abs [OF assms(1) E(1) assms(4)] E(2) if_False assms(5) div_powi)
  then show ?thesis by (simp only: rounded_def floor_half assms(5) of_int_of_nat_eq mult.commute)
qed

lemma ulp_cases:
  assumes "s < 2" "E < 2048" "M < 2 ^ 52"
  shows "E < 897 \<Longrightarrow> float_ulp (double_bits s E M) = 2 powi -149"
    and "897 \<le> E \<Longrightarrow> float_ulp (double_bits s E M) = 2 powi (int E - 1046)"
  by (simp_all add: float_ulp_def double_parts [OF assms])

lemma rounded_normal:
  assumes "s < 2" "897 \<le> E" "E < 2047" "M < 2 ^ 52"
  shows "rounded (double_bits s E M) = real (2 ^ 23 + (M div 2 ^ 28 + 1) div 2) * 2 powi (int E - 1046)"
proof -
  have "(2 ^ 52 + M) div 2 ^ 28 = 2 ^ 24 + M div 2 ^ 28"
    using div_mult_self3 [of "2 ^ 28" "2 ^ 24" M] by simp
  then have "((2 ^ 52 + M) div 2 ^ 28 + 1) div 2 = 2 ^ 23 + (M div 2 ^ 28 + 1) div 2" by simp
  moreover have "float_ulp (double_bits s E M) = 2 powi (int E - 1075 + int (Suc 28))"
    using ulp_cases(2) [OF assms(1) _ assms(4), of E] assms(2,3) by simp
  ultimately show ?thesis
    using rounded_by_shift [OF assms(1) _ assms(3,4), of 28] assms(2) by simp
qed

lemma rounded_denormal:
  assumes "s < 2" "873 \<le> E" "E < 897" "M < 2 ^ 52"
  shows "rounded (double_bits s E M) = real (((2 ^ 24 + M div 2 ^ 28) div 2 ^ (897 - E) + 1) div 2) * 2 powi -149"
proof -
  have "(2 ^ 52 + M) div 2 ^ (28 + (897 - E)) = (2 ^ 52 + M) div 2 ^ 28 div 2 ^ (897 - E)"
    by (simp only: power_add div_mult2_eq)
  also have "(2 ^ 52 + M) div 2 ^ 28 = 2 ^ 24 + M div 2 ^ 28"
    using div_mult_self3 [of "2 ^ 28" "2 ^ 24" M] by simp
  finally have d: "(2 ^ 52 + M) div 2 ^ (28 + (897 - E)) = (2 ^ 24 + M div 2 ^ 28) div 2 ^ (897 - E)" .
  have x: "int E - 1075 + int (Suc (28 + (897 - E))) = -149" using assms(3) by simp
  then have "float_ulp (double_bits s E M) = 2 powi (int E - 1075 + int (Suc (28 + (897 - E))))"
    using ulp_cases(1) [OF assms(1) _ assms(4), of E] assms(3) by simp
  from rounded_by_shift [OF assms(1) _ _ assms(4) this] assms(2,3) show ?thesis by (simp only: d x)
qed

lemma double_as_float_split:
  assumes "s < 2" "E < 2047" "M < 2 ^ 52"
  shows "E < 873 \<Longrightarrow> double_as_float (double_bits s E M) = float_bits s 0 0"
    and "873 \<le> E \<Longrightarrow> E < 897 \<Longrightarrow> double_as_float (double_bits s E M) =
      float_bits s 0 (((2 ^ 24 + M div 2 ^ 28) div 2 ^ (897 - E) + 1) div 2)"
    and "897 \<le> E \<Longrightarrow> E \<le> 1150 \<Longrightarrow> double_as_float (double_bits s E M) =
      float_bits s (E - 896) ((M div 2 ^ 28 + 1) div 2)"
    and "1150 < E \<Longrightarrow> double_as_float (double_bits s E M) = float_bits s 255 0"
  using double_as_float_fields [OF assms(1) _ assms(3), of E] assms(2)
  by (auto simp: float_number_def float_bits_number)

lemma rounding_of_fields:
  assumes "s < 2" "E < 2047" "M < 2 ^ 52"
  shows "float_sign (double_as_float (double_bits s E M)) = s \<and>
    (if rounded (double_bits s E M) < 2 ^ 128
     then float_finite (double_as_float (double_bits s E M))
       \<and> float_value (double_as_float (double_bits s E M)) = (-1) ^ s * rounded (double_bits s E M)
     else \<not> float_finite (double_as_float (double_bits s E M)) \<and> float_fraction (double_as_float (double_bits s E M)) = 0)"
proof -
  let ?q = "M div 2 ^ 28"
  have q: "?q < 2 ^ 24" using assms(3) by (simp add: less_mult_imp_div_less)
  note split = double_as_float_split [OF assms]
  have p128: "(2 :: real) ^ 128 = 2 ^ 24 * 2 powi 104" unfolding pow_powi by simp
  note inf = float_parts [OF assms(1), of 255 0]
  consider "E < 873" | "873 \<le> E" "E < 897" | "897 \<le> E" "E \<le> 1150" | "1150 < E" by linarith
  then show ?thesis
  proof cases
    case 1
    then show ?thesis
      using number_small [OF assms(1), of 0] by (simp add: split(1) rounded_tiny [OF assms(1) _ assms(3)])
  next
    case 2
    let ?n = "((2 ^ 24 + ?q) div 2 ^ (897 - E) + 1) div 2"
    have "(2::nat) \<le> 2 ^ (897 - E)" using 2 by (simp add: self_le_power)
    then have "(2 ^ 24 + ?q) div 2 ^ (897 - E) \<le> (2 ^ 24 + ?q) div 2" by (rule div_le_mono2 [rotated]) simp
    then have n: "?n \<le> 2 ^ 23" using q by simp
    have "real ?n * 2 powi -149 \<le> 2 ^ 23 * 2 powi -149" using n by (intro mult_right_mono) simp_all
    also have "\<dots> < 2 ^ 128" unfolding pow_powi by simp
    finally have lt: "rounded (double_bits s E M) < 2 ^ 128"
      unfolding rounded_denormal [OF assms(1) 2 assms(3)] .
    show ?thesis
      unfolding split(2) [OF 2] if_P [OF lt] using number_small [OF assms(1) n]
      unfolding rounded_denormal [OF assms(1) 2 assms(3)] by blast
  next
    case 3
    let ?n = "(?q + 1) div 2" and ?r = "rounded (double_bits s E M)"
    have n: "?n \<le> 2 ^ 23" using q by simp
    have r: "?r = real (2 ^ 23 + ?n) * 2 powi (int E - 1046)"
      using rounded_normal [OF assms(1) 3(1) assms(2,3)] .
    have f: "double_as_float (double_bits s E M) = float_bits s (E - 896) ?n" using split(3) [OF 3] .
    show ?thesis
    proof (cases "E = 1150 \<and> ?n = 2 ^ 23")
      case True
      then have "?r = 2 ^ 128" unfolding r p128 by simp
      moreover have "double_as_float (double_bits s E M) = float_bits s 255 0"
        unfolding f using True float_bits_carry [of 254 s] by simp
      ultimately show ?thesis using inf assms(1) by (simp add: float_finite_def)
    next
      case False
      have "?r < 2 ^ 24 * 2 powi 104"
      proof (cases "E = 1150")
        case True
        then have "2 ^ 23 + ?n < 2 ^ 24" using False n by simp
        then have "real (2 ^ 23 + ?n) < real (2 ^ 24)" by (rule of_nat_less_iff [THEN iffD2])
        moreover have "(2 :: real) powi (int E - 1046) = 2 powi 104" using True by simp
        ultimately show ?thesis unfolding r by (simp only: of_nat_power of_nat_numeral mult_less_cancel_right) simp
      next
        case neq: False
        have "real (2 ^ 23 + ?n) * 2 powi (int E - 1046) \<le> 2 ^ 24 * 2 powi (int E - 1046)"
          using n by (intro mult_right_mono) simp_all
        also have "\<dots> < 2 ^ 24 * 2 powi 104"
          using neq 3 by (intro mult_strict_left_mono power_int_strict_increasing) simp_all
        finally show ?thesis unfolding r .
      qed
      moreover have "E - 896 = 254 \<Longrightarrow> ?n < 2 ^ 23" using False n 3 by auto
      moreover have "int (E - 896) - 150 = int E - 1046" using 3 by simp
      ultimately show ?thesis
        using number_normal [OF assms(1) _ _ n, of "E - 896"] 3 unfolding p128 f r by simp
    qed
  next
    case 4
    have "(2 :: real) ^ 128 = 2 ^ 23 * 2 powi 105" unfolding pow_powi by simp
    also have "\<dots> \<le> real (2 ^ 23 + (?q + 1) div 2) * 2 powi (int E - 1046)"
      using 4 by (intro mult_mono power_int_increasing) simp_all
    also have "\<dots> = rounded (double_bits s E M)"
      using rounded_normal [OF assms(1) _ assms(2,3)] 4 by simp
    finally show ?thesis using split(4) [OF 4] inf assms(1) by (simp add: float_finite_def)
  qed
qed

text \<open>
  Property C31. Decoding a double as a float rounds to the nearest float, and a tie away from zero,
  over the whole range: the result stands for the multiple of the last place nearest to the double,
  also among the denormalised floats and where the double is too small for any of them, and it is an
  infinity of the same sign exactly if that multiple is at least 2 to the 128.
\<close>

theorem double_as_float_rounds:
  assumes "double_finite d"
  shows "float_sign (double_as_float d) = double_sign d \<and>
    (if rounded d < 2 ^ 128
     then float_finite (double_as_float d) \<and> float_value (double_as_float d) = (-1) ^ double_sign d * rounded d
     else \<not> float_finite (double_as_float d) \<and> float_fraction (double_as_float d) = 0)"
proof -
  obtain s E M where d: "d = double_bits s E M" "s < 2" "E < 2048" "M < 2 ^ 52" by (rule double_fields)
  then have "E < 2047" using assms double_parts [OF d(2-4)] by (simp add: double_finite_def)
  from rounding_of_fields [OF d(2) this d(4)] show ?thesis
    unfolding d(1) double_parts [OF d(2-4)] .
qed

text \<open>The double next above 1 is rounded to 1, the largest double to infinity.\<close>

theorem double_as_float_rounds_witness:
  "float_value (double_as_float 0x3FF0000000000001) = 1 \<and> \<not> float_finite (double_as_float 0x7FEFFFFFFFFFFFFF)"
proof -
  have p: "double_sign 0x3FF0000000000001 = 0" "double_exponent 0x3FF0000000000001 = 1023"
    "double_fraction 0x3FF0000000000001 = 1"
    "double_sign 0x7FEFFFFFFFFFFFFF = 0" "double_exponent 0x7FEFFFFFFFFFFFFF = 2046"
    "double_fraction 0x7FEFFFFFFFFFFFFF = 2 ^ 52 - 1"
    by (simp_all add: double_sign_def double_exponent_def double_fraction_def)
  have "rounded 0x3FF0000000000001 = 1" "\<not> rounded 0x7FEFFFFFFFFFFFFF < 2 ^ 128"
    by (simp_all add: rounded_def float_ulp_def double_value_def p)
  then show ?thesis
    using double_as_float_rounds [of "0x3FF0000000000001"]
      double_as_float_rounds [of "0x7FEFFFFFFFFFFFFF"]
    by (simp add: double_finite_def p)
qed

text \<open>
  A NaN whose fraction only has bits below the 29 highest becomes an infinity.
\<close>

lemma nan_becomes_infinity:
  assumes "s < 2" "0 < M" "M < 2 ^ 29"
  shows "double_as_float (double_bits s 2047 M) = float_bits s 255 0"
  using double_as_float_fields [OF assms(1), of 2047 M] assms(3)
  by (simp add: float_number_def float_bits_number)

end
