(* ===== verification/Lifetime.thy ===== *)
theory Lifetime
  imports Prelude
begin

text \<open>
  The life of a \<open>Game\<close> (\<open>libs/game/src/Game.cpp\<close>: constructor, \<open>Init\<close>, \<open>ObjectPosInit\<close>, \<open>Cleanup\<close>,
  \<open>Exit\<close>, destructor) and of its window (\<open>libs/game/src/Window.cpp\<close>): which objects are on the heap, what
  the pointers hold, and whether OpenGL may be called. A pointer is an address, null is 0; what a
  member holds that no constructor initialises is a parameter. \<^term>\<open>None\<close> is undefined behaviour.
\<close>

section \<open>Heap\<close>

type_synonym pointer = nat

text \<open>\<open>alloc\<close> chooses the address of a new object.\<close>

definition new_object :: "(nat set \<Rightarrow> pointer) \<Rightarrow> nat set \<Rightarrow> pointer \<times> nat set" where
  "new_object alloc H = (let p = alloc H in (p, insert p H))"

definition delete :: "pointer \<Rightarrow> nat set \<Rightarrow> nat set option" where
  "delete p H = (if p = 0 then Some H else if p \<in> H then Some (H - {p}) else None)"

fun delete_all :: "pointer list \<Rightarrow> nat set \<Rightarrow> nat set option" where
  "delete_all [] H = Some H"
| "delete_all (p # ps) H = (case delete p H of None \<Rightarrow> None | Some H \<Rightarrow> delete_all ps H)"

fun new_objects :: "(nat set \<Rightarrow> pointer) \<Rightarrow> nat \<Rightarrow> nat set \<Rightarrow> pointer list \<times> nat set" where
  "new_objects alloc 0 H = ([], H)"
| "new_objects alloc (Suc n) H =
     (let (p, H) = new_object alloc H; (ps, H) = new_objects alloc n H in (p # ps, H))"

section \<open>The window\<close>

datatype window_outcome = Init_fails | Create_fails | Glad_fails | Window_ok

text \<open>
  Whether GLFW is initialised, the pointer to the window, whether the functions of OpenGL are loaded
  (they are null pointers before).
\<close>

record window =
  glfw_on :: bool
  gl_window :: pointer
  gl_loaded :: bool

text \<open>\<open>handle\<close> is what \<open>glfwCreateWindow\<close> returns when it succeeds. No outcome is reported to the caller.\<close>

definition WindowInit :: "window_outcome \<Rightarrow> pointer \<Rightarrow> window \<Rightarrow> window" where
  "WindowInit outcome handle w =
     (if outcome = Init_fails then w
      else
        let w = w\<lparr>glfw_on := True\<rparr>
        in if outcome = Create_fails then w\<lparr>gl_window := 0, glfw_on := False\<rparr>
           else
             let w = w\<lparr>gl_window := handle\<rparr>
             in if outcome = Glad_fails then w else w\<lparr>gl_loaded := True\<rparr>)"

text \<open>A call of OpenGL needs the functions and the context of a live window.\<close>

definition gl_usable :: "window \<Rightarrow> bool" where
  "gl_usable w \<longleftrightarrow> glfw_on w \<and> gl_loaded w"

section \<open>The game\<close>

text \<open>\<open>resources\<close> counts the entries of the two maps of the resource manager.\<close>

record game_memory =
  ball_ptr :: pointer
  team1_ptrs :: "pointer list"
  team2_ptrs :: "pointer list"
  renderer_ptr :: pointer
  resources :: nat
  game_window :: window
  heap :: "nat set"

definition ObjectPosInit_memory :: "(nat set \<Rightarrow> pointer) \<Rightarrow> game_memory \<Rightarrow> game_memory option" where
  "ObjectPosInit_memory alloc g =
     (case delete_all (team1_ptrs g) (heap g) of
        None \<Rightarrow> None
      | Some H \<Rightarrow>
          (case delete_all (team2_ptrs g) H of
             None \<Rightarrow> None
           | Some H \<Rightarrow>
               (case (if ball_ptr g \<noteq> 0 then delete (ball_ptr g) H else Some H) of
                  None \<Rightarrow> None
                | Some H \<Rightarrow>
                    let (t1, H) = new_objects alloc 3 H;
                        (t2, H) = new_objects alloc 3 H;
                        (b, H) = new_object alloc H
                    in Some (g\<lparr>team1_ptrs := t1, team2_ptrs := t2, ball_ptr := b, heap := H\<rparr>))))"

text \<open>\<open>Init\<close> loads a shader and four pictures, which call OpenGL, and makes the renderer.\<close>

definition Init_memory :: "(nat set \<Rightarrow> pointer) \<Rightarrow> game_memory \<Rightarrow> game_memory option" where
  "Init_memory alloc g =
     (if \<not> gl_usable (game_window g) then None
      else
        case ObjectPosInit_memory alloc (g\<lparr>resources := 5\<rparr>) of
          None \<Rightarrow> None
        | Some g \<Rightarrow>
            let (r, H) = new_object alloc (heap g)
            in Some (g\<lparr>renderer_ptr := r, heap := H\<rparr>))"

text \<open>The pointers to the ball, the renderer and the window are not initialised.\<close>

definition Game_new ::
  "(nat set \<Rightarrow> pointer) \<Rightarrow> window_outcome \<Rightarrow> pointer \<Rightarrow> pointer \<times> pointer \<times> pointer \<Rightarrow> nat set \<Rightarrow> game_memory option" where
  "Game_new alloc outcome handle memory H =
     (let (b, r, w) = memory;
          g = \<lparr>ball_ptr = b, team1_ptrs = [], team2_ptrs = [], renderer_ptr = r, resources = 0,
               game_window = \<lparr>glfw_on = False, gl_window = w, gl_loaded = False\<rparr>, heap = H\<rparr>
      in Init_memory alloc (g\<lparr>game_window := WindowInit outcome handle (game_window g)\<rparr>))"

definition Cleanup :: "game_memory \<Rightarrow> game_memory option" where
  "Cleanup g =
     (if renderer_ptr g = 0 then Some g
      else
        case delete (renderer_ptr g) (heap g) of
          None \<Rightarrow> None
        | Some H \<Rightarrow>
            (case delete_all (team1_ptrs g) H of
               None \<Rightarrow> None
             | Some H \<Rightarrow>
                 (case delete_all (team2_ptrs g) H of
                    None \<Rightarrow> None
                  | Some H \<Rightarrow>
                      (case delete (ball_ptr g) H of
                         None \<Rightarrow> None
                       | Some H \<Rightarrow>
                           Some (g\<lparr>renderer_ptr := 0, team1_ptrs := [], team2_ptrs := [], ball_ptr := 0, heap := H\<rparr>)))))"

text \<open>\<open>Clear\<close> calls OpenGL once for every entry it deletes.\<close>

definition Clear_memory :: "game_memory \<Rightarrow> game_memory option" where
  "Clear_memory g =
     (if resources g \<noteq> 0 \<and> \<not> gl_usable (game_window g) then None else Some (g\<lparr>resources := 0\<rparr>))"

definition Exit :: "game_memory \<Rightarrow> game_memory option" where
  "Exit g =
     (case Cleanup g of
        None \<Rightarrow> None
      | Some g \<Rightarrow>
          (case Clear_memory g of
             None \<Rightarrow> None
           | Some g \<Rightarrow> Some (g\<lparr>game_window := (game_window g)\<lparr>glfw_on := False\<rparr>\<rparr>)))"

text \<open>The destructor calls \<open>Exit\<close>; the main functions call it before, so it runs again.\<close>

fun Exits :: "nat \<Rightarrow> game_memory \<Rightarrow> game_memory option" where
  "Exits 0 g = Some g"
| "Exits (Suc n) g = (case Exit g of None \<Rightarrow> None | Some g \<Rightarrow> Exits n g)"

section \<open>Heap lemmas\<close>

definition good_alloc :: "(nat set \<Rightarrow> pointer) \<Rightarrow> bool" where
  "good_alloc alloc \<longleftrightarrow> (\<forall>H. finite H \<longrightarrow> alloc H \<notin> H \<and> alloc H \<noteq> 0)"

lemma above_all_good: "good_alloc (\<lambda>H. Suc (Max (insert 0 H)))"
  unfolding good_alloc_def
proof (intro allI impI conjI notI)
  fix H :: "nat set" assume "finite H" "Suc (Max (insert 0 H)) \<in> H"
  then have "Suc (Max (insert 0 H)) \<le> Max (insert 0 H)" by (intro Max_ge) simp_all
  then show False by simp
qed simp

text \<open>New objects on a heap: distinct, not null, not there before.\<close>

definition fresh_for :: "nat set \<Rightarrow> pointer list \<Rightarrow> bool" where
  "fresh_for H ps \<longleftrightarrow> distinct ps \<and> set ps \<inter> H = {} \<and> 0 \<notin> set ps"

lemma new_objects_fresh:
  "good_alloc alloc \<Longrightarrow> finite H \<Longrightarrow> new_objects alloc n H = (ps, H') \<Longrightarrow>
   fresh_for H ps \<and> length ps = n \<and> H' = H \<union> set ps"
proof (induction n arbitrary: H ps H')
  case (Suc n)
  obtain qs where q: "new_objects alloc n (insert (alloc H) H) = (qs, H')" "ps = alloc H # qs"
    using Suc.prems(3) by (auto simp: new_object_def Let_def split: prod.splits)
  then show ?case
    using Suc.IH [OF Suc.prems(1) _ q(1)] Suc.prems(1,2) by (auto simp: fresh_for_def good_alloc_def)
qed (simp add: fresh_for_def)

lemma delete_all_fresh:
  "fresh_for H ps \<Longrightarrow> delete_all ps (H \<union> set ps) = Some H"
proof (induction ps arbitrary: H)
  case (Cons p ps)
  then have "insert p (H \<union> set ps) - {p} = H \<union> set ps" "fresh_for H ps" "p \<noteq> 0"
    by (auto simp: fresh_for_def)
  then show ?case using Cons.IH by (simp add: delete_def)
qed simp

lemma fresh_for_append:
  "fresh_for H ps \<Longrightarrow> fresh_for (H \<union> set ps) qs \<Longrightarrow> fresh_for H (ps @ qs)"
  by (auto simp: fresh_for_def)

section \<open>Construction and destruction\<close>

text \<open>A constructed game owns what it added to the heap.\<close>

definition owns :: "nat set \<Rightarrow> game_memory \<Rightarrow> bool" where
  "owns H g \<longleftrightarrow>
     (let ps = team1_ptrs g @ team2_ptrs g @ [ball_ptr g, renderer_ptr g]
      in fresh_for H ps \<and> heap g = H \<union> set ps) \<and> gl_usable (game_window g)"

lemma delete_set: "p \<noteq> 0 \<Longrightarrow> p \<in> H \<Longrightarrow> delete p H = Some (H - {p})"
  by (simp add: delete_def)

lemma Cleanup_owned:
  assumes "owns H g"
  shows "Cleanup g = Some (g\<lparr>renderer_ptr := 0, team1_ptrs := [], team2_ptrs := [], ball_ptr := 0, heap := H\<rparr>)"
proof -
  let ?t1 = "team1_ptrs g" and ?t2 = "team2_ptrs g" and ?b = "ball_ptr g" and ?r = "renderer_ptr g"
  have f: "fresh_for H (?t1 @ ?t2 @ [?b, ?r])" and h: "heap g = H \<union> set (?t1 @ ?t2 @ [?b, ?r])"
    using assms by (simp_all add: owns_def Let_def)
  have r: "(?r = 0) = False" "?b \<noteq> 0" using f by (auto simp: fresh_for_def)
  have "heap g - {?r} = insert ?b (H \<union> set ?t2) \<union> set ?t1" using f h by (auto simp: fresh_for_def)
  then have d1: "delete ?r (heap g) = Some (insert ?b (H \<union> set ?t2) \<union> set ?t1)"
    using r(1) h by (simp add: delete_def)
  have "fresh_for (insert ?b (H \<union> set ?t2)) ?t1" "fresh_for (insert ?b H) ?t2"
    using f by (auto simp: fresh_for_def)
  note d2 = this [THEN delete_all_fresh]
  have d3: "delete ?b (insert ?b H) = Some H" using f r(2) by (auto simp: fresh_for_def delete_def)
  have d4: "delete_all ?t2 (insert ?b (H \<union> set ?t2)) = Some (insert ?b H)" using d2(2) by simp
  show ?thesis by (simp only: Cleanup_def r(1) if_False d1 option.case d2(1) d4 d3)
qed

lemma Exits_owned:
  assumes "owns H g"
  shows "\<exists>g'. Exits (Suc n) g = Some g' \<and> heap g' = H \<and> resources g' = 0 \<and> \<not> glfw_on (game_window g')"
proof -
  define g1 where "g1 = g\<lparr>renderer_ptr := 0, team1_ptrs := [], team2_ptrs := [], ball_ptr := 0, heap := H,
    resources := 0, game_window := (game_window g)\<lparr>glfw_on := False\<rparr>\<rparr>"
  have "Exit g = Some g1"
    using assms by (simp add: Exit_def Cleanup_owned [OF assms] Clear_memory_def owns_def g1_def)
  moreover have "Exit g1 = Some g1"
    by (simp add: Exit_def Cleanup_def Clear_memory_def g1_def)
  then have "Exits n g1 = Some g1" by (induction n) simp_all
  ultimately show ?thesis by (simp add: g1_def)
qed

lemma Init_owns:
  assumes a: "good_alloc alloc" and f: "finite (heap g)" and w: "gl_usable (game_window g)"
    and e: "team1_ptrs g = []" "team2_ptrs g = []"
    and b: "(if ball_ptr g \<noteq> 0 then delete (ball_ptr g) (heap g) else Some (heap g)) = Some H"
  shows "\<exists>g'. Init_memory alloc g = Some g' \<and> owns H g'"
proof -
  have fH: "finite H" using f b by (auto simp: delete_def split: if_splits)
  obtain t1 H1 where t1: "new_objects alloc 3 H = (t1, H1)" by fastforce
  obtain t2 H2 where t2: "new_objects alloc 3 H1 = (t2, H2)" by fastforce
  note n1 = new_objects_fresh [OF a fH t1]
  have fH1: "finite H1" using n1 fH by simp
  note n2 = new_objects_fresh [OF a fH1 t2]
  have fH2: "finite H2" using n2 fH1 by simp
  let ?b = "alloc H2" and ?r = "alloc (insert (alloc H2) H2)"
  have fb: "fresh_for H2 [?b, ?r]"
    using a [unfolded good_alloc_def, rule_format, OF fH2]
      a [unfolded good_alloc_def, rule_format, of "insert ?b H2"] fH2 by (auto simp: fresh_for_def)
  have "fresh_for H (t1 @ t2 @ [?b, ?r])"
    using n1 n2 fb by (auto intro!: fresh_for_append)
  moreover have "insert ?r (insert ?b H2) = H \<union> set (t1 @ t2 @ [?b, ?r])" using n1 n2 by auto
  moreover have "Init_memory alloc g = Some (g\<lparr>resources := 5, team1_ptrs := t1, team2_ptrs := t2, ball_ptr := ?b,
      renderer_ptr := ?r, heap := insert ?r (insert ?b H2)\<rparr>)"
    using b w e t1 t2 by (cases "ball_ptr g = 0") (simp_all add: Init_memory_def ObjectPosInit_memory_def new_object_def Let_def)
  ultimately show ?thesis using w by (simp add: owns_def Let_def)
qed

text \<open>
  Property C5. A game that is constructed and then left by any number of calls of \<open>Exit\<close>, the last
  one made by its destructor, frees every object it allocated exactly once and makes no call of OpenGL
  after the window is gone; but only if the window could be opened and the memory of the
  uninitialised pointer to the ball happens to be null. If that pointer is the address of another
  object, that object is deleted; if it is any other address, or the window could not be opened, the
  constructor already is undefined behaviour.
\<close>

theorem game_lifetime:
  assumes "good_alloc alloc" "finite H" "0 \<notin> H"
  shows "(case Game_new alloc outcome handle (b, r, w) H of
            None \<Rightarrow> None
          | Some g \<Rightarrow> map_option heap (Exits (Suc n) g)) =
         (if outcome \<noteq> Window_ok then None
          else if b = 0 then Some H
          else if b \<in> H then Some (H - {b})
          else None)"
proof -
  define g where "g = \<lparr>ball_ptr = b, team1_ptrs = [], team2_ptrs = [], renderer_ptr = r, resources = 0,
    game_window = WindowInit outcome handle \<lparr>glfw_on = False, gl_window = w, gl_loaded = False\<rparr>, heap = H\<rparr>"
  have new: "Game_new alloc outcome handle (b, r, w) H = Init_memory alloc g"
    by (simp add: Game_new_def Let_def g_def)
  have usable: "gl_usable (game_window g) \<longleftrightarrow> outcome = Window_ok"
    by (cases outcome) (simp_all add: g_def WindowInit_def gl_usable_def Let_def)
  let ?d = "if b \<noteq> 0 then delete b H else Some H"
  have "(case Init_memory alloc g of None \<Rightarrow> None | Some g \<Rightarrow> map_option heap (Exits (Suc n) g)) = ?d"
    if ok: "outcome = Window_ok"
  proof (cases ?d)
    case None
    then have "b \<noteq> 0" "delete b H = None" by (auto split: if_splits)
    then show ?thesis by (simp add: Init_memory_def ObjectPosInit_memory_def g_def)
  next
    case (Some H')
    have "\<exists>g'. Init_memory alloc g = Some g' \<and> owns H' g'"
      using Some assms usable ok by (intro Init_owns) (auto simp: g_def split: if_splits)
    then show ?thesis using Exits_owned Some by fastforce
  qed
  then show ?thesis using usable by (auto simp: new Init_memory_def delete_def)
qed

theorem game_lifetime_witness:
  "(case Game_new (\<lambda>H. Suc (Max (insert 0 H))) Window_ok 70 (0, 5, 6) {1, 2} of
      None \<Rightarrow> None | Some g \<Rightarrow> map_option heap (Exits 2 g)) = Some {1, 2}
   \<and> (case Game_new (\<lambda>H. Suc (Max (insert 0 H))) Window_ok 70 (9, 5, 6) {1, 2} of
      None \<Rightarrow> None | Some g \<Rightarrow> map_option heap (Exits 2 g)) = None"
proof -
  have two: "Suc 1 = 2" by simp
  show ?thesis
    using game_lifetime [OF above_all_good, where H = "{1, 2}" and outcome = Window_ok and handle = 70 and b = 0 and r = 5 and w = 6 and n = 1]
      game_lifetime [OF above_all_good, where H = "{1, 2}" and outcome = Window_ok and handle = 70 and b = 9 and r = 5 and w = 6 and n = 1]
    unfolding two by simp
qed

end
