(* ===== verification/Simulator.thy ===== *)
theory Simulator
  imports WindowEvents GameShape Lifetime
begin

text \<open>
  The simulator program (\<open>apps/SimulatorApp.cpp\<close>): the game is constructed, rounds of input and
  simulation run until the window is to close, then the game is left and destroyed. What happens
  outside in a round (the events of the window, mouse, clock, the readings of the planner) is a
  record of the round.
\<close>

section \<open>The loop\<close>

record frame_input =
  events :: "window_event list"
  left_click :: bool
  cursor_at :: vec2
  now :: real
  clock_readings :: "(real \<times> draw) list"

definition simulator_round :: "frame_input \<Rightarrow> real \<Rightarrow> Game \<Rightarrow> (motion_error + Game) option" where
  "simulator_round inp t_last g =
     (let dt = now inp - t_last
      in case ProcessInput (left_click inp) (cursor_at inp) dt 50 30 0 (poll_events (events inp) g) of
           None \<Rightarrow> None
         | Some (Inl e) \<Rightarrow> Some (Inl e)
         | Some (Inr g) \<Rightarrow> UpdateSimulation (clock_readings inp) dt g)"

text \<open>
  The loop over the rounds to come: the state in which it ends, and the rounds it has not used. With
  no round left and the window open it has not ended, which is \<^term>\<open>None\<close> as well.
\<close>

fun simulator_loop :: "frame_input list \<Rightarrow> real \<Rightarrow> Game \<Rightarrow> (motion_error + Game \<times> frame_input list) option" where
  "simulator_loop rounds t_last g =
     (if window_should_close g then Some (Inr (g, rounds))
      else
        case rounds of
          [] \<Rightarrow> None
        | inp # rest \<Rightarrow>
            (case simulator_round inp t_last g of
               None \<Rightarrow> None
             | Some (Inl e) \<Rightarrow> Some (Inl e)
             | Some (Inr g) \<Rightarrow> simulator_loop rest (now inp) g))"

declare simulator_loop.simps [simp del]

section \<open>The program\<close>

text \<open>
  The members that \<open>Game::Game\<close> and the initialisers in the class set; \<open>algo\<close> and the places of the
  objects are set right after.
\<close>

definition Game_initial :: "AlgoName \<Rightarrow> RRTX \<Rightarrow> GameObject \<Rightarrow> vec2 \<Rightarrow> Game" where
  "Game_initial algo planner b q =
     \<lparr>ball = b, team1_players = [], team2_players = [], game_state = GAME_ACTIVE,
      start_pos_team1 = [], start_pos_team2 = [], start_pos_ball = q, reset_timer = -1,
      current_algo = algo, rrtx_planner = planner, m_strategy = MainStrategy_new,
      is_auto_mode = True, passive_mode = False, keys = (\<lambda>_. False), keys_processed = (\<lambda>_. False),
      is_debug_mode = False, is_motion_debug_mode = False, is_strat_debug_mode = False,
      motion_debug = False, prevLeftClick = False, window_should_close = False\<rparr>"

record surroundings =
  alloc :: "nat set \<Rightarrow> pointer"
  outcome :: window_outcome
  handle :: pointer
  uninitialised :: "pointer \<times> pointer \<times> pointer"
  initial_heap :: "nat set"
  initial_game :: Game
  object_memory :: "nat \<Rightarrow> real \<times> real"

text \<open>
  The main function: \<^term>\<open>None\<close> if it does not return or does something undefined, the exception that
  ends it, or the last state, what is on the heap and the rounds left over.
\<close>

definition simulator_main ::
  "surroundings \<Rightarrow> frame_input list \<Rightarrow> (motion_error + Game \<times> nat set \<times> frame_input list) option" where
  "simulator_main w rounds =
     (case Game_new (alloc w) (outcome w) (handle w) (uninitialised w) (initial_heap w) of
        None \<Rightarrow> None
      | Some memory \<Rightarrow>
          let soccer = SetCurrentAlgo ALGO_RRTX (ObjectPosInit (object_memory w) (initial_game w))
          in case simulator_loop rounds 0 soccer of
               None \<Rightarrow> None
             | Some (Inl e) \<Rightarrow> Some (Inl e)
             | Some (Inr (soccer, rest)) \<Rightarrow>
                 (case Exits 2 memory of
                    None \<Rightarrow> None
                  | Some memory \<Rightarrow> Some (Inr (soccer, heap memory, rest))))"

section \<open>Rounds\<close>

lemma kept_close: "kept g' = kept g \<Longrightarrow> window_should_close g' = window_should_close g"
  by (simp add: kept_def)

definition clock_advances :: "frame_input \<Rightarrow> bool" where
  "clock_advances inp \<longleftrightarrow> (\<exists>r\<in>set (clock_readings inp). 10 \<le> fst r)"

lemma simulator_round_total:
  assumes g: "reachable g" and c: "clock_advances inp"
  shows "\<exists>g'. simulator_round inp t g = Some (Inr g') \<and> reachable g'
    \<and> (window_should_close g' \<longleftrightarrow> window_should_close g \<or> (\<exists>e\<in>set (events inp). closing e))"
proof -
  let ?p = "poll_events (events inp) g" and ?dt = "now inp - t"
  obtain g1 where g1: "ProcessInput (left_click inp) (cursor_at inp) ?dt 50 30 0 ?p = Some (Inr g1)"
    using ProcessInput_total by blast
  have r1: "reachable g1" by (rule reachable.step [OF poll_reachable [OF g] game_step.input [OF g1]])
  obtain g2 where g2: "UpdateSimulation (clock_readings inp) ?dt g1 = Some (Inr g2)" "reachable g2"
    using UpdateSimulation_total [OF r1] c [unfolded clock_advances_def] by blast
  have "window_should_close g2 = window_should_close ?p"
    by (rule kept_close [OF trans [OF kept_UpdateSimulation [OF g2(1)] kept_ProcessInput [OF g1]]])
  then show ?thesis using g1 g2 by (simp add: simulator_round_def poll_close Let_def)
qed

lemma simulator_loop_ends:
  assumes "reachable g" "\<not> window_should_close g"
    and "\<forall>inp\<in>set before. \<forall>e\<in>set (events inp). \<not> closing e" "\<exists>e\<in>set (events last_round). closing e"
    and "\<forall>inp\<in>set (before @ [last_round]). clock_advances inp"
  shows "\<exists>g'. simulator_loop (before @ last_round # after) t g = Some (Inr (g', after)) \<and> reachable g'"
  using assms
proof (induction before arbitrary: t g)
  case Nil
  then obtain g' where "simulator_round last_round t g = Some (Inr g')" "reachable g'" "window_should_close g'"
    using simulator_round_total [of g last_round t] by auto
  then show ?case using Nil.prems by (simp add: simulator_loop.simps)
next
  case (Cons inp before)
  obtain g' where g': "simulator_round inp t g = Some (Inr g')" "reachable g'" "\<not> window_should_close g'"
    using simulator_round_total [of g inp t] Cons.prems by auto
  have "\<exists>g''. simulator_loop (before @ last_round # after) (now inp) g' = Some (Inr (g'', after)) \<and> reachable g''"
    using Cons.prems g' by (intro Cons.IH) simp_all
  then show ?case using g' Cons.prems by (subst simulator_loop.simps) simp
qed

section \<open>The whole run\<close>

text \<open>Surroundings in which the window opens and the uninitialised pointer to the ball is null.\<close>

definition benign :: "surroundings \<Rightarrow> bool" where
  "benign w \<longleftrightarrow> good_alloc (alloc w) \<and> finite (initial_heap w) \<and> 0 \<notin> initial_heap w
     \<and> outcome w = Window_ok \<and> fst (uninitialised w) = 0
     \<and> (\<exists>algo planner b q. initial_game w = Game_initial algo planner b q \<and> m_config planner = RRTXConfig_default)"

lemma game_owned:
  assumes "benign w"
  shows "\<exists>m. Game_new (alloc w) (outcome w) (handle w) (uninitialised w) (initial_heap w) = Some m
    \<and> owns (initial_heap w) m"
proof -
  obtain r p where u: "uninitialised w = (0, r, p)" using assms by (cases "uninitialised w") (auto simp: benign_def)
  let ?g = "\<lparr>ball_ptr = 0, team1_ptrs = [], team2_ptrs = [], renderer_ptr = r, resources = 0,
    game_window = WindowInit Window_ok (handle w) \<lparr>glfw_on = False, gl_window = p, gl_loaded = False\<rparr>,
    heap = initial_heap w\<rparr>"
  have "\<exists>m. Init_memory (alloc w) ?g = Some m \<and> owns (initial_heap w) m"
    using assms by (intro Init_owns) (auto simp: benign_def WindowInit_def gl_usable_def Let_def)
  then show ?thesis using assms u by (simp add: Game_new_def benign_def Let_def)
qed

lemma started:
  assumes "benign w"
  defines "g \<equiv> SetCurrentAlgo ALGO_RRTX (ObjectPosInit (object_memory w) (initial_game w))"
  shows "reachable g" "\<not> window_should_close g"
proof -
  have i: "m_config (rrtx_planner (initial_game w)) = RRTXConfig_default" "\<not> window_should_close (initial_game w)"
    using assms(1) by (auto simp: benign_def Game_initial_def)
  show "reachable g" unfolding g_def by (rule reachable.step [OF reachable.init [OF i(1)] game_step.algo])
  show "\<not> window_should_close g" using i(2) by (simp add: g_def SetCurrentAlgo_def ObjectPosInit_def Let_def)
qed

text \<open>
  Property C4. The simulator runs until the window is closed and no longer: if nobody closes the window
  or presses escape before a certain round and somebody does in it, and the planner's clock advances in
  every round up to it, then the program neither hangs nor throws, it ends after exactly that round, in
  a reachable state, and leaves the heap as it found it. This needs a window that opens and the memory
  of the uninitialised pointer to the ball to be null.
\<close>

theorem simulator_ends:
  assumes "benign w"
    and "\<forall>inp\<in>set before. \<forall>e\<in>set (events inp). \<not> closing e" "\<exists>e\<in>set (events last_round). closing e"
    and "\<forall>inp\<in>set (before @ [last_round]). clock_advances inp"
  shows "\<exists>g. simulator_main w (before @ last_round # after) = Some (Inr (g, initial_heap w, after)) \<and> reachable g"
proof -
  let ?s = "SetCurrentAlgo ALGO_RRTX (ObjectPosInit (object_memory w) (initial_game w))"
  obtain m where m: "Game_new (alloc w) (outcome w) (handle w) (uninitialised w) (initial_heap w) = Some m"
    "owns (initial_heap w) m"
    using game_owned [OF assms(1)] by blast
  obtain m' where m': "Exits 2 m = Some m'" "heap m' = initial_heap w"
    using Exits_owned [OF m(2), of 1] by (auto simp: numeral_2_eq_2)
  obtain g where "simulator_loop (before @ last_round # after) 0 ?s = Some (Inr (g, after))" "reachable g"
    using simulator_loop_ends [OF started [OF assms(1)] assms(2-4)] by blast
  then show ?thesis using m(1) m' by (simp add: simulator_main_def Let_def)
qed

definition quiet_round :: frame_input where
  "quiet_round = \<lparr>events = [Key (int KEY_K) PRESS], left_click = False, cursor_at = (0, 0), frame_input.now = 1,
     clock_readings = [(11, 0, 0, 0)]\<rparr>"

definition demo_surroundings :: surroundings where
  "demo_surroundings = \<lparr>alloc = (\<lambda>H. Suc (Max (insert 0 H))), outcome = Window_ok, handle = 70,
     uninitialised = (0, 5, 6), initial_heap = {1}, initial_game = Game_initial ALGO_DUMMY demo_planner demo_ball (0, 0),
     object_memory = (\<lambda>_. (0, 0))\<rparr>"

lemma demo_benign: "benign demo_surroundings"
proof -
  have "m_config demo_planner = RRTXConfig_default" by (simp add: demo_planner_def)
  then show ?thesis using above_all_good unfolding benign_def demo_surroundings_def by simp blast
qed

theorem simulator_ends_witness:
  "\<exists>g. simulator_main demo_surroundings [quiet_round, quiet_round\<lparr>events := [Close]\<rparr>, quiet_round] =
     Some (Inr (g, {1}, [quiet_round])) \<and> reachable g"
  using simulator_ends [OF demo_benign, where before = "[quiet_round]" and last_round = "quiet_round\<lparr>events := [Close]\<rparr>"
      and after = "[quiet_round]"]
  by (simp add: quiet_round_def clock_advances_def demo_surroundings_def)

end
