(* ===== verification/Physical.thy ===== *)
theory Physical
  imports PhysicalApp Simulator
begin

text \<open>
  The program of \<open>apps/PhysicalApp.cpp\<close> as a whole: the start of the game and of the link to the base
  station (\<open>HostComm::HostComm\<close>), the loop of the main thread, interleaved with the two threads of the
  link, and the way out. The flag \<open>physical_app_running\<close> is never cleared, because the signal handler
  is not registered, so only the window ends the loop. The receiving thread of the camera never waits
  and is left out.
\<close>

section \<open>Start\<close>

datatype socket_outcome = Open_fails | Bind_fails | Socket_ok

datatype start_failure =
    Socket_exception
  | Exit_status nat

text \<open>The exception of \<open>open\<close> is not caught; that of \<open>bind\<close> ends the program, with status 0.\<close>

definition HostComm_new :: "socket_outcome \<Rightarrow> start_failure + host" where
  "HostComm_new sock =
     (if sock = Open_fails then Inl Socket_exception
      else if sock = Bind_fails then Inl (Exit_status 0)
      else Inr host_init)"

datatype program_phase = Looping | Leaving | Ended

text \<open>\<open>played\<close> records the state of the game after each round.\<close>

record program =
  soccer :: Game
  memory :: game_memory
  link :: host
  phase :: program_phase
  played :: "Game list"

definition Host_new :: "surroundings \<Rightarrow> socket_outcome \<Rightarrow> (start_failure + program) option" where
  "Host_new w sock =
     (case Game_new (alloc w) (outcome w) (handle w) (uninitialised w) (initial_heap w) of
        None \<Rightarrow> None
      | Some m \<Rightarrow>
          Some (case HostComm_new sock of
                  Inl e \<Rightarrow> Inl e
                | Inr l \<Rightarrow>
                    Inr \<lparr>soccer = SetCurrentAlgo ALGO_RRTX (ObjectPosInit (object_memory w) (initial_game w)),
                         memory = m, link = l, phase = Looping, played = []\<rparr>))"

section \<open>Steps\<close>

text \<open>
  A round of \<open>LoopStep\<close> up to the first statement of \<open>SetRobotCommands\<close>; the rest of that function;
  \<open>Exit\<close> up to the joins; and, once both threads have stopped, the three times the game is left: by
  \<open>Host::Exit\<close>, by the destructor of \<open>Host\<close>, which calls it again, and by that of the game. The array
  of commands is at \<open>cmds\<close>, what it holds before is any \<open>mem\<close>.
\<close>

inductive program_step :: "pb_env \<Rightarrow> addr \<Rightarrow> addr \<Rightarrow> (real \<Rightarrow> 32 word) \<Rightarrow> program \<Rightarrow> program \<Rightarrow> bool"
  for E buffer cmds to_float where
  round: "phase p = Looping \<Longrightarrow> main_at (link p) = Idle \<Longrightarrow> \<not> window_should_close (soccer p) \<Longrightarrow>
    length mem = 7 \<Longrightarrow> LoopStep to_float mem inp (soccer p) = Some (Inr (g, robot_cmds)) \<Longrightarrow>
    command_pieces E buffer cmds (store_commands cmds robot_cmds m) = Some (pieces, m') \<Longrightarrow>
    program_step E buffer cmds to_float p
      (p\<lparr>soccer := g, link := (link p)\<lparr>stored_commands := [], main_at := Storing pieces\<rparr>, played := played p @ [g]\<rparr>)"
| store: "main_at (link p) = Storing pieces \<Longrightarrow> main_step E buffer (link p) l \<Longrightarrow>
    program_step E buffer cmds to_float p (p\<lparr>link := l\<rparr>)"
| leave: "phase p = Looping \<Longrightarrow> main_at (link p) = Idle \<Longrightarrow> window_should_close (soccer p) \<Longrightarrow>
    program_step E buffer cmds to_float p
      (p\<lparr>link := (link p)\<lparr>running := False, main_at := Exiting\<rparr>, phase := Leaving\<rparr>)"
| joined: "phase p = Leaving \<Longrightarrow> main_at (link p) = Exiting \<Longrightarrow> tx_at (link p) = Tx_stopped \<Longrightarrow>
    rx_at (link p) = Rx_stopped \<Longrightarrow> Exits 3 (memory p) = Some mem' \<Longrightarrow>
    program_step E buffer cmds to_float p
      (p\<lparr>link := (link p)\<lparr>main_at := Exited\<rparr>, memory := mem', phase := Ended\<rparr>)"
| thread: "tx_step (link p) l \<or> rx_step (link p) l \<Longrightarrow> program_step E buffer cmds to_float p (p\<lparr>link := l\<rparr>)"

inductive program_reachable ::
  "pb_env \<Rightarrow> addr \<Rightarrow> addr \<Rightarrow> (real \<Rightarrow> 32 word) \<Rightarrow> surroundings \<Rightarrow> program \<Rightarrow> bool"
  for E buffer cmds to_float w where
  start: "Host_new w sock = Some (Inr p) \<Longrightarrow> program_reachable E buffer cmds to_float w p"
| step: "program_reachable E buffer cmds to_float w p \<Longrightarrow> program_step E buffer cmds to_float p p' \<Longrightarrow>
    program_reachable E buffer cmds to_float w p'"

inductive_cases program_stepE: "program_step E buffer cmds to_float p p'"

section \<open>Every string belongs to a round\<close>

text \<open>The string a call of \<open>SetRobotCommands\<close> builds after a round that left the game as \<open>g\<close>.\<close>

definition tells :: "pb_env \<Rightarrow> addr \<Rightarrow> addr \<Rightarrow> (real \<Rightarrow> 32 word) \<Rightarrow> pb_byte list \<Rightarrow> Game \<Rightarrow> bool" where
  "tells E buffer cmds to_float bs g \<longleftrightarrow> reachable g \<and>
     (\<exists>mem m pieces m'. length mem = 7 \<and> bs = concat pieces \<and>
        command_pieces E buffer cmds (store_commands cmds (PrepareRobotCommands to_float mem g) m) = Some (pieces, m'))"

text \<open>The strings that are complete, and the one being built as it will be.\<close>

definition strings :: "host \<Rightarrow> pb_byte list list" where
  "strings l = completed l @ (case main_at l of Storing pieces \<Rightarrow> [stored_commands l @ concat pieces] | _ \<Rightarrow> [])"

lemma strings_thread: "tx_step l l' \<or> rx_step l l' \<Longrightarrow> strings l' = strings l \<and> main_at l' = main_at l"
  by (elim disjE tx_stepE rx_stepE) (auto simp: strings_def ProcessBaseStationMessage_def split: main_pc.split)

lemma strings_store:
  "main_at l = Storing pieces \<Longrightarrow> main_step E buffer l l' \<Longrightarrow>
    strings l' = strings l \<and> (main_at l' = Idle \<or> (\<exists>ps. main_at l' = Storing ps))"
  by (elim main_stepE) (auto simp: strings_def)

definition program_inv :: "pb_env \<Rightarrow> addr \<Rightarrow> addr \<Rightarrow> (real \<Rightarrow> 32 word) \<Rightarrow> nat set \<Rightarrow> program \<Rightarrow> bool" where
  "program_inv E buffer cmds to_float H p \<longleftrightarrow>
     reachable (soccer p) \<and> host_reachable E buffer (link p)
     \<and> list_all2 (tells E buffer cmds to_float) (strings (link p)) (played p)
     \<and> (phase p = Looping \<longleftrightarrow> main_at (link p) = Idle \<or> (\<exists>ps. main_at (link p) = Storing ps))
     \<and> (phase p = Leaving \<longleftrightarrow> main_at (link p) = Exiting)
     \<and> (phase p \<noteq> Ended \<longrightarrow> owns H (memory p))
     \<and> (phase p = Ended \<longrightarrow> heap (memory p) = H)
     \<and> (phase p \<noteq> Looping \<longrightarrow> \<not> running (link p))"

lemma LoopStep_reachable:
  assumes "reachable g" "LoopStep to_float mem inp g = Some (Inr (g', robot_cmds))"
  shows "reachable g'" "robot_cmds = PrepareRobotCommands to_float mem g'"
proof -
  obtain g2 where g2: "ProcessInputs inp g = Some (Inr g2)" "reachable g2" by (rule ProcessInputs_returns [OF assms(1)])
  with assms(2) have sim: "UpdateSimulation (in_readings inp) (in_dt inp) g2 = Some (Inr g')"
    and cmds: "robot_cmds = PrepareRobotCommands to_float mem g'"
    by (auto simp: LoopStep_def split: option.splits sum.splits)
  show "reachable g'" by (rule reachable.step [OF g2(2) game_step.simulate [OF sim]])
  show "robot_cmds = PrepareRobotCommands to_float mem g'" by (rule cmds)
qed

lemma start_inv:
  assumes "benign w" "Host_new w sock = Some (Inr p)"
  shows "program_inv E buffer cmds to_float (initial_heap w) p"
proof -
  obtain m where m: "Game_new (alloc w) (outcome w) (handle w) (uninitialised w) (initial_heap w) = Some m"
    "owns (initial_heap w) m"
    using game_owned [OF assms(1)] by blast
  then have "p = \<lparr>soccer = SetCurrentAlgo ALGO_RRTX (ObjectPosInit (object_memory w) (initial_game w)),
      memory = m, link = host_init, phase = Looping, played = []\<rparr>"
    using assms(2) by (auto simp: Host_new_def HostComm_new_def split: if_splits)
  then show ?thesis
    using started [OF assms(1)] m(2)
    by (simp add: program_inv_def host_reachable.start strings_def) (simp add: host_init_def)
qed

lemma program_inv_step:
  assumes "program_inv E buffer cmds to_float H p" "program_step E buffer cmds to_float p p'"
  shows "program_inv E buffer cmds to_float H p'"
  using assms(2,1)
proof (cases rule: program_step.cases)
  case (round mem inp g robot_cmds m pieces m')
  note g = LoopStep_reachable [OF _ round(6)]
  have r: "reachable (soccer p)" "host_reachable E buffer (link p)" using assms(1) by (simp_all add: program_inv_def)
  have "tells E buffer cmds to_float (concat pieces) g"
    using g [OF r(1)] round(5,7) by (auto simp: tells_def)
  moreover have "host_reachable E buffer ((link p)\<lparr>stored_commands := [], main_at := Storing pieces\<rparr>)"
    by (rule host_run [OF r(2)]) (use set_clear [OF round(3,7)] in blast)
  ultimately show ?thesis
    using assms(1) g(1) [OF r(1)] round(2,3)
    by (auto simp: program_inv_def round(1) strings_def intro!: list_all2_appendI)
next
  case (store pieces l)
  have "host_reachable E buffer l"
    by (rule host_run) (use assms(1) store(3) in \<open>auto simp: program_inv_def\<close>)
  then show ?thesis
    using assms(1) strings_store [OF store(2,3)] store(2) by (auto simp: program_inv_def store(1))
next
  case leave
  have "host_reachable E buffer ((link p)\<lparr>running := False, main_at := Exiting\<rparr>)"
    by (rule host_run) (use assms(1) exit_begin [OF leave(3)] in \<open>auto simp: program_inv_def\<close>)
  then show ?thesis using assms(1) leave by (auto simp: program_inv_def strings_def)
next
  case (joined mem')
  have "host_reachable E buffer ((link p)\<lparr>main_at := Exited\<rparr>)"
    by (rule host_run) (use assms(1) exit_joined [OF joined(3-5)] in \<open>auto simp: program_inv_def\<close>)
  moreover have "heap mem' = H"
    using Exits_owned [of H "memory p" 2] assms(1) joined(2,6) by (auto simp: program_inv_def numeral_3_eq_3 numeral_2_eq_2)
  ultimately show ?thesis using assms(1) joined by (auto simp: program_inv_def strings_def)
next
  case (thread l)
  have "host_reachable E buffer l"
    by (rule host_run) (use assms(1) thread(2) in \<open>auto simp: program_inv_def\<close>)
  moreover have "running l = running (link p)" using thread(2)
    by (elim disjE tx_stepE rx_stepE) (simp_all add: ProcessBaseStationMessage_def)
  ultimately show ?thesis using assms(1) strings_thread [OF thread(2)] by (auto simp: program_inv_def thread(1))
qed

lemma program_reachable_inv:
  assumes "benign w"
  shows "program_reachable E buffer cmds to_float w p \<Longrightarrow> program_inv E buffer cmds to_float (initial_heap w) p"
  by (induction rule: program_reachable.induct) (auto intro: start_inv [OF assms] program_inv_step)

lemma string_of_round:
  assumes "benign w" "program_reachable E buffer cmds to_float w p" "k < length (completed (link p))"
  shows "k < length (played p)" "tells E buffer cmds to_float (completed (link p) ! k) (played p ! k)"
proof -
  have l: "list_all2 (tells E buffer cmds to_float) (strings (link p)) (played p)"
    using program_reachable_inv [OF assms(1,2)] by (simp add: program_inv_def)
  have k: "k < length (strings (link p))" "strings (link p) ! k = completed (link p) ! k"
    using assms(3) by (auto simp: strings_def nth_append)
  show "k < length (played p)" using list_all2_lengthD [OF l] k(1) by simp
  show "tells E buffer cmds to_float (completed (link p) ! k) (played p ! k)"
    using list_all2_nthD [OF l k(1)] k(2) by simp
qed

section \<open>The way out\<close>

definition thread_step :: "host \<Rightarrow> host \<Rightarrow> bool" where
  "thread_step l l' \<longleftrightarrow> tx_step l l' \<or> rx_step l l'"

text \<open>The transmission thread does not wait, or what it waits for has come or is still to come.\<close>

definition can_stop :: "host \<Rightarrow> bool" where
  "can_stop l \<longleftrightarrow> tx_at l \<noteq> Tx_wait \<or>
     new_stored_commands l \<and> (received_ready l \<or> rx_at l = Rx_receive \<or> rx_at l = Rx_process ''ready'')"

lemma cannot_stop_step:
  "\<not> running l \<Longrightarrow> \<not> can_stop l \<Longrightarrow> thread_step l l' \<Longrightarrow> \<not> running l' \<and> \<not> can_stop l'"
  unfolding thread_step_def
  by (elim disjE tx_stepE rx_stepE)
    (auto simp: can_stop_def wake_condition_def ProcessBaseStationMessage_def)

lemma two_steps: "thread_step a b \<Longrightarrow> thread_step b c \<Longrightarrow> thread_step\<^sup>*\<^sup>* a c"
  by (meson converse_rtranclp_into_rtranclp r_into_rtranclp)

lemma rx_stops:
  assumes "\<not> running l"
  shows "\<exists>l'. thread_step\<^sup>*\<^sup>* l l' \<and> rx_at l' = Rx_stopped \<and> \<not> running l' \<and> tx_at l' = tx_at l
    \<and> new_stored_commands l' = new_stored_commands l \<and> main_at l' = main_at l
    \<and> (received_ready l \<or> rx_at l = Rx_receive \<or> rx_at l = Rx_process ''ready'' \<longrightarrow> received_ready l')"
proof -
  have stop: "thread_step l (l\<lparr>rx_at := Rx_stopped\<rparr>)" if "rx_at l = Rx_test" "\<not> running l" for l
    using rx_stop [OF that] by (simp add: thread_step_def)
  have process: "thread_step l ((ProcessBaseStationMessage msg l)\<lparr>rx_at := Rx_test\<rparr>)" if "rx_at l = Rx_process msg" for l msg
    using rx_process [OF that] by (simp add: thread_step_def)
  have from_process: "\<exists>l'. thread_step\<^sup>*\<^sup>* l l' \<and> rx_at l' = Rx_stopped \<and> \<not> running l' \<and> tx_at l' = tx_at l
    \<and> new_stored_commands l' = new_stored_commands l \<and> main_at l' = main_at l
    \<and> (received_ready l \<or> msg = ''ready'' \<longrightarrow> received_ready l')" if "rx_at l = Rx_process msg" "\<not> running l" for l msg
  proof -
    let ?l = "(ProcessBaseStationMessage msg l)\<lparr>rx_at := Rx_test\<rparr>"
    have "\<not> running ?l" using that(2) by (simp add: ProcessBaseStationMessage_def)
    then have "thread_step\<^sup>*\<^sup>* l (?l\<lparr>rx_at := Rx_stopped\<rparr>)"
      using two_steps [OF process [OF that(1)] stop [of ?l]] by simp
    then show ?thesis using that(2)
      by (intro exI [of _ "?l\<lparr>rx_at := Rx_stopped\<rparr>"]) (simp add: ProcessBaseStationMessage_def)
  qed
  show ?thesis
  proof (cases "rx_at l")
    case Rx_test
    then show ?thesis using stop [OF Rx_test assms] assms by (intro exI [of _ "l\<lparr>rx_at := Rx_stopped\<rparr>"]) auto
  next
    case Rx_receive
    have "thread_step l (l\<lparr>rx_at := Rx_process ''ready''\<rparr>)"
      using rx_receive [OF Rx_receive] by (simp add: thread_step_def)
    moreover obtain l' where "thread_step\<^sup>*\<^sup>* (l\<lparr>rx_at := Rx_process ''ready''\<rparr>) l'" "rx_at l' = Rx_stopped" "\<not> running l'"
      "tx_at l' = tx_at l" "new_stored_commands l' = new_stored_commands l" "main_at l' = main_at l" "received_ready l'"
      using from_process [of "l\<lparr>rx_at := Rx_process ''ready''\<rparr>" "''ready''"] assms by auto
    ultimately show ?thesis by (intro exI [of _ l']) (simp add: converse_rtranclp_into_rtranclp)
  next
    case (Rx_process msg)
    then show ?thesis using from_process [OF Rx_process assms] by auto
  next
    case Rx_stopped
    then show ?thesis using assms by (intro exI [of _ l]) simp
  qed
qed

lemma tx_stops:
  assumes "\<not> running l" "tx_at l \<noteq> Tx_wait \<or> wake_condition l"
  shows "\<exists>l'. thread_step\<^sup>*\<^sup>* l l' \<and> tx_at l' = Tx_stopped \<and> rx_at l' = rx_at l \<and> main_at l' = main_at l"
proof -
  have stop: "thread_step l (l\<lparr>tx_at := Tx_stopped\<rparr>)" if "tx_at l = Tx_test" "\<not> running l" for l
    using tx_stop [OF that] by (simp add: thread_step_def)
  have send: "thread_step\<^sup>*\<^sup>* l (l\<lparr>sent := sent l @ [stored_commands l], tx_at := Tx_stopped\<rparr>)"
    if "tx_at l = Tx_send" "\<not> running l" for l
  proof (rule two_steps)
    let ?l = "l\<lparr>sent := sent l @ [stored_commands l], tx_at := Tx_test\<rparr>"
    show "thread_step l ?l" using tx_send [OF that(1)] by (simp add: thread_step_def)
    show "thread_step ?l (l\<lparr>sent := sent l @ [stored_commands l], tx_at := Tx_stopped\<rparr>)"
      using stop [of ?l] that(2) by simp
  qed
  show ?thesis
  proof (cases "tx_at l")
    case Tx_test
    then show ?thesis using stop [OF Tx_test assms(1)] by (intro exI [of _ "l\<lparr>tx_at := Tx_stopped\<rparr>"]) auto
  next
    case Tx_wait
    let ?l = "l\<lparr>received_ready := False, new_stored_commands := False, tx_at := Tx_send\<rparr>"
    have "thread_step l ?l" using tx_wake [OF Tx_wait] assms(2) Tx_wait by (simp add: thread_step_def)
    moreover have "thread_step\<^sup>*\<^sup>* ?l (?l\<lparr>sent := sent l @ [stored_commands l], tx_at := Tx_stopped\<rparr>)"
      using send [of ?l] assms(1) by simp
    ultimately show ?thesis
      by (intro exI [of _ "?l\<lparr>sent := sent l @ [stored_commands l], tx_at := Tx_stopped\<rparr>"])
        (simp add: converse_rtranclp_into_rtranclp)
  next
    case Tx_send
    then show ?thesis using send [OF Tx_send assms(1)]
      by (intro exI [of _ "l\<lparr>sent := sent l @ [stored_commands l], tx_at := Tx_stopped\<rparr>"]) simp
  next
    case Tx_stopped
    then show ?thesis by (intro exI [of _ l]) simp
  qed
qed

lemma threads_stop:
  assumes "\<not> running l" "can_stop l"
  shows "\<exists>l'. thread_step\<^sup>*\<^sup>* l l' \<and> tx_at l' = Tx_stopped \<and> rx_at l' = Rx_stopped \<and> main_at l' = main_at l"
proof -
  obtain l1 where 1: "thread_step\<^sup>*\<^sup>* l l1" "rx_at l1 = Rx_stopped" "\<not> running l1" "main_at l1 = main_at l"
    "tx_at l1 \<noteq> Tx_wait \<or> wake_condition l1"
    using rx_stops [OF assms(1)] assms(2) by (auto simp: can_stop_def wake_condition_def)
  from tx_stops [OF 1(3,5)] 1 show ?thesis by (metis rtranclp_trans)
qed

lemma thread_steps_lift:
  "thread_step\<^sup>*\<^sup>* l l' \<Longrightarrow> l = link p \<Longrightarrow> (program_step E buffer cmds to_float)\<^sup>*\<^sup>* p (p\<lparr>link := l'\<rparr>)"
proof (induction rule: rtranclp_induct)
  case (step l1 l2)
  have "program_step E buffer cmds to_float (p\<lparr>link := l1\<rparr>) (p\<lparr>link := l1\<rparr>\<lparr>link := l2\<rparr>)"
    by (rule thread) (use step(2) in \<open>simp add: thread_step_def\<close>)
  with step(3,4) show ?case by (simp add: rtranclp.rtrancl_into_rtrancl)
qed simp

definition hangs :: "program \<Rightarrow> bool" where
  "hangs p \<longleftrightarrow> phase p = Leaving \<and> main_at (link p) = Exiting \<and> \<not> running (link p) \<and> \<not> can_stop (link p)"

lemma hangs_step: "hangs p \<Longrightarrow> program_step E buffer cmds to_float p p' \<Longrightarrow> hangs p'"
proof (elim program_stepE)
  fix l assume h: "hangs p" and t: "tx_step (link p) l \<or> rx_step (link p) l" and p': "p' = p\<lparr>link := l\<rparr>"
  have "\<not> running l \<and> \<not> can_stop l"
    by (rule cannot_stop_step [of "link p"]) (use h t in \<open>simp_all add: hangs_def thread_step_def\<close>)
  then show "hangs p'" using h strings_thread [OF t] by (simp add: hangs_def p')
qed (auto simp: hangs_def can_stop_def)

section \<open>Runs\<close>

lemma LoopStep_close:
  assumes "LoopStep to_float mem inp g = Some (Inr (g', robot_cmds))"
  shows "window_should_close g' \<longleftrightarrow>
    window_should_close g \<or> (\<exists>e\<in>set (in_events1 inp @ in_events2 inp). closing e)"
proof -
  obtain x y th where p: "ProcessInputs inp g =
    (case ProcessInput (fst (in_mouse1 inp)) (snd (in_mouse1 inp)) (in_dt inp) x y th (poll_events (in_events1 inp) g) of
       None \<Rightarrow> None | Some (Inl e) \<Rightarrow> Some (Inl e)
     | Some (Inr g) \<Rightarrow> ProcessInput (fst (in_mouse2 inp)) (snd (in_mouse2 inp)) (in_dt inp) 50 30 20 (poll_events (in_events2 inp) g))"
    by (rule ProcessInputs_split)
  obtain g1 g2
    where g1: "ProcessInput (fst (in_mouse1 inp)) (snd (in_mouse1 inp)) (in_dt inp) x y th (poll_events (in_events1 inp) g) = Some (Inr g1)"
      and g2: "ProcessInput (fst (in_mouse2 inp)) (snd (in_mouse2 inp)) (in_dt inp) 50 30 20 (poll_events (in_events2 inp) g1) = Some (Inr g2)"
      and g3: "UpdateSimulation (in_readings inp) (in_dt inp) g2 = Some (Inr g')"
    using assms unfolding LoopStep_def p by (auto split: option.splits sum.splits)
  show ?thesis
    unfolding kept_close [OF kept_UpdateSimulation [OF g3]] kept_close [OF kept_ProcessInput [OF g2]] poll_close
      kept_close [OF kept_ProcessInput [OF g1]] by auto
qed

lemma store_run:
  "program_reachable E buffer cmds to_float w p \<Longrightarrow> link p = l \<Longrightarrow> main_at l = Storing pieces \<Longrightarrow>
    program_reachable E buffer cmds to_float w (p\<lparr>link := l\<lparr>stored_commands := stored_commands l @ concat pieces,
      main_at := Idle, new_stored_commands := True, completed := completed l @ [stored_commands l @ concat pieces]\<rparr>\<rparr>)"
proof (induction pieces arbitrary: p l)
  case Nil
  have "program_step E buffer cmds to_float p
      (p\<lparr>link := l\<lparr>new_stored_commands := True, main_at := Idle, completed := completed l @ [stored_commands l]\<rparr>\<rparr>)"
    by (rule store) (use Nil(2,3) set_flag [OF Nil(3)] in auto)
  from program_reachable.step [OF Nil(1) this] show ?case by (cases l) simp
next
  case (Cons b bs)
  let ?l = "l\<lparr>stored_commands := stored_commands l @ b, main_at := Storing bs\<rparr>"
  have "program_step E buffer cmds to_float p (p\<lparr>link := ?l\<rparr>)"
    by (rule store) (use Cons.prems set_append [OF Cons.prems(3)] in auto)
  from Cons.IH [OF program_reachable.step [OF Cons.prems(1) this], of ?l] show ?case by simp
qed

text \<open>A round can always be completed.\<close>

lemma round_run:
  assumes r: "program_reachable E buffer cmds to_float w p" and w: "benign w"
    and p: "phase p = Looping" "main_at (link p) = Idle" "\<not> window_should_close (soccer p)"
    and E: "robot_descriptors E" "cmds \<noteq> 0" "apart buffer 256 cmds (7 * sizeof_RobotCommandMsg)"
    and c: "\<exists>r\<in>set (in_readings (inp :: round_input)). 10 \<le> fst r"
  obtains g bs where "program_reachable E buffer cmds to_float w
      (p\<lparr>soccer := g, played := played p @ [g], link := (link p)\<lparr>stored_commands := bs, main_at := Idle,
         new_stored_commands := True, completed := completed (link p) @ [bs]\<rparr>\<rparr>)"
    and "window_should_close g \<longleftrightarrow> (\<exists>e\<in>set (in_events1 inp @ in_events2 inp). closing e)"
proof -
  define mem where "mem = replicate 7 (command_at (\<lambda>_. 0) 0)"
  have "reachable (soccer p)" using program_reachable_inv [OF w r] by (simp add: program_inv_def)
  then obtain g where g: "LoopStep to_float mem inp (soccer p) = Some (Inr (g, PrepareRobotCommands to_float mem g))"
    using LoopStep_returns c by blast
  obtain pieces m' where pieces: "command_pieces E buffer cmds (store_commands cmds (PrepareRobotCommands to_float mem g) (\<lambda>_. 0)) =
      Some (pieces, m')"
    using command_pieces_eq [OF E] by blast
  let ?q = "p\<lparr>soccer := g, link := (link p)\<lparr>stored_commands := [], main_at := Storing pieces\<rparr>, played := played p @ [g]\<rparr>"
  have "program_reachable E buffer cmds to_float w ?q"
    by (rule program_reachable.step [OF r round [OF p _ g pieces]]) (simp add: mem_def)
  from store_run [OF this refl, of pieces] show ?thesis
    using that [where g = g and bs = "concat pieces"] LoopStep_close [OF g] p(3) by simp
qed

section \<open>Properties\<close>

text \<open>
  Property C13. Whatever the interleaving of the three threads and whatever arrives from the cameras, the
  window and the base station, the strings for the robots tell what happened in the game: the string
  completed as number \<open>k\<close> splits into six payloads, and robot \<open>i\<close> of the first three, deserialising
  payload \<open>i\<close>, gets its number and the scaled velocity, rotation, charge, kick and dribbler that player
  \<open>i\<close> of team 1 had after round \<open>k\<close>, in a reachable state of the game.
\<close>

theorem robots_told_the_game:
  assumes "benign w" and "program_reachable E buffer cmds to_float w p"
    and "robot_descriptors E" and "cmds \<noteq> 0" and "dest \<noteq> 0"
    and "apart buffer 256 cmds (7 * sizeof_RobotCommandMsg)" and "k < length (completed (link p))"
  shows "\<exists>g ws. k < length (played p) \<and> g = played p ! k \<and> reachable g
    \<and> split_commands (unat num_robots) (completed (link p) ! k) = Some ws
    \<and> (\<forall>i \<in> {1..3}. \<forall>m payload.
        load_bytes m payload (length (ws ! (i - 1))) = ws ! (i - 1)
        \<and> apart payload (length (ws ! (i - 1))) dest sizeof_RobotCommandMsg \<longrightarrow>
        (\<exists>m'. DeserializeRobotCommandMsg E payload (of_nat (length (ws ! (i - 1)))) dest m = Some (True, m')
          \<and> command_at m' dest =
             \<lparr>cmd_id = of_nat i,
              cmd_vx = to_float (fst (velocity (team1_players g ! (i - 1))) * 3570 / 820),
              cmd_vy = to_float (snd (velocity (team1_players g ! (i - 1))) * 2380 / 490),
              cmd_w = to_float (angular_velocity (team1_players g ! (i - 1))),
              cmd_chargeVal = to_float (charge (team1_players g ! (i - 1))),
              cmd_kickVal = to_float (kick (team1_players g ! (i - 1))),
              cmd_dribbler = to_float (dribbler (team1_players g ! (i - 1)))\<rparr>))"
proof -
  let ?g = "played p ! k"
  note k = string_of_round [OF assms(1,2,7)]
  obtain mem m0 pieces m1 where t: "reachable ?g" "length mem = 7" "completed (link p) ! k = concat pieces"
    "command_pieces E buffer cmds (store_commands cmds (PrepareRobotCommands to_float mem ?g) m0) = Some (pieces, m1)"
    using k(2) by (auto simp: tells_def)
  define m where "m = store_commands cmds (PrepareRobotCommands to_float mem ?g) m0"
  have cmd: "command_at m (command_addr cmds i) = player_command to_float i (team1_players ?g ! (i - 1)) (mem ! i)"
    if "i \<in> {1..3}" for i
    using command_at_commands [of i "PrepareRobotCommands to_float mem ?g" cmds m0] prepared_command [OF t(1,2), of i] that t(2)
    by (simp add: m_def PrepareRobotCommands_def)
  obtain ws where ws: "split_commands (unat num_robots) (concat pieces) = Some ws"
    and dec: "\<forall>i \<in> {1..unat num_robots}. \<forall>m2 payload.
        load_bytes m2 payload (length (ws ! (i - 1))) = ws ! (i - 1)
        \<and> apart payload (length (ws ! (i - 1))) dest sizeof_RobotCommandMsg \<longrightarrow>
        (\<exists>m3. DeserializeRobotCommandMsg E payload (of_nat (length (ws ! (i - 1)))) dest m2 = Some (True, m3)
          \<and> command_at m3 dest = command_at m (command_addr cmds i))"
    using commands_split_and_decode [OF assms(3-6), of m] t(4) by (auto simp: m_def)
  have six: "i \<in> {1..unat num_robots}" if "i \<in> {1..3}" for i using that by (simp add: num_robots_def)
  show ?thesis
    by (rule exI [of _ ?g], rule exI [of _ ws], intro conjI k(1) refl t(1) ballI, simp only: t(3) ws)
      (subst cmd [unfolded player_command_eq, symmetric], assumption, rule bspec [OF dec six], assumption)
qed

text \<open>Runs that begin with the simulation's demo surroundings and the descriptors of the two messages.\<close>

abbreviation demo_run :: "program \<Rightarrow> bool" where
  "demo_run \<equiv> program_reachable (no_user_code robot_descs) 1000 2000 (\<lambda>_. 1) demo_surroundings"

definition demo_round :: "window_event list \<Rightarrow> round_input" where
  "demo_round es =
     \<lparr>in_dt = 1 / 100, in_events1 = es, in_mouse1 = (False, (0, 0)), in_events2 = [],
      in_mouse2 = (False, (0, 0)), in_camera = [], in_readings = [(11, 0, 0, 0)]\<rparr>"

lemma demo_start:
  obtains p where "demo_run p" "phase p = Looping" "link p = host_init" "\<not> window_should_close (soccer p)"
proof -
  obtain p where "Host_new demo_surroundings Socket_ok = Some (Inr p)" "phase p = Looping" "link p = host_init"
    "\<not> window_should_close (soccer p)"
    using game_owned [OF demo_benign] started(2) [OF demo_benign] by (auto simp: Host_new_def HostComm_new_def)
  then show ?thesis using that by (auto intro: program_reachable.start)
qed

lemma demo_round_run:
  assumes "demo_run p" "phase p = Looping" "main_at (link p) = Idle" "\<not> window_should_close (soccer p)"
  obtains p' where "demo_run p'" "phase p' = Looping" "main_at (link p') = Idle" "tx_at (link p') = tx_at (link p)"
    "rx_at (link p') = rx_at (link p)" "received_ready (link p') = received_ready (link p)"
    "length (completed (link p')) = Suc (length (completed (link p)))"
    "window_should_close (soccer p') \<longleftrightarrow> (\<exists>e\<in>set es. closing e)"
proof -
  have c: "(2000 :: addr) \<noteq> 0" "apart 1000 256 2000 (7 * sizeof_RobotCommandMsg)"
    "\<exists>r\<in>set (in_readings (demo_round es)). 10 \<le> fst r"
    by (simp_all add: apart_def demo_round_def)
  obtain g bs where "demo_run (p\<lparr>soccer := g, played := played p @ [g],
      link := (link p)\<lparr>stored_commands := bs, main_at := Idle, new_stored_commands := True,
        completed := completed (link p) @ [bs]\<rparr>\<rparr>)" (is "demo_run ?p")
    and "window_should_close g \<longleftrightarrow> (\<exists>e\<in>set (in_events1 (demo_round es) @ in_events2 (demo_round es)). closing e)"
    by (rule round_run [OF assms(1) demo_benign assms(2-4) robot_descs_ok(1) c])
  then show ?thesis using that [of ?p] assms(2) by (simp add: demo_round_def)
qed

theorem robots_told_the_game_witness:
  "\<exists>p g ws. demo_run p \<and> g = played p ! 0 \<and> reachable g
    \<and> split_commands (unat num_robots) (completed (link p) ! 0) = Some ws"
proof -
  obtain p where p: "demo_run p" "phase p = Looping" "link p = host_init" "\<not> window_should_close (soccer p)"
    by (rule demo_start)
  obtain p' where p': "demo_run p'" "length (completed (link p')) = Suc (length (completed (link p)))"
    by (rule demo_round_run [OF p(1,2) _ p(4), of "[]"]) (auto simp: p(3) host_init_def)
  have "apart 1000 256 2000 (7 * sizeof_RobotCommandMsg)" "0 < length (completed (link p'))"
    using p'(2) by (simp_all add: apart_def)
  from robots_told_the_game [OF demo_benign p'(1) robot_descs_ok(1) _ _ this, of 3000] p'(1)
  show ?thesis by auto
qed

text \<open>
  Property C33. How the program ends. When the window has been closed and the main thread has begun to wait for the
  other two, the program can still end, and then leaves the heap as it was, exactly if the
  transmission thread is not asleep, or commands are stored and a \<open>ready\<close> has been received or is still
  to come from a receive that has begun. Otherwise no further steps, whatever arrives, end it.
\<close>

theorem shutdown_completes_iff:
  assumes "benign w" and "program_reachable E buffer cmds to_float w p" and "phase p = Leaving"
  shows "(\<exists>p'. (program_step E buffer cmds to_float)\<^sup>*\<^sup>* p p' \<and> phase p' = Ended \<and> heap (memory p') = initial_heap w)
    \<longleftrightarrow> (tx_at (link p) \<noteq> Tx_wait \<or> new_stored_commands (link p)
          \<and> (received_ready (link p) \<or> rx_at (link p) = Rx_receive \<or> rx_at (link p) = Rx_process ''ready''))"
proof -
  note inv = program_reachable_inv [OF assms(1,2), unfolded program_inv_def]
  have p: "main_at (link p) = Exiting" "\<not> running (link p)" "owns (initial_heap w) (memory p)"
    using inv assms(3) by auto
  have "\<exists>p'. (program_step E buffer cmds to_float)\<^sup>*\<^sup>* p p' \<and> phase p' = Ended \<and> heap (memory p') = initial_heap w"
    if c: "can_stop (link p)"
  proof -
    obtain l where l: "thread_step\<^sup>*\<^sup>* (link p) l" "tx_at l = Tx_stopped" "rx_at l = Rx_stopped" "main_at l = Exiting"
      using threads_stop [OF p(2) c] p(1) by auto
    obtain m where m: "Exits 3 (memory p) = Some m" "heap m = initial_heap w"
      using Exits_owned [OF p(3), of 2] by (auto simp: numeral_3_eq_3 numeral_2_eq_2)
    have "program_step E buffer cmds to_float (p\<lparr>link := l\<rparr>)
        (p\<lparr>link := l\<lparr>main_at := Exited\<rparr>, memory := m, phase := Ended\<rparr>)"
      using joined [of "p\<lparr>link := l\<rparr>" m] assms(3) l m by simp
    with thread_steps_lift [OF l(1) refl]
    have "(program_step E buffer cmds to_float)\<^sup>*\<^sup>* p (p\<lparr>link := l\<lparr>main_at := Exited\<rparr>, memory := m, phase := Ended\<rparr>)"
      by (rule rtranclp.rtrancl_into_rtrancl)
    then show ?thesis using m(2)
      by (intro exI [of _ "p\<lparr>link := l\<lparr>main_at := Exited\<rparr>, memory := m, phase := Ended\<rparr>"]) simp
  qed
  moreover have "phase p' \<noteq> Ended" if "\<not> can_stop (link p)" "(program_step E buffer cmds to_float)\<^sup>*\<^sup>* p p'" for p'
  proof -
    have "hangs p" using that(1) p assms(3) by (simp add: hangs_def)
    with that(2) have "hangs p'" by (induction rule: rtranclp_induct) (auto intro: hangs_step)
    then show ?thesis by (simp add: hangs_def)
  qed
  ultimately have "(\<exists>p'. (program_step E buffer cmds to_float)\<^sup>*\<^sup>* p p' \<and> phase p' = Ended \<and> heap (memory p') = initial_heap w)
    \<longleftrightarrow> can_stop (link p)" by blast
  then show ?thesis by (simp only: can_stop_def)
qed

lemma demo_leaving:
  assumes "demo_run p" "phase p = Looping" "main_at (link p) = Idle" "\<not> window_should_close (soccer p)"
  obtains p' where "demo_run p'" "phase p' = Leaving" "tx_at (link p') = tx_at (link p)"
    "rx_at (link p') = rx_at (link p)" "received_ready (link p') = received_ready (link p)"
proof -
  obtain q where q: "demo_run q" "phase q = Looping" "main_at (link q) = Idle" "tx_at (link q) = tx_at (link p)"
    "rx_at (link q) = rx_at (link p)" "received_ready (link q) = received_ready (link p)" "window_should_close (soccer q)"
    by (rule demo_round_run [OF assms, of "[Close]"]) auto
  let ?q = "q\<lparr>link := (link q)\<lparr>running := False, main_at := Exiting\<rparr>, phase := Leaving\<rparr>"
  have "demo_run ?q" by (rule program_reachable.step [OF q(1) leave [OF q(2,3,7)]])
  from that [OF this] q(4-6) show ?thesis by simp
qed

text \<open>
  Closing the window before the transmission thread has begun to wait lets the program end; after it
  has begun to wait, without any message from the base station, it does not.
\<close>

theorem shutdown_completes_iff_witness:
  "(\<exists>p p'. demo_run p \<and> phase p = Leaving
      \<and> (program_step (no_user_code robot_descs) 1000 2000 (\<lambda>_. 1))\<^sup>*\<^sup>* p p' \<and> phase p' = Ended \<and> heap (memory p') = {1})
   \<and> (\<exists>p. demo_run p \<and> phase p = Leaving
      \<and> \<not> (\<exists>p'. (program_step (no_user_code robot_descs) 1000 2000 (\<lambda>_. 1))\<^sup>*\<^sup>* p p' \<and> phase p' = Ended
               \<and> heap (memory p') = {1}))"
proof
  have H: "initial_heap demo_surroundings = {1}" by (simp add: demo_surroundings_def)
  obtain p where p: "demo_run p" "phase p = Looping" "link p = host_init" "\<not> window_should_close (soccer p)"
    by (rule demo_start)
  obtain q where q: "demo_run q" "phase q = Leaving" "tx_at (link q) = Tx_test"
    by (rule demo_leaving [OF p(1,2) _ p(4)]) (auto simp: p(3) host_init_def)
  from shutdown_completes_iff [OF demo_benign q(1,2)] q
  show "\<exists>p p'. demo_run p \<and> phase p = Leaving
      \<and> (program_step (no_user_code robot_descs) 1000 2000 (\<lambda>_. 1))\<^sup>*\<^sup>* p p' \<and> phase p' = Ended \<and> heap (memory p') = {1}"
    unfolding H by auto
  let ?r = "p\<lparr>link := (link p)\<lparr>tx_at := Tx_wait\<rparr>\<rparr>"
  have "tx_step (link p) ((link p)\<lparr>tx_at := Tx_wait\<rparr>)" using tx_loop [of "link p"] by (simp add: p(3) host_init_def)
  then have "demo_run ?r" by (intro program_reachable.step [OF p(1) thread] disjI1)
  then obtain s where s: "demo_run s" "phase s = Leaving" "tx_at (link s) = Tx_wait" "rx_at (link s) = Rx_test"
    "\<not> received_ready (link s)"
    by (rule demo_leaving) (use p(2,4) in \<open>auto simp: p(3) host_init_def\<close>)
  from shutdown_completes_iff [OF demo_benign s(1,2)] s
  show "\<exists>p. demo_run p \<and> phase p = Leaving
      \<and> \<not> (\<exists>p'. (program_step (no_user_code robot_descs) 1000 2000 (\<lambda>_. 1))\<^sup>*\<^sup>* p p' \<and> phase p' = Ended
               \<and> heap (memory p') = {1})"
    unfolding H by auto
qed

end
