(* ===== verification/Spec2Isabelle.thy ===== *)
theory Spec2Isabelle
  imports GameDrive Kinematics Timing KdSearch PhysicalApp Logger CameraParse RobotRecords PbNested Udp Broadcast
    Graphics Resources PbUtf8 PbDouble Simulator Physical
begin

text \<open>
  A verification library for ff-soccer, a robot-soccer program: a simulator with path planning,
  motion profiles and a playing strategy, the messages to and from the real robots, and the host
  application that plays with them.

  \<^bold>\<open>Parts and theories.\<close>
  \<^item> \<open>Prelude\<close>: machine-integer names, planar vectors, \<open>hypot\<close>, \<open>fmod\<close>, \<open>atan2\<close>, shared lemmas.
  \<^item> \<open>SystemConfig\<close>: the constants and tables of \<open>libs/cfg\<close>; \<open>Timing\<close>: the calibrated clock of
    \<open>libs/timing\<close>.
  \<^item> \<open>KdTree\<close>, \<open>KdSearch\<close>: the k-d tree of \<open>libs/algo/include/kdTree.h\<close>; \<open>RRTX\<close>: the planner of
    \<open>libs/algo/src/RRTX.cpp\<close>.
  \<^item> \<open>Trajectory\<close>, \<open>Motion\<close>: the profile solver and its use (\<open>libs/motion\<close>); \<open>Kinematics\<close>: frame and
    wheel transforms (\<open>libs/kin\<close>).
  \<^item> \<open>Strategy\<close>: \<open>libs/strat\<close>; \<open>GameObject\<close>, \<open>Game\<close>, \<open>GameInvariant\<close>, \<open>GameDrive\<close>: the simulator of
    \<open>libs/game\<close>, which calls the planner, the motion library and the strategy. The step relation
    \<open>game_step\<close> lets input and simulation steps come in any order. \<open>WindowEvents\<close>: keys and the
    closing of the window. \<open>GameShape\<close>: the extent of the objects, which no operation changes.
    \<open>Lifetime\<close>: what the game allocates and deletes, with the outcomes of the window set-up;
    \<open>Simulator\<close>: the main function of \<open>apps/SimulatorApp.cpp\<close>.
  \<^item> \<open>Graphics\<close>: the matrices of the vendored library glm, the sprites of \<open>libs/graphics\<close> and the
    frame of \<open>Game::Render\<close>, as lists of OpenGL calls with an interpreter for what they draw;
    \<open>Resources\<close>: textures, shader programs and the resource manager.
  \<^item> \<open>PbTypes\<close>, \<open>PbCommon\<close>, \<open>PbBind\<close>, \<open>PbEncode\<close>, \<open>PbDecode\<close>, \<open>PbDecodeMessage\<close>: the protocol-buffer
    runtime in \<open>libs/msg/nanopb\<close>: types and streams, the field iterator, the descriptors the macro
    \<open>PB_BIND\<close> packs (\<open>pb.h\<close>), the encoder and the decoder.
  \<^item> \<open>PbVarint\<close>, \<open>PbEncodeSafe\<close>, \<open>PbDecodeSafe\<close>, \<open>PbFlat\<close>, \<open>PbFlatFull\<close>, \<open>PbFlatDecode\<close>,
    \<open>PbFlatSafe\<close>, \<open>PbFlatItems\<close>: lemmas on the runtime: base-128 integers, where the encoder writes
    and the decoder reads, for every descriptor, and messages of plain 32-bit fields: their wire
    format, a buffer that is too small, decoding, decoding of arbitrary bytes, and of records in any
    order among unknown ones. \<open>PbUtf8\<close>, \<open>PbDouble\<close>: the check of strings and the conversions between
    \<open>float\<close> and \<open>double\<close>, two options of nanopb that this program leaves off.
  \<^item> \<open>MessageInterface\<close>, \<open>RobotMessages\<close>, \<open>RobotRecords\<close>: the payload callbacks, the two messages of
    \<open>message.proto\<close> and the functions of \<open>EncodingDecoding.cpp\<close> (\<open>libs/msg\<close>). \<open>PbNested\<close>: a run of the
    encoder with a nested message and the payload callback.
  \<^item> \<open>HostComm\<close>: the three threads of \<open>libs/comm/src/HostComm.cpp\<close> as step relations of a shared
    state, interleaved in any order. \<open>Camera\<close>, \<open>CameraParse\<close>: the receiver of the camera's datagrams
    (\<open>CameraComm.cpp\<close>), with its regular expression and the number conversions. \<open>PhysicalApp\<close>: a
    round of \<open>apps/PhysicalApp.cpp\<close>, from the values of the camera (\<open>GetCameraValues\<close>) through the
    simulator to the commands that \<open>HostComm\<close> sends and the robots decode. \<open>Physical\<close>: that program
    as a whole, its main thread interleaved with the threads of the link, from the start to the end.
  \<^item> \<open>Udp\<close>: the asynchronous socket of \<open>libs/comm\<close>, the echo server, the client and the telemetry
    transmitter of \<open>libs/handler\<close>; \<open>Broadcast\<close>: the protocol between the two broadcast programs of
    \<open>libs/comm/examples\<close> over an unreliable network.
  \<^item> \<open>Logger\<close>: the serial-line logger of \<open>libs/debug\<close>.

  \<^bold>\<open>What is shown.\<close> For the data structures, that every operation keeps the
  invariant and does what its name says (\<open>KdTree\<close>, \<open>KdSearch\<close>, the tree of
  \<open>RRTX\<close>). For the planner and the solver, that they end, that paths keep clear of
  obstacles, that profiles keep the limits and end on target. For the simulator, an invariant of the
  reachable states, that a step always completes, what collisions do, and that the program ends with
  the window it needs and frees what it allocated. For the messages, that they survive the way from
  one robot to the other, that the encoder never writes outside its buffer as long as no nested
  message is sized at half the address space (\<open>sizes_fit\<close>, a condition on the run), and
  reports when the buffer is too small, that the decoder never leaves its input and succeeds only at
  its end, and that for the two messages it is total and safe on every input and understands members
  it does not know; that strings are checked as Unicode requires, but for two characters, and that
  \<open>float\<close> and \<open>double\<close> are converted exactly or to the nearest. For the
  host, flow control and what a datagram holds under every interleaving, that every string tells the
  robots the game of its round, and when the program can end. For the camera, that the robots listed
  in a datagram are the ones read, and which exception is possible. For the UDP endpoints, when an
  answer leaves and what it holds; for the broadcast protocol, that nothing arrives as it is
  written, since \<open>Bind\<close> opens no socket, and, with any function in its place, order on
  every network and exactly when it can finish. For the logger, that it refines a simple
  specification. For the drawing, that the frame shows every object where the collisions have it;
  for the resource manager, how many textures it loses.

  \<^bold>\<open>Conventions.\<close> \<open>float\<close> and \<open>double\<close> are real
  numbers in the simulator and the motion library: rounding, infinities and NaN are not modelled; in
  a message they are bit patterns, and the conversion between real numbers and patterns is a
  parameter of \<open>PhysicalApp\<close> and \<open>Udp\<close>; in \<open>Camera\<close> the
  rounding of a decimal number is the parameter \<open>rnd\<close>. Integers keep their width where
  it matters. An exception is the left part of a sum, a loop that does not end the value
  \<^term>\<open>None\<close>. Random numbers, clock readings and user functions are arguments. The
  memory of the message code is a map from addresses to bytes, so overlapping objects are
  expressible; alignment is not. The number given to \<open>pb_encode\<close> and
  \<open>pb_decode\<close> bounds the nesting of messages; the radio messages are not nested and
  need 1, the run in \<open>PbNested\<close> needs 2. Threads interleave sequentially consistent
  steps, one critical section or one unprotected statement each.

  \<^bold>\<open>Assumed.\<close> The files generated from \<open>message.proto\<close> are not in
  the repository; \<open>robot_descriptors\<close> states what the generator documents for these two
  messages. The callbacks of a user are parameters; the locales of \<open>PbEncodeSafe\<close> and
  \<open>PbDecodeSafe\<close> state what the runtime relies on, and \<open>MessageInterface\<close>
  proves it for the program's own callbacks. Of asio, \<open>Udp\<close> relies on its documented
  contract: an operation completes once, with an error on a socket that is not open, and refers to
  the buffer of its caller until then; \<open>Broadcast\<close> moreover takes a send to be
  performed at once and the network to carry only the protocol's datagrams. Of OpenGL,
  \<open>Graphics\<close> relies on the effect of ten calls (\<open>gl_step\<close>) and
  \<open>Resources\<close> on names being new (\<open>fresh_names\<close>); the image library and
  the shader compiler are parameters. \<open>Simulator\<close> and \<open>Physical\<close> start
  where the window opens and an uninitialised pointer is null (\<open>benign\<close>);
  \<open>game_lifetime\<close> says what happens otherwise.

  \<^bold>\<open>Not modelled.\<close> What GLFW and OpenGL do with windows, pixels and textures,
  the class \<open>PostProcessor\<close> (nothing makes an object of it), the addresses of sockets,
  the console, the other examples, and the tests; of nanopb the other options this build does not
  compile (dynamic allocation, 8-bit targets) and the C++ helpers. Of third-party code only nanopb
  and the few functions of glm are modelled.
\<close>

end
